(* ===== verification/Go_Prelude.thy ===== *)
theory Go_Prelude
  imports Main "HOL-Library.Sublist" "HOL-Library.Finite_Map"
begin

text \<open>
  Shared vocabulary of the development: the parts of Go's language and standard library that
  the controller uses (byte strings and the functions of package \<open>strings\<close>, machine integers,
  error values, slash-separated paths), the collections of facts that the component theories
  feed to the simplifier, and generic lemmas on lists, strings and finite maps.

  A Go string is a byte sequence, here a \<^typ>\<open>string\<close> (a list of 8-bit characters). The name of
  each definition is the name of the Go function it models.
\<close>

named_theorems go_defs \<open>unfolding equations of the small Go library functions\<close>
named_theorems fm_simps \<open>facts about frontmatter lookups after an update\<close>

section \<open>Type names shared by the components\<close>

type_synonym bytes = string
type_synonym path = string
type_synonym task_id = string

abbreviation nl :: char where "nl \<equiv> CHR 0x0A"
abbreviation cr :: char where "cr \<equiv> CHR 0x0D"

section \<open>Package strings\<close>

definition HasPrefix :: "string \<Rightarrow> string \<Rightarrow> bool" where
  "HasPrefix s p = prefix p s"

definition HasSuffix :: "string \<Rightarrow> string \<Rightarrow> bool" where
  "HasSuffix s p = suffix p s"

definition TrimPrefix :: "string \<Rightarrow> string \<Rightarrow> string" where
  "TrimPrefix s p = (if HasPrefix s p then drop (length p) s else s)"

definition TrimSuffix :: "string \<Rightarrow> string \<Rightarrow> string" where
  "TrimSuffix s p = (if HasSuffix s p then take (length s - length p) s else s)"

text \<open>\<open>strings.Cut\<close>: the text before and after the first occurrence of the separator.\<close>

fun Cut :: "string \<Rightarrow> string \<Rightarrow> (string \<times> string) option" where
  "Cut sep [] = (if sep = [] then Some ([], []) else None)"
| "Cut sep (c # cs) =
     (if prefix sep (c # cs) then Some ([], drop (length sep) (c # cs))
      else map_option (\<lambda>(a, b). (c # a, b)) (Cut sep cs))"

definition Contains :: "string \<Rightarrow> string \<Rightarrow> bool" where
  "Contains s sub = (Cut sub s \<noteq> None)"

definition ContainsAny :: "string \<Rightarrow> string \<Rightarrow> bool" where
  "ContainsAny s chars = (\<exists>c\<in>set s. c \<in> set chars)"

text \<open>\<open>strings.Split\<close> with a one-byte separator: always at least one piece.\<close>

fun Split :: "char \<Rightarrow> string \<Rightarrow> string list" where
  "Split sep [] = [[]]"
| "Split sep (c # cs) =
     (if c = sep then [] # Split sep cs
      else (case Split sep cs of [] \<Rightarrow> [[c]] | l # ls \<Rightarrow> (c # l) # ls))"

fun Join :: "string \<Rightarrow> string list \<Rightarrow> string" where
  "Join sep [] = []"
| "Join sep [x] = x"
| "Join sep (x # y # zs) = x @ sep @ Join sep (y # zs)"

text \<open>\<open>strings.ReplaceAll\<close> with a one-byte pattern.\<close>

definition ReplaceAll :: "string \<Rightarrow> char \<Rightarrow> string \<Rightarrow> string" where
  "ReplaceAll s c r = concat (map (\<lambda>x. if x = c then r else [x]) s)"

text \<open>
  \<open>strings.LastIndex\<close>, returned as the text before and after the last occurrence. Scanning from
  the left, a later occurrence wins over an earlier one.
\<close>

fun CutLast :: "string \<Rightarrow> string \<Rightarrow> (string \<times> string) option" where
  "CutLast sep [] = (if sep = [] then Some ([], []) else None)"
| "CutLast sep (c # cs) =
     (case CutLast sep cs of
        Some (a, b) \<Rightarrow> Some (c # a, b)
      | None \<Rightarrow> (if prefix sep (c # cs) then Some ([], drop (length sep) (c # cs)) else None))"

text \<open>
  The white space of \<open>strings.TrimSpace\<close> (\<open>unicode.IsSpace\<close>), as UTF-8 byte sequences: the six
  ASCII blanks, U+0085, U+00A0, U+1680, U+2000 to U+200A, U+2028, U+2029, U+202F, U+205F, U+3000.
\<close>

definition space_seqs :: "string list" where
  "space_seqs =
     [[CHR 0x20], [CHR 0x0A], [CHR 0x09], [CHR 0x0D], [CHR 0x0B], [CHR 0x0C],
      [CHR 0xC2, CHR 0x85], [CHR 0xC2, CHR 0xA0], [CHR 0xE1, CHR 0x9A, CHR 0x80],
      [CHR 0xE2, CHR 0x80, CHR 0x80], [CHR 0xE2, CHR 0x80, CHR 0x81],
      [CHR 0xE2, CHR 0x80, CHR 0x82], [CHR 0xE2, CHR 0x80, CHR 0x83],
      [CHR 0xE2, CHR 0x80, CHR 0x84], [CHR 0xE2, CHR 0x80, CHR 0x85],
      [CHR 0xE2, CHR 0x80, CHR 0x86], [CHR 0xE2, CHR 0x80, CHR 0x87],
      [CHR 0xE2, CHR 0x80, CHR 0x88], [CHR 0xE2, CHR 0x80, CHR 0x89],
      [CHR 0xE2, CHR 0x80, CHR 0x8A], [CHR 0xE2, CHR 0x80, CHR 0xA8],
      [CHR 0xE2, CHR 0x80, CHR 0xA9], [CHR 0xE2, CHR 0x80, CHR 0xAF],
      [CHR 0xE2, CHR 0x81, CHR 0x9F], [CHR 0xE3, CHR 0x80, CHR 0x80]]"

function strip_all :: "string list \<Rightarrow> string \<Rightarrow> string" where
  "strip_all ps s =
     (case find (\<lambda>p. p \<noteq> [] \<and> prefix p s) ps of
        None \<Rightarrow> s
      | Some p \<Rightarrow> strip_all ps (drop (length p) s))"
  by pat_completeness auto
termination
proof (relation "measure (\<lambda>(ps, s). length s)")
  fix ps :: "string list" and s p
  assume "find (\<lambda>p. p \<noteq> [] \<and> prefix p s) ps = Some p"
  then have "p \<noteq> [] \<and> prefix p s" by (auto simp: find_Some_iff)
  then have "0 < length p" and "length p \<le> length s" by (auto dest: prefix_length_le)
  then have "length s - length p < length s" by linarith
  then show "((ps, drop (length p) s), (ps, s)) \<in> measure (\<lambda>(ps, s). length s)" by simp
qed simp

declare strip_all.simps [simp del]

definition TrimSpace :: "string \<Rightarrow> string" where
  "TrimSpace s = rev (strip_all (map rev space_seqs) (rev (strip_all space_seqs s)))"

definition TrimRight1 :: "string \<Rightarrow> char \<Rightarrow> string" where
  "TrimRight1 s c = rev (dropWhile (\<lambda>x. x = c) (rev s))"

section \<open>Machine integers and decimal text\<close>

text \<open>Go's \<open>int\<close> is 64 bits wide on every deployed platform and wraps around.\<close>

definition wrap64 :: "int \<Rightarrow> int" where
  "wrap64 x = (x + 2 ^ 63) mod 2 ^ 64 - 2 ^ 63"

definition int64_range :: "int \<Rightarrow> bool" where
  "int64_range x \<longleftrightarrow> - (2 ^ 63) \<le> x \<and> x < 2 ^ 63"

definition digit_char :: "nat \<Rightarrow> char" where
  "digit_char n = char_of (48 + n)"

fun nat_dec :: "nat \<Rightarrow> string" where
  "nat_dec n = (if n < 10 then [digit_char n] else nat_dec (n div 10) @ [digit_char (n mod 10)])"

declare nat_dec.simps [simp del]

text \<open>\<open>strconv.Itoa\<close> and the verb \<open>%d\<close>.\<close>

definition Itoa :: "int \<Rightarrow> string" where
  "Itoa n = (if n < 0 then CHR ''-'' # nat_dec (nat (- n)) else nat_dec (nat n))"

definition is_digit :: "char \<Rightarrow> bool" where
  "is_digit c \<longleftrightarrow> 48 \<le> (of_char c :: nat) \<and> (of_char c :: nat) \<le> 57"

definition digit_val :: "char \<Rightarrow> int" where
  "digit_val c = of_char c - 48"

text \<open>\<open>strconv.Atoi\<close> on a text that consists of digits.\<close>

definition digits_val :: "string \<Rightarrow> int" where
  "digits_val s = foldl (\<lambda>n c. 10 * n + digit_val c) 0 s"

section \<open>Error values\<close>

text \<open>
  The sentinel errors the controller compares against with \<open>errors.Is\<close> and \<open>errors.As\<close>. An
  \<open>AlreadyExistsError\<close> carries the occupant the vault API named (code, task identifier, status,
  operation).
\<close>

datatype sentinel =
    ErrCommandObjectSkipped
  | ErrTaskAlreadyExists
  | ErrValidation
  | ErrFileAlreadyExists
  | ErrNotFound
  | ErrAmbiguous
  | AlreadyExistsError string string string string
  | ErrContext
  | ErrExternal string

text \<open>
  An error is a sentinel, a formatted error (\<open>errors.Errorf\<close>, kept as format and arguments) or
  a wrapped one (\<open>errors.Wrapf\<close>).
\<close>

datatype go_error =
    Sentinel sentinel
  | Errorf string "string list"
  | Wrapf go_error string "string list"

type_synonym 'a res = "go_error + 'a"

fun err_root :: "go_error \<Rightarrow> go_error" where
  "err_root (Wrapf e f as) = err_root e"
| "err_root e = e"

definition err_is :: "go_error \<Rightarrow> sentinel \<Rightarrow> bool" where
  "err_is e s = (err_root e = Sentinel s)"

text \<open>\<open>fmt.Sprintf\<close> with arguments that are already text: each verb takes the next argument.\<close>

fun Sprintf :: "string \<Rightarrow> string list \<Rightarrow> string" where
  "Sprintf [] as = []"
| "Sprintf [c] as = [c]"
| "Sprintf (c # d # cs) as =
     (if c = CHR ''%'' then (case as of [] \<Rightarrow> Sprintf cs [] | a # as' \<Rightarrow> a @ Sprintf cs as')
      else c # Sprintf (d # cs) as)"

section \<open>Slash-separated paths (package filepath)\<close>

fun clean_parts :: "bool \<Rightarrow> string list \<Rightarrow> string list \<Rightarrow> string list" where
  "clean_parts rooted acc [] = rev acc"
| "clean_parts rooted acc (x # xs) =
     (if x = [] \<or> x = ''.'' then clean_parts rooted acc xs
      else if x = ''..'' then
        (case acc of
           [] \<Rightarrow> clean_parts rooted (if rooted then [] else [''..'']) xs
         | a # as \<Rightarrow> (if a = ''..'' then clean_parts rooted (''..'' # acc) xs
                      else clean_parts rooted as xs))
      else clean_parts rooted (x # acc) xs)"

definition Clean :: "path \<Rightarrow> path" where
  "Clean p =
     (let rooted = prefix ''/'' p; parts = clean_parts rooted [] (Split (CHR ''/'') p)
      in if rooted then CHR ''/'' # Join ''/'' parts
         else if parts = [] then ''.'' else Join ''/'' parts)"

definition JoinPath :: "path \<Rightarrow> path \<Rightarrow> path" where
  "JoinPath a b =
     (if a = [] \<and> b = [] then [] else if a = [] then Clean b else if b = [] then Clean a
      else Clean (a @ ''/'' @ b))"

definition Base :: "path \<Rightarrow> path" where
  "Base p =
     (if p = [] then ''.''
      else let q = TrimRight1 p (CHR ''/'')
           in if q = [] then ''/'' else last (Split (CHR ''/'') q))"

text \<open>\<open>filepath.Rel\<close>: the elements left of the target after the common ones, below one \<open>..\<close> for each
  element left of the base; no answer when one path is rooted and the other is not, or when the base
  itself climbs.\<close>

fun strip_common :: "string list \<Rightarrow> string list \<Rightarrow> string list \<times> string list" where
  "strip_common (x # xs) (y # ys) = (if x = y then strip_common xs ys else (x # xs, y # ys))"
| "strip_common xs ys = (xs, ys)"

definition path_elements :: "path \<Rightarrow> string list" where
  "path_elements p = filter (\<lambda>x. x \<noteq> [] \<and> x \<noteq> ''.'') (Split (CHR ''/'') (Clean p))"

definition Rel :: "path \<Rightarrow> path \<Rightarrow> path option" where
  "Rel base target =
     (if prefix ''/'' (Clean base) \<noteq> prefix ''/'' (Clean target) then None
      else case strip_common (path_elements base) (path_elements target) of
             (bs, ts) \<Rightarrow>
               (if bs = [] \<and> ts = [] then Some ''.''
                else if bs \<noteq> [] \<and> hd bs = ''..'' then None
                else Some (Join ''/'' (map (\<lambda>_. ''..'') bs @ ts))))"

section \<open>Generic lemmas\<close>

lemma prefix_drop_eq: "prefix p s \<Longrightarrow> p @ drop (length p) s = s"
  by (auto simp: prefix_def)

lemma HasPrefix_append [simp]: "HasPrefix (p @ s) p"
  by (simp add: HasPrefix_def)

lemma TrimPrefix_append [simp]: "TrimPrefix (p @ s) p = s"
  by (simp add: TrimPrefix_def)

lemma HasSuffix_append [simp]: "HasSuffix (s @ p) p"
  by (simp add: HasSuffix_def suffix_def)

lemma TrimSuffix_append [simp]: "TrimSuffix (s @ p) p = s"
  by (simp add: TrimSuffix_def)

lemma HasSuffixE: "HasSuffix s p \<Longrightarrow> (\<And>u. s = u @ p \<Longrightarrow> thesis) \<Longrightarrow> thesis"
  by (auto simp: HasSuffix_def suffix_def)

lemma Cut_Some: "Cut sep s = Some (a, b) \<Longrightarrow> s = a @ sep @ b"
proof (induction sep s arbitrary: a b rule: Cut.induct)
  case (1 sep)
  then show ?case by (simp split: if_splits)
next
  case (2 sep c cs)
  show ?case
  proof (cases "prefix sep (c # cs)")
    case True
    then show ?thesis using 2 prefix_drop_eq [OF True] by simp
  next
    case False
    then obtain a' b' where "Cut sep cs = Some (a', b')" "a = c # a'" "b = b'"
      using 2(2) by auto
    then show ?thesis using 2(1)[OF False] by simp
  qed
qed

text \<open>
  A separator whose first byte does not occur again inside it cannot straddle the end of a text
  that does not contain it: the first occurrence is where it was put.
\<close>

lemma Cut_first:
  assumes "Cut (c # r) t = None" and "c \<notin> set r"
  shows "Cut (c # r) (t @ (c # r) @ b) = Some (t, b)"
  using assms(1)
proof (induction t)
  case Nil
  show ?case by simp
next
  case (Cons x t)
  then have no: "\<not> prefix (c # r) (x # t)" and none: "Cut (c # r) t = None"
    by (auto split: if_splits)
  have "\<not> prefix (c # r) (x # t @ (c # r) @ b)"
  proof
    assume "prefix (c # r) (x # t @ (c # r) @ b)"
    then have "prefix (c # r) ((x # t) @ (c # r) @ b)" by (simp only: append_Cons)
    then obtain u where "c # r = (x # t) @ u" and "prefix u ((c # r) @ b)"
      using no by (auto simp: prefix_append)
    then have u: "r = t @ u" and pu: "prefix u ((c # r) @ b)" by simp_all
    show False
    proof (cases u)
      case Nil
      with \<open>c # r = (x # t) @ u\<close> no show False by simp
    next
      case (Cons d u')
      with pu have "d = c" by simp
      with Cons u assms(2) show False by simp
    qed
  qed
  with Cons.IH [OF none] show ?case by simp
qed

lemma Cut_None_sub: "Cut sep (a @ b) = None \<Longrightarrow> Cut sep b = None"
proof (induction a)
  case Nil
  then show ?case by simp
next
  case (Cons x a)
  then have "Cut sep (a @ b) = None" by (simp split: if_splits)
  then show ?case by (rule Cons.IH)
qed

lemma Contains_append: "Contains (a @ s @ b) s"
proof (rule ccontr)
  assume "\<not> Contains (a @ s @ b) s"
  then have "Cut s (s @ b) = None" by (metis Contains_def Cut_None_sub)
  moreover have "prefix s (s @ b)" by simp
  ultimately show False by (cases "s @ b") (auto split: if_splits)
qed

lemma ContainsE: "Contains s sub \<Longrightarrow> (\<And>a b. s = a @ sub @ b \<Longrightarrow> thesis) \<Longrightarrow> thesis"
  by (auto simp: Contains_def dest: Cut_Some)

lemma Contains_iff: "Contains s sub \<longleftrightarrow> (\<exists>a b. s = a @ sub @ b)"
  by (metis ContainsE Contains_append)

lemma Contains_extend: "Contains s sub \<Longrightarrow> Contains (u @ s @ v) sub"
  by (auto simp: Contains_iff) (metis append_assoc)

lemma Split_not_Nil [simp]: "Split c s \<noteq> []"
  by (induction s) (auto split: list.splits)

lemma Join_Cons: "xs \<noteq> [] \<Longrightarrow> Join sep (x # xs) = x @ sep @ Join sep xs"
  by (cases xs) auto

lemma Join_Split: "Join [c] (Split c s) = s"
proof (induction s)
  case Nil
  show ?case by simp
next
  case (Cons x s)
  obtain l ls where "Split c s = l # ls" by (cases "Split c s") auto
  with Cons show ?case by (cases ls) (auto simp: Join_Cons)
qed

lemma Split_append_sep:
  "Split c (a @ c # b) = Split c a @ Split c b"
proof (induction a)
  case Nil
  show ?case by simp
next
  case (Cons x a)
  obtain l ls where "Split c a = l # ls" by (cases "Split c a") auto
  with Cons show ?case by simp
qed

lemma Split_no_sep: "c \<notin> set s \<Longrightarrow> Split c s = [s]"
  by (induction s) auto

lemma Split_Join: "xs \<noteq> [] \<Longrightarrow> \<forall>x \<in> set xs. c \<notin> set x \<Longrightarrow> Split c (Join [c] xs) = xs"
proof (induction xs)
  case (Cons x xs)
  then show ?case by (cases "xs = []") (simp_all add: Split_no_sep Join_Cons Split_append_sep)
qed simp
lemma Join_append: "xs \<noteq> [] \<Longrightarrow> ys \<noteq> [] \<Longrightarrow> Join sep (xs @ ys) = Join sep xs @ sep @ Join sep ys"
proof (induction xs)
  case (Cons x xs)
  then show ?case by (cases "xs = []") (simp_all add: Join_Cons)
qed simp

lemma Split_pieces: "x \<in> set (Split c s) \<Longrightarrow> c \<notin> set x"
proof (induction s arbitrary: x)
  case Nil
  then show ?case by simp
next
  case (Cons y s)
  obtain l ls where "Split c s = l # ls" by (cases "Split c s") auto
  with Cons show ?case by (cases "y = c") auto
qed

lemma strip_all_suffix: "\<exists>u. s = u @ strip_all ps s"
proof (induction ps s rule: strip_all.induct)
  case (1 ps s)
  show ?case
  proof (cases "find (\<lambda>p. p \<noteq> [] \<and> prefix p s) ps")
    case None
    then show ?thesis by (simp add: strip_all.simps [of ps s])
  next
    case (Some p)
    then obtain u where "drop (length p) s = u @ strip_all ps (drop (length p) s)" using 1 by blast
    moreover have "strip_all ps s = strip_all ps (drop (length p) s)"
      using Some by (simp add: strip_all.simps [of ps s])
    ultimately have "s = (take (length p) s @ u) @ strip_all ps s"
      using append_take_drop_id [of "length p" s] by simp
    then show ?thesis by blast
  qed
qed

lemma TrimSpace_sub: "set (TrimSpace s) \<subseteq> set s"
proof -
  have sub: "set (strip_all ps u) \<subseteq> set u" for ps u
    using strip_all_suffix [of u ps] by (metis Un_upper2 set_append)
  show ?thesis
    using sub [of "map rev space_seqs" "rev (strip_all space_seqs s)"] sub [of space_seqs s]
    unfolding TrimSpace_def by auto
qed

lemma digit_char_val: "n < 10 \<Longrightarrow> is_digit (digit_char n) \<and> digit_val (digit_char n) = int n"
proof -
  have "\<forall>n \<in> set [0..<10]. is_digit (digit_char n) \<and> digit_val (digit_char n) = int n" by code_simp
  then show "n < 10 \<Longrightarrow> ?thesis" by simp
qed

lemma wrap64_range: "int64_range (wrap64 x)"
  by (simp add: wrap64_def int64_range_def)

lemma wrap64_id [simp]: "int64_range x \<Longrightarrow> wrap64 x = x"
  by (simp add: wrap64_def int64_range_def mod_pos_pos_trivial)

lemma fmlookup_fmadd: "fmlookup (m ++\<^sub>f n) k = (case fmlookup n k of Some v \<Rightarrow> Some v | None \<Rightarrow> fmlookup m k)"
  by (auto simp: fmdom'_notI split: option.splits intro: fmdom_notI fmdomI)

end
