(* ===== verification/Go_Float.thy ===== *)
theory Go_Float
  imports Go_Prelude
begin

text \<open>
  IEEE-754 double precision as the controller uses it: conversion from an integer, addition,
  comparison and truncation. Frontmatter counters are compared and summed through \<open>float64\<close>
  (\<open>numericValue\<close> in \<open>pkg/result/result_writer.go\<close>), so their exactness is bounded by the 53-bit
  significand; the rounding is written out here.

  A finite number is a pair of a significand and a binary exponent, \<open>Fin m e\<close> for \<open>m * 2 ^ e\<close>; it
  need not be normalised, and equality of numbers is \<open>feq\<close>, never \<open>=\<close>.
\<close>

datatype float64 = Fin int int | PInf | NInf | NaN

fun bitlen :: "nat \<Rightarrow> nat" where
  "bitlen n = (if n = 0 then 0 else Suc (bitlen (n div 2)))"

declare bitlen.simps [simp del]

text \<open>Round to nearest, ties to even, onto a 53-bit significand; overflow gives an infinity.\<close>

definition round64 :: "int \<Rightarrow> int \<Rightarrow> float64" where
  "round64 m e =
     (if \<bar>m\<bar> < 2 ^ 53 then Fin m e
      else let k = bitlen (nat \<bar>m\<bar>) - 53;
               q = \<bar>m\<bar> div 2 ^ k;
               r = \<bar>m\<bar> mod 2 ^ k;
               up = (2 * r > 2 ^ k \<or> (2 * r = 2 ^ k \<and> odd q));
               q' = (if up then q + 1 else q)
           in if int (bitlen (nat q')) + e + int k > 1024 then (if m < 0 then NInf else PInf)
              else Fin (sgn m * q') (e + int k))"

definition float_of_int :: "int \<Rightarrow> float64" where
  "float_of_int n = round64 n 0"

definition scale_to :: "int \<Rightarrow> int \<Rightarrow> int \<Rightarrow> int" where
  "scale_to k m e = m * 2 ^ nat (e - k)"

fun fadd :: "float64 \<Rightarrow> float64 \<Rightarrow> float64" where
  "fadd (Fin m e) (Fin n f) =
     (let k = min e f in round64 (scale_to k m e + scale_to k n f) k)"
| "fadd NaN y = NaN"
| "fadd x NaN = NaN"
| "fadd PInf NInf = NaN"
| "fadd NInf PInf = NaN"
| "fadd PInf y = PInf"
| "fadd x PInf = PInf"
| "fadd NInf y = NInf"
| "fadd x NInf = NInf"

fun feq :: "float64 \<Rightarrow> float64 \<Rightarrow> bool" where
  "feq (Fin m e) (Fin n f) = (let k = min e f in scale_to k m e = scale_to k n f)"
| "feq PInf PInf = True"
| "feq NInf NInf = True"
| "feq x y = False"

fun fle :: "float64 \<Rightarrow> float64 \<Rightarrow> bool" where
  "fle NaN y = False"
| "fle x NaN = False"
| "fle NInf y = True"
| "fle x PInf = True"
| "fle (Fin m e) (Fin n f) = (let k = min e f in scale_to k m e \<le> scale_to k n f)"
| "fle x y = False"

text \<open>
  The conversion \<open>int(f)\<close> truncates toward zero. Outside the range of \<open>int\<close> the Go specification
  leaves the value to the implementation; the deployed amd64 compiler yields the smallest integer.
\<close>

fun int_of_float :: "float64 \<Rightarrow> int" where
  "int_of_float (Fin m e) =
     (let v = (if 0 \<le> e then m * 2 ^ nat e else sgn m * (\<bar>m\<bar> div 2 ^ nat (- e)))
      in if int64_range v then v else - (2 ^ 63))"
| "int_of_float x = - (2 ^ 63)"

section \<open>Exactness below 2 to the 53\<close>

lemma scale_to_same [simp]: "scale_to k m k = m"
  by (simp add: scale_to_def)

lemma round64_exact: "\<bar>m\<bar> < 2 ^ 53 \<Longrightarrow> round64 m e = Fin m e"
  by (simp add: round64_def)

lemma float_of_int_exact: "\<bar>n\<bar> < 2 ^ 53 \<Longrightarrow> float_of_int n = Fin n 0"
  by (simp add: float_of_int_def round64_exact)

lemma fadd_int_exact: "\<bar>a + b\<bar> < 2 ^ 53 \<Longrightarrow> fadd (Fin a 0) (Fin b 0) = Fin (a + b) 0"
  by (simp add: round64_exact scale_to_def)

lemma feq_int [simp]: "feq (Fin a 0) (Fin b 0) \<longleftrightarrow> a = b"
  by (simp add: scale_to_def)

lemma fle_int [simp]: "fle (Fin a 0) (Fin b 0) \<longleftrightarrow> a \<le> b"
  by (simp add: scale_to_def)

lemma int_of_float_int [simp]: "int64_range n \<Longrightarrow> int_of_float (Fin n 0) = n"
  by simp

lemma feq_refl: "x \<noteq> NaN \<Longrightarrow> feq x x"
  by (cases x) auto

lemma feq_sym: "feq x y \<Longrightarrow> feq y x"
  by (cases x; cases y) (auto simp: min.commute Let_def)

end
