(* ===== verification/Frontmatter.thy ===== *)
theory Frontmatter
  imports Go_Float
begin

text \<open>
  Task frontmatter: the dynamically typed values that YAML and JSON decoding produce, the maps the
  controller edits, the comparison \<open>FrontmatterValueEqual\<close>, the split of a task file into
  frontmatter and body (\<open>pkg/result/result_writer.go\<close>, \<open>pkg/scanner/frontmatter.go\<close>) and the
  shared parse and render helpers (\<open>pkg/command/task_increment_frontmatter_executor.go\<close>,
  \<open>pkg/command/task_create_task_executor.go\<close>).

  Third-party code the controller only calls is a field of the record \<open>pure_lib\<close>: the accessors of
  \<open>lib.TaskFrontmatter\<close> (github.com/bborbe/agent), \<open>yaml.Marshal\<close> and \<open>yaml.Unmarshal\<close>
  (gopkg.in/yaml.v3), \<open>uuid.Parse\<close>. What the controller relies on is stated by the predicates
  \<open>lib_ok\<close> and \<open>yaml_ok\<close>.
\<close>

section \<open>Values\<close>

datatype int_kind = KInt32 | KInt64 | KUint | KUint32 | KUint64

text \<open>
  A Go \<open>any\<close> that came out of a decoder. \<open>VInt\<close> is Go's \<open>int\<close>, \<open>VIntK\<close> the other integer types,
  \<open>VTime\<close> a \<open>time.Time\<close> (nanoseconds since the epoch); \<open>VJsonNumber\<close> carries the text and what its
  \<open>Float64\<close> method returns. A nested mapping is an association list with distinct keys.
\<close>

datatype val =
    VNil
  | VBool bool
  | VInt int
  | VIntK int_kind int
  | VFloat float64
  | VFloat32 float64
  | VJsonNumber string "float64 option"
  | VStr string
  | VTime int
  | VList "val list"
  | VMap "(string \<times> val) list"

type_synonym fm = "(string, val) fmap"

abbreviation fm_get :: "fm \<Rightarrow> string \<Rightarrow> val option" where
  "fm_get \<equiv> fmlookup"

text \<open>A type assertion \<open>m[key].(string)\<close>: the string, or nothing for another type or a missing key.\<close>

definition as_string :: "val option \<Rightarrow> string option" where
  "as_string v = (case v of Some (VStr s) \<Rightarrow> Some s | _ \<Rightarrow> None)"

text \<open>The assertion with the boolean dropped: the zero value stands for failure.\<close>

definition string_or_empty :: "string option \<Rightarrow> string" where
  "string_or_empty s = (case s of Some x \<Rightarrow> x | None \<Rightarrow> [])"

section \<open>Comparison\<close>

text \<open>\<open>reflect.DeepEqual\<close> on decoded values: equal dynamic types and equal contents. A \<open>VTime\<close> is the instant only: the
  location pointer of a \<open>time.Time\<close>, which \<open>DeepEqual\<close> compares too, is not kept, so on two times of one instant decoded with
  different offsets the model says equal where the code says different.\<close>

fun DeepEqual :: "val \<Rightarrow> val \<Rightarrow> bool"
  and DeepEqual_list :: "val list \<Rightarrow> val list \<Rightarrow> bool"
  and DeepEqual_map :: "(string \<times> val) list \<Rightarrow> (string \<times> val) list \<Rightarrow> bool" where
  "DeepEqual VNil w = (w = VNil)"
| "DeepEqual (VBool a) w = (w = VBool a)"
| "DeepEqual (VInt a) w = (w = VInt a)"
| "DeepEqual (VIntK k a) w = (w = VIntK k a)"
| "DeepEqual (VFloat x) w = (case w of VFloat y \<Rightarrow> feq x y | _ \<Rightarrow> False)"
| "DeepEqual (VFloat32 x) w = (case w of VFloat32 y \<Rightarrow> feq x y | _ \<Rightarrow> False)"
| "DeepEqual (VJsonNumber s r) w = (case w of VJsonNumber t _ \<Rightarrow> s = t | _ \<Rightarrow> False)"
| "DeepEqual (VStr a) w = (w = VStr a)"
| "DeepEqual (VTime a) w = (w = VTime a)"
| "DeepEqual (VList xs) w = (case w of VList ys \<Rightarrow> DeepEqual_list xs ys | _ \<Rightarrow> False)"
| "DeepEqual (VMap m) w =
     (case w of VMap n \<Rightarrow> length m = length n \<and> DeepEqual_map m n | _ \<Rightarrow> False)"
| "DeepEqual_list [] ys = (ys = [])"
| "DeepEqual_list (x # xs) ys =
     (case ys of [] \<Rightarrow> False | y # ys' \<Rightarrow> DeepEqual x y \<and> DeepEqual_list xs ys')"
| "DeepEqual_map [] n = True"
| "DeepEqual_map ((k, v) # m) n =
     ((case map_of n k of None \<Rightarrow> False | Some w \<Rightarrow> DeepEqual v w) \<and> DeepEqual_map m n)"

fun numericValue :: "val \<Rightarrow> float64 option" where
  "numericValue (VInt n) = Some (float_of_int n)"
| "numericValue (VIntK KInt64 n) = Some (float_of_int n)"
| "numericValue (VFloat x) = Some x"
| "numericValue _ = None"

definition FrontmatterValueEqual :: "val \<Rightarrow> val \<Rightarrow> bool" where
  "FrontmatterValueEqual a b =
     (case (numericValue a, numericValue b) of
        (Some x, Some y) \<Rightarrow> feq x y
      | _ \<Rightarrow> DeepEqual a b)"

section \<open>Third-party functions\<close>

text \<open>
  Accessors of \<open>lib.TaskFrontmatter\<close>: \<open>String\<close> and \<open>Int\<close> return the value and whether it was
  there; \<open>Phase\<close> returns a pointer, \<open>None\<close> for nil.
\<close>

record pure_lib =
  lib_String :: "fm \<Rightarrow> string \<Rightarrow> string option"
  lib_Int :: "fm \<Rightarrow> string \<Rightarrow> int option"
  lib_Assignee :: "fm \<Rightarrow> string"
  lib_Status :: "fm \<Rightarrow> string"
  lib_Phase :: "fm \<Rightarrow> string option"
  lib_TaskType :: "fm \<Rightarrow> string"
  lib_Stage :: "fm \<Rightarrow> string"
  lib_CurrentJob :: "fm \<Rightarrow> string"
  lib_TriggerCount :: "fm \<Rightarrow> int"
  lib_MaxTriggers :: "fm \<Rightarrow> int"
  lib_RetryCount :: "fm \<Rightarrow> int"
  lib_MaxRetries :: "fm \<Rightarrow> int"
  lib_SpawnNotification :: "fm \<Rightarrow> bool"
  yaml_Unmarshal :: "string \<Rightarrow> fm res"
  yaml_Marshal :: "fm \<Rightarrow> string res"
  yaml_Identifiers :: "string \<Rightarrow> (string \<times> string) res"
  uuid_valid :: "string \<Rightarrow> bool"

text \<open>
  What the controller relies on of the accessors: each one reads its own key only; a string value is
  returned as it is, a missing assignee, job or counter reads as empty or zero; \<open>Status\<close> and \<open>Phase\<close>
  leave the values the controller compares with unchanged; \<open>MaxTriggers\<close> has a positive default.
\<close>

definition lib_reads_strings :: "pure_lib \<Rightarrow> bool" where
  "lib_reads_strings L \<longleftrightarrow>
     (\<forall>m k. lib_String L m k = as_string (fm_get m k)) \<and>
     (\<forall>m. lib_Assignee L m = string_or_empty (as_string (fm_get m ''assignee''))) \<and>
     (\<forall>m. lib_CurrentJob L m = string_or_empty (as_string (fm_get m ''current_job'')))"

definition lib_reads_ints :: "pure_lib \<Rightarrow> bool" where
  "lib_reads_ints L \<longleftrightarrow>
     (\<forall>m k n. fm_get m k = Some (VInt n) \<longrightarrow> lib_Int L m k = Some n) \<and>
     (\<forall>m k. fm_get m k = None \<longrightarrow> lib_Int L m k = None)"

definition lib_reads_status :: "pure_lib \<Rightarrow> bool" where
  "lib_reads_status L \<longleftrightarrow>
     (\<exists>f. (\<forall>m. lib_Status L m = f (fm_get m ''status'')) \<and>
          (\<forall>s \<in> {''completed'', ''aborted'', ''in_progress'', ''hold''}. f (Some (VStr s)) = s))"

definition lib_reads_phase :: "pure_lib \<Rightarrow> bool" where
  "lib_reads_phase L \<longleftrightarrow>
     (\<exists>f. (\<forall>m. lib_Phase L m = f (fm_get m ''phase'')) \<and> f None = None \<and>
          (\<forall>s \<in> {''planning'', ''human_review'', ''done''}. f (Some (VStr s)) = Some s))"

definition lib_reads_budget :: "pure_lib \<Rightarrow> bool" where
  "lib_reads_budget L \<longleftrightarrow>
     (\<exists>f g. (\<forall>m. lib_TriggerCount L m = f (fm_get m ''trigger_count'')) \<and>
            (\<forall>m. lib_MaxTriggers L m = g (fm_get m ''max_triggers'')) \<and>
            (\<forall>n. f (Some (VInt n)) = n) \<and> f None = 0 \<and>
            (\<forall>n. g (Some (VInt n)) = n) \<and> 0 < g None)"

definition lib_ok :: "pure_lib \<Rightarrow> bool" where
  "lib_ok L \<longleftrightarrow> lib_reads_strings L \<and> lib_reads_ints L \<and> lib_reads_status L \<and>
     lib_reads_phase L \<and> lib_reads_budget L"

text \<open>
  What the properties of the writers take for granted of the YAML library: a rendered map ends in a newline, no line of it
  starts with the delimiter, and parsing the rendering without its final newline, which is how a file is read back, gives a
  map with the same keys, the same strings, booleans and integers, and numbers of the same value. yaml.v3 does this for the
  flat maps of task files, not for every map: a NaN is never equal to itself, and the last value of a rendering loses a
  final newline (C35). \<open>codec_on\<close> below cuts a library down to the maps it carries.
\<close>

definition same_value :: "val \<Rightarrow> val \<Rightarrow> bool" where
  "same_value v w \<longleftrightarrow>
     (case v of
        VStr s \<Rightarrow> w = VStr s
      | VBool b \<Rightarrow> w = VBool b
      | VInt n \<Rightarrow> w = VInt n
      | VNil \<Rightarrow> w = VNil
      | _ \<Rightarrow> FrontmatterValueEqual v w)"

definition yaml_ok :: "pure_lib \<Rightarrow> bool" where
  "yaml_ok L \<longleftrightarrow>
     (\<forall>m s. yaml_Marshal L m = Inr s \<longrightarrow>
        (\<exists>t m'. s = t @ [nl] \<and> \<not> Contains t ''\<newline>---'' \<and> \<not> HasPrefix t ''---'' \<and>
           yaml_Unmarshal L t = Inr m' \<and> fmrel same_value m m'))"

text \<open>A library that carries the maps of \<open>P\<close>, and the same library asked to render no others: a run that renders only such
  maps is a run of either.\<close>

definition yaml_carries :: "pure_lib \<Rightarrow> (fm \<Rightarrow> bool) \<Rightarrow> bool" where
  "yaml_carries L P \<longleftrightarrow>
     (\<forall>m s. P m \<and> yaml_Marshal L m = Inr s \<longrightarrow>
        (\<exists>t m'. s = t @ [nl] \<and> \<not> Contains t ''\<newline>---'' \<and> \<not> HasPrefix t ''---'' \<and>
           yaml_Unmarshal L t = Inr m' \<and> fmrel same_value m m'))"

definition codec_on :: "(fm \<Rightarrow> bool) \<Rightarrow> pure_lib \<Rightarrow> pure_lib" where
  "codec_on P L = L\<lparr>yaml_Marshal := (\<lambda>m. if P m then yaml_Marshal L m else Inl (Errorf ''not carried'' []))\<rparr>"

lemma yaml_ok_codec_on: "yaml_carries L P \<Longrightarrow> yaml_ok (codec_on P L)"
  by (auto simp: yaml_carries_def yaml_ok_def codec_on_def split: if_splits)

lemma lib_ok_codec_on: "lib_ok L \<Longrightarrow> lib_ok (codec_on P L)"
  by (simp add: lib_ok_def codec_on_def lib_reads_strings_def lib_reads_ints_def lib_reads_status_def
      lib_reads_phase_def lib_reads_budget_def)

text \<open>
  The line breaks YAML knows: LF, CR, and the encodings of NEL, LS and PS. Counting a CR LF as two only makes the count
  larger than the library's.
\<close>

definition break_at :: "string \<Rightarrow> bool" where
  "break_at s \<longleftrightarrow> (\<exists>p \<in> {[nl], [cr], [CHR 0xC2, CHR 0x85], [CHR 0xE2, CHR 0x80, CHR 0xA8], [CHR 0xE2, CHR 0x80, CHR 0xA9]}. prefix p s)"

fun yaml_breaks :: "string \<Rightarrow> nat" where
  "yaml_breaks [] = 0"
| "yaml_breaks (c # cs) = (if break_at (c # cs) then 1 else 0) + yaml_breaks cs"

text \<open>A text that ends in a line that is neither empty nor indented, so in no block scalar.\<close>

definition flush_end :: "string \<Rightarrow> bool" where
  "flush_end t \<longleftrightarrow> (let l = last (Split nl t) in l \<noteq> [] \<and> hd l \<noteq> CHR '' '' \<and> hd l \<noteq> CHR 0x09 \<and> yaml_breaks l = 0)"

text \<open>The shape of a rendering, and the role of the final newline: outside a block scalar it is no content.\<close>

definition yaml_lines :: "pure_lib \<Rightarrow> bool" where
  "yaml_lines L \<longleftrightarrow>
     (\<forall>m s. yaml_Marshal L m = Inr s \<longrightarrow> (\<exists>t. s = t @ [nl] \<and> \<not> Contains t ''\<newline>---'' \<and> \<not> HasPrefix t ''---'')) \<and>
     (\<forall>t m'. flush_end t \<longrightarrow> (yaml_Unmarshal L (t @ [nl]) = Inr m' \<longleftrightarrow> yaml_Unmarshal L t = Inr m'))"

section \<open>Frontmatter and body of a task file\<close>

text \<open>The opening delimiter and the line end after it.\<close>

definition strip_open :: "string \<Rightarrow> string" where
  "strip_open s =
     (let rest = TrimPrefix s ''---''
      in if HasPrefix rest [cr, nl] then drop 2 rest
         else if HasPrefix rest [nl] then drop 1 rest
         else rest)"

definition ExtractFrontmatter :: "bytes \<Rightarrow> string res" where
  "ExtractFrontmatter s =
     (if \<not> HasPrefix s ''---'' then Inl (Errorf ''no frontmatter delimiter found'' [])
      else case Cut ''\<newline>---'' (strip_open s) of
             None \<Rightarrow> Inl (Errorf ''frontmatter not closed'' [])
           | Some (before, _) \<Rightarrow> Inr before)"

definition ExtractBody :: "bytes \<Rightarrow> string res" where
  "ExtractBody s =
     (if \<not> HasPrefix s ''---'' then Inl (Errorf ''no frontmatter delimiter found'' [])
      else case Cut ''\<newline>---\<newline>'' (strip_open s) of
             None \<Rightarrow> Inl (Errorf ''frontmatter not closed'' [])
           | Some (_, after) \<Rightarrow> Inr after)"

text \<open>The scanner's own pair of functions; its \<open>extractBody\<close> never fails.\<close>

definition scanner_extractFrontmatter :: "bytes \<Rightarrow> string res" where
  "scanner_extractFrontmatter s =
     (if \<not> HasPrefix s ''---'' then Inl (Errorf ''no frontmatter delimiter found'' [])
      else let rest = strip_open s
           in case Cut ''\<newline>---'' rest of
                None \<Rightarrow> Inl (Errorf ''frontmatter not closed'' [])
              | Some (before, _) \<Rightarrow> Inr (take (length before) rest))"

definition scanner_extractBody :: "bytes \<Rightarrow> string" where
  "scanner_extractBody s =
     (if \<not> HasPrefix s ''---'' then s
      else case Cut ''\<newline>---'' (strip_open s) of
             None \<Rightarrow> s
           | Some (_, after) \<Rightarrow>
               (if HasPrefix after [cr, nl] then drop 2 after
                else if HasPrefix after [nl] then drop 1 after
                else after))"

text \<open>The file image every writer produces.\<close>

definition render_file :: "string \<Rightarrow> string \<Rightarrow> bytes" where
  "render_file marshaled body = ''---\<newline>'' @ marshaled @ ''---\<newline>'' @ body"

definition parseTaskFrontmatter :: "pure_lib \<Rightarrow> string \<Rightarrow> fm res" where
  "parseTaskFrontmatter L s = yaml_Unmarshal L s"

definition marshalFileContent :: "pure_lib \<Rightarrow> fm \<Rightarrow> string \<Rightarrow> bytes res" where
  "marshalFileContent L m body =
     (case yaml_Marshal L m of
        Inl e \<Rightarrow> Inl (Wrapf e ''marshal frontmatter'' [])
      | Inr marshaled \<Rightarrow> Inr (render_file marshaled body))"

definition parseTaskFrontmatterAndBody :: "pure_lib \<Rightarrow> bytes \<Rightarrow> (fm \<times> string) res" where
  "parseTaskFrontmatterAndBody L current =
     (case ExtractFrontmatter current of
        Inl e \<Rightarrow> Inl (Wrapf e ''extract frontmatter'' [])
      | Inr fmStr \<Rightarrow>
          (case ExtractBody current of
             Inl e \<Rightarrow> Inl (Wrapf e ''extract body'' [])
           | Inr body \<Rightarrow>
               (case parseTaskFrontmatter L fmStr of
                  Inl e \<Rightarrow> Inl (Wrapf e ''parse frontmatter'' [])
                | Inr m \<Rightarrow> Inr (m, body))))"

section \<open>Numbers read by the command executors\<close>

definition intFromFrontmatter :: "fm \<Rightarrow> string \<Rightarrow> int" where
  "intFromFrontmatter m field =
     (case fm_get m field of
        Some (VInt n) \<Rightarrow> n
      | Some (VFloat x) \<Rightarrow> int_of_float x
      | _ \<Rightarrow> 0)"

fun asFloat :: "val \<Rightarrow> float64 option" where
  "asFloat (VInt n) = Some (float_of_int n)"
| "asFloat (VIntK k n) = Some (float_of_int n)"
| "asFloat (VFloat32 x) = Some x"
| "asFloat (VFloat x) = Some x"
| "asFloat (VJsonNumber s r) = r"
| "asFloat _ = None"

section \<open>A reference instance of the third-party functions\<close>

text \<open>
  The documented behaviour of the accessors as executable functions, and a one-entry YAML codec for
  a chosen map; used to show that the hypotheses above can hold.
\<close>

definition ref_count :: "fm \<Rightarrow> string \<Rightarrow> int \<Rightarrow> int" where
  "ref_count m k d = (case fm_get m k of Some (VInt n) \<Rightarrow> n | Some (VFloat x) \<Rightarrow> int_of_float x | _ \<Rightarrow> d)"

definition ref_lib :: pure_lib where
  "ref_lib =
     \<lparr>lib_String = (\<lambda>m k. as_string (fm_get m k)),
      lib_Int = (\<lambda>m k. case fm_get m k of Some (VInt n) \<Rightarrow> Some n | Some (VFloat x) \<Rightarrow> Some (int_of_float x) | _ \<Rightarrow> None),
      lib_Assignee = (\<lambda>m. string_or_empty (as_string (fm_get m ''assignee''))),
      lib_Status = (\<lambda>m. let s = string_or_empty (as_string (fm_get m ''status'')) in if s = ''done'' then ''completed'' else s),
      lib_Phase = (\<lambda>m. as_string (fm_get m ''phase'')),
      lib_TaskType = (\<lambda>m. string_or_empty (as_string (fm_get m ''task_type''))),
      lib_Stage = (\<lambda>m. string_or_empty (as_string (fm_get m ''stage''))),
      lib_CurrentJob = (\<lambda>m. string_or_empty (as_string (fm_get m ''current_job''))),
      lib_TriggerCount = (\<lambda>m. ref_count m ''trigger_count'' 0),
      lib_MaxTriggers = (\<lambda>m. ref_count m ''max_triggers'' 3),
      lib_RetryCount = (\<lambda>m. ref_count m ''retry_count'' 0),
      lib_MaxRetries = (\<lambda>m. ref_count m ''max_retries'' 3),
      lib_SpawnNotification = (\<lambda>m. fm_get m ''spawn_notification'' = Some (VBool True)),
      yaml_Unmarshal = (\<lambda>s. Inl (Errorf ''yaml'' [])),
      yaml_Marshal = (\<lambda>m. Inl (Errorf ''yaml'' [])),
      yaml_Identifiers = (\<lambda>s. Inl (Errorf ''yaml'' [])),
      uuid_valid = (\<lambda>s. length s = 36)\<rparr>"

text \<open>A codec for string-valued maps over a fixed list of keys, one \<open>key: value\<close> line each.\<close>

definition ref_yaml :: "string \<Rightarrow> fm \<Rightarrow> pure_lib" where
  "ref_yaml text m0 =
     ref_lib\<lparr>yaml_Unmarshal := (\<lambda>s. if s = text then Inr m0 else Inl (Errorf ''yaml'' [])),
             yaml_Marshal := (\<lambda>m. if m = m0 then Inr (text @ [nl]) else Inl (Errorf ''yaml'' [])),
             yaml_Identifiers := (\<lambda>s. if s = text
               then Inr (string_or_empty (as_string (fm_get m0 ''task_identifier'')),
                         string_or_empty (as_string (fm_get m0 ''task_identifier_previous'')))
               else Inl (Errorf ''yaml'' []))\<rparr>"

section \<open>Lemmas\<close>

lemma lib_okD:
  assumes "lib_ok L"
  shows lib_String_eq: "lib_String L m k = as_string (fm_get m k)"
    and lib_Assignee_eq: "lib_Assignee L m = string_or_empty (as_string (fm_get m ''assignee''))"
    and lib_CurrentJob_eq: "lib_CurrentJob L m = string_or_empty (as_string (fm_get m ''current_job''))"
  using assms by (simp_all add: lib_ok_def lib_reads_strings_def)

lemma lib_Status_cong:
  "lib_ok L \<Longrightarrow> fm_get m ''status'' = fm_get n ''status'' \<Longrightarrow> lib_Status L m = lib_Status L n"
  by (auto simp: lib_ok_def lib_reads_status_def)

lemma lib_Status_canon:
  "lib_ok L \<Longrightarrow> fm_get m ''status'' = Some (VStr s) \<Longrightarrow>
   s \<in> {''completed'', ''aborted'', ''in_progress'', ''hold''} \<Longrightarrow> lib_Status L m = s"
  by (auto simp: lib_ok_def lib_reads_status_def)

lemma lib_Phase_cong:
  "lib_ok L \<Longrightarrow> fm_get m ''phase'' = fm_get n ''phase'' \<Longrightarrow> lib_Phase L m = lib_Phase L n"
  by (auto simp: lib_ok_def lib_reads_phase_def)

lemma lib_Phase_canon:
  "lib_ok L \<Longrightarrow> fm_get m ''phase'' = Some (VStr s) \<Longrightarrow>
   s \<in> {''planning'', ''human_review'', ''done''} \<Longrightarrow> lib_Phase L m = Some s"
  by (auto simp: lib_ok_def lib_reads_phase_def)

lemma lib_Phase_None: "lib_ok L \<Longrightarrow> fm_get m ''phase'' = None \<Longrightarrow> lib_Phase L m = None"
  by (auto simp: lib_ok_def lib_reads_phase_def)

lemma lib_TriggerCount_cong:
  "lib_ok L \<Longrightarrow> fm_get m ''trigger_count'' = fm_get n ''trigger_count'' \<Longrightarrow>
   lib_TriggerCount L m = lib_TriggerCount L n"
  by (auto simp: lib_ok_def lib_reads_budget_def)

lemma lib_MaxTriggers_cong:
  "lib_ok L \<Longrightarrow> fm_get m ''max_triggers'' = fm_get n ''max_triggers'' \<Longrightarrow>
   lib_MaxTriggers L m = lib_MaxTriggers L n"
  by (auto simp: lib_ok_def lib_reads_budget_def)

lemma lib_TriggerCount_VInt:
  "lib_ok L \<Longrightarrow> fm_get m ''trigger_count'' = Some (VInt c) \<Longrightarrow> lib_TriggerCount L m = c"
  by (auto simp: lib_ok_def lib_reads_budget_def)

lemma lib_MaxTriggers_VInt:
  "lib_ok L \<Longrightarrow> fm_get m ''max_triggers'' = Some (VInt c) \<Longrightarrow> lib_MaxTriggers L m = c"
  by (auto simp: lib_ok_def lib_reads_budget_def)

lemma lib_Int_VInt: "lib_ok L \<Longrightarrow> fm_get m k = Some (VInt n) \<Longrightarrow> lib_Int L m k = Some n"
  by (simp add: lib_ok_def lib_reads_ints_def)

lemma lib_Int_None: "lib_ok L \<Longrightarrow> fm_get m k = None \<Longrightarrow> lib_Int L m k = None"
  by (simp add: lib_ok_def lib_reads_ints_def)

lemma ref_lib_reads_status: "lib_reads_status ref_lib"
  unfolding lib_reads_status_def ref_lib_def
  by (rule exI [of _ "\<lambda>v. let s = string_or_empty (as_string v) in if s = ''done'' then ''completed'' else s"])
    (simp add: Let_def as_string_def string_or_empty_def)

lemma ref_lib_reads_phase: "lib_reads_phase ref_lib"
  unfolding lib_reads_phase_def ref_lib_def
  by (rule exI [of _ as_string]) (simp add: as_string_def)

lemma ref_lib_reads_budget: "lib_reads_budget ref_lib"
  unfolding lib_reads_budget_def ref_lib_def ref_count_def
  by (rule exI [of _ "\<lambda>v. case v of Some (VInt n) \<Rightarrow> n | Some (VFloat x) \<Rightarrow> int_of_float x | _ \<Rightarrow> 0"],
      rule exI [of _ "\<lambda>v. case v of Some (VInt n) \<Rightarrow> n | Some (VFloat x) \<Rightarrow> int_of_float x | _ \<Rightarrow> 3"])
    simp

lemma lib_ok_ref_lib: "lib_ok ref_lib"
  by (simp add: lib_ok_def ref_lib_reads_status ref_lib_reads_phase ref_lib_reads_budget)
    (simp add: lib_reads_strings_def lib_reads_ints_def ref_lib_def)

lemma lib_ok_ref_yaml: "lib_ok (ref_yaml t m)"
  using lib_ok_ref_lib
  by (simp add: lib_ok_def ref_yaml_def lib_reads_strings_def lib_reads_ints_def
      lib_reads_status_def lib_reads_phase_def lib_reads_budget_def)

lemma as_string_Some [simp]: "as_string (Some (VStr s)) = Some s"
  by (simp add: as_string_def)

lemma as_string_None [simp]: "as_string None = None"
  by (simp add: as_string_def)

lemma as_string_iff: "as_string v = Some s \<longleftrightarrow> v = Some (VStr s)"
  by (auto simp: as_string_def split: option.splits val.splits)

lemma string_or_empty_simps [simp]:
  "string_or_empty (Some s) = s" "string_or_empty None = []"
  by (simp_all add: string_or_empty_def)

lemma FrontmatterValueEqual_VInt [simp]:
  "\<bar>a\<bar> < 2 ^ 53 \<Longrightarrow> \<bar>b\<bar> < 2 ^ 53 \<Longrightarrow> FrontmatterValueEqual (VInt a) (VInt b) \<longleftrightarrow> a = b"
  by (simp add: FrontmatterValueEqual_def float_of_int_exact)

lemma FrontmatterValueEqual_VStr [simp]:
  "FrontmatterValueEqual (VStr a) (VStr b) \<longleftrightarrow> a = b"
  by (auto simp: FrontmatterValueEqual_def)

lemma strip_open_render [simp]: "strip_open (''---\<newline>'' @ s) = s"
  by (simp add: strip_open_def TrimPrefix_def HasPrefix_def)

lemma Cut_extend: "Cut p s = Some (a, q @ b) \<Longrightarrow> Cut (p @ q) s = Some (a, b)"
proof (induction p s arbitrary: a rule: Cut.induct)
  case (1 sep)
  then show ?case by (simp split: if_splits)
next
  case (2 sep c cs)
  show ?case
  proof (cases "prefix sep (c # cs)")
    case True
    then have "c # cs = sep @ q @ b" and "a = []"
      using 2(2) prefix_drop_eq [OF True] by auto
    then show ?thesis by (metis Cut.simps(2) append_assoc append_eq_conv_conj prefixI)
  next
    case False
    then obtain a' where a': "Cut sep cs = Some (a', q @ b)" "a = c # a'"
      using 2(2) by auto
    moreover have "\<not> prefix (sep @ q) (c # cs)"
      using False by (meson append_prefixD)
    ultimately show ?thesis using 2(1)[OF False] by simp
  qed
qed

lemma Cut_close:
  assumes "\<not> Contains t ''\<newline>---''"
  shows "Cut ''\<newline>---'' (t @ ''\<newline>---'' @ b) = Some (t, b)"
proof -
  have "Cut (nl # ''---'') t = None" using assms unfolding Contains_def by blast
  from Cut_first [OF this, of b] show ?thesis by simp
qed

lemma render_file_open: "render_file (t @ [nl]) body = ''---\<newline>'' @ (t @ ''\<newline>---'' @ nl # body)"
  by (simp add: render_file_def)

lemma render_extract:
  assumes "\<not> Contains t ''\<newline>---''"
  shows "ExtractFrontmatter (render_file (t @ [nl]) body) = Inr t"
    and "ExtractBody (render_file (t @ [nl]) body) = Inr body"
    and "scanner_extractBody (render_file (t @ [nl]) body) = body"
proof -
  let ?c = "''---\<newline>'' @ (t @ ''\<newline>---'' @ nl # body)"
  have pre: "HasPrefix ?c ''---''" by (simp add: HasPrefix_def)
  have cut: "Cut ''\<newline>---'' (strip_open ?c) = Some (t, nl # body)"
    unfolding strip_open_render by (rule Cut_close [OF assms])
  have cut2: "Cut ''\<newline>---\<newline>'' (strip_open ?c) = Some (t, body)"
    using Cut_extend [of "''\<newline>---''" "strip_open ?c" t "[nl]" body] cut by simp
  show "ExtractFrontmatter (render_file (t @ [nl]) body) = Inr t"
    unfolding render_file_open ExtractFrontmatter_def using pre cut by simp
  show "ExtractBody (render_file (t @ [nl]) body) = Inr body"
    unfolding render_file_open ExtractBody_def using pre cut2 by simp
  show "scanner_extractBody (render_file (t @ [nl]) body) = body"
    unfolding render_file_open scanner_extractBody_def using pre cut
    by (simp add: HasPrefix_def)
qed

lemma scanner_extractFrontmatter_eq: "scanner_extractFrontmatter c = ExtractFrontmatter c"
proof (cases "Cut ''\<newline>---'' (strip_open c)")
  case None
  then show ?thesis by (simp add: scanner_extractFrontmatter_def ExtractFrontmatter_def)
next
  case (Some ab)
  then have "strip_open c = fst ab @ ''\<newline>---'' @ snd ab"
    using Cut_Some [of "''\<newline>---''" "strip_open c" "fst ab" "snd ab"] by simp
  with Some show ?thesis
    by (simp add: scanner_extractFrontmatter_def ExtractFrontmatter_def split: prod.splits)
qed

lemma parse_parts:
  "parseTaskFrontmatterAndBody L b = Inr (m, body) \<longleftrightarrow>
   (\<exists>s. ExtractFrontmatter b = Inr s \<and> ExtractBody b = Inr body \<and> yaml_Unmarshal L s = Inr m)"
  by (auto simp: parseTaskFrontmatterAndBody_def parseTaskFrontmatter_def split: sum.splits)

lemma marshalFileContent_read_back:
  assumes "yaml_ok L" and "marshalFileContent L m body = Inr c"
  obtains m' where "parseTaskFrontmatterAndBody L c = Inr (m', body)" "fmrel same_value m m'"
    "scanner_extractBody c = body"
proof -
  obtain s where s: "yaml_Marshal L m = Inr s" and c: "c = render_file s body"
    using assms(2) by (auto simp: marshalFileContent_def split: sum.splits)
  obtain t m' where t: "s = t @ [nl]" "\<not> Contains t ''\<newline>---''"
    and m': "yaml_Unmarshal L t = Inr m'" "fmrel same_value m m'"
    using assms(1) s unfolding yaml_ok_def by blast
  show thesis
    by (rule that [of m'])
      (simp_all add: c t m' render_extract [OF t(2)] parseTaskFrontmatterAndBody_def parseTaskFrontmatter_def)
qed

lemma same_value_VStr: "same_value v (VStr s) \<longleftrightarrow> v = VStr s"
  by (cases v) (auto simp: same_value_def FrontmatterValueEqual_def split: option.splits)

lemma fmrel_same_value_VStr:
  assumes "fmrel same_value m m'"
  shows "fm_get m' k = Some (VStr s) \<longleftrightarrow> fm_get m k = Some (VStr s)"
  by (rule fmrel_cases [OF assms, of k]) (auto simp: same_value_VStr, simp add: same_value_def)

lemma fmrel_same_value_VInt:
  assumes "fmrel same_value m m'" and "fm_get m k = Some (VInt n)"
  shows "fm_get m' k = Some (VInt n)"
  by (rule fmrel_cases [OF assms(1), of k]) (use assms(2) in \<open>auto simp: same_value_def\<close>)

lemma fmrel_same_value_None:
  assumes "fmrel same_value m m'"
  shows "fm_get m' k = None \<longleftrightarrow> fm_get m k = None"
  by (rule fmrel_cases [OF assms, of k]) simp_all

text \<open>Occurrences of a longer separator after the first occurrence of the shorter one.\<close>

lemma Cut_shift:
  assumes "c \<notin> set r"
  shows "Cut (c # z) (r @ w) = map_option (\<lambda>(u, v). (r @ u, v)) (Cut (c # z) w)"
  using assms
proof (induction r)
  case Nil
  show ?case by (cases "Cut (c # z) w") auto
next
  case (Cons x r)
  then have "\<not> prefix (c # z) (x # r @ w)" by simp
  with Cons show ?case by (cases "Cut (c # z) w") auto
qed

lemma Cut_skip:
  assumes "Cut (c # r) s = Some (a, d # b)" and "c \<notin> set r" and "d \<noteq> e"
  shows "Cut (c # r @ e # q) s = map_option (\<lambda>(u, v). (a @ c # r @ u, v)) (Cut (c # r @ e # q) (d # b))"
  using assms(1)
proof (induction s arbitrary: a)
  case Nil
  then show ?case by simp
next
  case (Cons x s)
  show ?case
  proof (cases "prefix (c # r) (x # s)")
    case True
    with Cons.prems have a: "a = []" and s: "x # s = (c # r) @ d # b"
      using prefix_drop_eq [OF True] by auto
    have "\<not> prefix (c # r @ e # q) ((c # r) @ d # b)"
      using assms(3) by simp
    then have "Cut (c # r @ e # q) ((c # r) @ d # b) =
        map_option (\<lambda>(u, v). (c # u, v)) (Cut (c # r @ e # q) (r @ d # b))"
      by (simp only: append_Cons Cut.simps if_False)
    then show ?thesis
      unfolding s a Cut_shift [OF assms(2), of "r @ e # q" "d # b"]
      by (simp add: option.map_comp split_def o_def del: Cut.simps)
  next
    case False
    with Cons.prems obtain a' where a': "Cut (c # r) s = Some (a', d # b)" "a = x # a'"
      by auto
    have "\<not> prefix (c # r @ e # q) (x # s)"
      using False by (metis append_Cons append_prefixD)
    then have "Cut (c # r @ e # q) (x # s) = map_option (\<lambda>(u, v). (x # u, v)) (Cut (c # r @ e # q) s)"
      by (simp only: Cut.simps if_False)
    then show ?thesis
      unfolding Cons.IH [OF a'(1)] a'(2) by (simp add: option.map_comp split_def o_def del: Cut.simps)
  qed
qed

section \<open>Properties\<close>


definition witness_fm :: fm where
  "witness_fm = fmap_of_list [(''status'', VStr ''in_progress'')]"

definition witness_lib :: pure_lib where
  "witness_lib = ref_yaml ''status: in_progress'' witness_fm"

definition both_ways :: pure_lib where
  "both_ways = witness_lib\<lparr>yaml_Unmarshal := (\<lambda>s. if s \<in> {''status: in_progress'', ''status: in_progress\<newline>''} then Inr witness_fm
     else Inl (Errorf ''yaml'' []))\<rparr>"


text \<open>With a last value that ends in a newline, a block scalar, that newline is the final one of the rendering: the file is
  read back without it, though the library keeps it.\<close>

definition note_fm :: "string \<Rightarrow> fm" where
  "note_fm s = fmap_of_list [(''note'', VStr s)]"

definition block_lib :: pure_lib where
  "block_lib = ref_lib\<lparr>yaml_Marshal := (\<lambda>m. Inr ''note: |\<newline>    x\<newline>''),
     yaml_Unmarshal := (\<lambda>s. if s = ''note: |\<newline>    x\<newline>'' then Inr (note_fm ''x\<newline>'')
       else if s = ''note: |\<newline>    x'' then Inr (note_fm ''x'') else Inl (Errorf ''yaml'' []))\<rparr>"

lemma final_newline_is_lost:
  "marshalFileContent block_lib (note_fm ''x\<newline>'') ''body'' = Inr (render_file ''note: |\<newline>    x\<newline>'' ''body'')"
  "parseTaskFrontmatterAndBody block_lib (render_file ''note: |\<newline>    x\<newline>'' ''body'') = Inr (note_fm ''x'', ''body'')"
proof -
  have "\<not> Contains ''note: |\<newline>    x'' ''\<newline>---''" by (simp add: Contains_def)
  from render_extract [OF this, of "''body''"]
  show "parseTaskFrontmatterAndBody block_lib (render_file ''note: |\<newline>    x\<newline>'' ''body'') = Inr (note_fm ''x'', ''body'')"
    by (simp add: parse_parts block_lib_def)
qed (simp add: marshalFileContent_def block_lib_def)

text \<open>a closing delimiter with a carriage return ends the frontmatter for \<open>ExtractFrontmatter\<close>
  and for the scanner, but not for \<open>ExtractBody\<close>: the result writer takes as the body only what
  follows the next bare \<open>---\<close> line, so the text in between is dropped when the file is written back.\<close>

theorem ExtractBody_skips_crlf_close:
  assumes "\<not> Contains a ''\<newline>---''" and "\<not> Contains (cr # nl # x) ''\<newline>---''"
    and "c = ''---\<newline>'' @ a @ ''\<newline>---'' @ (cr # nl # x) @ ''\<newline>---'' @ nl # y"
  shows "ExtractFrontmatter c = Inr a \<and> ExtractBody c = Inr y \<and>
         scanner_extractBody c = x @ ''\<newline>---'' @ nl # y"
proof -
  let ?w = "(cr # nl # x) @ ''\<newline>---'' @ nl # y"
  have pre: "HasPrefix c ''---''" by (simp add: assms(3) HasPrefix_def)
  have opened: "strip_open c = a @ ''\<newline>---'' @ ?w"
    unfolding assms(3) by (rule strip_open_render)
  have cut: "Cut ''\<newline>---'' (strip_open c) = Some (a, ?w)"
    unfolding opened by (rule Cut_close [OF assms(1)])
  have "Cut ''\<newline>---'' ?w = Some (cr # nl # x, nl # y)"
    by (rule Cut_close [OF assms(2)])
  then have w: "Cut ''\<newline>---\<newline>'' ?w = Some (cr # nl # x, y)"
    using Cut_extend [of "''\<newline>---''" ?w "cr # nl # x" "[nl]" y] by simp
  have "Cut ''\<newline>---\<newline>'' (strip_open c) = Some (a @ ''\<newline>---'' @ cr # nl # x, y)"
    using Cut_skip [of nl "''---''" "strip_open c" a cr _ nl "[]"] cut w by simp
  with pre cut show ?thesis
    by (simp add: ExtractFrontmatter_def ExtractBody_def scanner_extractBody_def HasPrefix_def)
qed

theorem ExtractBody_skips_crlf_close_witness:
  "ExtractBody (''---\<newline>status: in_progress\<newline>---'' @ cr # nl # ''## Notes\<newline>---\<newline>tail'') = Inr ''tail''"
proof -
  have "\<not> Contains ''status: in_progress'' ''\<newline>---''" by (simp add: Contains_def)
  moreover have "\<not> Contains (cr # nl # ''## Notes'') ''\<newline>---''" by (simp add: Contains_def)
  ultimately show ?thesis
    using ExtractBody_skips_crlf_close [of "''status: in_progress''" "''## Notes''" _ "''tail''"] by simp
qed

end
