(* ===== verification/Body.thy ===== *)
theory Body
  imports Frontmatter
begin

text \<open>
  The markdown body of a task: \<open>splitBody\<close>, \<open>headingName\<close> and \<open>mergeBody\<close> of
  \<open>pkg/result/result_writer.go\<close>. A body is split into a preamble and its level-two sections; the
  merge works on sections by heading name. The abstract view of a body is the result of \<open>splitBody\<close>,
  and the main result is that \<open>mergeBody\<close> refines a merge on that view for bodies whose last line is
  terminated.
\<close>

section \<open>Model\<close>

record bodySection =
  heading :: string
  content :: string

text \<open>The lines of a body, each with its terminator; only the last may lack one.\<close>

fun body_lines :: "string \<Rightarrow> string list" where
  "body_lines [] = []"
| "body_lines (c # cs) =
     (if c = nl then [c] # body_lines cs
      else case body_lines cs of [] \<Rightarrow> [[c]] | l # ls \<Rightarrow> (c # l) # ls)"

definition headingName :: "string \<Rightarrow> string option" where
  "headingName line =
     (let name = TrimSuffix (TrimSuffix line [cr, nl]) [nl]
      in if HasPrefix name ''## '' then Some name else None)"

definition splitStep :: "string \<times> bodySection list \<Rightarrow> string \<Rightarrow> string \<times> bodySection list" where
  "splitStep acc line =
     (case acc of (preamble, accs) \<Rightarrow>
        (if headingName line \<noteq> None then (preamble, accs @ [\<lparr>heading = line, content = []\<rparr>])
         else if accs = [] then (preamble @ line, accs)
         else (preamble, butlast accs @ [(last accs)\<lparr>content := content (last accs) @ line\<rparr>])))"

definition splitBody :: "string \<Rightarrow> string \<times> bodySection list" where
  "splitBody body = foldl splitStep ([], []) (body_lines body)"

text \<open>The name under which a section is merged; the empty name stands for a line that is no heading.\<close>

definition sectionName :: "bodySection \<Rightarrow> string" where
  "sectionName sec = string_or_empty (headingName (heading sec))"

definition incomingByName :: "bodySection list \<Rightarrow> (string, bodySection) fmap" where
  "incomingByName secs = foldl (\<lambda>m sec. fmupd (sectionName sec) sec m) fmempty secs"

definition incomingOrder :: "bodySection list \<Rightarrow> string list" where
  "incomingOrder secs =
     foldl (\<lambda>names sec. if sectionName sec \<in> set names then names else names @ [sectionName sec]) [] secs"

definition section_text :: "bodySection \<Rightarrow> string" where
  "section_text sec = heading sec @ content sec"

definition mergeBody :: "string \<Rightarrow> string \<Rightarrow> string" where
  "mergeBody existingBody incomingBody =
     (let (existingPreamble, existingSections) = splitBody existingBody;
          (incomingPreamble, incomingSections) = splitBody incomingBody;
          byName = incomingByName incomingSections;
          resultPreamble =
            (if TrimSpace incomingPreamble \<noteq> [] then incomingPreamble else existingPreamble);
          existingNames = map sectionName existingSections;
          kept = concat (map (\<lambda>sec.
            (case fmlookup byName (sectionName sec) of
               Some incoming \<Rightarrow> section_text incoming
             | None \<Rightarrow> section_text sec)) existingSections);
          appended = concat (map (\<lambda>name.
            (if name \<in> set existingNames then []
             else case fmlookup byName name of Some sec \<Rightarrow> section_text sec | None \<Rightarrow> []))
            (incomingOrder incomingSections))
      in resultPreamble @ kept @ appended)"

section \<open>Splitting\<close>

text \<open>The same split by structural recursion on the lines.\<close>

fun split_rec :: "string list \<Rightarrow> string \<times> bodySection list" where
  "split_rec [] = ([], [])"
| "split_rec (l # ls) =
     (case split_rec ls of (p, secs) \<Rightarrow>
        if headingName l \<noteq> None then ([], \<lparr>heading = l, content = p\<rparr> # secs) else (l @ p, secs))"

lemma foldl_splitStep:
  "foldl splitStep (p, accs) ls =
     (case split_rec ls of (q, secs) \<Rightarrow>
        if accs = [] then (p @ q, secs)
        else (p, butlast accs @ (last accs)\<lparr>content := content (last accs) @ q\<rparr> # secs))"
proof (induction ls arbitrary: p accs)
  case Nil
  then show ?case by (simp add: append_butlast_last_id)
next
  case (Cons l ls)
  obtain q secs where r: "split_rec ls = (q, secs)" by fastforce
  show ?case
  proof (cases "headingName l")
    case None
    then have "splitStep (p, accs) l = (if accs = [] then (p @ l, [])
      else (p, butlast accs @ [(last accs)\<lparr>content := content (last accs) @ l\<rparr>]))"
      by (simp add: splitStep_def)
    then show ?thesis using None by (simp add: Cons.IH r)
  next
    case (Some n)
    then have "splitStep (p, accs) l = (p, accs @ [\<lparr>heading = l, content = []\<rparr>])"
      by (simp add: splitStep_def)
    then show ?thesis using Some
      by (simp add: Cons.IH r append_butlast_last_id)
  qed
qed

lemma splitBody_rec: "splitBody body = split_rec (body_lines body)"
  by (simp add: splitBody_def foldl_splitStep split: prod.splits)

lemma body_lines_Nil_iff [simp]: "body_lines s = [] \<longleftrightarrow> s = []"
  by (induction s) (auto split: list.splits)

lemma concat_body_lines [simp]: "concat (body_lines s) = s"
  by (induction s) (auto split: list.splits)

lemma split_rec_concat:
  "split_rec ls = (p, secs) \<Longrightarrow> p @ concat (map section_text secs) = concat ls"
  by (induction ls arbitrary: p secs) (auto simp: section_text_def split: prod.splits if_splits)

lemma splitBody_concat:
  "splitBody body = (p, secs) \<Longrightarrow> p @ concat (map section_text secs) = body"
  using split_rec_concat [of "body_lines body" p secs] by (simp add: splitBody_rec)

lemma split_rec_append:
  "split_rec (ls @ ms) =
     (case split_rec ls of (p, secs) \<Rightarrow> case split_rec ms of (q, tecs) \<Rightarrow>
        if secs = [] then (p @ q, tecs)
        else (p, butlast secs @ (last secs)\<lparr>content := content (last secs) @ q\<rparr> # tecs))"
proof (induction ls)
  case Nil
  then show ?case by (simp split: prod.splits)
next
  case (Cons l ls)
  then show ?case by (auto split: prod.splits)
qed

definition nl_terminated :: "string \<Rightarrow> bool" where
  "nl_terminated s \<longleftrightarrow> s = [] \<or> last s = nl"

lemma nl_terminated_append: "nl_terminated s \<Longrightarrow> nl_terminated t \<Longrightarrow> nl_terminated (s @ t)"
  by (auto simp: nl_terminated_def last_append)

lemma nl_terminated_concat: "\<forall>s \<in> set ss. nl_terminated s \<Longrightarrow> nl_terminated (concat ss)"
  by (induction ss) (auto simp: nl_terminated_append, simp add: nl_terminated_def)

lemma body_lines_append: "nl_terminated s \<Longrightarrow> body_lines (s @ t) = body_lines s @ body_lines t"
proof (induction s)
  case Nil
  then show ?case by simp
next
  case (Cons c s)
  show ?case
  proof (cases "s = []")
    case True
    with Cons.prems show ?thesis by (simp add: nl_terminated_def)
  next
    case False
    with Cons.prems have "nl_terminated s" by (simp add: nl_terminated_def)
    with Cons.IH False show ?thesis by (cases "body_lines s") auto
  qed
qed

lemma body_lines_concat:
  "\<forall>s \<in> set ss. nl_terminated s \<Longrightarrow> body_lines (concat ss) = concat (map body_lines ss)"
  by (induction ss) (simp_all add: body_lines_append)

lemma body_lines_terminated:
  "nl_terminated s \<Longrightarrow> l \<in> set (body_lines s) \<Longrightarrow> nl_terminated l"
proof (induction s arbitrary: l)
  case Nil
  then show ?case by simp
next
  case (Cons c s)
  have s: "s \<noteq> [] \<Longrightarrow> nl_terminated s" using Cons.prems(1) by (simp add: nl_terminated_def)
  show ?case
  proof (cases "body_lines s")
    case Nil
    with Cons.prems show ?thesis by (auto simp: nl_terminated_def split: if_splits)
  next
    case (Cons m ms)
    then have "s \<noteq> []" by auto
    then have IH: "\<And>l. l \<in> set (m # ms) \<Longrightarrow> nl_terminated l"
      using Cons.IH [OF s] Cons by simp
    have "m \<noteq> []" using Cons by (cases s) (auto split: if_splits list.splits)
    with IH [of m] have "nl_terminated (c # m)" by (simp add: nl_terminated_def)
    moreover have "nl_terminated [nl]" by (simp add: nl_terminated_def)
    moreover have "l \<in> set ([nl] # m # ms) \<or> l \<in> set ((c # m) # ms)"
      using Cons.prems(2) Cons by (auto split: if_splits)
    ultimately show ?thesis using IH by auto
  qed
qed

lemma body_lines_line: "l \<in> set (body_lines s) \<Longrightarrow> body_lines l = [l]"
proof (induction s arbitrary: l)
  case Nil
  then show ?case by simp
next
  case (Cons c s)
  then show ?case by (cases "body_lines s") (auto split: if_splits)
qed

section \<open>Views\<close>

text \<open>
  The abstract view of a body is a preamble and a list of sections. In a well-formed view every part
  is newline-terminated, headings are single heading lines and no other line is a heading.
\<close>

type_synonym view = "string \<times> bodySection list"

definition plain_text :: "string \<Rightarrow> bool" where
  "plain_text s \<longleftrightarrow> nl_terminated s \<and> (\<forall>l \<in> set (body_lines s). headingName l = None)"

definition wf_section :: "bodySection \<Rightarrow> bool" where
  "wf_section sec \<longleftrightarrow> nl_terminated (heading sec) \<and> body_lines (heading sec) = [heading sec] \<and>
     headingName (heading sec) \<noteq> None \<and> plain_text (content sec)"

definition wf_view :: "view \<Rightarrow> bool" where
  "wf_view v \<longleftrightarrow> plain_text (fst v) \<and> (\<forall>sec \<in> set (snd v). wf_section sec)"

definition view_text :: "view \<Rightarrow> string" where
  "view_text v = fst v @ concat (map section_text (snd v))"

text \<open>The merge on views: what the documentation of \<open>mergeBody\<close> promises.\<close>

definition merge_view :: "view \<Rightarrow> view \<Rightarrow> view" where
  "merge_view e i =
     (let byName = incomingByName (snd i) in
      (if TrimSpace (fst i) \<noteq> [] then fst i else fst e,
       map (\<lambda>sec. case fmlookup byName (sectionName sec) of Some t \<Rightarrow> t | None \<Rightarrow> sec) (snd e) @
       List.map_filter (\<lambda>name. if name \<in> sectionName ` set (snd e) then None else fmlookup byName name)
         (incomingOrder (snd i))))"

lemma plain_text_append: "plain_text s \<Longrightarrow> plain_text t \<Longrightarrow> plain_text (s @ t)"
  by (auto simp: plain_text_def nl_terminated_append body_lines_append)

lemma plain_text_Nil [simp]: "plain_text []"
  by (simp add: plain_text_def nl_terminated_def)

lemma plain_text_line: "nl_terminated l \<Longrightarrow> body_lines l = [l] \<Longrightarrow> headingName l = None \<Longrightarrow> plain_text l"
  by (simp add: plain_text_def)

lemma split_rec_wf:
  "\<forall>l \<in> set ls. nl_terminated l \<and> body_lines l = [l] \<Longrightarrow> wf_view (split_rec ls)"
  by (induction ls) (auto simp: wf_view_def wf_section_def plain_text_append plain_text_line split: prod.splits)

lemma splitBody_wf: "nl_terminated body \<Longrightarrow> wf_view (splitBody body)"
  unfolding splitBody_rec
  by (rule split_rec_wf) (auto intro: body_lines_terminated dest: body_lines_line)

lemma split_rec_plain: "\<forall>l \<in> set ls. headingName l = None \<Longrightarrow> split_rec (ls @ ms) = (case split_rec ms of (q, secs) \<Rightarrow> (concat ls @ q, secs))"
  by (induction ls) (auto split: prod.splits)

lemma section_text_lines:
  "wf_section sec \<Longrightarrow> nl_terminated (section_text sec) \<and> body_lines (section_text sec) = heading sec # body_lines (content sec)"
  by (simp add: wf_section_def section_text_def plain_text_def nl_terminated_append body_lines_append)

lemma split_rec_sections:
  "\<forall>sec \<in> set secs. wf_section sec \<Longrightarrow>
   split_rec (concat (map (\<lambda>sec. body_lines (section_text sec)) secs)) = ([], secs)"
proof (induction secs)
  case Nil
  show ?case by simp
next
  case (Cons sec secs)
  then have "\<forall>l \<in> set (body_lines (content sec)). headingName l = None" and "headingName (heading sec) \<noteq> None"
    by (auto simp: wf_section_def plain_text_def)
  with Cons show ?case by (simp add: section_text_lines split_rec_plain)
qed

lemma splitBody_view_text: "wf_view v \<Longrightarrow> splitBody (view_text v) = v"
proof (cases v)
  case (Pair p secs)
  assume "wf_view v"
  then have p: "nl_terminated p" "\<forall>l \<in> set (body_lines p). headingName l = None"
    and secs: "\<forall>sec \<in> set secs. wf_section sec"
    by (simp_all add: wf_view_def plain_text_def Pair)
  have "body_lines (concat (map section_text secs)) = concat (map (\<lambda>sec. body_lines (section_text sec)) secs)"
    using body_lines_concat [of "map section_text secs"] secs section_text_lines by (simp add: o_def)
  with p secs show ?thesis
    by (simp add: splitBody_rec view_text_def Pair body_lines_append split_rec_plain split_rec_sections)
qed

lemma view_text_splitBody: "view_text (splitBody body) = body"
  using splitBody_concat [of body] by (cases "splitBody body") (simp add: view_text_def)

lemma splitBody_terminated:
  "wf_view v \<Longrightarrow> nl_terminated (view_text v)"
  unfolding view_text_def wf_view_def plain_text_def
  by (intro nl_terminated_append nl_terminated_concat) (auto dest: section_text_lines)

section \<open>Names\<close>

lemma fmlookup_foldl_upd:
  "fmlookup (foldl (\<lambda>m sec. fmupd (sectionName sec) sec m) m0 secs) n =
     (case find (\<lambda>sec. sectionName sec = n) (rev secs) of Some sec \<Rightarrow> Some sec | None \<Rightarrow> fmlookup m0 n)"
proof (induction secs arbitrary: m0)
  case Nil
  show ?case by simp
next
  case (Cons s secs)
  have "find P (xs @ ys) = (case find P xs of Some x \<Rightarrow> Some x | None \<Rightarrow> find P ys)" for P and xs ys :: "bodySection list"
    by (induction xs) auto
  then show ?case by (simp add: Cons split: option.splits)
qed

lemma incomingByName_Some:
  "fmlookup (incomingByName secs) n = Some sec \<Longrightarrow> sec \<in> set secs \<and> sectionName sec = n"
  unfolding incomingByName_def fmlookup_foldl_upd
  by (auto simp: find_Some_iff split: option.splits) (metis nth_mem set_rev length_rev)

lemma incomingByName_None_iff:
  "fmlookup (incomingByName secs) n = None \<longleftrightarrow> n \<notin> sectionName ` set secs"
proof -
  have "fmlookup (incomingByName secs) n = None \<longleftrightarrow> find (\<lambda>sec. sectionName sec = n) (rev secs) = None"
    unfolding incomingByName_def fmlookup_foldl_upd by (simp split: option.splits)
  then show ?thesis by (auto simp: find_None_iff)
qed

lemma set_foldl_order:
  "set (foldl (\<lambda>names sec. if sectionName sec \<in> set names then names else names @ [sectionName sec]) ns secs) =
     set ns \<union> sectionName ` set secs"
  by (induction secs arbitrary: ns) auto

lemma set_incomingOrder: "set (incomingOrder secs) = sectionName ` set secs"
  by (simp add: incomingOrder_def set_foldl_order)

section \<open>Refinement\<close>

lemma concat_map_filter:
  "concat (map (\<lambda>n. if n \<in> N then [] else case f n of Some s \<Rightarrow> section_text s | None \<Rightarrow> []) ns) =
   concat (map section_text (List.map_filter (\<lambda>n. if n \<in> N then None else f n) ns))"
  by (induction ns) (auto simp: List.map_filter_simps split: option.splits)

lemma mergeBody_view: "mergeBody e i = view_text (merge_view (splitBody e) (splitBody i))"
proof -
  have kept: "concat (map (\<lambda>sec. case f (sectionName sec) of Some t \<Rightarrow> section_text t | None \<Rightarrow> section_text sec) E) =
     concat (map section_text (map (\<lambda>sec. case f (sectionName sec) of Some t \<Rightarrow> t | None \<Rightarrow> sec) E))" for f E
    by (induction E) (auto split: option.splits)
  show ?thesis
    by (simp add: mergeBody_def merge_view_def view_text_def Let_def concat_map_filter kept split_def)
qed

lemma in_set_map_filter: "s \<in> set (List.map_filter f xs) \<longleftrightarrow> (\<exists>x \<in> set xs. f x = Some s)"
  by (induction xs) (auto simp: List.map_filter_simps split: option.splits)

lemma map_filter_empty: "\<forall>x \<in> set xs. f x = None \<Longrightarrow> List.map_filter f xs = []"
  by (induction xs) (auto simp: List.map_filter_simps)

text \<open>A section of the merge comes from one of the two sides.\<close>

lemma merge_view_section:
  "sec \<in> set (snd (merge_view e i)) \<Longrightarrow> sec \<in> set (snd e) \<or> sec \<in> set (snd i)"
  by (auto simp: merge_view_def Let_def in_set_map_filter dest: incomingByName_Some
      split: option.splits if_splits)

lemma merge_view_wf: "wf_view e \<Longrightarrow> wf_view i \<Longrightarrow> wf_view (merge_view e i)"
  unfolding wf_view_def using merge_view_section [of _ e i]
  by (auto simp: merge_view_def Let_def)

lemma merge_view_idem: "merge_view (merge_view e i) i = merge_view e i"
proof -
  let ?f = "fmlookup (incomingByName (snd i))"
  let ?repl = "\<lambda>sec. case ?f (sectionName sec) of Some t \<Rightarrow> t | None \<Rightarrow> sec"
  let ?new = "List.map_filter (\<lambda>n. if n \<in> sectionName ` set (snd e) then None else ?f n) (incomingOrder (snd i))"
  have name: "sectionName (?repl s) = sectionName s" for s
    by (auto dest: incomingByName_Some split: option.splits)
  have repl: "?repl (?repl s) = ?repl s" for s
    using name [of s] by (auto split: option.splits)
  have new: "?repl s = s" if "s \<in> set ?new" for s
  proof -
    from that obtain n where "?f n = Some s"
      unfolding in_set_map_filter by (auto split: if_splits)
    then show ?thesis using incomingByName_Some [of "snd i" n s] by simp
  qed
  have all: "n \<in> sectionName ` set (snd (merge_view e i))" if "n \<in> set (incomingOrder (snd i))" for n
  proof (cases "n \<in> sectionName ` set (snd e)")
    case True
    then obtain sec where sec: "sec \<in> set (snd e)" and n: "n = sectionName sec" by blast
    from sec have "?repl sec \<in> set (snd (merge_view e i))" by (simp add: merge_view_def Let_def)
    with n name [of sec] show ?thesis by (metis image_eqI)
  next
    case False
    from that obtain s where s: "?f n = Some s"
      using incomingByName_None_iff [of "snd i" n] by (auto simp: set_incomingOrder)
    have "s \<in> set ?new" unfolding in_set_map_filter
      by (rule bexI [OF _ that]) (simp add: False s)
    moreover have "sectionName s = n" using incomingByName_Some [OF s] by simp
    ultimately show ?thesis by (auto simp: merge_view_def Let_def)
  qed
  then have none: "List.map_filter (\<lambda>n. if n \<in> sectionName ` set (snd (merge_view e i)) then None else ?f n)
      (incomingOrder (snd i)) = []"
    by (intro map_filter_empty) simp
  have "map ?repl (snd (merge_view e i)) = snd (merge_view e i)"
    by (simp add: merge_view_def Let_def repl map_idI [OF new])
  with none show ?thesis
    by (simp add: merge_view_def [of "merge_view e i"] Let_def) (simp add: merge_view_def Let_def)
qed

section \<open>Properties\<close>

lemma splitBody_mergeBody:
  "nl_terminated e \<Longrightarrow> nl_terminated i \<Longrightarrow>
   splitBody (mergeBody e i) = merge_view (splitBody e) (splitBody i)"
  by (simp add: mergeBody_view splitBody_view_text merge_view_wf splitBody_wf)

lemma merge_view_keeps:
  "sec \<in> set (snd e) \<Longrightarrow> sectionName sec \<notin> sectionName ` set (snd i) \<Longrightarrow>
   sec \<in> set (snd (merge_view e i))"
  using incomingByName_None_iff [of "snd i" "sectionName sec"]
  by (force simp: merge_view_def Let_def)

text \<open>C22: For bodies whose last line is terminated, merging on text refines merging on sections:
  splitting the merged body gives the preamble of the payload when it has visible text and the
  on-disk one otherwise, every on-disk section replaced by the last payload section of its name when
  there is one and kept verbatim when there is none, and then the payload's new sections in the
  order of their first occurrence.\<close>

theorem mergeBody_refines_sections:
  assumes "nl_terminated existing" and "nl_terminated incoming"
  shows "splitBody (mergeBody existing incoming) = merge_view (splitBody existing) (splitBody incoming)"
  using assms by (rule splitBody_mergeBody)

theorem mergeBody_refines_sections_witness:
  "splitBody (mergeBody (''intro'' @ [nl] @ ''## Result'' @ [nl] @ ''old'' @ [nl] @ ''## Notes'' @ [nl] @ ''mine'' @ [nl])
     (''## Result'' @ [nl] @ ''new'' @ [nl])) =
   (''intro'' @ [nl], [\<lparr>heading = ''## Result'' @ [nl], content = ''new'' @ [nl]\<rparr>,
      \<lparr>heading = ''## Notes'' @ [nl], content = ''mine'' @ [nl]\<rparr>])"
  by (subst mergeBody_refines_sections) (code_simp, code_simp, code_simp)

text \<open>Delivering the same result body twice changes nothing the second time, so a replayed
  result is absorbed.\<close>

theorem mergeBody_replay_absorbed:
  assumes "nl_terminated existing" and "nl_terminated incoming"
  shows "mergeBody (mergeBody existing incoming) incoming = mergeBody existing incoming"
  using splitBody_mergeBody [OF assms]
  by (simp add: mergeBody_view [of "mergeBody existing incoming"] merge_view_idem) (simp add: mergeBody_view)

theorem mergeBody_replay_absorbed_witness:
  "mergeBody (mergeBody (''a'' @ [nl]) (''## R'' @ [nl])) (''## R'' @ [nl]) = ''a'' @ [nl] @ ''## R'' @ [nl]"
  by (subst mergeBody_replay_absorbed) (code_simp, code_simp, code_simp)

text \<open>A section on disk whose name the payload does not carry survives the merge verbatim, heading
  and content: an agent cannot delete the escalation history or an operator's notes.\<close>

theorem mergeBody_keeps_foreign_sections:
  assumes "nl_terminated existing" and "nl_terminated incoming"
    and "sec \<in> set (snd (splitBody existing))"
    and "sectionName sec \<notin> sectionName ` set (snd (splitBody incoming))"
  shows "sec \<in> set (snd (splitBody (mergeBody existing incoming)))"
  using assms by (simp add: splitBody_mergeBody merge_view_keeps)

theorem mergeBody_keeps_foreign_sections_witness:
  "\<lparr>heading = ''## N'' @ [nl], content = ''x'' @ [nl]\<rparr> \<in>
     set (snd (splitBody (mergeBody (''## N'' @ [nl] @ ''x'' @ [nl]) (''## R'' @ [nl]))))"
  by (rule mergeBody_keeps_foreign_sections) code_simp+

lemma body_lines_single: "nl \<notin> set s \<Longrightarrow> s \<noteq> [] \<Longrightarrow> body_lines s = [s]"
proof (induction s)
  case (Cons c s)
  then show ?case by (cases "s = []") auto
qed simp

lemma body_lines_single_nl: "nl \<notin> set s \<Longrightarrow> body_lines (s @ [nl]) = [s @ [nl]]"
  by (induction s) auto

lemma headingName_plain: "nl \<notin> set s \<Longrightarrow> \<not> HasPrefix s ''## '' \<Longrightarrow> headingName s = None"
  by (auto simp: headingName_def Let_def TrimSuffix_def elim!: HasSuffixE)

lemma headingName_nl:
  "\<not> suffix [cr] s \<Longrightarrow> \<not> HasPrefix s ''## '' \<Longrightarrow> headingName (s @ [nl]) = None"
  by (auto simp: headingName_def Let_def TrimSuffix_def HasSuffix_def suffix_def)

text \<open>When the on-disk body does not end in a newline and has no section yet, an appended section
  is glued to its last line: the merged text is the plain concatenation, and as soon as the glued line
  is no heading the section is lost to the next merge, whose split finds none.\<close>

theorem mergeBody_glues_unterminated:
  assumes "nl \<notin> set existing" and "existing \<noteq> []" and "\<not> HasPrefix (existing @ ''## Result'') ''## ''"
  shows "mergeBody existing (''## Result'' @ [nl]) = existing @ ''## Result'' @ [nl] \<and>
    snd (splitBody (mergeBody existing (''## Result'' @ [nl]))) = []"
proof -
  have pre: "\<not> HasPrefix existing ''## ''"
    using assms(3) by (auto simp: HasPrefix_def prefix_def)
  have e: "splitBody existing = (existing, [])"
    using assms(1,2) pre by (simp add: splitBody_rec body_lines_single headingName_plain)
  have i: "splitBody (''## Result'' @ [nl]) = ([], [\<lparr>heading = ''## Result'' @ [nl], content = []\<rparr>])"
    by code_simp
  have blank: "TrimSpace [] = []" by code_simp
  have n: "sectionName \<lparr>heading = ''## Result'' @ [nl], content = []\<rparr> = ''## Result''"
    by code_simp
  have m: "mergeBody existing (''## Result'' @ [nl]) = (existing @ ''## Result'') @ [nl]"
    unfolding mergeBody_def e i
    by (simp add: Let_def incomingByName_def incomingOrder_def n section_text_def blank)
  have lines: "body_lines ((existing @ ''## Result'') @ [nl]) = [(existing @ ''## Result'') @ [nl]]"
    by (rule body_lines_single_nl) (use assms(1) in simp)
  have "\<not> suffix [cr] (existing @ ''## Result'')" by (auto simp: suffix_def append_eq_append_conv2 Cons_eq_append_conv)
  then have "headingName ((existing @ ''## Result'') @ [nl]) = None" using assms(3) by (rule headingName_nl)
  with lines have "snd (splitBody ((existing @ ''## Result'') @ [nl])) = []"
    unfolding splitBody_rec lines by simp
  then show ?thesis unfolding m by simp
qed

theorem mergeBody_glues_unterminated_witness:
  "mergeBody ''text'' (''## Result'' @ [nl]) = ''text'' @ ''## Result'' @ [nl] \<and>
   snd (splitBody (mergeBody ''text'' (''## Result'' @ [nl]))) = []"
  by (rule mergeBody_glues_unterminated) code_simp+

end
