(* ===== verification/Ownership.thy ===== *)
theory Ownership
  imports Frontmatter
begin

text \<open>
  The field-ownership guard of the result write-back: \<open>MergeFrontmatter\<close> and its helpers
  (\<open>pkg/result/result_writer.go\<close>), with the stamps \<open>HealTargetVault\<close> and
  \<open>ClearCurrentJobIfTerminal\<close>. A Go loop that edits the merged map and appends decisions is a fold
  over the pair of both. The lemmas give, key by key, the value the merge writes, and say which
  discarded values the guard reports.
\<close>

section \<open>Model\<close>

record GuardDecision =
  FieldName :: string
  Kept :: val
  Rejected :: val

abbreviation decision :: "string \<Rightarrow> val \<Rightarrow> val \<Rightarrow> GuardDecision" where
  "decision f k r \<equiv> \<lparr>FieldName = f, Kept = k, Rejected = r\<rparr>"

definition controllerOwnedFields :: "string list" where
  "controllerOwnedFields = [''trigger_count'', ''trigger_scope'', ''max_triggers'']"

definition operatorOwnedFields :: "string list" where
  "operatorOwnedFields = [''assignee'', ''previous_assignee'']"

definition operatorPinnedFields :: "string list" where
  "operatorPinnedFields = [''cluster'']"

definition reassignmentDeclarationKey :: string where
  "reassignmentDeclarationKey = ''assignee_reassigned_by''"

definition accumulatedCounters :: "string list" where
  "accumulatedCounters = [''metrics_agent_turns'', ''metrics_interaction_count'']"

definition terminalStatuses :: "string list" where
  "terminalStatuses = [''completed'', ''aborted'']"

definition isTerminalStatus :: "string \<Rightarrow> bool" where
  "isTerminalStatus s = (s \<in> set terminalStatuses)"

text \<open>The decision a guard appends: only for an incoming value that differs from the kept one.\<close>

definition discard :: "string \<Rightarrow> val \<Rightarrow> val option \<Rightarrow> GuardDecision list" where
  "discard field diskValue incomingValue =
     (case incomingValue of
        None \<Rightarrow> []
      | Some v \<Rightarrow> if FrontmatterValueEqual diskValue v then [] else [decision field diskValue v])"

definition controllerOwnedStep ::
  "fm \<Rightarrow> fm \<Rightarrow> fm \<times> GuardDecision list \<Rightarrow> string \<Rightarrow> fm \<times> GuardDecision list" where
  "controllerOwnedStep existing incoming acc field =
     (case acc of (merged, decisions) \<Rightarrow>
        (case fm_get existing field of
           None \<Rightarrow> (if fm_get incoming field \<noteq> None then fmdrop field merged else merged, decisions)
         | Some diskValue \<Rightarrow>
             (fmupd field diskValue merged,
              decisions @ discard field diskValue (fm_get incoming field))))"

definition pinTerminalStatus ::
  "pure_lib \<Rightarrow> fm \<Rightarrow> fm \<Rightarrow> fm \<times> GuardDecision list \<Rightarrow> fm \<times> GuardDecision list" where
  "pinTerminalStatus L existing incoming acc =
     (case acc of (merged, decisions) \<Rightarrow>
        (case fm_get existing ''status'' of
           None \<Rightarrow> (merged, decisions)
         | Some diskStatus \<Rightarrow>
             (if isTerminalStatus (lib_Status L existing)
              then (fmupd ''status'' diskStatus merged,
                    (case fm_get incoming ''status'' of
                       None \<Rightarrow> decisions
                     | Some incomingStatus \<Rightarrow>
                         (if lib_Status L existing \<noteq> lib_Status L incoming
                          then decisions @ [decision ''status'' diskStatus incomingStatus]
                          else decisions)))
              else (merged, decisions))))"

definition operatorPinnedStep ::
  "fm \<Rightarrow> fm \<Rightarrow> fm \<times> GuardDecision list \<Rightarrow> string \<Rightarrow> fm \<times> GuardDecision list" where
  "operatorPinnedStep existing incoming acc field =
     (case acc of (merged, decisions) \<Rightarrow>
        (case fm_get incoming field of
           None \<Rightarrow> (merged, decisions)
         | Some incomingValue \<Rightarrow>
             (case fm_get existing field of
                None \<Rightarrow> (fmdrop field merged, decisions @ [decision field VNil incomingValue])
              | Some diskValue \<Rightarrow>
                  (fmupd field diskValue merged,
                   decisions @ discard field diskValue (Some incomingValue)))))"

definition applyOperatorPinnedFields ::
  "fm \<Rightarrow> fm \<Rightarrow> fm \<times> GuardDecision list \<Rightarrow> fm \<times> GuardDecision list" where
  "applyOperatorPinnedFields existing incoming acc =
     foldl (operatorPinnedStep existing incoming) acc operatorPinnedFields"

definition declaresReassignment :: "fm \<Rightarrow> bool" where
  "declaresReassignment incoming =
     (case as_string (fm_get incoming reassignmentDeclarationKey) of
        Some declaration \<Rightarrow> declaration \<noteq> []
      | None \<Rightarrow> False)"

definition applyStaleRoutingTupleGuard ::
  "fm \<Rightarrow> fm \<Rightarrow> fm \<times> GuardDecision list \<Rightarrow> fm \<times> GuardDecision list" where
  "applyStaleRoutingTupleGuard existing incoming acc =
     (case acc of (merged, decisions) \<Rightarrow>
        (case (fm_get existing ''task_type'', fm_get incoming ''task_type'') of
           (Some diskValue, Some incomingValue) \<Rightarrow>
             (fmupd ''task_type'' diskValue merged,
              decisions @ discard ''task_type'' diskValue (Some incomingValue))
         | _ \<Rightarrow> (merged, decisions)))"

definition operatorOwnedStep ::
  "fm \<Rightarrow> fm \<Rightarrow> fm \<times> GuardDecision list \<Rightarrow> string \<Rightarrow> fm \<times> GuardDecision list" where
  "operatorOwnedStep existing incoming acc field =
     (case acc of (merged, decisions) \<Rightarrow>
        (case fm_get existing field of
           None \<Rightarrow> (merged, decisions)
         | Some diskValue \<Rightarrow>
             (case fm_get incoming field of
                None \<Rightarrow> (fmupd field diskValue merged, decisions)
              | Some incomingValue \<Rightarrow>
                  (if field = ''assignee'' \<and> incomingValue = VStr []
                   then (fmupd field incomingValue merged, decisions)
                   else if field = ''assignee'' \<and> declaresReassignment incoming
                   then (fmdrop reassignmentDeclarationKey (fmupd field incomingValue merged), decisions)
                   else
                     (let acc' = (fmupd field diskValue merged,
                                  decisions @ discard field diskValue (Some incomingValue))
                      in if \<not> FrontmatterValueEqual diskValue incomingValue \<and> field = ''assignee''
                         then applyStaleRoutingTupleGuard existing incoming acc'
                         else acc')))))"

definition applyOperatorOwnedFields ::
  "fm \<Rightarrow> fm \<Rightarrow> fm \<times> GuardDecision list \<Rightarrow> fm \<times> GuardDecision list" where
  "applyOperatorOwnedFields existing incoming acc =
     foldl (operatorOwnedStep existing incoming) acc operatorOwnedFields"

definition accumulatedCounterStep ::
  "fm \<Rightarrow> fm \<Rightarrow> fm \<times> GuardDecision list \<Rightarrow> string \<Rightarrow> fm \<times> GuardDecision list" where
  "accumulatedCounterStep existing incoming acc field =
     (case acc of (merged, decisions) \<Rightarrow>
        (case (fm_get existing field, fm_get incoming field) of
           (Some diskValue, Some incomingValue) \<Rightarrow>
             (case (numericValue diskValue, numericValue incomingValue) of
                (Some diskNumber, Some incomingNumber) \<Rightarrow>
                  (fmupd field (VFloat (fadd diskNumber incomingNumber)) merged, decisions)
              | _ \<Rightarrow> (fmupd field diskValue merged,
                      decisions @ discard field diskValue (Some incomingValue)))
         | _ \<Rightarrow> (merged, decisions)))"

definition applyAccumulatedCounters ::
  "fm \<Rightarrow> fm \<Rightarrow> fm \<times> GuardDecision list \<Rightarrow> fm \<times> GuardDecision list" where
  "applyAccumulatedCounters existing incoming acc =
     foldl (accumulatedCounterStep existing incoming) acc accumulatedCounters"

definition MergeFrontmatter :: "pure_lib \<Rightarrow> fm \<Rightarrow> fm \<Rightarrow> fm \<times> GuardDecision list" where
  "MergeFrontmatter L existing incoming =
     (let base = (existing ++\<^sub>f incoming, []);
          owned = foldl (controllerOwnedStep existing incoming) base controllerOwnedFields;
          pinnedStatus = pinTerminalStatus L existing incoming owned;
          pinned = applyOperatorPinnedFields existing incoming pinnedStatus;
          routed = applyOperatorOwnedFields existing incoming pinned
      in applyAccumulatedCounters existing incoming routed)"

definition HealTargetVault :: "fm \<Rightarrow> string \<Rightarrow> fm" where
  "HealTargetVault m vaultName =
     (case fm_get m ''target_vault'' of
        None \<Rightarrow> fmupd ''target_vault'' (VStr vaultName) m
      | Some _ \<Rightarrow> m)"

definition ClearCurrentJobIfTerminal :: "pure_lib \<Rightarrow> fm \<Rightarrow> fm" where
  "ClearCurrentJobIfTerminal L m =
     (if \<not> isTerminalStatus (lib_Status L m) then m
      else case fm_get m ''current_job'' of
             None \<Rightarrow> m
           | Some v \<Rightarrow> if v \<noteq> VNil \<and> v \<noteq> VStr [] then fmupd ''current_job'' (VStr []) m else m)"

section \<open>The merge, stage by stage\<close>

lemmas field_list_defs =
  controllerOwnedFields_def operatorOwnedFields_def operatorPinnedFields_def
  accumulatedCounters_def reassignmentDeclarationKey_def

lemma field_mem [simp]:
  "k \<in> set controllerOwnedFields \<longleftrightarrow> k = ''trigger_count'' \<or> k = ''trigger_scope'' \<or> k = ''max_triggers''"
  "k \<in> set operatorPinnedFields \<longleftrightarrow> k = ''cluster''"
  "k \<in> set operatorOwnedFields \<longleftrightarrow> k = ''assignee'' \<or> k = ''previous_assignee''"
  "k \<in> set accumulatedCounters \<longleftrightarrow> k = ''metrics_agent_turns'' \<or> k = ''metrics_interaction_count''"
  by (simp_all add: field_list_defs)

declare fmlookup_add [simp del]
declare fmlookup_fmadd [simp]

lemma controllerOwnedStep_get:
  "fm_get (fst (controllerOwnedStep e i acc f)) k =
     (if k = f then (if fm_get e f = None \<and> fm_get i f = None then fm_get (fst acc) k else fm_get e f)
      else fm_get (fst acc) k)"
  by (cases acc) (auto simp: controllerOwnedStep_def split: option.splits)

lemma controllerOwned_get:
  "fm_get (fst (foldl (controllerOwnedStep e i) (e ++\<^sub>f i, []) controllerOwnedFields)) k =
     (if k \<in> set controllerOwnedFields then fm_get e k else fm_get (e ++\<^sub>f i) k)"
  by (simp add: controllerOwnedFields_def controllerOwnedStep_get split: option.splits)

lemma pinTerminalStatus_get:
  "fm_get (fst (pinTerminalStatus L e i acc)) k =
     (if k = ''status'' \<and> fm_get e ''status'' \<noteq> None \<and> isTerminalStatus (lib_Status L e)
      then fm_get e k else fm_get (fst acc) k)"
  by (cases acc) (auto simp: pinTerminalStatus_def split: option.splits)

lemma applyOperatorPinnedFields_get:
  "fm_get (fst (applyOperatorPinnedFields e i acc)) k =
     (if k \<in> set operatorPinnedFields \<and> fm_get i k \<noteq> None then fm_get e k else fm_get (fst acc) k)"
  by (cases acc)
    (auto simp: applyOperatorPinnedFields_def operatorPinnedFields_def operatorPinnedStep_def
      split: option.splits)

lemma applyStaleRoutingTupleGuard_get:
  "fm_get (fst (applyStaleRoutingTupleGuard e i acc)) k =
     (if k = ''task_type'' \<and> fm_get e k \<noteq> None \<and> fm_get i k \<noteq> None then fm_get e k
      else fm_get (fst acc) k)"
  by (cases acc) (auto simp: applyStaleRoutingTupleGuard_def split: option.splits)

text \<open>The incoming assignee is applied over the one on disk by a clear or a declared reassignment.\<close>

definition assignee_applied :: "fm \<Rightarrow> bool" where
  "assignee_applied i \<longleftrightarrow> fm_get i ''assignee'' = Some (VStr []) \<or> declaresReassignment i"

definition assignee_discarded :: "fm \<Rightarrow> fm \<Rightarrow> bool" where
  "assignee_discarded e i \<longleftrightarrow>
     (case (fm_get e ''assignee'', fm_get i ''assignee'') of
        (Some d, Some v) \<Rightarrow> \<not> assignee_applied i \<and> \<not> FrontmatterValueEqual d v
      | _ \<Rightarrow> False)"

lemma operatorOwnedStep_assignee_get:
  "fm_get (fst (operatorOwnedStep e i acc ''assignee'')) k =
     (if fm_get e ''assignee'' = None then fm_get (fst acc) k
      else if k = ''assignee'' then
        (if fm_get i k \<noteq> None \<and> assignee_applied i then fm_get i k else fm_get e k)
      else if k = reassignmentDeclarationKey \<and> fm_get i ''assignee'' \<noteq> None \<and>
              fm_get i ''assignee'' \<noteq> Some (VStr []) \<and> declaresReassignment i then None
      else if k = ''task_type'' \<and> assignee_discarded e i \<and> fm_get e k \<noteq> None \<and> fm_get i k \<noteq> None
           then fm_get e k
      else fm_get (fst acc) k)"
  by (cases acc)
    (auto simp: operatorOwnedStep_def assignee_applied_def assignee_discarded_def Let_def
      applyStaleRoutingTupleGuard_get reassignmentDeclarationKey_def split: option.splits)

lemma operatorOwnedStep_previous_get:
  "fm_get (fst (operatorOwnedStep e i acc ''previous_assignee'')) k =
     (if k = ''previous_assignee'' \<and> fm_get e k \<noteq> None then fm_get e k else fm_get (fst acc) k)"
  by (cases acc) (auto simp: operatorOwnedStep_def Let_def split: option.splits)

lemma accumulatedCounterStep_get:
  "fm_get (fst (accumulatedCounterStep e i acc f)) k =
     (if k = f then
        (case (fm_get e f, fm_get i f) of
           (Some d, Some v) \<Rightarrow>
             (case (numericValue d, numericValue v) of
                (Some x, Some y) \<Rightarrow> Some (VFloat (fadd x y))
              | _ \<Rightarrow> Some d)
         | _ \<Rightarrow> fm_get (fst acc) k)
      else fm_get (fst acc) k)"
  by (cases acc) (auto simp: accumulatedCounterStep_def split: option.splits)

text \<open>The keys some rule of the guard is about.\<close>

definition guardedKeys :: "string list" where
  "guardedKeys = controllerOwnedFields @ operatorPinnedFields @ operatorOwnedFields @
     accumulatedCounters @ [''status'', ''task_type'', reassignmentDeclarationKey]"

lemma MergeFrontmatter_get:
  "fm_get (fst (MergeFrontmatter L e i)) k =
     fm_get (fst (foldl (accumulatedCounterStep e i)
       (applyOperatorOwnedFields e i (applyOperatorPinnedFields e i (pinTerminalStatus L e i
         (foldl (controllerOwnedStep e i) (e ++\<^sub>f i, []) controllerOwnedFields)))) accumulatedCounters)) k"
  by (simp add: MergeFrontmatter_def Let_def applyAccumulatedCounters_def)

lemmas merge_get =
  MergeFrontmatter_get applyOperatorOwnedFields_def operatorOwnedFields_def accumulatedCounters_def
  accumulatedCounterStep_get operatorOwnedStep_previous_get operatorOwnedStep_assignee_get
  applyOperatorPinnedFields_get pinTerminalStatus_get controllerOwned_get

lemma merge_get_owned:
  "k \<in> set controllerOwnedFields \<Longrightarrow> fm_get (fst (MergeFrontmatter L e i)) k = fm_get e k"
  unfolding field_mem by (elim disjE; simp add: merge_get reassignmentDeclarationKey_def)

lemma merge_get_status:
  "fm_get (fst (MergeFrontmatter L e i)) ''status'' =
     (if fm_get e ''status'' \<noteq> None \<and> isTerminalStatus (lib_Status L e) then fm_get e ''status''
      else fm_get (e ++\<^sub>f i) ''status'')"
  by (simp add: merge_get reassignmentDeclarationKey_def)

lemma merge_get_assignee:
  "fm_get (fst (MergeFrontmatter L e i)) ''assignee'' =
     (if fm_get e ''assignee'' = None then fm_get i ''assignee''
      else if fm_get i ''assignee'' \<noteq> None \<and> assignee_applied i then fm_get i ''assignee''
      else fm_get e ''assignee'')"
  by (simp add: merge_get reassignmentDeclarationKey_def split: option.splits)

lemma merge_get_other:
  "k \<notin> set guardedKeys \<Longrightarrow>
   fm_get (fst (MergeFrontmatter L e i)) k = (case fm_get i k of Some v \<Rightarrow> Some v | None \<Rightarrow> fm_get e k)"
  by (simp add: merge_get guardedKeys_def)

lemma merge_get_cluster: "fm_get (fst (MergeFrontmatter L e i)) ''cluster'' = fm_get e ''cluster''"
  by (simp add: merge_get reassignmentDeclarationKey_def split: option.splits)

lemma merge_get_previous:
  "fm_get (fst (MergeFrontmatter L e i)) ''previous_assignee'' =
     (case fm_get e ''previous_assignee'' of Some d \<Rightarrow> Some d | None \<Rightarrow> fm_get i ''previous_assignee'')"
  by (simp add: merge_get reassignmentDeclarationKey_def split: option.splits)

lemma merge_get_task_type:
  "fm_get (fst (MergeFrontmatter L e i)) ''task_type'' =
     (if assignee_discarded e i \<and> fm_get e ''task_type'' \<noteq> None then fm_get e ''task_type''
      else fm_get (e ++\<^sub>f i) ''task_type'')"
  by (simp add: merge_get reassignmentDeclarationKey_def assignee_discarded_def split: option.splits)

lemma merge_get_declaration:
  "fm_get (fst (MergeFrontmatter L e i)) reassignmentDeclarationKey =
     (if fm_get e ''assignee'' \<noteq> None \<and> fm_get i ''assignee'' \<noteq> None \<and>
         fm_get i ''assignee'' \<noteq> Some (VStr []) \<and> declaresReassignment i then None
      else fm_get (e ++\<^sub>f i) reassignmentDeclarationKey)"
  by (simp add: merge_get reassignmentDeclarationKey_def)

lemma merge_get_counter:
  "k \<in> set accumulatedCounters \<Longrightarrow>
   fm_get (fst (MergeFrontmatter L e i)) k =
     (case (fm_get e k, fm_get i k) of
        (Some d, Some v) \<Rightarrow>
          (case (numericValue d, numericValue v) of
             (Some x, Some y) \<Rightarrow> Some (VFloat (fadd x y))
           | _ \<Rightarrow> Some d)
      | _ \<Rightarrow> fm_get (e ++\<^sub>f i) k)"
  unfolding field_mem
  by (elim disjE; simp add: merge_get reassignmentDeclarationKey_def split: option.splits)

section \<open>The decisions, stage by stage\<close>

definition diskDecision :: "fm \<Rightarrow> fm \<Rightarrow> string \<Rightarrow> GuardDecision list" where
  "diskDecision e i f = (case fm_get e f of None \<Rightarrow> [] | Some d \<Rightarrow> discard f d (fm_get i f))"

definition statusDecision :: "pure_lib \<Rightarrow> fm \<Rightarrow> fm \<Rightarrow> GuardDecision list" where
  "statusDecision L e i =
     (case (fm_get e ''status'', fm_get i ''status'') of
        (Some d, Some v) \<Rightarrow>
          (if isTerminalStatus (lib_Status L e) \<and> lib_Status L e \<noteq> lib_Status L i
           then [decision ''status'' d v] else [])
      | _ \<Rightarrow> [])"

definition pinnedDecision :: "fm \<Rightarrow> fm \<Rightarrow> string \<Rightarrow> GuardDecision list" where
  "pinnedDecision e i f =
     (case (fm_get i f, fm_get e f) of
        (Some v, None) \<Rightarrow> [decision f VNil v]
      | (Some v, Some d) \<Rightarrow> discard f d (Some v)
      | _ \<Rightarrow> [])"

definition counterDecision :: "fm \<Rightarrow> fm \<Rightarrow> string \<Rightarrow> GuardDecision list" where
  "counterDecision e i f =
     (case (fm_get e f, fm_get i f) of
        (Some d, Some v) \<Rightarrow>
          (if numericValue d \<noteq> None \<and> numericValue v \<noteq> None then [] else discard f d (Some v))
      | _ \<Rightarrow> [])"

lemma snd_controllerOwnedStep:
  "snd (controllerOwnedStep e i acc f) = snd acc @ diskDecision e i f"
  by (cases acc) (simp add: controllerOwnedStep_def diskDecision_def split: option.splits)

lemma snd_pinTerminalStatus: "snd (pinTerminalStatus L e i acc) = snd acc @ statusDecision L e i"
  by (cases acc) (simp add: pinTerminalStatus_def statusDecision_def split: option.splits)

lemma snd_operatorPinnedStep: "snd (operatorPinnedStep e i acc f) = snd acc @ pinnedDecision e i f"
  by (cases acc) (simp add: operatorPinnedStep_def pinnedDecision_def split: option.splits)

lemma snd_staleRouting:
  "snd (applyStaleRoutingTupleGuard e i acc) = snd acc @ diskDecision e i ''task_type''"
  by (cases acc)
    (simp add: applyStaleRoutingTupleGuard_def diskDecision_def discard_def split: option.splits)

lemma snd_operatorOwnedStep_assignee:
  "snd (operatorOwnedStep e i acc ''assignee'') =
     snd acc @ (if assignee_discarded e i
       then diskDecision e i ''assignee'' @ diskDecision e i ''task_type'' else [])"
  by (cases acc)
    (auto simp: operatorOwnedStep_def assignee_discarded_def assignee_applied_def discard_def Let_def
      snd_staleRouting diskDecision_def split: option.splits)

lemma snd_operatorOwnedStep_previous:
  "snd (operatorOwnedStep e i acc ''previous_assignee'') = snd acc @ diskDecision e i ''previous_assignee''"
  by (cases acc) (simp add: operatorOwnedStep_def diskDecision_def discard_def Let_def split: option.splits)

lemma snd_accumulatedCounterStep:
  "snd (accumulatedCounterStep e i acc f) = snd acc @ counterDecision e i f"
  by (cases acc) (simp add: accumulatedCounterStep_def counterDecision_def split: option.splits)

lemmas merge_decisions =
  MergeFrontmatter_def Let_def applyAccumulatedCounters_def applyOperatorOwnedFields_def
  applyOperatorPinnedFields_def controllerOwnedFields_def operatorOwnedFields_def
  operatorPinnedFields_def accumulatedCounters_def
  snd_controllerOwnedStep snd_pinTerminalStatus snd_operatorPinnedStep
  snd_operatorOwnedStep_assignee snd_operatorOwnedStep_previous snd_accumulatedCounterStep

lemma discard_mem:
  "d \<in> set (discard f v w) \<longleftrightarrow>
     (\<exists>r. w = Some r \<and> \<not> FrontmatterValueEqual v r \<and> d = decision f v r)"
  by (cases w) (auto simp: discard_def)

text \<open>A decision on a field names the value on disk and an incoming value that differs from it.\<close>

definition differs :: "fm \<Rightarrow> fm \<Rightarrow> string \<Rightarrow> GuardDecision \<Rightarrow> bool" where
  "differs e i f d \<longleftrightarrow>
     (\<exists>v r. fm_get e f = Some v \<and> fm_get i f = Some r \<and> \<not> FrontmatterValueEqual v r \<and> d = decision f v r)"

lemma diskDecision_mem: "d \<in> set (diskDecision e i f) \<longleftrightarrow> differs e i f d"
  by (cases "fm_get e f") (auto simp: diskDecision_def discard_mem differs_def)

lemma statusDecision_mem:
  "d \<in> set (statusDecision L e i) \<longleftrightarrow>
     isTerminalStatus (lib_Status L e) \<and> lib_Status L e \<noteq> lib_Status L i \<and>
     (\<exists>v r. fm_get e ''status'' = Some v \<and> fm_get i ''status'' = Some r \<and> d = decision ''status'' v r)"
  by (cases "fm_get e ''status''"; cases "fm_get i ''status''") (auto simp: statusDecision_def)

lemma pinnedDecision_mem:
  "d \<in> set (pinnedDecision e i f) \<longleftrightarrow>
     differs e i f d \<or> (fm_get e f = None \<and> (\<exists>r. fm_get i f = Some r \<and> d = decision f VNil r))"
  by (cases "fm_get i f"; cases "fm_get e f") (auto simp: pinnedDecision_def discard_mem differs_def)

lemma counterDecision_mem:
  "d \<in> set (counterDecision e i f) \<longleftrightarrow>
     differs e i f d \<and> (numericValue (Kept d) = None \<or> numericValue (Rejected d) = None)"
  by (cases "fm_get i f"; cases "fm_get e f") (auto simp: counterDecision_def discard_mem differs_def)

lemma merge_decision_set:
  "set (snd (MergeFrontmatter L e i)) =
     set (diskDecision e i ''trigger_count'') \<union> set (diskDecision e i ''trigger_scope'') \<union>
     set (diskDecision e i ''max_triggers'') \<union> set (statusDecision L e i) \<union>
     set (pinnedDecision e i ''cluster'') \<union>
     (if assignee_discarded e i
      then set (diskDecision e i ''assignee'') \<union> set (diskDecision e i ''task_type'') else {}) \<union>
     set (diskDecision e i ''previous_assignee'') \<union>
     set (counterDecision e i ''metrics_agent_turns'') \<union> set (counterDecision e i ''metrics_interaction_count'')"
  by (cases "assignee_discarded e i") (simp_all add: merge_decisions Un_assoc Un_def)

lemma merge_decision_cases:
  assumes "d \<in> set (snd (MergeFrontmatter L e i))"
  obtains (own) f where "f \<in> set controllerOwnedFields \<or> f = ''previous_assignee''" "differs e i f d"
  | (status) v r where "isTerminalStatus (lib_Status L e)" "fm_get e ''status'' = Some v"
      "fm_get i ''status'' = Some r" "d = decision ''status'' v r"
  | (cluster) "differs e i ''cluster'' d"
  | (cluster_nil) r where "fm_get e ''cluster'' = None" "fm_get i ''cluster'' = Some r"
      "d = decision ''cluster'' VNil r"
  | (route) f where "assignee_discarded e i" "f = ''assignee'' \<or> f = ''task_type''" "differs e i f d"
  | (counter) f where "f \<in> set accumulatedCounters" "differs e i f d"
      "numericValue (Kept d) = None \<or> numericValue (Rejected d) = None"
  using assms unfolding merge_decision_set
proof (elim UnE, goal_cases)
  case 1
  show thesis by (rule own [of "''trigger_count''"]) (use 1 in \<open>simp_all add: diskDecision_mem\<close>)
next
  case 2
  show thesis by (rule own [of "''trigger_scope''"]) (use 2 in \<open>simp_all add: diskDecision_mem\<close>)
next
  case 3
  show thesis by (rule own [of "''max_triggers''"]) (use 3 in \<open>simp_all add: diskDecision_mem\<close>)
next
  case 4
  then show thesis unfolding statusDecision_mem using status by blast
next
  case 5
  then show thesis unfolding pinnedDecision_mem using cluster cluster_nil by blast
next
  case 6
  then have "assignee_discarded e i" and "differs e i ''assignee'' d \<or> differs e i ''task_type'' d"
    by (simp_all add: diskDecision_mem split: if_splits)
  then show thesis using route by blast
next
  case 7
  show thesis by (rule own [of "''previous_assignee''"]) (use 7 in \<open>simp_all add: diskDecision_mem\<close>)
next
  case 8
  show thesis by (rule counter [of "''metrics_agent_turns''"]) (use 8 in \<open>simp_all add: counterDecision_mem\<close>)
next
  case 9
  show thesis by (rule counter [of "''metrics_interaction_count''"]) (use 9 in \<open>simp_all add: counterDecision_mem\<close>)
qed

text \<open>What a reported decision says: its field, the value on disk and the incoming one.\<close>

definition reports :: "fm \<Rightarrow> fm \<Rightarrow> GuardDecision \<Rightarrow> bool" where
  "reports e i d \<longleftrightarrow> fm_get i (FieldName d) = Some (Rejected d) \<and>
     (fm_get e (FieldName d) = Some (Kept d) \<or> fm_get e (FieldName d) = None \<and> Kept d = VNil)"

lemma differs_reports: "differs e i f d \<Longrightarrow> reports e i d \<and> FieldName d = f"
  by (auto simp: differs_def reports_def)

section \<open>Properties\<close>

text \<open>C1: the ownership rule of every guarded field. Controller-owned fields and the operator's
  cluster pin keep exactly what is on disk, absence included; \<open>previous_assignee\<close> keeps the disk value
  when there is one; the assignee on disk is replaced only by an explicit clear or a declared
  reassignment; and a discarded assignee takes the incoming task type with it.\<close>

theorem merge_ownership:
  "(\<forall>f. f \<in> set controllerOwnedFields \<or> f \<in> set operatorPinnedFields \<longrightarrow>
      fm_get (fst (MergeFrontmatter L e i)) f = fm_get e f) \<and>
   fm_get (fst (MergeFrontmatter L e i)) ''previous_assignee'' =
     (case fm_get e ''previous_assignee'' of Some d \<Rightarrow> Some d | None \<Rightarrow> fm_get i ''previous_assignee'') \<and>
   fm_get (fst (MergeFrontmatter L e i)) ''assignee'' =
     (case (fm_get e ''assignee'', fm_get i ''assignee'') of
        (None, v) \<Rightarrow> v
      | (Some d, None) \<Rightarrow> Some d
      | (Some d, Some v) \<Rightarrow> if v = VStr [] \<or> declaresReassignment i then Some v else Some d) \<and>
   (assignee_discarded e i \<and> fm_get e ''task_type'' \<noteq> None \<longrightarrow>
      fm_get (fst (MergeFrontmatter L e i)) ''task_type'' = fm_get e ''task_type'')"
proof (intro conjI allI impI)
  fix f
  assume "f \<in> set controllerOwnedFields \<or> f \<in> set operatorPinnedFields"
  then show "fm_get (fst (MergeFrontmatter L e i)) f = fm_get e f"
    using merge_get_owned [of f L e i] merge_get_cluster [of L e i] by (elim disjE) simp_all
qed (auto simp: merge_get_previous merge_get_assignee merge_get_task_type assignee_applied_def
      split: option.splits)

theorem merge_ownership_witness:
  "fm_get (fst (MergeFrontmatter ref_lib
      (fmap_of_list [(''trigger_count'', VInt 3), (''assignee'', VStr ''fixer''), (''task_type'', VStr ''fix'')])
      (fmap_of_list [(''trigger_count'', VFloat (Fin 0 0)), (''assignee'', VStr ''old''), (''task_type'', VStr ''scan'')])))
     ''task_type'' = Some (VStr ''fix'')"
proof -
  let ?e = "fmap_of_list [(''trigger_count'', VInt 3), (''assignee'', VStr ''fixer''), (''task_type'', VStr ''fix'')]"
  let ?i = "fmap_of_list [(''trigger_count'', VFloat (Fin 0 0)), (''assignee'', VStr ''old''), (''task_type'', VStr ''scan'')]"
  have "assignee_discarded ?e ?i \<and> fm_get ?e ''task_type'' \<noteq> None"
    by (simp add: assignee_discarded_def assignee_applied_def declaresReassignment_def
        reassignmentDeclarationKey_def fmlookup_of_list)
  then show ?thesis
    using merge_ownership [of ref_lib ?e ?i] by (simp add: fmlookup_of_list)
qed

text \<open>a terminal status on disk survives every incoming result, whatever its spelling; any other
  status is replaced by the incoming one.\<close>

theorem merge_terminal_status:
  assumes "lib_ok L"
  shows "(fm_get e ''status'' \<noteq> None \<and> isTerminalStatus (lib_Status L e) \<longrightarrow>
            lib_Status L (fst (MergeFrontmatter L e i)) = lib_Status L e \<and>
            fm_get (fst (MergeFrontmatter L e i)) ''status'' = fm_get e ''status'') \<and>
         (\<not> isTerminalStatus (lib_Status L e) \<and> fm_get i ''status'' \<noteq> None \<longrightarrow>
            fm_get (fst (MergeFrontmatter L e i)) ''status'' = fm_get i ''status'')"
  using lib_Status_cong [OF assms, of "fst (MergeFrontmatter L e i)" e]
  by (auto simp: merge_get_status)

theorem merge_terminal_status_witness:
  "lib_Status ref_lib (fst (MergeFrontmatter ref_lib
     (fmap_of_list [(''status'', VStr ''done'')]) (fmap_of_list [(''status'', VStr ''in_progress'')]))) = ''completed''"
  using merge_terminal_status [OF lib_ok_ref_lib, of "fmap_of_list [(''status'', VStr ''done'')]"
      "fmap_of_list [(''status'', VStr ''in_progress'')]"]
  by (simp add: ref_lib_def isTerminalStatus_def terminalStatuses_def fmlookup_of_list)

text \<open>every decision the guard reports is true: the incoming payload carried the rejected value,
  the kept value is the one on disk (nil for an absent key), and the merge wrote exactly what the disk
  had for that field.\<close>

theorem merge_decisions_sound:
  assumes "d \<in> set (snd (MergeFrontmatter L e i))"
  shows "reports e i d \<and>
         fm_get (fst (MergeFrontmatter L e i)) (FieldName d) = fm_get e (FieldName d)"
  using assms
proof (cases rule: merge_decision_cases)
  case (own f)
  then show ?thesis
    using differs_reports [OF own(2)] merge_get_owned [of f L e i] by (auto simp: merge_get_previous differs_def)
next
  case (route f)
  then show ?thesis
    using differs_reports [OF route(3)]
    by (auto simp: merge_get_assignee merge_get_task_type assignee_discarded_def differs_def split: option.splits)
next
  case (counter f)
  then show ?thesis
    using differs_reports [OF counter(2)] merge_get_counter [OF counter(1), of L e i]
    by (auto simp: differs_def split: option.splits)
qed (auto simp: reports_def merge_get_status merge_get_cluster dest: differs_reports)

theorem merge_decisions_sound_witness:
  "reports (fmap_of_list [(''cluster'', VStr ''nuke'')]) (fmap_of_list [(''cluster'', VStr ''sun'')])
     (decision ''cluster'' (VStr ''nuke'') (VStr ''sun''))"
proof -
  have "decision ''cluster'' (VStr ''nuke'') (VStr ''sun'') \<in> set (snd (MergeFrontmatter ref_lib
      (fmap_of_list [(''cluster'', VStr ''nuke'')]) (fmap_of_list [(''cluster'', VStr ''sun'')])))"
    unfolding merge_decision_set by (simp add: pinnedDecision_def discard_def fmlookup_of_list)
  from merge_decisions_sound [OF this] show ?thesis by simp
qed

lemma guardedKeys_cases:
  assumes "k \<in> set guardedKeys"
  obtains (own) "k \<in> set controllerOwnedFields" | (cluster) "k = ''cluster''" | (assignee) "k = ''assignee''"
  | (previous) "k = ''previous_assignee''" | (counter) "k \<in> set accumulatedCounters"
  | (status) "k = ''status''" | (task_type) "k = ''task_type''" | (declared) "k = reassignmentDeclarationKey"
proof -
  from assms have "k \<in> set controllerOwnedFields \<or> k = ''cluster'' \<or> k = ''assignee'' \<or> k = ''previous_assignee'' \<or>
   k \<in> set accumulatedCounters \<or> k = ''status'' \<or> k = ''task_type'' \<or> k = reassignmentDeclarationKey"
    unfolding guardedKeys_def set_append Un_iff field_mem(2,3) by (simp del: field_mem)
  then show thesis by (elim disjE) (fact that)+
qed

lemma decision_kept:
  assumes "fm_get e k = Some w" and "fm_get i k = Some v" and "\<not> FrontmatterValueEqual w v"
    and "k \<in> set controllerOwnedFields \<union> {''previous_assignee'', ''cluster''} \<or>
         k \<in> {''assignee'', ''task_type''} \<and> assignee_discarded e i \<or>
         k = ''status'' \<and> isTerminalStatus (lib_Status L e) \<and> lib_Status L e \<noteq> lib_Status L i \<or>
         k \<in> set accumulatedCounters \<and> numericValue v = None"
  shows "\<exists>d \<in> set (snd (MergeFrontmatter L e i)). FieldName d = k \<and> Rejected d = v"
proof -
  have "differs e i k (decision k w v)" using assms(1-3) by (simp add: differs_def)
  then have "decision k w v \<in> set (snd (MergeFrontmatter L e i))"
    using assms
    unfolding merge_decision_set
    by (auto simp: diskDecision_mem statusDecision_mem pinnedDecision_mem counterDecision_mem)
  then show ?thesis by force
qed

lemma decision_cluster_nil:
  assumes "fm_get i ''cluster'' = Some v" and "fm_get e ''cluster'' = None"
  shows "\<exists>d \<in> set (snd (MergeFrontmatter L e i)). FieldName d = ''cluster'' \<and> Rejected d = v"
proof -
  have "decision ''cluster'' VNil v \<in> set (snd (MergeFrontmatter L e i))"
    unfolding merge_decision_set using assms by (simp add: pinnedDecision_mem)
  then show ?thesis by force
qed

text \<open>no differing incoming value disappears silently. If the merge did not write the incoming
  value of a key, then a decision reports it, or the value on disk compares equal to it, or it is one
  of the cases the guard documents as silent: a controller-owned key that the disk lacks, a status that
  normalises to the pinned one, a counter that was summed, the consumed declaration.\<close>

theorem merge_decisions_complete:
  assumes "fm_get i k = Some v" and "fm_get (fst (MergeFrontmatter L e i)) k \<noteq> Some v"
  shows "(\<exists>d \<in> set (snd (MergeFrontmatter L e i)). FieldName d = k \<and> Rejected d = v) \<or>
         (\<exists>w. fm_get e k = Some w \<and> FrontmatterValueEqual w v) \<or>
         (k \<in> set controllerOwnedFields \<and> fm_get e k = None) \<or>
         (k = ''status'' \<and> lib_Status L e = lib_Status L i) \<or>
         (k \<in> set accumulatedCounters \<and> numericValue v \<noteq> None) \<or>
         k = reassignmentDeclarationKey"
proof (cases "k \<in> set guardedKeys")
  case False
  then show ?thesis using assms by (simp add: merge_get_other)
next
  case True
  show ?thesis
  proof (cases "fm_get e k")
    case None
    from True show ?thesis
    proof (cases rule: guardedKeys_cases)
      case own
      with None show ?thesis by (simp only: simp_thms)
    next
      case cluster
      then show ?thesis using decision_cluster_nil [of i v e L] None assms(1) by (simp only: simp_thms)
    next
      case counter
      then show ?thesis using None assms merge_get_counter [OF counter, of L e i] by simp
    qed (use None assms in \<open>simp_all add: merge_get_previous merge_get_assignee merge_get_task_type merge_get_status\<close>)
  next
    case (Some w)
    show ?thesis
    proof (cases "FrontmatterValueEqual w v")
      case True
      then have "\<exists>w. fm_get e k = Some w \<and> FrontmatterValueEqual w v" using Some by simp
      then show ?thesis by (simp only: simp_thms)
    next
      case False
      note kept = decision_kept [OF Some assms(1) False, of L]
      from True show ?thesis
      proof (cases rule: guardedKeys_cases)
        case assignee
        then have "assignee_discarded e i"
          using Some assms False by (simp add: merge_get_assignee assignee_discarded_def split: if_splits)
        with kept assignee show ?thesis by simp
      next
        case task_type
        then have "assignee_discarded e i"
          using Some assms by (simp add: merge_get_task_type split: if_splits)
        with kept task_type show ?thesis by simp
      next
        case status
        then have "isTerminalStatus (lib_Status L e)"
          using Some assms by (simp add: merge_get_status split: if_splits)
        with kept status show ?thesis by auto
      next
        case counter
        with kept show ?thesis by (cases "numericValue v") (simp_all del: field_mem)
      qed (use kept in \<open>simp_all del: field_mem\<close>)
    qed
  qed
qed

theorem merge_decisions_complete_witness:
  "\<exists>d \<in> set (snd (MergeFrontmatter ref_lib fmempty (fmap_of_list [(''cluster'', VStr ''sun'')]))).
     FieldName d = ''cluster'' \<and> Rejected d = VStr ''sun''"
proof -
  let ?i = "fmap_of_list [(''cluster'', VStr ''sun'')]"
  have "fm_get ?i ''cluster'' = Some (VStr ''sun'')" by (simp add: fmlookup_of_list)
  moreover have "fm_get (fst (MergeFrontmatter ref_lib fmempty ?i)) ''cluster'' \<noteq> Some (VStr ''sun'')"
    by (simp add: merge_get_cluster)
  ultimately show ?thesis
    using merge_decisions_complete [of ?i "''cluster''" "VStr ''sun''" ref_lib fmempty]
    by (simp add: reassignmentDeclarationKey_def)
qed

text \<open>the accumulated counters are cumulative: with a number on both sides, an integer decoded
  from YAML or a float decoded from JSON, the written value is the exact sum while the values stay
  below 2 to the 53, and no decision reports it.\<close>

theorem merge_counters_add:
  assumes "f \<in> set accumulatedCounters"
    and "fm_get e f \<in> {Some (VInt a), Some (VFloat (Fin a 0))}"
    and "fm_get i f \<in> {Some (VInt b), Some (VFloat (Fin b 0))}"
    and "\<bar>a\<bar> < 2 ^ 53" "\<bar>b\<bar> < 2 ^ 53" "\<bar>a + b\<bar> < 2 ^ 53"
  shows "fm_get (fst (MergeFrontmatter L e i)) f = Some (VFloat (Fin (a + b) 0)) \<and>
         (\<forall>d \<in> set (snd (MergeFrontmatter L e i)). FieldName d \<noteq> f)"
proof -
  have num: "\<exists>v. fm_get e f = Some v \<and> numericValue v = Some (Fin a 0)"
    "\<exists>v. fm_get i f = Some v \<and> numericValue v = Some (Fin b 0)"
    using assms(2-5) by (auto simp: float_of_int_exact)
  then have "fm_get (fst (MergeFrontmatter L e i)) f = Some (VFloat (Fin (a + b) 0))"
    using merge_get_counter [OF assms(1), of L e i] fadd_int_exact [OF assms(6)] by auto
  moreover have "FieldName d \<noteq> f" if d: "d \<in> set (snd (MergeFrontmatter L e i))" for d
  proof
    assume f: "FieldName d = f"
    from d show False
    proof (cases rule: merge_decision_cases)
      case (counter g)
      then show False using num f by (auto simp: differs_def)
    qed (use f assms(1) in \<open>auto simp: differs_def\<close>)
  qed
  ultimately show ?thesis by blast
qed

theorem merge_counters_add_witness:
  "fm_get (fst (MergeFrontmatter ref_lib (fmap_of_list [(''metrics_agent_turns'', VInt 12)])
     (fmap_of_list [(''metrics_agent_turns'', VFloat (Fin 30 0))]))) ''metrics_agent_turns'' = Some (VFloat (Fin 42 0))"
  using merge_counters_add [of "''metrics_agent_turns''" "fmap_of_list [(''metrics_agent_turns'', VInt 12)]" 12
      "fmap_of_list [(''metrics_agent_turns'', VFloat (Fin 30 0))]" 30 ref_lib]
  by (simp add: fmlookup_of_list)

text \<open>the reassignment declaration is removed from the merged frontmatter exactly when it was
  honoured over an assignee on disk. When the disk has no assignee, or the payload clears the assignee,
  or carries none, a declaration in the payload is written to the task.\<close>

theorem merge_declaration_consumed_iff:
  assumes "declaresReassignment i"
  shows "fm_get (fst (MergeFrontmatter L e i)) reassignmentDeclarationKey = None \<longleftrightarrow>
           fm_get e ''assignee'' \<noteq> None \<and> fm_get i ''assignee'' \<noteq> None \<and> fm_get i ''assignee'' \<noteq> Some (VStr [])"
proof -
  have "fm_get i reassignmentDeclarationKey \<noteq> None"
    using assms by (auto simp: declaresReassignment_def as_string_iff split: option.splits)
  then show ?thesis using assms by (auto simp: merge_get_declaration)
qed

theorem merge_declaration_consumed_iff_witness:
  "fm_get (fst (MergeFrontmatter ref_lib fmempty
     (fmap_of_list [(reassignmentDeclarationKey, VStr ''handoff''), (''assignee'', VStr ''fixer'')])))
     reassignmentDeclarationKey \<noteq> None"
proof -
  have "declaresReassignment
      (fmap_of_list [(reassignmentDeclarationKey, VStr ''handoff''), (''assignee'', VStr ''fixer'')])"
    by (simp add: declaresReassignment_def fmlookup_of_list)
  from merge_declaration_consumed_iff [OF this, of ref_lib fmempty] show ?thesis by simp
qed

end
