(* ===== verification/Go_Time.thy ===== *)
theory Go_Time
  imports Go_Prelude
begin

text \<open>
  The part of Go's package \<open>time\<close> the controller uses. An instant is the number of nanoseconds since
  the Unix epoch, a duration a number of nanoseconds; calendar dates are proleptic Gregorian in UTC.
  \<open>Date_unix\<close> is \<open>time.Date(\<dots>).Unix()\<close> with its normalisation of out-of-range months, days and
  hours; \<open>RFC3339\<close> is \<open>t.UTC().Format(time.RFC3339)\<close>.
\<close>

type_synonym instant = int
type_synonym duration = int

definition Second :: duration where "Second = 1000000000"
definition Minute :: duration where "Minute = 60 * Second"
definition Hour :: duration where "Hour = 60 * Minute"

section \<open>Dates\<close>

definition leap :: "int \<Rightarrow> bool" where
  "leap y \<longleftrightarrow> y mod 4 = 0 \<and> (y mod 100 \<noteq> 0 \<or> y mod 400 = 0)"

text \<open>Days from the start of year 1 to the start of year \<open>y\<close>.\<close>

definition days_before_year :: "int \<Rightarrow> int" where
  "days_before_year y = 365 * (y - 1) + (y - 1) div 4 - (y - 1) div 100 + (y - 1) div 400"

definition month_lengths :: "int \<Rightarrow> int list" where
  "month_lengths y = [31, if leap y then 29 else 28, 31, 30, 31, 30, 31, 31, 30, 31, 30, 31]"

text \<open>Days before the month with index \<open>k\<close>, counted from zero.\<close>

definition days_before_month :: "int \<Rightarrow> nat \<Rightarrow> int" where
  "days_before_month y k = sum_list (take k (month_lengths y))"

text \<open>The day number since the epoch; month and day may be out of range.\<close>

definition unix_day :: "int \<Rightarrow> int \<Rightarrow> int \<Rightarrow> int" where
  "unix_day y m d =
     (let y' = y + (m - 1) div 12; k = nat ((m - 1) mod 12)
      in days_before_year y' + days_before_month y' k + d - 1 - 719162)"

definition Date_unix :: "int \<Rightarrow> int \<Rightarrow> int \<Rightarrow> int \<Rightarrow> int" where
  "Date_unix y m d h = 86400 * unix_day y m d + 3600 * h"

text \<open>\<open>Weekday\<close>, Sunday being 0; the epoch was a Thursday.\<close>

definition Weekday :: "int \<Rightarrow> int" where
  "Weekday day = (day + 4) mod 7"

section \<open>Formatting\<close>

definition civil :: "int \<Rightarrow> int \<times> int \<times> int" where
  "civil day =
     (let z = day + 719468; era = z div 146097; doe = z mod 146097;
          yoe = (doe - doe div 1460 + doe div 36524 - doe div 146096) div 365;
          doy = doe - (365 * yoe + yoe div 4 - yoe div 100);
          mp = (5 * doy + 2) div 153;
          m = (if mp < 10 then mp + 3 else mp - 9)
      in (yoe + era * 400 + (if m \<le> 2 then 1 else 0), m, doy - (153 * mp + 2) div 5 + 1))"

definition pad :: "nat \<Rightarrow> int \<Rightarrow> string" where
  "pad w n = (let s = nat_dec (nat \<bar>n\<bar>) in
     (if n < 0 then ''-'' else []) @ replicate (w - length s) (CHR ''0'') @ s)"

definition RFC3339 :: "instant \<Rightarrow> string" where
  "RFC3339 t =
     (let secs = t div Second; day = secs div 86400; r = secs mod 86400
      in case civil day of (y, m, d) \<Rightarrow>
           pad 4 y @ ''-'' @ pad 2 m @ ''-'' @ pad 2 d @ ''T'' @ pad 2 (r div 3600) @ '':'' @
           pad 2 (r div 60 mod 60) @ '':'' @ pad 2 (r mod 60) @ ''Z'')"

section \<open>Lemmas\<close>

lemma div_pred:
  fixes y n :: int
  assumes "1 < n"
  shows "(y - 1) div n = y div n - (if y mod n = 0 then 1 else 0)"
proof (cases "y mod n = 0")
  case True
  then have "y - 1 = n * (y div n - 1) + (n - 1)"
    using mult_div_mod_eq [of n y] by (simp add: algebra_simps)
  then have "(y - 1) div n = y div n - 1" by (rule int_div_pos_eq) (use assms in auto)
  with True show ?thesis by simp
next
  case False
  have eq: "y - 1 = n * (y div n) + (y mod n - 1)" using mult_div_mod_eq [of n y] by simp
  have "0 \<le> y mod n" "y mod n < n" using assms by auto
  then have "(y - 1) div n = y div n" using False by (intro int_div_pos_eq [OF eq]) linarith+
  with False show ?thesis by simp
qed

lemma mod_dvd_zero: "(y :: int) mod (k * n) = 0 \<Longrightarrow> y mod n = 0"
  by (metis dvd_mult_right mod_eq_0_iff_dvd)

lemma days_before_year_step:
  "days_before_year (y + 1) = days_before_year y + (if leap y then 366 else 365)"
  using mod_dvd_zero [of y 4 100] mod_dvd_zero [of y 25 4]
  by (auto simp: days_before_year_def leap_def div_pred)

lemma days_before_month_total: "days_before_month y 12 = (if leap y then 366 else 365)"
  by (simp add: days_before_month_def month_lengths_def)

lemma month_lengths_pos: "x \<in> set (month_lengths y) \<Longrightarrow> 28 \<le> x \<and> x \<le> 31"
  by (auto simp: month_lengths_def split: if_splits)

lemma length_month_lengths [simp]: "length (month_lengths y) = 12"
  by (simp add: month_lengths_def)

lemma days_before_month_Suc:
  "k < 12 \<Longrightarrow> days_before_month y (Suc k) = days_before_month y k + month_lengths y ! k"
  by (simp add: days_before_month_def take_Suc_conv_app_nth)

lemma month_length_bounds: "k < 12 \<Longrightarrow> 28 \<le> month_lengths y ! k \<and> month_lengths y ! k \<le> 31"
  by (rule month_lengths_pos [of _ y]) simp

lemma unix_day_valid:
  "1 \<le> m \<Longrightarrow> m \<le> 12 \<Longrightarrow>
   unix_day y m d = days_before_year y + days_before_month y (nat (m - 1)) + d - 1 - 719162"
  by (simp add: unix_day_def Let_def div_pos_pos_trivial)

lemma unix_day_epoch: "unix_day 1970 1 1 = 0"
  by code_simp

lemma days_before_month_mono: "k \<le> l \<Longrightarrow> l \<le> 12 \<Longrightarrow> days_before_month y k \<le> days_before_month y l"
proof (induction l)
  case (Suc l)
  then show ?case
    using days_before_month_Suc [of l y] month_length_bounds [of l y]
    by (cases "k = Suc l") auto
qed simp

lemma days_before_year_mono: "a \<le> b \<Longrightarrow> days_before_year a + 365 * (b - a) \<le> days_before_year b"
proof (induction "nat (b - a)" arbitrary: b)
  case (Suc n)
  then have "n = nat (b - 1 - a)" "a \<le> b - 1" by auto
  then have "days_before_year a + 365 * (b - 1 - a) \<le> days_before_year (b - 1)" by (rule Suc.hyps)
  then show ?case using days_before_year_step [of "b - 1"] by (auto split: if_splits)
qed simp

end
