(* ===== verification/Escalation.thy ===== *)
theory Escalation
  imports Ownership Go_Time "HOL-Library.FSet" "HOL-Library.Char_ord" "HOL-Library.List_Lexorder"
begin

text \<open>
  Parking a task for the operator: the configured human owners (\<open>pkg/result/human_assignees.go\<close>), the
  assignee-clear chokepoints, the trigger and retry caps and the escalation sections of
  \<open>pkg/result/result_writer.go\<close>. The frontmatter is edited in place in Go; here every function
  returns the edited map. The clock is read where the code reads it: the two readings a write can make
  are separate arguments.
\<close>

section \<open>Model\<close>

type_synonym HumanAssignees = "string fset"

definition ParseHumanAssignees :: "string \<Rightarrow> HumanAssignees" where
  "ParseHumanAssignees csv =
     foldl (\<lambda>humans name. let name = TrimSpace name in if name = [] then humans else finsert name humans)
       {||} (Split (CHR '','') csv)"

definition humans_Contains :: "HumanAssignees \<Rightarrow> string \<Rightarrow> bool" where
  "humans_Contains h name = (if name = [] then False else name |\<in>| h)"

definition humans_IsEmpty :: "HumanAssignees \<Rightarrow> bool" where
  "humans_IsEmpty h = (fcard h = 0)"

definition humans_Names :: "HumanAssignees \<Rightarrow> string list" where
  "humans_Names h = sorted_list_of_set (fset h)"

definition clearAssignee :: "pure_lib \<Rightarrow> fm \<Rightarrow> string \<times> fm" where
  "clearAssignee L merged =
     (let agentName = lib_Assignee L merged;
          merged = (if agentName \<noteq> [] then fmupd ''previous_assignee'' (VStr agentName) merged else merged)
      in (agentName, fmupd ''assignee'' (VStr []) merged))"

definition ClearAssignee :: "pure_lib \<Rightarrow> fm \<Rightarrow> string \<times> fm" where
  "ClearAssignee L merged = clearAssignee L merged"

definition ClearAssigneeUnlessHuman :: "pure_lib \<Rightarrow> fm \<Rightarrow> HumanAssignees \<Rightarrow> string \<times> fm" where
  "ClearAssigneeUnlessHuman L merged humans =
     (let assignee = lib_Assignee L merged
      in if humans_Contains humans assignee then (assignee, merged) else clearAssignee L merged)"

definition ClearAssigneeIfHumanReview :: "pure_lib \<Rightarrow> fm \<Rightarrow> HumanAssignees \<Rightarrow> string \<times> fm" where
  "ClearAssigneeIfHumanReview L merged humans =
     (if as_string (fm_get merged ''phase'') \<noteq> Some ''human_review'' then ([], merged)
      else case as_string (fm_get merged ''assignee'') of
             Some assignee \<Rightarrow>
               (if humans_Contains humans assignee then ([], merged) else clearAssignee L merged)
           | None \<Rightarrow> clearAssignee L merged)"

definition restoreExistingPhase :: "pure_lib \<Rightarrow> fm \<Rightarrow> fm \<Rightarrow> fm" where
  "restoreExistingPhase L existing merged =
     (case lib_Phase L existing of
        Some p \<Rightarrow> fmupd ''phase'' (VStr p) merged
      | None \<Rightarrow> merged)"

definition containsEscalationSection :: "string \<Rightarrow> string \<Rightarrow> bool" where
  "containsEscalationSection body header = Contains body ([nl] @ header @ [nl])"

definition ContainsTriggerCapEscalation :: "string \<Rightarrow> bool" where
  "ContainsTriggerCapEscalation body = containsEscalationSection body ''## Trigger Cap Escalation''"

definition escalationSection :: "int \<Rightarrow> string \<Rightarrow> instant \<Rightarrow> string" where
  "escalationSection retryCount agentName now =
     [nl] @ ''## Retry Escalation'' @ [nl, nl] @
     ''- **Timestamp:** '' @ RFC3339 now @ [nl] @
     ''- **Attempts:** '' @ Itoa retryCount @ [nl] @
     ''- **Assignee:** '' @ agentName @ [nl] @
     ''- **Last error:** see agent output above'' @ [nl]"

definition TriggerCapEscalationSection :: "int \<Rightarrow> int \<Rightarrow> string \<Rightarrow> instant \<Rightarrow> string" where
  "TriggerCapEscalationSection triggerCount maxTriggers agentName now =
     [nl] @ ''## Trigger Cap Escalation'' @ [nl, nl] @
     ''- **Timestamp:** '' @ RFC3339 now @ [nl] @
     ''- **Trigger count:** '' @ Itoa triggerCount @ [nl] @
     ''- **Max triggers:** '' @ Itoa maxTriggers @ [nl] @
     ''- **Assignee:** '' @ agentName @ [nl] @
     ''- **Last agent output:** see `## Result` above'' @ [nl]"

definition triggerEscalationSection :: "pure_lib \<Rightarrow> int \<Rightarrow> string \<Rightarrow> fm \<Rightarrow> instant \<Rightarrow> string" where
  "triggerEscalationSection L triggerCount agentName merged now =
     TriggerCapEscalationSection triggerCount (lib_MaxTriggers L merged) agentName now"

definition TriggerCapEngaged :: "pure_lib \<Rightarrow> fm \<Rightarrow> bool" where
  "TriggerCapEngaged L m \<longleftrightarrow> fm_get m ''max_triggers'' \<noteq> None \<or> lib_String L m ''ref'' \<noteq> None"

definition applyTriggerCap ::
  "pure_lib \<Rightarrow> HumanAssignees \<Rightarrow> instant \<Rightarrow> fm \<Rightarrow> fm \<Rightarrow> int \<Rightarrow> string \<Rightarrow> fm \<times> string" where
  "applyTriggerCap L humans now merged existing triggerCount body =
     (if \<not> TriggerCapEngaged L merged then (merged, body)
      else if triggerCount = 0 \<or> triggerCount < lib_MaxTriggers L merged then (merged, body)
      else case ClearAssigneeUnlessHuman L merged humans of (agentName, merged) \<Rightarrow>
             (if ContainsTriggerCapEscalation body
              then (restoreExistingPhase L existing merged, body)
              else (merged, body @ triggerEscalationSection L triggerCount agentName merged now)))"

definition applyRetryCap ::
  "pure_lib \<Rightarrow> HumanAssignees \<Rightarrow> instant \<Rightarrow> fm \<Rightarrow> fm \<Rightarrow> int \<Rightarrow> string \<Rightarrow> fm \<times> string" where
  "applyRetryCap L humans now merged existing retryCount body =
     (if fm_get merged ''max_retries'' = None then (merged, body)
      else if retryCount < lib_MaxRetries L merged then (merged, body)
      else case ClearAssigneeUnlessHuman L merged humans of (agentName, merged) \<Rightarrow>
             (if containsEscalationSection body ''## Retry Escalation''
              then (restoreExistingPhase L existing merged, body)
              else (merged, body @ escalationSection retryCount agentName now)))"

definition applyRetryCounter ::
  "pure_lib \<Rightarrow> HumanAssignees \<Rightarrow> instant \<Rightarrow> instant \<Rightarrow> fm \<Rightarrow> fm \<Rightarrow> string \<Rightarrow> fm \<times> string" where
  "applyRetryCounter L humans now1 now2 merged existing body =
     (if isTerminalStatus (lib_Status L merged) then (merged, body)
      else
        (let triggerCount = lib_TriggerCount L merged;
             (merged, body) = applyTriggerCap L humans now1 merged existing triggerCount body;
             merged = snd (ClearAssigneeIfHumanReview L merged humans)
         in if lib_SpawnNotification L merged then (fmdrop ''spawn_notification'' merged, body)
            else applyRetryCap L humans now2 merged existing (lib_RetryCount L existing) body))"

section \<open>Frame lemmas\<close>

text \<open>The keys each step may touch; every other key keeps its value.\<close>

lemma fst_clearAssignee [simp]: "fst (clearAssignee L m) = lib_Assignee L m"
  by (simp add: clearAssignee_def Let_def)

lemma clearAssignee_get:
  "fm_get (snd (clearAssignee L m)) k =
     (if k = ''assignee'' then Some (VStr [])
      else if k = ''previous_assignee'' \<and> lib_Assignee L m \<noteq> [] then Some (VStr (lib_Assignee L m))
      else fm_get m k)"
  by (simp add: clearAssignee_def Let_def)

lemma ClearAssigneeUnlessHuman_get:
  "fm_get (snd (ClearAssigneeUnlessHuman L m h)) k =
     (if humans_Contains h (lib_Assignee L m) then fm_get m k else fm_get (snd (clearAssignee L m)) k)"
  by (simp add: ClearAssigneeUnlessHuman_def Let_def)

lemma fst_ClearAssigneeUnlessHuman [simp]: "fst (ClearAssigneeUnlessHuman L m h) = lib_Assignee L m"
  by (simp add: ClearAssigneeUnlessHuman_def Let_def)

lemma restoreExistingPhase_get:
  "fm_get (restoreExistingPhase L e m) k =
     (if k = ''phase'' then (case lib_Phase L e of Some p \<Rightarrow> Some (VStr p) | None \<Rightarrow> fm_get m k)
      else fm_get m k)"
  by (simp add: restoreExistingPhase_def split: option.splits)

lemma ClearAssigneeIfHumanReview_frame:
  "k \<noteq> ''assignee'' \<Longrightarrow> k \<noteq> ''previous_assignee'' \<Longrightarrow>
   fm_get (snd (ClearAssigneeIfHumanReview L m h)) k = fm_get m k"
  by (simp add: ClearAssigneeIfHumanReview_def clearAssignee_get split: option.splits)

lemma ClearAssigneeUnlessHuman_frame:
  "k \<noteq> ''assignee'' \<Longrightarrow> k \<noteq> ''previous_assignee'' \<Longrightarrow>
   fm_get (snd (ClearAssigneeUnlessHuman L m h)) k = fm_get m k"
  by (simp add: ClearAssigneeUnlessHuman_get clearAssignee_get)

definition escalation_keys :: "string set" where
  "escalation_keys = {''assignee'', ''previous_assignee'', ''phase'', ''spawn_notification''}"

lemma applyTriggerCap_frame:
  "k \<notin> escalation_keys \<Longrightarrow> fm_get (fst (applyTriggerCap L h n m e c b)) k = fm_get m k"
  by (auto simp: applyTriggerCap_def escalation_keys_def restoreExistingPhase_get
      ClearAssigneeUnlessHuman_frame split_def)

lemma applyRetryCap_frame:
  "k \<notin> escalation_keys \<Longrightarrow> fm_get (fst (applyRetryCap L h n m e c b)) k = fm_get m k"
  by (auto simp: applyRetryCap_def escalation_keys_def restoreExistingPhase_get
      ClearAssigneeUnlessHuman_frame split_def)

lemma applyRetryCounter_frame:
  assumes "k \<notin> escalation_keys"
  shows "fm_get (fst (applyRetryCounter L h n1 n2 m e b)) k = fm_get m k"
proof -
  have "k \<noteq> ''assignee''" "k \<noteq> ''previous_assignee''" "k \<noteq> ''spawn_notification''"
    using assms by (auto simp: escalation_keys_def)
  then show ?thesis
    using assms
    by (simp add: applyRetryCounter_def Let_def split_def applyRetryCap_frame
        ClearAssigneeIfHumanReview_frame applyTriggerCap_frame)
qed

section \<open>Owners\<close>

text \<open>A task is unowned when its assignee is the empty string, and human-owned when it names a
  configured human.\<close>

definition parked_owner :: "HumanAssignees \<Rightarrow> fm \<Rightarrow> bool" where
  "parked_owner h m \<longleftrightarrow>
     fm_get m ''assignee'' = Some (VStr []) \<or>
     (\<exists>a. fm_get m ''assignee'' = Some (VStr a) \<and> humans_Contains h a)"

lemma humans_Contains_nonempty: "humans_Contains h a \<Longrightarrow> a \<noteq> []"
  by (auto simp: humans_Contains_def)

lemma ClearAssigneeUnlessHuman_parked:
  assumes "lib_ok L"
  shows "parked_owner h (snd (ClearAssigneeUnlessHuman L m h))"
proof (cases "humans_Contains h (lib_Assignee L m)")
  case True
  then obtain a where "fm_get m ''assignee'' = Some (VStr a)" and "humans_Contains h a"
    using humans_Contains_nonempty [OF True] lib_Assignee_eq [OF assms, of m] as_string_iff
    by (cases "as_string (fm_get m ''assignee'')") auto
  with True show ?thesis by (simp add: parked_owner_def ClearAssigneeUnlessHuman_get)
qed (simp add: parked_owner_def ClearAssigneeUnlessHuman_get clearAssignee_get)

lemma ClearAssigneeIfHumanReview_parked:
  "fm_get m ''phase'' = Some (VStr ''human_review'') \<Longrightarrow> parked_owner h (snd (ClearAssigneeIfHumanReview L m h))"
  by (cases "as_string (fm_get m ''assignee'')")
    (auto simp: ClearAssigneeIfHumanReview_def parked_owner_def clearAssignee_get as_string_iff)

lemma parked_owner_cong: "fm_get m ''assignee'' = fm_get n ''assignee'' \<Longrightarrow> parked_owner h m = parked_owner h n"
  by (simp add: parked_owner_def)

lemma ClearAssigneeIfHumanReview_keeps_parked:
  "parked_owner h m \<Longrightarrow> parked_owner h (snd (ClearAssigneeIfHumanReview L m h))"
  by (auto simp: ClearAssigneeIfHumanReview_def parked_owner_def clearAssignee_get)

lemma applyRetryCap_parked:
  assumes "lib_ok L"
    and "fm_get m ''phase'' = Some (VStr ''human_review'') \<Longrightarrow> parked_owner h m"
    and "fm_get (fst (applyRetryCap L h n m e c b)) ''phase'' = Some (VStr ''human_review'')"
  shows "parked_owner h (fst (applyRetryCap L h n m e c b))"
proof -
  have "parked_owner h (restoreExistingPhase L e (snd (ClearAssigneeUnlessHuman L m h)))"
    using ClearAssigneeUnlessHuman_parked [OF assms(1), of h m]
      parked_owner_cong [of "restoreExistingPhase L e (snd (ClearAssigneeUnlessHuman L m h))"]
    by (simp add: restoreExistingPhase_get)
  then show ?thesis
    using assms(2,3) ClearAssigneeUnlessHuman_parked [OF assms(1), of h m]
    by (simp add: applyRetryCap_def split_def split: if_splits)
qed

lemma applyTriggerCap_parked:
  assumes "lib_ok L" and "TriggerCapEngaged L m" and "c \<noteq> 0" and "lib_MaxTriggers L m \<le> c"
  shows "parked_owner h (fst (applyTriggerCap L h n m e c b))"
  using assms ClearAssigneeUnlessHuman_parked [OF assms(1), of h m]
    parked_owner_cong [of "restoreExistingPhase L e (snd (ClearAssigneeUnlessHuman L m h))"]
  by (simp add: applyTriggerCap_def split_def restoreExistingPhase_get)

lemma applyRetryCap_keeps_parked:
  assumes "lib_ok L" and "parked_owner h m"
  shows "parked_owner h (fst (applyRetryCap L h n m e c b))"
  using assms ClearAssigneeUnlessHuman_parked [OF assms(1), of h m]
    parked_owner_cong [of "restoreExistingPhase L e (snd (ClearAssigneeUnlessHuman L m h))"]
  by (simp add: applyRetryCap_def split_def restoreExistingPhase_get)

lemma parked_owner_drop_spawn: "parked_owner h (fmdrop ''spawn_notification'' m) = parked_owner h m"
  by (simp add: parked_owner_def)

section \<open>Sections\<close>

lemma TriggerCapEscalationSection_contains:
  "ContainsTriggerCapEscalation (body @ TriggerCapEscalationSection c x a t)"
  unfolding ContainsTriggerCapEscalation_def containsEscalationSection_def TriggerCapEscalationSection_def
  using Contains_append [of body "[nl] @ ''## Trigger Cap Escalation'' @ [nl]"
      "[nl] @ ''- **Timestamp:** '' @ RFC3339 t @ [nl] @ ''- **Trigger count:** '' @ Itoa c @ [nl] @
       ''- **Max triggers:** '' @ Itoa x @ [nl] @ ''- **Assignee:** '' @ a @ [nl] @
       ''- **Last agent output:** see `## Result` above'' @ [nl]"] by simp

lemma ContainsTriggerCapEscalation_append:
  "ContainsTriggerCapEscalation body \<Longrightarrow> ContainsTriggerCapEscalation (body @ t)"
  unfolding ContainsTriggerCapEscalation_def containsEscalationSection_def
  using Contains_extend [of body _ "[]" t] by simp

text \<open>Both caps only ever append to the body.\<close>

lemma applyRetryCap_body: "\<exists>t. snd (applyRetryCap L h n m e c b) = b @ t"
  by (simp add: applyRetryCap_def split_def)

lemma applyTriggerCap_body: "\<exists>t. snd (applyTriggerCap L h n m e c b) = b @ t"
  by (simp add: applyTriggerCap_def split_def)

lemma applyTriggerCap_contains:
  assumes "TriggerCapEngaged L m" and "c \<noteq> 0" and "lib_MaxTriggers L m \<le> c"
  shows "ContainsTriggerCapEscalation (snd (applyTriggerCap L h n m e c b))"
  using assms TriggerCapEscalationSection_contains
  by (simp add: applyTriggerCap_def split_def triggerEscalationSection_def)

lemma applyTriggerCap_once:
  "snd (applyTriggerCap L h n m e c b) = b \<or>
   \<not> ContainsTriggerCapEscalation b \<and>
     (\<exists>x a. snd (applyTriggerCap L h n m e c b) = b @ TriggerCapEscalationSection c x a n)"
  by (auto simp: applyTriggerCap_def split_def triggerEscalationSection_def)

lemma applyTriggerCap_previous:
  assumes "TriggerCapEngaged L m" and "c \<noteq> 0" and "lib_MaxTriggers L m \<le> c"
    and "lib_Assignee L m \<noteq> []" and "\<not> humans_Contains h (lib_Assignee L m)"
  shows "fm_get (fst (applyTriggerCap L h n m e c b)) ''previous_assignee'' = Some (VStr (lib_Assignee L m)) \<and>
         fm_get (fst (applyTriggerCap L h n m e c b)) ''assignee'' = Some (VStr [])"
  using assms
  by (simp add: applyTriggerCap_def split_def restoreExistingPhase_get ClearAssigneeUnlessHuman_get clearAssignee_get)

text \<open>Clearing an already cleared assignee changes neither field.\<close>

lemma cleared_stays:
  assumes "lib_ok L" and "fm_get m ''assignee'' = Some (VStr [])" and "k \<in> {''assignee'', ''previous_assignee''}"
  shows "fm_get (snd (ClearAssigneeIfHumanReview L m h)) k = fm_get m k \<and>
         fm_get (snd (ClearAssigneeUnlessHuman L m h)) k = fm_get m k"
proof -
  have "lib_Assignee L m = []" using assms(1,2) by (simp add: lib_Assignee_eq)
  with assms(2,3) show ?thesis
    by (auto simp: ClearAssigneeIfHumanReview_def ClearAssigneeUnlessHuman_get clearAssignee_get humans_Contains_def)
qed

lemma applyRetryCap_cleared_stays:
  assumes "lib_ok L" and "fm_get m ''assignee'' = Some (VStr [])" and "k \<in> {''assignee'', ''previous_assignee''}"
  shows "fm_get (fst (applyRetryCap L h n m e c b)) k = fm_get m k"
  using assms(3) cleared_stays [OF assms]
  by (auto simp: applyRetryCap_def split_def restoreExistingPhase_get)

section \<open>Properties\<close>

text \<open>A result write on an open task whose trigger budget is spent parks the task: the assignee is
  cleared unless it names a configured human, the agent that held it is kept in \<open>previous_assignee\<close>, and
  the body is extended so that it carries the escalation section.\<close>

theorem trigger_cap_parks:
  assumes "lib_ok L" and "\<not> isTerminalStatus (lib_Status L m)" and "TriggerCapEngaged L m"
    and "lib_TriggerCount L m \<noteq> 0" and "lib_MaxTriggers L m \<le> lib_TriggerCount L m"
  shows "parked_owner h (fst (applyRetryCounter L h n1 n2 m e b)) \<and>
         ContainsTriggerCapEscalation (snd (applyRetryCounter L h n1 n2 m e b)) \<and>
         prefix b (snd (applyRetryCounter L h n1 n2 m e b)) \<and>
         (lib_Assignee L m \<noteq> [] \<and> \<not> humans_Contains h (lib_Assignee L m) \<longrightarrow>
            fm_get (fst (applyRetryCounter L h n1 n2 m e b)) ''previous_assignee'' = Some (VStr (lib_Assignee L m)))"
proof -
  let ?t = "applyTriggerCap L h n1 m e (lib_TriggerCount L m) b"
  let ?c = "snd (ClearAssigneeIfHumanReview L (fst ?t) h)"
  let ?r = "applyRetryCap L h n2 ?c e (lib_RetryCount L e) (snd ?t)"
  have res: "applyRetryCounter L h n1 n2 m e b =
      (if lib_SpawnNotification L ?c then (fmdrop ''spawn_notification'' ?c, snd ?t) else ?r)"
    using assms(2) by (simp add: applyRetryCounter_def Let_def split_def)
  have "parked_owner h ?c"
    using applyTriggerCap_parked [OF assms(1,3,4,5)] by (rule ClearAssigneeIfHumanReview_keeps_parked)
  then have owner: "parked_owner h (fst (applyRetryCounter L h n1 n2 m e b))"
    using applyRetryCap_keeps_parked [OF assms(1)] by (simp add: res parked_owner_drop_spawn)
  have sec: "ContainsTriggerCapEscalation (snd ?t)" by (rule applyTriggerCap_contains [OF assms(3,4,5)])
  then have sec': "ContainsTriggerCapEscalation (snd ?r)"
    using applyRetryCap_body [of L h n2 ?c e _ "snd ?t"] ContainsTriggerCapEscalation_append by metis
  have pre: "prefix b (snd ?t)" using applyTriggerCap_body [of L h n1 m e _ b] by (auto simp: prefix_def)
  then have pre': "prefix b (snd ?r)"
    using applyRetryCap_body [of L h n2 ?c e "lib_RetryCount L e" "snd ?t"] by (auto simp: prefix_def)
  have prev: "fm_get (fst (applyRetryCounter L h n1 n2 m e b)) ''previous_assignee'' = Some (VStr (lib_Assignee L m))"
    if "lib_Assignee L m \<noteq> []" "\<not> humans_Contains h (lib_Assignee L m)"
  proof -
    note t = applyTriggerCap_previous [OF assms(3,4,5) that, of n1 e b]
    then have "fm_get ?c ''assignee'' = Some (VStr [])"
      and "fm_get ?c ''previous_assignee'' = Some (VStr (lib_Assignee L m))"
      using cleared_stays [OF assms(1), of "fst ?t" _ h] by auto
    then show ?thesis using applyRetryCap_cleared_stays [OF assms(1), of ?c] by (simp add: res)
  qed
  show ?thesis using owner sec sec' pre pre' prev by (simp add: res)
qed

definition capped_fm :: fm where
  "capped_fm = fmap_of_list [(''status'', VStr ''in_progress''), (''assignee'', VStr ''fixer''),
     (''trigger_count'', VInt 3), (''max_triggers'', VInt 3)]"

theorem trigger_cap_parks_witness:
  "fm_get (fst (applyRetryCounter ref_lib {||} 0 0 capped_fm capped_fm [])) ''previous_assignee'' = Some (VStr ''fixer'') \<and>
   ContainsTriggerCapEscalation (snd (applyRetryCounter ref_lib {||} 0 0 capped_fm capped_fm []))"
proof -
  have "\<not> isTerminalStatus (lib_Status ref_lib capped_fm)" "TriggerCapEngaged ref_lib capped_fm"
    "lib_TriggerCount ref_lib capped_fm = 3" "lib_MaxTriggers ref_lib capped_fm = 3"
    "lib_Assignee ref_lib capped_fm = ''fixer''"
    by (simp_all add: capped_fm_def ref_lib_def isTerminalStatus_def terminalStatuses_def TriggerCapEngaged_def
        ref_count_def fmlookup_of_list)
  then show ?thesis
    using trigger_cap_parks [OF lib_ok_ref_lib, of capped_fm "{||}" 0 0 capped_fm "[]"]
    by (simp add: humans_Contains_def)
qed

lemma human_review_parked:
  assumes "lib_ok L" and "\<not> isTerminalStatus (lib_Status L m)"
    and "fm_get (fst (applyRetryCounter L h n1 n2 m e b)) ''phase'' = Some (VStr ''human_review'')"
  shows "parked_owner h (fst (applyRetryCounter L h n1 n2 m e b))"
proof -
  let ?t = "applyTriggerCap L h n1 m e (lib_TriggerCount L m) b"
  let ?c = "snd (ClearAssigneeIfHumanReview L (fst ?t) h)"
  let ?r = "applyRetryCap L h n2 ?c e (lib_RetryCount L e) (snd ?t)"
  have res: "fst (applyRetryCounter L h n1 n2 m e b) =
      (if lib_SpawnNotification L ?c then fmdrop ''spawn_notification'' ?c else fst ?r)"
    using assms(2) by (simp add: applyRetryCounter_def Let_def split_def)
  have c: "parked_owner h ?c" if "fm_get ?c ''phase'' = Some (VStr ''human_review'')"
    using that ClearAssigneeIfHumanReview_parked [of "fst ?t" h L] by (simp add: ClearAssigneeIfHumanReview_frame)
  show ?thesis
  proof (cases "lib_SpawnNotification L ?c")
    case True
    with assms(3) c show ?thesis by (simp add: res parked_owner_drop_spawn)
  next
    case False
    with assms(3) have "fm_get (fst ?r) ''phase'' = Some (VStr ''human_review'')" by (simp add: res)
    with applyRetryCap_parked [OF assms(1) c] False show ?thesis by (simp add: res)
  qed
qed

text \<open>The human-review invariant of a result write: an open task that leaves the write in the phase
  \<open>human_review\<close> has no owner or a configured human one, on every path through the caps, the spawn
  notification short cut and the phase restore.\<close>

theorem human_review_has_no_agent:
  assumes "lib_ok L" and "\<not> isTerminalStatus (lib_Status L m)"
    and "fm_get (fst (applyRetryCounter L h n1 n2 m e b)) ''phase'' = Some (VStr ''human_review'')"
  shows "parked_owner h (fst (applyRetryCounter L h n1 n2 m e b))"
  using assms by (rule human_review_parked)

definition review_fm :: fm where
  "review_fm = fmap_of_list [(''status'', VStr ''in_progress''), (''assignee'', VStr ''reviewer''), (''phase'', VStr ''human_review'')]"

theorem human_review_has_no_agent_witness:
  "parked_owner {|''ben''|} (fst (applyRetryCounter ref_lib {|''ben''|} 0 0 review_fm review_fm []))"
proof -
  have a: "\<not> isTerminalStatus (lib_Status ref_lib review_fm)"
    by (simp add: review_fm_def ref_lib_def isTerminalStatus_def terminalStatuses_def fmlookup_of_list)
  let ?c = "snd (ClearAssigneeIfHumanReview ref_lib review_fm {|''ben''|})"
  have get: "fm_get review_fm ''max_triggers'' = None" "fm_get review_fm ''ref'' = None"
    "fm_get review_fm ''max_retries'' = None" "fm_get review_fm ''spawn_notification'' = None"
    by (simp_all add: review_fm_def fmlookup_of_list)
  have spawn: "\<not> lib_SpawnNotification ref_lib ?c"
    by (simp add: ref_lib_def) (simp add: ClearAssigneeIfHumanReview_frame get)
  have engaged: "\<not> TriggerCapEngaged ref_lib review_fm"
    by (simp add: TriggerCapEngaged_def get lib_String_eq [OF lib_ok_ref_lib])
  have "fst (applyRetryCounter ref_lib {|''ben''|} 0 0 review_fm review_fm []) = ?c"
    using a spawn engaged
    by (simp add: applyRetryCounter_def applyTriggerCap_def applyRetryCap_def Let_def split_def
        ClearAssigneeIfHumanReview_frame get)
  moreover have "fm_get (snd (ClearAssigneeIfHumanReview ref_lib review_fm {|''ben''|})) ''phase'' = Some (VStr ''human_review'')"
    by (simp add: ClearAssigneeIfHumanReview_frame) (simp add: review_fm_def fmlookup_of_list)
  ultimately show ?thesis
    using human_review_has_no_agent [OF lib_ok_ref_lib a, of "{|''ben''|}" 0 0 review_fm "[]"] by simp
qed

text \<open>The body after a sequence of writes, each with its own frontmatter, count and clock reading.\<close>

definition cap_writes ::
  "pure_lib \<Rightarrow> HumanAssignees \<Rightarrow> string \<Rightarrow> (fm \<times> fm \<times> int \<times> instant) list \<Rightarrow> string" where
  "cap_writes L h body writes =
     foldl (\<lambda>body (merged, existing, count, now). snd (applyTriggerCap L h now merged existing count body)) body writes"

lemma cap_writes_simps [simp]:
  "cap_writes L h b [] = b"
  "cap_writes L h b ((m, e, c, n) # ws) = cap_writes L h (snd (applyTriggerCap L h n m e c b)) ws"
  by (simp_all add: cap_writes_def)

lemma cap_writes_fixed: "ContainsTriggerCapEscalation b \<Longrightarrow> cap_writes L h b ws = b"
proof (induction ws)
  case (Cons w ws)
  then show ?case using applyTriggerCap_once [of L h] by (cases w) (metis cap_writes_simps(2))
qed simp

text \<open>Over any sequence of writes, whatever their frontmatter and clock readings, the trigger cap
  appends its section to a body at most once.\<close>

theorem trigger_cap_section_once:
  "cap_writes L h b writes = b \<or>
   (\<exists>count x a now. cap_writes L h b writes = b @ TriggerCapEscalationSection count x a now)"
proof (induction writes)
  case (Cons w writes)
  obtain m e c n where w: "w = (m, e, c, n)" by (cases w)
  let ?b = "snd (applyTriggerCap L h n m e c b)"
  show ?case
  proof (cases "?b = b")
    case True
    then show ?thesis using Cons.IH by (simp add: w)
  next
    case False
    then obtain x a where b: "?b = b @ TriggerCapEscalationSection c x a n"
      using applyTriggerCap_once [of L h n m e c b] by blast
    then have "ContainsTriggerCapEscalation ?b" by (simp add: TriggerCapEscalationSection_contains)
    then have "cap_writes L h b (w # writes) = b @ TriggerCapEscalationSection c x a n"
      using b by (simp add: w cap_writes_fixed)
    then show ?thesis by blast
  qed
qed simp

end
