(* ===== verification/GitRest.thy ===== *)
theory GitRest
  imports Go_Time "HOL-Library.AList"
begin

text \<open>
  The vault store: the HTTP client of git-rest (\<open>pkg/gitrestclient/git_rest_client.go\<close>) and the adapter
  that presents it as a git client (\<open>git_client_adapter.go\<close>). Everything outside the process is a record
  of operations on an abstract world: the HTTP transport, the request constructor of \<open>net/http\<close> (which
  fails on a URL it cannot parse), the cancellation state of the context, waiting, the clock, the metric
  counters and the JSON decoder. A call takes the world and returns its result with the new world.
\<close>

section \<open>The world\<close>

record http_request =
  req_method :: string
  req_url :: string
  req_headers :: "(string \<times> string) list"
  req_body :: bytes
  req_timeout :: duration

record http_response =
  resp_status :: int
  resp_body :: "bytes res"

record 'w world =
  http_do :: "http_request \<Rightarrow> 'w \<Rightarrow> http_response res \<times> 'w"
  new_request_error :: "string \<Rightarrow> string \<Rightarrow> go_error option"
  ctx_err :: "'w \<Rightarrow> go_error option"
  wait_for :: "duration \<Rightarrow> 'w \<Rightarrow> go_error option \<times> 'w"
  clock_now :: "'w \<Rightarrow> instant \<times> 'w"
  inc_metric :: "string \<Rightarrow> string list \<Rightarrow> 'w \<Rightarrow> 'w"
  json_paths :: "bytes \<Rightarrow> string list res"

text \<open>\<open>errors.Wrapf\<close> of a result: a nil error stays nil.\<close>

definition wrap_res :: "string \<Rightarrow> string list \<Rightarrow> 'a res \<Rightarrow> 'a res" where
  "wrap_res f as r = (case r of Inl e \<Rightarrow> Inl (Wrapf e f as) | Inr x \<Rightarrow> Inr x)"

section \<open>URL escaping\<close>

definition hex_digit :: "nat \<Rightarrow> char" where
  "hex_digit n = ''0123456789ABCDEF'' ! n"

definition percent :: "char \<Rightarrow> string" where
  "percent c = [CHR ''%'', hex_digit (of_char c div 16), hex_digit (of_char c mod 16)]"

definition unreserved :: "char \<Rightarrow> bool" where
  "unreserved c \<longleftrightarrow> c \<in> set ''ABCDEFGHIJKLMNOPQRSTUVWXYZabcdefghijklmnopqrstuvwxyz0123456789-_.~''"

text \<open>\<open>url.PathEscape\<close> and \<open>url.QueryEscape\<close>.\<close>

definition path_plain :: "char \<Rightarrow> bool" where
  "path_plain c \<longleftrightarrow> unreserved c \<or> c \<in> set ''$&+=:@''"

definition PathEscape :: "string \<Rightarrow> string" where
  "PathEscape s = concat (map (\<lambda>c. if path_plain c then [c] else percent c) s)"

definition QueryEscape :: "string \<Rightarrow> string" where
  "QueryEscape s = concat (map (\<lambda>c. if unreserved c then [c] else if c = CHR '' '' then ''+'' else percent c) s)"

section \<open>The HTTP client\<close>

record gitRestClient =
  baseURL :: string
  gatewaySecret :: string
  gatewayInitiator :: string
  backoff :: "int \<Rightarrow> duration"

definition exponentialBackoff :: "int \<Rightarrow> duration" where
  "exponentialBackoff attempt = 2 ^ nat (attempt - 1) * Second"

definition NewGitRestClient :: "string \<Rightarrow> string \<Rightarrow> string \<Rightarrow> gitRestClient" where
  "NewGitRestClient url secret initiator =
     \<lparr>baseURL = TrimRight1 url (CHR ''/''), gatewaySecret = secret, gatewayInitiator = initiator,
      backoff = exponentialBackoff\<rparr>"

definition setAuthHeaders :: "gitRestClient \<Rightarrow> (string \<times> string) list \<Rightarrow> (string \<times> string) list" where
  "setAuthHeaders g headers =
     (if gatewaySecret g = [] then headers
      else headers @ [(''X-Gateway-Secret'', gatewaySecret g), (''X-Gateway-Initator'', gatewayInitiator g)])"

definition fileURL :: "gitRestClient \<Rightarrow> path \<Rightarrow> string" where
  "fileURL g relPath =
     baseURL g @ ''/api/v1/files/'' @ Join ''/'' (map PathEscape (Split (CHR ''/'') relPath))"

definition maxBody :: nat where "maxBody = 10 * 1024 * 1024"

definition preview :: "bytes \<Rightarrow> string" where
  "preview body = (if 100 < length body then take 100 body else body)"

abbreviation clientTimeout :: duration where "clientTimeout \<equiv> 30 * Second"

definition GitRestCallsTotal :: "'w world \<Rightarrow> string \<Rightarrow> string \<Rightarrow> 'w \<Rightarrow> 'w" where
  "GitRestCallsTotal W op outcome = inc_metric W ''agent_controller_git_rest_calls_total'' [op, outcome]"

text \<open>The reading half shared by \<open>Get\<close> and \<open>List\<close>: the body up to the limit, or the error of reading it.\<close>

definition read_body :: "http_response \<Rightarrow> bytes res" where
  "read_body resp = (case resp_body resp of Inl e \<Rightarrow> Inl e | Inr b \<Rightarrow> Inr (take maxBody b))"

definition Get :: "'w world \<Rightarrow> gitRestClient \<Rightarrow> path \<Rightarrow> 'w \<Rightarrow> bytes res \<times> 'w" where
  "Get W g relPath w =
     (let reqURL = fileURL g relPath; fail = (\<lambda>e w. (Inl e, GitRestCallsTotal W ''get'' ''error'' w))
      in case new_request_error W ''GET'' reqURL of
           Some e \<Rightarrow> fail (Wrapf e ''create GET request for %s'' [relPath]) w
         | None \<Rightarrow>
             (case http_do W \<lparr>req_method = ''GET'', req_url = reqURL, req_headers = setAuthHeaders g [],
                              req_body = [], req_timeout = clientTimeout\<rparr> w of
                (Inl e, w) \<Rightarrow> fail (Wrapf e ''GET %s'' [relPath]) w
              | (Inr resp, w) \<Rightarrow>
                  (case read_body resp of
                     Inl e \<Rightarrow> fail (Wrapf e ''read GET response body for %s'' [relPath]) w
                   | Inr body \<Rightarrow>
                       (if resp_status resp \<noteq> 200
                        then fail (Errorf ''GET %s returned %d: %s'' [relPath, Itoa (resp_status resp), preview body]) w
                        else (Inr body, GitRestCallsTotal W ''get'' ''success'' w)))))"

text \<open>
  One loop body for the two retried calls. \<open>n\<close> counts the attempts left, so the running attempt is
  \<open>5 - n\<close> at the loop head. \<open>send\<close> is the request and \<open>verb\<close> its name in the messages.
\<close>

fun retry_loop ::
  "'w world \<Rightarrow> gitRestClient \<Rightarrow> path \<Rightarrow> string \<Rightarrow> string \<Rightarrow> http_request \<Rightarrow> bool \<Rightarrow> nat \<Rightarrow> go_error option \<Rightarrow> 'w
     \<Rightarrow> unit res \<times> 'w" where
  "retry_loop W g relPath verb op req createOnly 0 lastErr w =
     (case lastErr of
        None \<Rightarrow> (Inr (), w)
      | Some e \<Rightarrow> (Inl (Wrapf e (verb @ '' %s failed after 5 attempts'') [relPath]), w))"
| "retry_loop W g relPath verb op req createOnly (Suc n) lastErr w =
     (let attempt = 4 - int n in
      case ctx_err W w of
        Some e \<Rightarrow> (Inl (Wrapf e (verb @ '' %s cancelled before attempt'') [relPath]), w)
      | None \<Rightarrow>
          (let (cancelled, w) =
             (if 0 < attempt
              then wait_for W (backoff g attempt) (inc_metric W ''controller_kafka_consume_paused_total'' [] w)
              else (None, w))
           in case cancelled of
                Some e \<Rightarrow> (Inl (Wrapf e (verb @ '' %s cancelled during backoff'') [relPath]), w)
              | None \<Rightarrow>
                  (case new_request_error W (req_method req) (req_url req) of
                     Some e \<Rightarrow>
                       retry_loop W g relPath verb op req createOnly n
                         (Some (Wrapf e (''create '' @ verb @ '' request for %s'') [relPath]))
                         (GitRestCallsTotal W op ''error'' w)
                   | None \<Rightarrow>
                       (case http_do W req w of
                          (Inl e, w) \<Rightarrow>
                            retry_loop W g relPath verb op req createOnly n
                              (Some (Wrapf e (verb @ '' %s attempt %d'') [relPath, Itoa (attempt + 1)]))
                              (GitRestCallsTotal W op ''error'' w)
                        | (Inr resp, w) \<Rightarrow>
                            (if 200 \<le> resp_status resp \<and> resp_status resp < 300
                             then (Inr (), GitRestCallsTotal W op ''success'' w)
                             else if createOnly \<and> resp_status resp = 409
                             then (Inl (Wrapf (Sentinel ErrFileAlreadyExists)
                                     (verb @ '' %s create-only: path already exists'') [relPath]),
                                   GitRestCallsTotal W op ''error'' w)
                             else
                               retry_loop W g relPath verb op req createOnly n
                                 (Some (Errorf (verb @ '' %s attempt %d returned %d'')
                                    [relPath, Itoa (attempt + 1), Itoa (resp_status resp)]))
                                 (GitRestCallsTotal W op ''error'' w))))))"

definition post ::
  "'w world \<Rightarrow> gitRestClient \<Rightarrow> path \<Rightarrow> bytes \<Rightarrow> bool \<Rightarrow> 'w \<Rightarrow> unit res \<times> 'w" where
  "post W g relPath content createOnly w =
     (let reqURL = fileURL g relPath @ (if createOnly then ''?create_only=1'' else [])
      in retry_loop W g relPath ''POST'' ''post''
           \<lparr>req_method = ''POST'', req_url = reqURL,
            req_headers = setAuthHeaders g [(''Content-Type'', ''application/octet-stream'')],
            req_body = content, req_timeout = clientTimeout\<rparr>
           createOnly 5 None w)"

definition Post :: "'w world \<Rightarrow> gitRestClient \<Rightarrow> path \<Rightarrow> bytes \<Rightarrow> 'w \<Rightarrow> unit res \<times> 'w" where
  "Post W g relPath content w = post W g relPath content False w"

definition PostIfAbsent :: "'w world \<Rightarrow> gitRestClient \<Rightarrow> path \<Rightarrow> bytes \<Rightarrow> 'w \<Rightarrow> unit res \<times> 'w" where
  "PostIfAbsent W g relPath content w = post W g relPath content True w"

definition Delete :: "'w world \<Rightarrow> gitRestClient \<Rightarrow> path \<Rightarrow> 'w \<Rightarrow> unit res \<times> 'w" where
  "Delete W g relPath w =
     retry_loop W g relPath ''DELETE'' ''delete''
       \<lparr>req_method = ''DELETE'', req_url = fileURL g relPath, req_headers = setAuthHeaders g [],
        req_body = [], req_timeout = clientTimeout\<rparr>
       False 5 None w"

definition List_files :: "'w world \<Rightarrow> gitRestClient \<Rightarrow> string \<Rightarrow> 'w \<Rightarrow> string list res \<times> 'w" where
  "List_files W g glob w =
     (let reqURL = baseURL g @ ''/api/v1/files/'';
          fail = (\<lambda>e w. (Inl e, GitRestCallsTotal W ''list'' ''error'' w))
      in case new_request_error W ''GET'' reqURL of
           Some e \<Rightarrow> fail (Wrapf e ''create LIST request for glob %s'' [glob]) w
         | None \<Rightarrow>
             (case http_do W \<lparr>req_method = ''GET'', req_url = reqURL @ ''?glob='' @ QueryEscape glob,
                              req_headers = setAuthHeaders g [], req_body = [], req_timeout = clientTimeout\<rparr> w of
                (Inl e, w) \<Rightarrow> fail (Wrapf e ''LIST glob %s'' [glob]) w
              | (Inr resp, w) \<Rightarrow>
                  (case read_body resp of
                     Inl e \<Rightarrow> fail (Wrapf e ''read LIST response body for glob %s'' [glob]) w
                   | Inr body \<Rightarrow>
                       (if resp_status resp \<noteq> 200
                        then fail (Errorf ''LIST glob %s returned %d: %s'' [glob, Itoa (resp_status resp), preview body]) w
                        else case json_paths W body of
                               Inl e \<Rightarrow> fail (Wrapf e ''parse LIST response for glob %s'' [glob]) w
                             | Inr paths \<Rightarrow> (Inr paths, GitRestCallsTotal W ''list'' ''success'' w)))))"

definition IsReady :: "'w world \<Rightarrow> gitRestClient \<Rightarrow> duration \<Rightarrow> 'w \<Rightarrow> bool res \<times> 'w" where
  "IsReady W g timeout w =
     (let reqURL = baseURL g @ ''/readiness'';
          count = (\<lambda>outcome. GitRestCallsTotal W ''readiness'' outcome)
      in case new_request_error W ''GET'' reqURL of
           Some e \<Rightarrow> (Inl (Wrapf e ''create readiness request'' []), count ''error'' w)
         | None \<Rightarrow>
             (case http_do W \<lparr>req_method = ''GET'', req_url = reqURL, req_headers = [], req_body = [],
                              req_timeout = min timeout clientTimeout\<rparr> w of
                (Inl e, w) \<Rightarrow> (Inl (Wrapf e ''readiness check'' []), count ''error'' w)
              | (Inr resp, w) \<Rightarrow>
                  (if resp_status resp = 200 then (Inr True, count ''success'' w)
                   else if resp_status resp = 503 then (Inr False, count ''success'' w)
                   else (Inl (Errorf ''readiness returned unexpected status %d'' [Itoa (resp_status resp)]),
                         count ''error'' w))))"

section \<open>The adapter\<close>

record gitClient =
  client :: gitRestClient
  basePath :: path

definition readinessAttempts :: nat where "readinessAttempts = 5"
definition readinessAttemptTimeout :: duration where "readinessAttemptTimeout = 2 * Second"

definition NewGitClient :: "gitRestClient \<Rightarrow> path \<Rightarrow> gitClient" where
  "NewGitClient g path = \<lparr>client = g, basePath = TrimRight1 path (CHR ''/'')\<rparr>"

definition probeReadiness :: "'w world \<Rightarrow> gitClient \<Rightarrow> 'w \<Rightarrow> bool res \<times> 'w" where
  "probeReadiness W a w = IsReady W (client a) readinessAttemptTimeout w"

fun ensure_loop ::
  "'w world \<Rightarrow> gitClient \<Rightarrow> nat \<Rightarrow> go_error option \<Rightarrow> 'w \<Rightarrow> unit res \<times> 'w" where
  "ensure_loop W a 0 lastErr w =
     (case lastErr of
        Some e \<Rightarrow> (Inl (Wrapf e ''probe git-rest readiness'' []), w)
      | None \<Rightarrow> (Inl (Errorf ''git-rest is not ready (503) after %d attempts; check vault-obsidian-openclaw pod status''
                   [Itoa (int readinessAttempts)]), w))"
| "ensure_loop W a (Suc n) lastErr w =
     (let attempt = int readinessAttempts - int n;
          (cancelled, w) = (if 1 < attempt then wait_for W (backoff (client a) attempt) w else (None, w))
      in case cancelled of
           Some e \<Rightarrow> (Inl (Wrapf e ''probe git-rest readiness cancelled during backoff'' []), w)
         | None \<Rightarrow>
             (case probeReadiness W a w of
                (Inr True, w) \<Rightarrow> (Inr (), w)
              | (Inr False, w) \<Rightarrow> ensure_loop W a n None w
              | (Inl e, w) \<Rightarrow> ensure_loop W a n (Some e) w))"

definition EnsureCloned :: "'w world \<Rightarrow> gitClient \<Rightarrow> 'w \<Rightarrow> unit res \<times> 'w" where
  "EnsureCloned W a w = ensure_loop W a readinessAttempts None w"

definition Pull :: "'w world \<Rightarrow> gitClient \<Rightarrow> 'w \<Rightarrow> unit res \<times> 'w" where
  "Pull W a w = (Inr (), w)"

definition CommitAndPush :: "'w world \<Rightarrow> gitClient \<Rightarrow> string \<Rightarrow> 'w \<Rightarrow> unit res \<times> 'w" where
  "CommitAndPush W a message w = (Inr (), w)"

definition Path :: "gitClient \<Rightarrow> path" where
  "Path a = basePath a"

text \<open>The target of a write relative to the base path; a target outside of it is an error.\<close>

definition under_base :: "gitClient \<Rightarrow> path \<Rightarrow> path res" where
  "under_base a absPath =
     (case Rel (basePath a) absPath of
        Some rel \<Rightarrow>
          (if HasPrefix rel ''..'' then Inl (Errorf ''absPath %q is not under basePath %q'' [absPath, basePath a])
           else Inr rel)
      | None \<Rightarrow> Inl (Errorf ''absPath %q is not under basePath %q'' [absPath, basePath a]))"

definition AtomicWriteAndCommitPush ::
  "'w world \<Rightarrow> gitClient \<Rightarrow> path \<Rightarrow> bytes \<Rightarrow> string \<Rightarrow> 'w \<Rightarrow> unit res \<times> 'w" where
  "AtomicWriteAndCommitPush W a absPath content message w =
     (case under_base a absPath of
        Inl e \<Rightarrow> (Inl e, w)
      | Inr rel \<Rightarrow> Post W (client a) rel content w)"

definition AtomicWriteIfAbsentAndCommitPush ::
  "'w world \<Rightarrow> gitClient \<Rightarrow> path \<Rightarrow> bytes \<Rightarrow> string \<Rightarrow> 'w \<Rightarrow> unit res \<times> 'w" where
  "AtomicWriteIfAbsentAndCommitPush W a absPath content message w =
     (case under_base a absPath of
        Inl e \<Rightarrow> (Inl e, w)
      | Inr rel \<Rightarrow> PostIfAbsent W (client a) rel content w)"

text \<open>\<open>modify\<close> is a Go closure: it may update the variables it captured, the state \<open>s\<close>.\<close>

definition AtomicReadModifyWriteAndCommitPush ::
  "'w world \<Rightarrow> gitClient \<Rightarrow> path \<Rightarrow> (bytes \<Rightarrow> 's \<Rightarrow> bytes res \<times> 's) \<Rightarrow> string \<Rightarrow> 's \<Rightarrow> 'w
     \<Rightarrow> unit res \<times> 's \<times> 'w" where
  "AtomicReadModifyWriteAndCommitPush W a absPath modify message s w =
     (case under_base a absPath of
        Inl e \<Rightarrow> (Inl e, s, w)
      | Inr rel \<Rightarrow>
          (case Get W (client a) rel w of
             (Inl e, w) \<Rightarrow> (Inl (Wrapf e ''read file before modify %s'' [rel]), s, w)
           | (Inr current, w) \<Rightarrow>
               (case modify current s of
                  (Inl e, s) \<Rightarrow> (Inl (Wrapf e ''modify func failed for %s'' [rel]), s, w)
                | (Inr updated, s) \<Rightarrow>
                    (if updated = current then (Inr (), s, w)
                     else case Post W (client a) rel updated w of
                            (r, w) \<Rightarrow> (wrap_res ''write after modify %s'' [rel] r, s, w)))))"

definition ListFiles :: "'w world \<Rightarrow> gitClient \<Rightarrow> string \<Rightarrow> 'w \<Rightarrow> string list res \<times> 'w" where
  "ListFiles W a glob w = List_files W (client a) glob w"

definition ReadFile :: "'w world \<Rightarrow> gitClient \<Rightarrow> path \<Rightarrow> 'w \<Rightarrow> bytes res \<times> 'w" where
  "ReadFile W a relPath w =
     (case Get W (client a) relPath w of (r, w) \<Rightarrow> (wrap_res ''read file %s'' [relPath] r, w))"

definition WriteFile :: "'w world \<Rightarrow> gitClient \<Rightarrow> path \<Rightarrow> bytes \<Rightarrow> 'w \<Rightarrow> unit res \<times> 'w" where
  "WriteFile W a relPath content w =
     (case Post W (client a) relPath content w of (r, w) \<Rightarrow> (wrap_res ''write file %s'' [relPath] r, w))"

section \<open>Escaping\<close>

text \<open>What the server does with a path segment: the inverse of the escaping.\<close>

definition unhex :: "char \<Rightarrow> nat" where
  "unhex c = (let n = of_char c in if n < 58 then n - 48 else n - 55)"

fun PathUnescape :: "string \<Rightarrow> string" where
  "PathUnescape (c # h # l # cs) =
     (if c = CHR ''%'' then char_of (16 * unhex h + unhex l) # PathUnescape cs
      else c # PathUnescape (h # l # cs))"
| "PathUnescape (c # cs) = c # PathUnescape cs"
| "PathUnescape [] = []"

lemma hex_digits: "n < 16 \<Longrightarrow> unhex (hex_digit n) = n \<and> path_plain (hex_digit n)"
proof -
  have "\<forall>n \<in> set [0..<16]. unhex (hex_digit n) = n \<and> path_plain (hex_digit n)" by code_simp
  then show "n < 16 \<Longrightarrow> ?thesis" by simp
qed

lemma path_plain_special: "\<not> path_plain (CHR ''%'')" "\<not> path_plain (CHR ''/'')" "\<not> path_plain (CHR ''?'')"
  by (simp_all add: path_plain_def unreserved_def)

lemma of_char_halves: "of_char c div 16 < (16::nat)" "of_char c mod 16 < (16::nat)"
  "char_of (16 * (of_char c div 16) + of_char c mod (16::nat)) = c"
  using nat_of_char_less_256 [of c] by (auto simp: less_mult_imp_div_less)

lemma PathUnescape_percent: "PathUnescape (percent c @ s) = c # PathUnescape s"
  using of_char_halves [of c] by (simp add: percent_def hex_digits)

lemma PathUnescape_plain: "c \<noteq> CHR ''%'' \<Longrightarrow> PathUnescape (c # s) = c # PathUnescape s"
  by (cases s; cases "tl s") auto

lemma PathUnescape_PathEscape: "PathUnescape (PathEscape s) = s"
proof (induction s)
  case (Cons c s)
  moreover have "path_plain c \<Longrightarrow> c \<noteq> CHR ''%''" using path_plain_special(1) by auto
  ultimately show ?case by (simp add: PathEscape_def PathUnescape_percent PathUnescape_plain)
qed (simp add: PathEscape_def)

lemma PathEscape_chars: "c \<in> set (PathEscape s) \<Longrightarrow> path_plain c \<or> c = CHR ''%''"
  using of_char_halves by (auto simp: PathEscape_def percent_def hex_digits split: if_splits)


lemma fileURL_decode:
  "map PathUnescape (Split (CHR ''/'') (drop (length (baseURL g @ ''/api/v1/files/'')) (fileURL g p))) = Split (CHR ''/'') p"
proof -
  have "Split (CHR ''/'') (Join ''/'' (map PathEscape (Split (CHR ''/'') p))) = map PathEscape (Split (CHR ''/'') p)"
    by (rule Split_Join) (use PathEscape_chars path_plain_special in auto)
  then show ?thesis by (simp add: fileURL_def PathUnescape_PathEscape o_def)
qed

section \<open>Paths below the base\<close>

definition normal :: "string list \<Rightarrow> bool" where
  "normal xs \<longleftrightarrow> xs \<noteq> [] \<and> (\<forall>x \<in> set xs. x \<noteq> [] \<and> x \<noteq> ''.'' \<and> x \<noteq> ''..'' \<and> CHR ''/'' \<notin> set x)"

lemma clean_parts_normal:
  "\<forall>x \<in> set xs. x \<noteq> [] \<and> x \<noteq> ''.'' \<and> x \<noteq> ''..'' \<Longrightarrow> clean_parts r acc xs = rev acc @ xs"
  by (induction xs arbitrary: acc) auto

lemma Split_rooted: "normal xs \<Longrightarrow> Split (CHR ''/'') (CHR ''/'' # Join ''/'' xs) = [] # xs"
  using Split_append_sep [of "CHR ''/''" "[]" "Join ''/'' xs"] by (simp add: normal_def Split_Join)

lemma Clean_rooted: "normal xs \<Longrightarrow> Clean (CHR ''/'' # Join ''/'' xs) = CHR ''/'' # Join ''/'' xs"
  by (simp add: Clean_def normal_def Split_Join clean_parts_normal)

lemma path_elements_rooted: "normal xs \<Longrightarrow> path_elements (CHR ''/'' # Join ''/'' xs) = xs"
  by (simp add: path_elements_def Clean_rooted) (simp add: normal_def Split_Join)

lemma strip_common_append: "strip_common xs (xs @ ys) = ([], ys)"
  by (induction xs) (cases ys; auto)+

lemma under_base_join:
  assumes "normal bs" and "normal rs" and "basePath a = CHR ''/'' # Join ''/'' bs"
    and "\<not> HasPrefix (Join ''/'' rs) ''..''"
  shows "under_base a (JoinPath (Path a) (Join ''/'' rs)) = Inr (Join ''/'' rs)"
proof -
  have both: "normal (bs @ rs)" using assms(1,2) by (auto simp: normal_def)
  have ne: "Join ''/'' rs \<noteq> []" using assms(2) by (cases rs; cases "tl rs") (auto simp: normal_def)
  have join: "JoinPath (Path a) (Join ''/'' rs) = CHR ''/'' # Join ''/'' (bs @ rs)"
    using assms(1,2) ne Clean_rooted [OF both] by (simp add: JoinPath_def Path_def assms(3) Join_append normal_def)
  have "Rel (basePath a) (CHR ''/'' # Join ''/'' (bs @ rs)) = Some (Join ''/'' rs)"
    using assms(2) unfolding Rel_def assms(3)
    by (simp add: Clean_rooted [OF both] Clean_rooted [OF assms(1)] path_elements_rooted [OF both]
        path_elements_rooted [OF assms(1)] strip_common_append normal_def)
  with assms(4) join show ?thesis by (simp add: under_base_def)
qed

section \<open>Traces\<close>

text \<open>The same world with the list of the requests sent so far and what came back.\<close>

type_synonym exchange = "http_request \<times> http_response res"

definition traced :: "'w world \<Rightarrow> ('w \<times> exchange list) world" where
  "traced W =
     \<lparr>http_do = (\<lambda>q (w, t). case http_do W q w of (r, w) \<Rightarrow> (r, (w, t @ [(q, r)]))),
      new_request_error = new_request_error W,
      ctx_err = (\<lambda>(w, t). ctx_err W w),
      wait_for = (\<lambda>d (w, t). case wait_for W d w of (r, w) \<Rightarrow> (r, (w, t))),
      clock_now = (\<lambda>(w, t). case clock_now W w of (r, w) \<Rightarrow> (r, (w, t))),
      inc_metric = (\<lambda>n ls (w, t). (inc_metric W n ls w, t)),
      json_paths = json_paths W\<rparr>"

lemma traced_simps [simp]:
  "snd (snd (http_do (traced W) q x)) = snd x @ [(q, fst (http_do (traced W) q x))]"
  "snd (snd (wait_for (traced W) d x)) = snd x"
  "snd (snd (clock_now (traced W) x)) = snd x"
  "snd (inc_metric (traced W) n ls x) = snd x"
  by (simp_all add: traced_def split_def)

lemma traced_GitRestCallsTotal [simp]: "snd (GitRestCallsTotal (traced W) op out x) = snd x"
  by (simp add: GitRestCallsTotal_def)

definition accepted :: "exchange \<Rightarrow> bool" where
  "accepted x = (case snd x of Inr resp \<Rightarrow> 200 \<le> resp_status resp \<and> resp_status resp < 300 | Inl _ \<Rightarrow> False)"

text \<open>What a run of the retry loop adds to the trace: at most \<open>n\<close> exchanges of the one request, only the
  last of which may have been accepted, and then and only then the call succeeds.\<close>

definition attempts :: "http_request \<Rightarrow> nat \<Rightarrow> unit res \<Rightarrow> exchange list \<Rightarrow> bool" where
  "attempts q n r xs \<longleftrightarrow> length xs \<le> n \<and> (\<forall>x \<in> set xs. fst x = q) \<and>
     (r = Inr () \<longleftrightarrow> xs \<noteq> [] \<and> accepted (last xs)) \<and> (\<forall>x \<in> set (butlast xs). \<not> accepted x)"

lemma attempts_Nil: "attempts q n (Inl e) []"
  by (simp add: attempts_def)

lemma attempts_one: "attempts q (Suc n) r [(q, a)] \<longleftrightarrow> (r = Inr () \<longleftrightarrow> accepted (q, a))"
  by (simp add: attempts_def)

lemma attempts_Suc: "attempts q n r xs \<Longrightarrow> attempts q (Suc n) r xs"
  by (auto simp: attempts_def)

lemma attempts_Cons: "attempts q n r xs \<Longrightarrow> \<not> accepted (q, a) \<Longrightarrow> attempts q (Suc n) r ((q, a) # xs)"
  by (auto simp: attempts_def)

lemma retry_trace:
  assumes "n = 0 \<longrightarrow> le \<noteq> None"
  shows "\<exists>xs. snd (snd (retry_loop (traced W) g p v op q co n le x)) = snd x @ xs \<and>
     attempts q n (fst (retry_loop (traced W) g p v op q co n le x)) xs"
  using assms
proof (induction n arbitrary: le x co)
  case 0
  then show ?case by (auto simp: attempts_Nil)
next
  case (Suc n)
  define ok where "ok res \<longleftrightarrow> (\<exists>xs. snd (snd res) = snd x @ xs \<and> attempts q (Suc n) (fst res) xs)"
    for res :: "unit res \<times> ('a \<times> exchange list)"
  define cw where "cw = (if 0 < 4 - int n
      then wait_for (traced W) (backoff g (4 - int n)) (inc_metric (traced W) ''controller_kafka_consume_paused_total'' [] x)
      else (None, x))"
  obtain c y where cy: "cw = (c, y)" by (cases cw)
  have "snd (snd cw) = snd x" by (simp add: cw_def)
  then have y: "snd y = snd x" using cy by simp
  obtain r z where rz: "http_do (traced W) q y = (r, z)" by (cases "http_do (traced W) q y")
  then have z: "snd z = snd x @ [(q, r)]" using traced_simps(1) [of W q y] y by simp
  have cancel: "ok (Inl e, u)" if "snd u = snd x" for e u
    using that by (auto simp: ok_def attempts_Nil)
  have finish: "ok (s, u)" if "snd u = snd z" "s = Inr () \<longleftrightarrow> accepted (q, r)" for s u
    using that z by (auto simp: ok_def attempts_one)
  have again0: "ok (retry_loop (traced W) g p v op q co n (Some e) u)" if "snd u = snd x" for e u co
    using Suc.IH [of "Some e" co u] that by (auto simp: ok_def intro: attempts_Suc)
  have again1: "ok (retry_loop (traced W) g p v op q co n (Some e) u)"
    if "snd u = snd z" "\<not> accepted (q, r)" for e u co
  proof -
    obtain xs where "snd (snd (retry_loop (traced W) g p v op q co n (Some e) u)) = snd u @ xs"
      and "attempts q n (fst (retry_loop (traced W) g p v op q co n (Some e) u)) xs"
      using Suc.IH [of "Some e" co u] by auto
    then show ?thesis
      using that z attempts_Cons unfolding ok_def by (intro exI [of _ "(q, r) # xs"]) simp
  qed
  have "ok (retry_loop (traced W) g p v op q co (Suc n) le x)"
    unfolding retry_loop.simps Let_def cw_def [symmetric] cy prod.case rz
    using y by (simp add: accepted_def cancel finish again0 again1 split: option.split sum.split)
  then show ?case by (simp only: ok_def)
qed

lemma traced_Get:
  "\<exists>xs. snd (snd (Get (traced W) g p x)) = snd x @ xs \<and> (\<forall>e \<in> set xs. req_method (fst e) = ''GET'')"
proof -
  let ?q = "\<lparr>req_method = ''GET'', req_url = fileURL g p, req_headers = setAuthHeaders g [],
                              req_body = [], req_timeout = clientTimeout\<rparr>"
  obtain r z where rz: "http_do (traced W) ?q x = (r, z)" by (cases "http_do (traced W) ?q x")
  then have z: "snd z = snd x @ [(?q, r)]" using traced_simps(1) [of W ?q x] by simp
  show ?thesis unfolding Get_def Let_def rz prod.case
    by (auto simp: z split: option.split sum.split)
qed

section \<open>The read-modify-write contract\<close>

text \<open>
  What every client of the git client relies on: a read-modify-write sends only bytes its modify function
  produced from some current content and that differ from it, the closure runs at most once, and a
  modify function that fails on every content writes nothing and reports an error.
\<close>

locale atomic_update =
  fixes rmw :: "'p \<Rightarrow> (bytes \<Rightarrow> 's \<Rightarrow> bytes res \<times> 's) \<Rightarrow> 's \<Rightarrow> 'w \<Rightarrow> unit res \<times> 's \<times> 'w"
    and written :: "'w \<Rightarrow> bytes list"
  assumes rmw_sends: "rmw p f s w = (r, s', w') \<Longrightarrow>
      \<exists>bs. written w' = written w @ bs \<and>
        (\<forall>b \<in> set bs. \<exists>current. fst (f current s) = Inr b \<and> b \<noteq> current)"
    and rmw_once: "rmw p f s w = (r, s', w') \<Longrightarrow> s' = s \<or> (\<exists>current. s' = snd (f current s))"
    and rmw_failing: "rmw p f s w = (r, s', w') \<Longrightarrow> (\<And>current. \<exists>e. fst (f current s) = Inl e) \<Longrightarrow> r \<noteq> Inr ()"
begin

text \<open>A predicate that holds of every output of the modify function holds of everything it writes.\<close>

lemma written_satisfy:
  assumes "rmw p f s w = (r, s', w')" and "\<And>current b. fst (f current s) = Inr b \<Longrightarrow> P b"
    and "\<forall>b \<in> set (written w). P b"
  shows "\<forall>b \<in> set (written w'). P b"
proof -
  obtain bs where bs: "written w' = written w @ bs"
    "\<forall>b \<in> set bs. \<exists>current. fst (f current s) = Inr b \<and> b \<noteq> current"
    using rmw_sends [OF assms(1)] by blast
  show ?thesis
  proof
    fix b
    assume "b \<in> set (written w')"
    then consider "b \<in> set (written w)" | "b \<in> set bs" using bs(1) by auto
    then show "P b" using assms(2,3) bs(2) by cases blast+
  qed
qed

lemma failing_writes_nothing:
  assumes "rmw p f s w = (r, s', w')" and "\<And>current. \<exists>e. fst (f current s) = Inl e"
  shows "written w' = written w \<and> r \<noteq> Inr ()"
proof -
  obtain bs where bs: "written w' = written w @ bs"
    "\<forall>b \<in> set bs. \<exists>current. fst (f current s) = Inr b \<and> b \<noteq> current"
    using rmw_sends [OF assms(1)] by (elim exE conjE)
  have "bs = []"
  proof (rule ccontr)
    assume "bs \<noteq> []"
    then have "\<exists>current. fst (f current s) = Inr (hd bs) \<and> hd bs \<noteq> current" using bs(2) by simp
    then obtain current where "fst (f current s) = Inr (hd bs)" by (elim exE conjE)
    moreover obtain e where "fst (f current s) = Inl e" using assms(2) [of current] by (elim exE)
    ultimately show False by simp
  qed
  with bs(1) rmw_failing [OF assms] show ?thesis by simp
qed

text \<open>A modify function that returns its input writes nothing.\<close>

lemma unchanged_writes_nothing:
  assumes "rmw p f s w = (r, s', w')" and "\<And>current b. fst (f current s) = Inr b \<Longrightarrow> b = current"
  shows "written w' = written w"
proof -
  obtain bs where "written w' = written w @ bs" "\<forall>b \<in> set bs. \<exists>current. fst (f current s) = Inr b \<and> b \<noteq> current"
    using rmw_sends [OF assms(1)] by blast
  then show ?thesis using assms(2) by (cases bs) auto
qed

end

text \<open>The bytes of the write requests in a trace.\<close>

definition posted :: "exchange list \<Rightarrow> bytes list" where
  "posted t = map (\<lambda>x. req_body (fst x)) (filter (\<lambda>x. req_method (fst x) = ''POST'') t)"

lemma posted_append [simp]: "posted (t @ u) = posted t @ posted u"
  by (simp add: posted_def)

lemma posted_gets: "\<forall>x \<in> set t. req_method (fst x) = ''GET'' \<Longrightarrow> posted t = []"
  by (auto simp: posted_def filter_empty_conv)

definition post_request :: "gitRestClient \<Rightarrow> path \<Rightarrow> bytes \<Rightarrow> http_request" where
  "post_request g p content =
     \<lparr>req_method = ''POST'', req_url = fileURL g p,
      req_headers = setAuthHeaders g [(''Content-Type'', ''application/octet-stream'')],
      req_body = content, req_timeout = clientTimeout\<rparr>"

lemma Post_trace:
  "\<exists>xs. snd (snd (Post (traced W) g p b x)) = snd x @ xs \<and>
     attempts (post_request g p b) 5 (fst (Post (traced W) g p b x)) xs"
  using retry_trace [of 5 None W g p "''POST''" "''post''" "post_request g p b" False x]
  by (simp add: Post_def post_def post_request_def)

lemma posted_attempts: "attempts (post_request g p b) n r xs \<Longrightarrow> posted xs = replicate (length xs) b"
proof -
  assume "attempts (post_request g p b) n r xs"
  then have *: "\<forall>x \<in> set xs. fst x = post_request g p b" by (simp add: attempts_def)
  then have "filter (\<lambda>x. req_method (fst x) = ''POST'') xs = xs"
    by (auto simp: post_request_def intro: filter_True)
  moreover have "map (\<lambda>x. req_body (fst x)) xs = map (\<lambda>x. b) xs"
    using * by (auto simp: post_request_def)
  ultimately show ?thesis by (simp add: posted_def map_replicate_const)
qed

lemma rmw_trace:
  assumes "AtomicReadModifyWriteAndCommitPush (traced W) a p f msg s x = (r, s', x')"
  shows "\<exists>k b. posted (snd x') = posted (snd x) @ replicate k b \<and> k \<le> 5 \<and>
           (0 < k \<longrightarrow> (\<exists>current. fst (f current s) = Inr b \<and> b \<noteq> current))"
proof (cases "under_base a p")
  case (Inl e)
  with assms show ?thesis by (auto simp: AtomicReadModifyWriteAndCommitPush_def)
next
  case (Inr rel)
  obtain c y where y: "Get (traced W) (client a) rel x = (c, y)" by (cases "Get (traced W) (client a) rel x")
  have post_y: "posted (snd y) = posted (snd x)"
    using traced_Get [of W "client a" rel x] posted_gets by (auto simp: y)
  show ?thesis
  proof (cases "\<exists>current b s''. c = Inr current \<and> f current s = (Inr b, s'') \<and> b \<noteq> current")
    case False
    then have "x' = y"
      using assms by (auto simp: AtomicReadModifyWriteAndCommitPush_def Inr y split: sum.splits prod.splits if_splits)
    with post_y show ?thesis by auto
  next
    case True
    then obtain current b s'' where c: "c = Inr current" "f current s = (Inr b, s'')" "b \<noteq> current" by blast
    then have "x' = snd (Post (traced W) (client a) rel b y)"
      using assms by (simp add: AtomicReadModifyWriteAndCommitPush_def Inr y split: prod.splits)
    moreover obtain xs where "snd (snd (Post (traced W) (client a) rel b y)) = snd y @ xs"
      and xs: "attempts (post_request (client a) rel b) 5 (fst (Post (traced W) (client a) rel b y)) xs"
      using Post_trace by blast
    ultimately have "posted (snd x') = posted (snd x) @ replicate (length xs) b"
      using posted_attempts [OF xs] post_y by simp
    moreover have "length xs \<le> 5" using xs by (simp add: attempts_def)
    ultimately show ?thesis using c by (metis fst_conv)
  qed
qed

lemma rmw_closure:
  assumes "AtomicReadModifyWriteAndCommitPush W a p f msg s x = (r, s', x')"
  shows "(\<exists>e. r = Inl e) \<and> s' = s \<or> (\<exists>current t. f current s = (t, s') \<and> ((\<exists>e. t = Inl e) \<longrightarrow> r \<noteq> Inr ()))"
proof (cases "under_base a p")
  case (Inl e)
  with assms show ?thesis by (auto simp: AtomicReadModifyWriteAndCommitPush_def)
next
  case (Inr rel)
  obtain c y where y: "Get W (client a) rel x = (c, y)" by (cases "Get W (client a) rel x")
  show ?thesis
  proof (cases c)
    case (Inl e)
    with assms Inr y show ?thesis by (auto simp: AtomicReadModifyWriteAndCommitPush_def)
  next
    case cur: (Inr current)
    obtain t s'' where t: "f current s = (t, s'')" by (cases "f current s")
    note run = assms [unfolded AtomicReadModifyWriteAndCommitPush_def Inr y cur t sum.case prod.case]
    show ?thesis
    proof (cases t)
      case (Inl e)
      with run t show ?thesis by auto
    next
      case (Inr b)
      obtain q z where "Post W (client a) rel b y = (q, z)" by (cases "Post W (client a) rel b y")
      with run Inr have "s' = s''" by (simp split: if_splits)
      with t Inr show ?thesis by blast
    qed
  qed
qed

interpretation rmw: atomic_update
  "\<lambda>p f s x. AtomicReadModifyWriteAndCommitPush (traced W) a p f msg s x" "\<lambda>x. posted (snd x)"
  for W :: "'w world" and a msg
proof
  fix p and f :: "bytes \<Rightarrow> 's \<Rightarrow> bytes res \<times> 's" and s x r s' x'
  assume run: "AtomicReadModifyWriteAndCommitPush (traced W) a p f msg s x = (r, s', x')"
  show "\<exists>bs. posted (snd x') = posted (snd x) @ bs \<and>
        (\<forall>b \<in> set bs. \<exists>current. fst (f current s) = Inr b \<and> b \<noteq> current)"
    using rmw_trace [OF run] by (metis gr0I in_set_replicate)
  show "s' = s \<or> (\<exists>current. s' = snd (f current s))"
    using rmw_closure [OF run] by (metis snd_conv)
  show "r \<noteq> Inr ()" if "\<And>current. \<exists>e. fst (f current s) = Inl e"
    using rmw_closure [OF run] that by (metis Inl_Inr_False fst_conv)
qed

lemma posted_Get: "posted (snd (snd (Get (traced W) g p x))) = posted (snd x)"
  using traced_Get [of W g p x] posted_gets by auto

lemma posted_List: "posted (snd (snd (List_files (traced W) g glob x))) = posted (snd x)"
proof -
  let ?q = "\<lparr>req_method = ''GET'', req_url = (baseURL g @ ''/api/v1/files/'') @ ''?glob='' @ QueryEscape glob,
                              req_headers = setAuthHeaders g [], req_body = [], req_timeout = clientTimeout\<rparr>"
  obtain r z where rz: "http_do (traced W) ?q x = (r, z)" by (cases "http_do (traced W) ?q x")
  then have z: "posted (snd z) = posted (snd x)"
    using traced_simps(1) [of W ?q x] by (simp add: posted_def)
  show ?thesis unfolding List_files_def Let_def rz prod.case
    by (auto simp: z split: option.split sum.split)
qed

lemma posted_ReadFile: "posted (snd (snd (ReadFile (traced W) a p x))) = posted (snd x)"
  using posted_Get [of W "client a" p x] by (simp add: ReadFile_def split_def)

lemma posted_ListFiles: "posted (snd (snd (ListFiles (traced W) a glob x))) = posted (snd x)"
  by (simp add: ListFiles_def posted_List)

section \<open>An available server\<close>

definition get_request :: "gitRestClient \<Rightarrow> path \<Rightarrow> http_request" where
  "get_request g p =
     \<lparr>req_method = ''GET'', req_url = fileURL g p, req_headers = setAuthHeaders g [],
      req_body = [], req_timeout = clientTimeout\<rparr>"

text \<open>
  The documented behaviour of git-rest while it is reachable and the context is live, seen through the
  files it holds: a GET answers 200 with the content of a file that exists, a POST stores the content
  and answers in the 200 range; nothing else changes the files.
\<close>

definition serves :: "'w world \<Rightarrow> gitRestClient \<Rightarrow> ('w \<Rightarrow> path \<Rightarrow> bytes option) \<Rightarrow> bool" where
  "serves W g files \<longleftrightarrow>
     (\<forall>w. ctx_err W w = None) \<and> (\<forall>m u. new_request_error W m u = None) \<and>
     (\<forall>n ls w. files (inc_metric W n ls w) = files w) \<and>
     (\<forall>p w b. files w p = Some b \<longrightarrow>
        (\<exists>resp w'. http_do W (get_request g p) w = (Inr resp, w') \<and> resp_status resp = 200 \<and>
           resp_body resp = Inr b \<and> files w' = files w)) \<and>
     (\<forall>p w b. \<exists>resp w'. http_do W (post_request g p b) w = (Inr resp, w') \<and>
        200 \<le> resp_status resp \<and> resp_status resp < 300 \<and> files w' = (files w)(p \<mapsto> b))"

lemma serves_Get:
  assumes "serves W g files" and "files w p = Some b" and "length b \<le> maxBody"
  shows "\<exists>w'. Get W g p w = (Inr b, w') \<and> files w' = files w"
proof -
  obtain resp w' where "http_do W (get_request g p) w = (Inr resp, w')" "resp_status resp = 200"
      "resp_body resp = Inr b" "files w' = files w"
    using assms(1,2) unfolding serves_def by blast
  moreover have "new_request_error W m u = None" "files (inc_metric W n ls v) = files v" for m u n ls v
    using assms(1) unfolding serves_def by blast+
  ultimately show ?thesis
    using assms(3) by (simp add: Get_def get_request_def read_body_def GitRestCallsTotal_def)
qed

lemma serves_Post:
  assumes "serves W g files"
  shows "\<exists>w'. Post W g p b w = (Inr (), w') \<and> files w' = (files w)(p \<mapsto> b)"
proof -
  obtain resp w' where "http_do W (post_request g p b) w = (Inr resp, w')" "200 \<le> resp_status resp"
      "resp_status resp < 300" "files w' = (files w)(p \<mapsto> b)"
    using assms unfolding serves_def by blast
  moreover have "new_request_error W m u = None" "files (inc_metric W n ls v) = files v" "ctx_err W v = None" for m u n ls v
    using assms unfolding serves_def by blast+
  ultimately show ?thesis
    by (simp add: Post_def post_def post_request_def GitRestCallsTotal_def eval_nat_numeral)
qed

lemma serves_rmw:
  assumes "serves W (client a) files" and "under_base a absPath = Inr p" and "files w p = Some b"
    and "length b \<le> maxBody" and "f b s = (Inr b', s')"
  shows "\<exists>w'. AtomicReadModifyWriteAndCommitPush W a absPath f msg s w = (Inr (), s', w') \<and>
              files w' = (files w)(p \<mapsto> b')"
proof -
  obtain u where u: "Get W (client a) p w = (Inr b, u)" "files u = files w"
    using serves_Get [OF assms(1,3,4)] by blast
  obtain v where v: "Post W (client a) p b' u = (Inr (), v)" "files v = (files u)(p \<mapsto> b')"
    using serves_Post [OF assms(1)] by blast
  show ?thesis
    using u v assms(2,3,5)
    by (auto simp: AtomicReadModifyWriteAndCommitPush_def wrap_res_def fun_upd_idem)
qed

lemma serves_rmw_result:
  assumes "serves W (client a) files" and "under_base a absPath = Inr p" and "files w p = Some b" and "length b \<le> maxBody"
    and "AtomicReadModifyWriteAndCommitPush W a absPath f msg s w = (Inr (), s', w')"
  shows "\<exists>b'. f b s = (Inr b', s') \<and> files w' = (files w)(p \<mapsto> b')"
proof (cases "f b s")
  case (Pair r s1)
  show ?thesis
  proof (cases r)
    case (Inl e)
    obtain u where "Get W (client a) p w = (Inr b, u)" using serves_Get [OF assms(1,3,4)] by blast
    then show ?thesis using assms(5) Pair Inl by (simp add: AtomicReadModifyWriteAndCommitPush_def assms(2))
  next
    case (Inr b')
    have "f b s = (Inr b', s1)" using Pair Inr by simp
    moreover from this obtain v where
      "AtomicReadModifyWriteAndCommitPush W a absPath f msg s w = (Inr (), s1, v)" "files v = (files w)(p \<mapsto> b')"
      using serves_rmw [OF assms(1,2,3,4), of f s b' s1 msg] by blast
    ultimately show ?thesis using assms(5) by auto
  qed
qed

section \<open>A reference server\<close>

text \<open>An in-memory store behind the same requests, to show that the hypotheses can hold. It decodes the
  URL as the server does; a listing is sent one path per line.\<close>

record mem =
  mem_files :: "(path \<times> bytes) list"
  mem_clock :: instant
  mem_metrics :: "(string \<times> string list) list"

definition served_path :: "gitRestClient \<Rightarrow> string \<Rightarrow> path" where
  "served_path g url =
     Join ''/'' (map PathUnescape (Split (CHR ''/'') (drop (length (baseURL g @ ''/api/v1/files/'')) url)))"

definition answer :: "int \<Rightarrow> bytes \<Rightarrow> http_response res" where
  "answer code b = Inr \<lparr>resp_status = code, resp_body = Inr b\<rparr>"

definition mem_http :: "gitRestClient \<Rightarrow> http_request \<Rightarrow> mem \<Rightarrow> http_response res \<times> mem" where
  "mem_http g q m =
     (let p = served_path g (req_url q) in
      if CHR ''?'' \<in> set (drop (length (baseURL g)) (req_url q))
      then (answer 200 (Join [nl] (map fst (mem_files m))), m)
      else if req_method q = ''GET''
      then (case map_of (mem_files m) p of Some b \<Rightarrow> answer 200 b | None \<Rightarrow> answer 404 [], m)
      else (answer 200 [], m\<lparr>mem_files := AList.update p (req_body q) (mem_files m)\<rparr>))"

definition mem_world :: "gitRestClient \<Rightarrow> mem world" where
  "mem_world g =
     \<lparr>http_do = mem_http g, new_request_error = (\<lambda>_ _. None), ctx_err = (\<lambda>_. None),
      wait_for = (\<lambda>d m. (None, m\<lparr>mem_clock := mem_clock m + d\<rparr>)),
      clock_now = (\<lambda>m. (mem_clock m, m)),
      inc_metric = (\<lambda>n ls m. m\<lparr>mem_metrics := mem_metrics m @ [(n, ls)]\<rparr>),
      json_paths = (\<lambda>b. Inr (filter (\<lambda>p. p \<noteq> []) (Split nl b)))\<rparr>"

lemma served_path_fileURL [simp]: "served_path g (fileURL g p) = p"
  by (simp only: served_path_def fileURL_decode Join_Split)

lemma set_Join: "set (Join sep xs) \<subseteq> set sep \<union> (\<Union>x \<in> set xs. set x)"
proof (induction xs)
  case (Cons x xs)
  then show ?case by (cases "xs = []") (auto simp: Join_Cons)
qed simp

lemma fileURL_no_query: "CHR ''?'' \<notin> set (drop (length (baseURL g)) (fileURL g p))"
  using set_Join [of "''/''" "map PathEscape (Split (CHR ''/'') p)"] PathEscape_chars path_plain_special(3)
  by (fastforce simp: fileURL_def)

lemma mem_serves: "serves (mem_world g) g (\<lambda>m. map_of (mem_files m))"
  by (auto simp: serves_def mem_world_def mem_http_def get_request_def post_request_def fileURL_no_query
      answer_def update_conv')

lemma mem_ListFiles:
  assumes "client a = g" and "length (Join [nl] (map fst (mem_files m))) \<le> maxBody" and "mem_files m \<noteq> []"
    and "\<forall>p \<in> set (map fst (mem_files m)). p \<noteq> [] \<and> nl \<notin> set p"
  shows "\<exists>m'. ListFiles (mem_world g) a glob m = (Inr (map fst (mem_files m)), m') \<and> mem_files m' = mem_files m"
proof -
  have "Split nl (Join [nl] (map fst (mem_files m))) = map fst (mem_files m)"
    by (rule Split_Join) (use assms(3,4) in auto)
  moreover have "filter (\<lambda>p. p \<noteq> []) (map fst (mem_files m)) = map fst (mem_files m)"
    using assms(4) by (intro filter_True) auto
  ultimately show ?thesis
    using assms(1,2)
    by (simp add: ListFiles_def List_files_def mem_world_def mem_http_def answer_def read_body_def GitRestCallsTotal_def Let_def
        del: filter.simps)
qed

abbreviation ref_world :: "mem world" where
  "ref_world \<equiv> mem_world (NewGitRestClient ''h'' [] [])"

section \<open>Properties\<close>

text \<open>The URL of a file survives the round trip to the server: decoding its path segments gives back
  the relative path, byte for byte, and no character of the path is taken for a query.\<close>

theorem fileURL_roundtrip:
  "served_path g (fileURL g p) = p \<and> CHR ''?'' \<notin> set (drop (length (baseURL g)) (fileURL g p))"
  using fileURL_no_query by simp

text \<open>A write is attempted at most five times, always with the same request; it reports success
  exactly when its last attempt was answered in the 200 range, and never sends another request after
  one that was accepted.\<close>

theorem post_attempts:
  "\<exists>xs. snd (snd (Post (traced W) g p b x)) = snd x @ xs \<and> length xs \<le> 5 \<and>
     (\<forall>e \<in> set xs. fst e = post_request g p b) \<and>
     (fst (Post (traced W) g p b x) = Inr () \<longleftrightarrow> xs \<noteq> [] \<and> accepted (last xs)) \<and>
     (\<forall>e \<in> set (butlast xs). \<not> accepted e)"
  using Post_trace [of W g p b x] unfolding attempts_def .

theorem post_attempts_witness:
  "length (snd (snd (Post (traced (mem_world (NewGitRestClient ''h'' [] []))) (NewGitRestClient ''h'' [] []) ''a'' ''b''
     (\<lparr>mem_files = [], mem_clock = 0, mem_metrics = []\<rparr>, [])))) \<le> 5"
  using post_attempts [of "mem_world (NewGitRestClient ''h'' [] [])" "NewGitRestClient ''h'' [] []" "''a''" "''b''"
      "(\<lparr>mem_files = [], mem_clock = 0, mem_metrics = []\<rparr>, [])"] by auto

text \<open>A read-modify-write sends to the store only bytes that its modify function produced from a
  current content and that differ from it; so a modify function that fails or returns its input causes
  no write at all. It sends at most five requests, all with the same bytes.\<close>

theorem rmw_writes_only_modified:
  assumes "AtomicReadModifyWriteAndCommitPush (traced W) a p f msg s x = (r, s', x')"
  shows "(\<exists>k b. posted (snd x') = posted (snd x) @ replicate k b \<and> k \<le> 5 \<and>
            (0 < k \<longrightarrow> (\<exists>current. fst (f current s) = Inr b \<and> b \<noteq> current))) \<and>
         ((\<forall>current. \<exists>e. fst (f current s) = Inl e) \<longrightarrow> posted (snd x') = posted (snd x) \<and> r \<noteq> Inr ()) \<and>
         ((\<forall>current b. fst (f current s) = Inr b \<longrightarrow> b = current) \<longrightarrow> posted (snd x') = posted (snd x))"
  using rmw_trace [OF assms] rmw.failing_writes_nothing [OF assms] rmw.unchanged_writes_nothing [OF assms]
  by auto

theorem rmw_writes_only_modified_witness:
  "posted (snd (snd (snd (AtomicReadModifyWriteAndCommitPush (traced (mem_world (NewGitRestClient ''h'' [] [])))
     (NewGitClient (NewGitRestClient ''h'' [] []) ''/v'') ''/v/a.md'' (\<lambda>b s. (Inr b, s)) []
     () (\<lparr>mem_files = [], mem_clock = 0, mem_metrics = []\<rparr>, []))))) = []"
proof -
  let ?g = "NewGitRestClient ''h'' [] []"
  let ?run = "AtomicReadModifyWriteAndCommitPush (traced (mem_world ?g)) (NewGitClient ?g ''/v'') ''/v/a.md''
     (\<lambda>b s. (Inr b, s)) [] () (\<lparr>mem_files = [], mem_clock = 0, mem_metrics = []\<rparr>, [])"
  obtain r s' x' where run: "?run = (r, s', x')" by (cases ?run)
  from rmw_writes_only_modified [OF this] show ?thesis by (simp add: run posted_def)
qed

text \<open>The same server seen through the trace, and one accepted request is one request.\<close>

lemma serves_traced: "serves W g files \<Longrightarrow> serves (traced W) g (\<lambda>x. files (fst x))"
proof -
  assume srv: "serves W g files"
  have "\<exists>resp y. http_do (traced W) (get_request g p) x = (Inr resp, y) \<and> resp_status resp = 200 \<and>
      resp_body resp = Inr b \<and> files (fst y) = files (fst x)" if f: "files (fst x) p = Some b" for p x b
  proof -
    obtain resp w' where "http_do W (get_request g p) (fst x) = (Inr resp, w')" "resp_status resp = 200"
      "resp_body resp = Inr b" "files w' = files (fst x)" using srv f unfolding serves_def by blast
    then show ?thesis by (simp add: traced_def split_def)
  qed
  moreover have "\<exists>resp y. http_do (traced W) (post_request g p b) x = (Inr resp, y) \<and>
      200 \<le> resp_status resp \<and> resp_status resp < 300 \<and> files (fst y) = (files (fst x))(p \<mapsto> b)" for p x b
  proof -
    obtain resp w' where "http_do W (post_request g p b) (fst x) = (Inr resp, w')" "200 \<le> resp_status resp"
      "resp_status resp < 300" "files w' = (files (fst x))(p \<mapsto> b)" using srv unfolding serves_def by blast
    then show ?thesis by (simp add: traced_def split_def)
  qed
  ultimately show ?thesis using srv unfolding serves_def by (simp add: traced_def split_def)
qed

lemma serves_Post_once:
  assumes "serves W g files"
  shows "\<exists>x'. Post (traced W) g p b x = (Inr (), x') \<and> files (fst x') = (files (fst x))(p \<mapsto> b) \<and> posted (snd x') = posted (snd x) @ [b]"
proof -
  obtain resp w' where "http_do W (post_request g p b) (fst x) = (Inr resp, w')" "200 \<le> resp_status resp"
      "resp_status resp < 300" "files w' = (files (fst x))(p \<mapsto> b)"
    using assms unfolding serves_def by blast
  moreover have "new_request_error W m u = None" "files (inc_metric W n ls v) = files v" "ctx_err W v = None" for m u n ls v
    using assms unfolding serves_def by blast+
  ultimately show ?thesis
    by (simp add: Post_def post_def post_request_def GitRestCallsTotal_def eval_nat_numeral traced_def split_def posted_def)
qed

text \<open>C23: A read-modify-write that runs alone against an available server, on the file the caller named: the path the
  caller builds from the base path and a relative path addresses exactly that file and no other is touched. If the modify
  function fails, its error is returned with the path and nothing is sent; if it returns its input, nothing is sent and
  the call succeeds; otherwise its bytes are sent exactly once and are the file's new content. What an overlapping run
  does in between is another matter (C5).\<close>

theorem rmw_updates_file:
  assumes "serves W (client a) files"
    and "normal bs" and "basePath a = CHR ''/'' # Join ''/'' bs"
    and "normal rs" and "rel = Join ''/'' rs" and "\<not> HasPrefix rel ''..''"
    and "files w rel = Some b" and "length b \<le> maxBody" and "f b s = (r, s')"
  shows "\<exists>res w' t'. AtomicReadModifyWriteAndCommitPush (traced W) a (JoinPath (Path a) rel) f msg s (w, t) = (res, s', w', t') \<and>
     (case r of
        Inl e \<Rightarrow> res = Inl (Wrapf e ''modify func failed for %s'' [rel]) \<and> files w' = files w \<and> posted t' = posted t
      | Inr b' \<Rightarrow> res = Inr () \<and> files w' = (files w)(rel \<mapsto> b') \<and> posted t' = posted t @ (if b' = b then [] else [b']))"
proof -
  have ub: "under_base a (JoinPath (Path a) rel) = Inr rel" using under_base_join [OF assms(2,4,3)] assms(5,6) by simp
  obtain y where y: "Get (traced W) (client a) rel (w, t) = (Inr b, y)" "files (fst y) = files w"
    using serves_Get [OF serves_traced [OF assms(1)], of "(w, t)" rel b] assms(7,8) by auto
  have posted_y: "posted (snd y) = posted t" using posted_Get [of W "client a" rel "(w, t)"] y(1) by simp
  show ?thesis
  proof (cases r)
    case (Inl e)
    then show ?thesis
      using y posted_y assms(9) by (cases y) (simp add: AtomicReadModifyWriteAndCommitPush_def ub)
  next
    case (Inr b')
    obtain x where x: "Post (traced W) (client a) rel b' y = (Inr (), x)" "files (fst x) = (files (fst y))(rel \<mapsto> b')"
      "posted (snd x) = posted (snd y) @ [b']" using serves_Post_once [OF assms(1)] by blast
    show ?thesis
    proof (cases "b' = b")
      case True
      then show ?thesis
        using y posted_y assms(7,9) Inr by (cases y) (simp add: AtomicReadModifyWriteAndCommitPush_def ub fun_upd_idem)
    next
      case False
      then show ?thesis
        using y x posted_y assms(9) Inr by (cases x) (simp add: AtomicReadModifyWriteAndCommitPush_def ub wrap_res_def)
    qed
  qed
qed

theorem rmw_updates_file_witness:
  "\<exists>w' t'. AtomicReadModifyWriteAndCommitPush (traced (mem_world (NewGitRestClient ''h'' [] [])))
      (NewGitClient (NewGitRestClient ''h'' [] []) ''/v'') (JoinPath ''/v'' ''t/a.md'') (\<lambda>b s. (Inr (b @ ''!''), s)) [] ()
      (\<lparr>mem_files = [(''t/a.md'', ''x'')], mem_clock = 0, mem_metrics = []\<rparr>, []) = (Inr (), (), w', t') \<and>
     map_of (mem_files w') ''t/a.md'' = Some ''x!'' \<and> posted t' = [''x!'']"
proof -
  let ?g = "NewGitRestClient ''h'' [] []"
  let ?a = "NewGitClient ?g ''/v''"
  have cl: "client ?a = ?g" by (simp add: NewGitClient_def)
  have base: "basePath ?a = CHR ''/'' # Join ''/'' [''v'']" by (simp add: NewGitClient_def TrimRight1_def)
  have n: "normal [''v'']" "normal [''t'', ''a.md'']" by (simp_all add: normal_def)
  show ?thesis
    using rmw_updates_file [of "mem_world ?g" ?a "\<lambda>m. map_of (mem_files m)" "[''v'']" "[''t'', ''a.md'']" "''t/a.md''"
        "\<lparr>mem_files = [(''t/a.md'', ''x'')], mem_clock = 0, mem_metrics = []\<rparr>" "''x''" "\<lambda>b s. (Inr (b @ ''!''), s)"
        "()" "Inr ''x!''" "()" "[]" "[]"]
      mem_serves [of ?g] n base by (simp add: cl HasPrefix_def maxBody_def Path_def posted_def) auto
qed

end
