(* ===== verification/Metrics.thy ===== *)
theory Metrics
  imports GitRest
begin

text \<open>
  The counters of \<open>pkg/metrics/metrics.go\<close>: the vectors with their label names, the methods that pick a series, and the
  series that exist before the first event because \<open>init\<close> adds 0 to them. The counter of the git-rest client is in
  \<open>GitRest\<close>, the gauges are in \<open>MetricsPass\<close>.
\<close>

section \<open>Vectors\<close>

text \<open>The label names of every counter vector; a plain counter has none.\<close>

definition counter_labels :: "string \<rightharpoonup> string list" where
  "counter_labels = map_of
     [(''agent_controller_scan_cycles_total'', [''result'']),
      (''agent_controller_tasks_published_total'', [''type'']),
      (''agent_controller_planning_retry_total'', [''result'']),
      (''agent_controller_results_written_total'', [''result'']),
      (''agent_controller_git_push_total'', [''result'']),
      (''agent_controller_conflict_resolutions_total'', [''result'']),
      (''agent_controller_frontmatter_commands_total'', [''operation'', ''outcome'']),
      (''agent_controller_git_rest_calls_total'', [''op'', ''status'']),
      (''controller_kafka_consume_paused_total'', []),
      (''agent_controller_commands_expired_total'', [''operation'']),
      (''agent_controller_vault_scanner_skipped_files_total'', [''reason''])]"

text \<open>\<open>WithLabelValues\<close> panics when the number of values is not that of the label names.\<close>

definition WithLabelValues :: "string \<Rightarrow> string list \<Rightarrow> (string \<times> string list) option" where
  "WithLabelValues name values =
     (case counter_labels name of
        Some labels \<Rightarrow> (if length values = length labels then Some (name, values) else None)
      | None \<Rightarrow> None)"

section \<open>Methods\<close>

definition ScanCyclesTotal :: "'w world \<Rightarrow> string \<Rightarrow> 'w \<Rightarrow> 'w" where
  "ScanCyclesTotal W outcome = inc_metric W ''agent_controller_scan_cycles_total'' [outcome]"

definition TasksPublishedTotal :: "'w world \<Rightarrow> string \<Rightarrow> 'w \<Rightarrow> 'w" where
  "TasksPublishedTotal W outcome = inc_metric W ''agent_controller_tasks_published_total'' [outcome]"

definition PlanningRetryTotal :: "'w world \<Rightarrow> string \<Rightarrow> 'w \<Rightarrow> 'w" where
  "PlanningRetryTotal W outcome = inc_metric W ''agent_controller_planning_retry_total'' [outcome]"

definition ResultsWrittenTotal :: "'w world \<Rightarrow> string \<Rightarrow> 'w \<Rightarrow> 'w" where
  "ResultsWrittenTotal W outcome = inc_metric W ''agent_controller_results_written_total'' [outcome]"

definition FrontmatterCommandsTotal :: "'w world \<Rightarrow> string \<Rightarrow> string \<Rightarrow> 'w \<Rightarrow> 'w" where
  "FrontmatterCommandsTotal W operation outcome = inc_metric W ''agent_controller_frontmatter_commands_total'' [operation, outcome]"

definition CommandExpiredTotal :: "'w world \<Rightarrow> string \<Rightarrow> 'w \<Rightarrow> 'w" where
  "CommandExpiredTotal W operation = inc_metric W ''agent_controller_commands_expired_total'' [operation]"

definition SkippedFilesTotal :: "'w world \<Rightarrow> string \<Rightarrow> 'w \<Rightarrow> 'w" where
  "SkippedFilesTotal W reason = inc_metric W ''agent_controller_vault_scanner_skipped_files_total'' [reason]"

text \<open>The series that \<open>ConflictResolutionsTotal()\<close> asks for: the method passes no label value.\<close>

definition ConflictResolutionsTotal :: "(string \<times> string list) option" where
  "ConflictResolutionsTotal = WithLabelValues ''agent_controller_conflict_resolutions_total'' []"

section \<open>Series that exist at start\<close>

definition AvailableSkipReasons :: "string list" where
  "AvailableSkipReasons =
     [''invalid_frontmatter'', ''duplicate_frontmatter_invalid'', ''empty_status'', ''inject_task_identifier_failed'',
      ''read_failed'', ''auto_inject_disabled'', ''repair_not_converging'']"

definition availableCommandOperations :: "string list" where
  "availableCommandOperations =
     [''create-task'', ''complete-task'', ''increment-frontmatter'', ''update-frontmatter'', ''update'']"

definition init_series :: "(string \<times> string list) list" where
  "init_series =
     map (\<lambda>v. (''agent_controller_scan_cycles_total'', [v])) [''changes'', ''no_changes'', ''error'', ''redrive''] @
     map (\<lambda>v. (''agent_controller_tasks_published_total'', [v])) [''changed'', ''deleted'', ''redrive''] @
     map (\<lambda>v. (''agent_controller_results_written_total'', [v])) [''success'', ''not_found'', ''unowned'', ''error''] @
     map (\<lambda>v. (''agent_controller_planning_retry_total'', [v])) [''retry'', ''exhausted''] @
     map (\<lambda>v. (''agent_controller_git_push_total'', [v])) [''success'', ''retry_success'', ''conflict_resolved'', ''error''] @
     map (\<lambda>v. (''agent_controller_conflict_resolutions_total'', [v])) [''success'', ''error''] @
     concat (map (\<lambda>op. map (\<lambda>outcome. (''agent_controller_frontmatter_commands_total'', [op, outcome]))
       [''success'', ''error'', ''not_found'']) [''increment-frontmatter'', ''update-frontmatter'', ''complete-task'']) @
     concat (map (\<lambda>op. map (\<lambda>status. (''agent_controller_git_rest_calls_total'', [op, status]))
       [''success'', ''error'']) [''get'', ''post'', ''delete'', ''list'', ''readiness'']) @
     map (\<lambda>reason. (''agent_controller_vault_scanner_skipped_files_total'', [reason])) AvailableSkipReasons @
     map (\<lambda>operation. (''agent_controller_commands_expired_total'', [operation])) availableCommandOperations"

text \<open>A plain counter is exposed without being initialised.\<close>

definition exposed :: "string \<times> string list \<Rightarrow> bool" where
  "exposed s \<longleftrightarrow> s \<in> set init_series \<or> counter_labels (fst s) = Some [] \<and> snd s = []"

lemma skip_reasons [simp]:
  "''invalid_frontmatter'' \<in> set AvailableSkipReasons" "''duplicate_frontmatter_invalid'' \<in> set AvailableSkipReasons"
  "''empty_status'' \<in> set AvailableSkipReasons" "''inject_task_identifier_failed'' \<in> set AvailableSkipReasons"
  "''read_failed'' \<in> set AvailableSkipReasons" "''auto_inject_disabled'' \<in> set AvailableSkipReasons"
  "''repair_not_converging'' \<in> set AvailableSkipReasons"
  by (simp_all add: AvailableSkipReasons_def)

lemma exposed_skip [simp]: "exposed (''agent_controller_vault_scanner_skipped_files_total'', [r]) \<longleftrightarrow> r \<in> set AvailableSkipReasons"
  by (auto simp: exposed_def init_series_def counter_labels_def)

lemma exposed_calls [simp]:
  "exposed (''agent_controller_git_rest_calls_total'', [op, s]) \<longleftrightarrow>
     op \<in> {''get'', ''post'', ''delete'', ''list'', ''readiness''} \<and> s \<in> {''success'', ''error''}"
  by (auto simp: exposed_def init_series_def counter_labels_def)

lemma exposed_paused [simp]: "exposed (''controller_kafka_consume_paused_total'', [])"
  by (simp add: exposed_def counter_labels_def)

lemma exposed_published [simp]:
  "exposed (''agent_controller_tasks_published_total'', [v]) \<longleftrightarrow> v \<in> {''changed'', ''deleted'', ''redrive''}"
  "exposed (''agent_controller_scan_cycles_total'', [v]) \<longleftrightarrow> v \<in> {''changes'', ''no_changes'', ''error'', ''redrive''}"
  by (auto simp: exposed_def init_series_def counter_labels_def)

lemma exposed_typed: "exposed s \<Longrightarrow> WithLabelValues (fst s) (snd s) = Some s"
proof -
  have "list_all (\<lambda>s. WithLabelValues (fst s) (snd s) = Some s) init_series" by code_simp
  then have "\<forall>s \<in> set init_series. WithLabelValues (fst s) (snd s) = Some s" by (simp add: list_all_iff)
  then show "exposed s \<Longrightarrow> WithLabelValues (fst s) (snd s) = Some s"
    unfolding exposed_def by (elim disjE) (blast, simp add: WithLabelValues_def prod_eq_iff)
qed

end
