(* ===== verification/Resolver.thy ===== *)
theory Resolver
  imports Frontmatter Metrics
begin

text \<open>
  From a task identifier to the one file that carries it. The interface \<open>TaskPathResolver\<close>
  (\<open>pkg/result/task_path_resolver.go\<close>) is a locale; its provider is the identifier index of the vault
  scanner (\<open>Resolve\<close>, \<open>Record\<close>, \<open>RecordDuplicate\<close> of \<open>pkg/scanner/vault_scanner.go\<close>), its client
  \<open>FindTaskFilePath\<close> of \<open>pkg/result/result_writer.go\<close>. The index is shared between goroutines under a
  lock; each of the three operations holds it, so it is one step here.
\<close>

section \<open>The index of the scanner\<close>

type_synonym index = "(task_id, path list) fmap"

definition index_paths :: "index \<Rightarrow> task_id \<Rightarrow> path list" where
  "index_paths index tid = (case fmlookup index tid of Some paths \<Rightarrow> paths | None \<Rightarrow> [])"

definition Resolve :: "index \<Rightarrow> task_id \<Rightarrow> path option res" where
  "Resolve index tid =
     (if tid = [] then Inr None
      else case index_paths index tid of
             [] \<Rightarrow> Inr None
           | [p] \<Rightarrow> Inr (Some p)
           | p # q # _ \<Rightarrow> Inl (Errorf ''duplicate task_identifier %s in %s and %s'' [tid, p, q]))"

definition Record_path :: "task_id \<Rightarrow> path \<Rightarrow> index \<Rightarrow> index" where
  "Record_path tid relPath index =
     (if tid = [] \<or> relPath = [] then index
      else if 2 \<le> length (index_paths index tid) then index
      else fmupd tid [relPath] index)"

definition RecordDuplicate :: "task_id \<Rightarrow> path \<Rightarrow> index \<Rightarrow> index" where
  "RecordDuplicate tid relPath index =
     (if tid = [] \<or> relPath = [] then index
      else if relPath \<in> set (index_paths index tid) then index
      else fmupd tid (index_paths index tid @ [relPath]) index)"

section \<open>The lookup\<close>

text \<open>\<open>None\<close> stands for a nil resolver.\<close>

definition resolveFromIndex ::
  "'w world \<Rightarrow> pure_lib \<Rightarrow> gitClient \<Rightarrow> task_id \<Rightarrow> index option \<Rightarrow> 'w \<Rightarrow> (path \<times> fm) option res \<times> 'w" where
  "resolveFromIndex W L a tid resolver w =
     (case resolver of
        None \<Rightarrow> (Inr None, w)
      | Some index \<Rightarrow>
          (case Resolve index tid of
             Inl e \<Rightarrow> (Inl e, w)
           | Inr None \<Rightarrow> (Inr None, w)
           | Inr (Some relPath) \<Rightarrow>
               (case ReadFile W a relPath w of
                  (Inl _, w) \<Rightarrow> (Inr None, w)
                | (Inr content, w) \<Rightarrow>
                    (case ExtractFrontmatter content of
                       Inl _ \<Rightarrow> (Inr None, w)
                     | Inr frontmatter \<Rightarrow>
                         (let existing = (case yaml_Unmarshal L frontmatter of Inr m \<Rightarrow> m | Inl _ \<Rightarrow> fmempty)
                          in if lib_String L existing ''task_identifier'' \<noteq> Some tid then (Inr None, w)
                             else (Inr (Some (relPath, existing)), w))))))"

definition taskIdentifierMatch :: "string \<Rightarrow> string \<Rightarrow> task_id \<Rightarrow> bool \<times> bool" where
  "taskIdentifierMatch current previous tid =
     (if current = tid then (True, False)
      else if previous \<noteq> [] \<and> previous = tid then (True, True)
      else (False, False))"

definition recordWalkMatch :: "index option \<Rightarrow> task_id \<Rightarrow> path \<Rightarrow> index option" where
  "recordWalkMatch resolver tid relPath =
     (case resolver of
        None \<Rightarrow> None
      | Some index \<Rightarrow> if relPath = [] then Some index else Some (Record_path tid relPath index))"

text \<open>The loop over the listing; the accumulators are \<open>matchedRelPath\<close>, \<open>matchedByPrevious\<close> and
  \<open>existingFrontmatter\<close>.\<close>

fun walk_files ::
  "'w world \<Rightarrow> pure_lib \<Rightarrow> gitClient \<Rightarrow> task_id \<Rightarrow> path list \<Rightarrow> path \<Rightarrow> bool \<Rightarrow> fm \<Rightarrow> 'w
     \<Rightarrow> (path \<times> bool \<times> fm) res \<times> 'w" where
  "walk_files W L a tid [] matched byPrevious existing w = (Inr (matched, byPrevious, existing), w)"
| "walk_files W L a tid (relPath # paths) matched byPrevious existing w =
     (case ReadFile W a relPath w of
        (Inl _, w) \<Rightarrow> walk_files W L a tid paths matched byPrevious existing w
      | (Inr content, w) \<Rightarrow>
          (case ExtractFrontmatter content of
             Inl _ \<Rightarrow> walk_files W L a tid paths matched byPrevious existing w
           | Inr frontmatter \<Rightarrow>
               (case yaml_Identifiers L frontmatter of
                  Inl _ \<Rightarrow> walk_files W L a tid paths matched byPrevious existing w
                | Inr (current, previous) \<Rightarrow>
                    (let (isMatch, viaPrevious) = taskIdentifierMatch current previous tid
                     in if \<not> isMatch then walk_files W L a tid paths matched byPrevious existing w
                        else if matched \<noteq> []
                        then (Inl (Errorf ''duplicate task_identifier %s in %s and %s'' [tid, matched, relPath]), w)
                        else walk_files W L a tid paths relPath viaPrevious
                               (case yaml_Unmarshal L frontmatter of Inr m \<Rightarrow> m | Inl _ \<Rightarrow> existing) w))))"

text \<open>The result is the path, empty when no file carries the identifier, with its frontmatter; the
  resolver comes back with the match it recorded.\<close>

definition FindTaskFilePath ::
  "'w world \<Rightarrow> pure_lib \<Rightarrow> gitClient \<Rightarrow> string \<Rightarrow> task_id \<Rightarrow> index option \<Rightarrow> 'w
     \<Rightarrow> (path \<times> fm) res \<times> index option \<times> 'w" where
  "FindTaskFilePath W L a taskDir tid resolver w =
     (case resolveFromIndex W L a tid resolver w of
        (Inl e, w) \<Rightarrow> (Inl e, resolver, w)
      | (Inr (Some hit), w) \<Rightarrow> (Inr hit, resolver, w)
      | (Inr None, w) \<Rightarrow>
          (let glob = taskDir @ ''/*.md''
           in case ListFiles W a glob w of
                (Inl e, w) \<Rightarrow> (Inl (Wrapf e ''list task files with glob %s'' [glob]), resolver, w)
              | (Inr paths, w) \<Rightarrow>
                  (case walk_files W L a tid paths [] False fmempty w of
                     (Inl e, w) \<Rightarrow> (Inl e, resolver, w)
                   | (Inr (matched, byPrevious, existing), w) \<Rightarrow>
                       (Inr (matched, existing),
                        (if byPrevious then resolver else recordWalkMatch resolver tid matched), w))))"

section \<open>The resolver contract\<close>

text \<open>
  What the documentation of the interface promises, over the set of paths the resolver knows for an
  identifier: a hit is the only known path, a miss means none is known, an error means several; recording
  replaces a single path but never hides a known duplicate; recording a duplicate adds.
\<close>

locale task_path_resolver =
  fixes ok :: "'r \<Rightarrow> bool"
    and known :: "'r \<Rightarrow> task_id \<Rightarrow> path set"
    and resolve :: "'r \<Rightarrow> task_id \<Rightarrow> path option res"
    and rec_path :: "task_id \<Rightarrow> path \<Rightarrow> 'r \<Rightarrow> 'r"
    and rec_dup :: "task_id \<Rightarrow> path \<Rightarrow> 'r \<Rightarrow> 'r"
  assumes ok_rec_path: "ok r \<Longrightarrow> ok (rec_path i p r)"
    and ok_rec_dup: "ok r \<Longrightarrow> ok (rec_dup i p r)"
    and finite_known: "finite (known r i)"
    and resolve_hit: "ok r \<Longrightarrow> resolve r i = Inr (Some p) \<longleftrightarrow> known r i = {p}"
    and resolve_miss: "ok r \<Longrightarrow> resolve r i = Inr None \<longleftrightarrow> known r i = {}"
    and known_rec_path: "ok r \<Longrightarrow> known (rec_path i p r) j =
          (if j = i \<and> i \<noteq> [] \<and> p \<noteq> [] \<and> card (known r i) < 2 then {p} else known r j)"
    and known_rec_dup: "known (rec_dup i p r) j =
          (if j = i \<and> i \<noteq> [] \<and> p \<noteq> [] then insert p (known r i) else known r j)"
begin

lemma resolve_error: "ok r \<Longrightarrow> (\<exists>e. resolve r i = Inl e) \<longleftrightarrow> 2 \<le> card (known r i)"
proof -
  assume ok: "ok r"
  have "2 \<le> card (known r i) \<longleftrightarrow> known r i \<noteq> {} \<and> (\<forall>p. known r i \<noteq> {p})"
  proof -
    have "card (known r i) = 0 \<longleftrightarrow> known r i = {}" using finite_known by simp
    moreover have "card (known r i) = 1 \<longleftrightarrow> (\<exists>p. known r i = {p})" by (simp add: card_1_singleton_iff)
    moreover have "2 \<le> card (known r i) \<longleftrightarrow> card (known r i) \<noteq> 0 \<and> card (known r i) \<noteq> 1" by linarith
    ultimately show ?thesis by simp
  qed
  moreover have "(\<exists>e. resolve r i = Inl e) \<longleftrightarrow> resolve r i \<noteq> Inr None \<and> (\<forall>p. resolve r i \<noteq> Inr (Some p))"
  proof (cases "resolve r i")
    case (Inr x)
    then show ?thesis by (cases x) simp_all
  qed simp
  ultimately show ?thesis using resolve_hit [OF ok] resolve_miss [OF ok] by simp
qed

text \<open>What was recorded resolves, unless two files were already known.\<close>

lemma resolve_rec_path:
  assumes "ok r" and "i \<noteq> []" and "p \<noteq> []" and "\<And>e. resolve r i \<noteq> Inl e"
  shows "resolve (rec_path i p r) i = Inr (Some p)"
proof -
  have "card (known r i) < 2" using resolve_error [OF assms(1), of i] assms(4) by auto
  then show ?thesis
    using resolve_hit [OF ok_rec_path [OF assms(1)]] assms(1-3) by (simp add: known_rec_path)
qed

lemma resolve_rec_dup:
  assumes "ok r" and "i \<noteq> []" and "p \<noteq> []" and "resolve r i = Inr (Some q)" and "p \<noteq> q"
  shows "\<exists>e. resolve (rec_dup i p r) i = Inl e"
proof -
  have "known (rec_dup i p r) i = {p, q}"
    using assms resolve_hit [OF assms(1), of i q] by (simp add: known_rec_dup insert_commute)
  then show ?thesis using resolve_error [OF ok_rec_dup [OF assms(1)]] assms(5) by simp
qed

text \<open>A run of recordings; \<open>True\<close> marks a duplicate.\<close>

definition run_recs :: "(bool \<times> task_id \<times> path) list \<Rightarrow> 'r \<Rightarrow> 'r" where
  "run_recs ops r = foldl (\<lambda>r (dup, i, p). if dup then rec_dup i p r else rec_path i p r) r ops"

lemma run_recs_simps [simp]:
  "run_recs [] r = r"
  "run_recs ((dup, i, p) # ops) r = run_recs ops (if dup then rec_dup i p r else rec_path i p r)"
  by (simp_all add: run_recs_def)

lemma ok_run_recs: "ok r \<Longrightarrow> ok (run_recs ops r)"
  by (induction ops arbitrary: r) (auto simp: ok_rec_path ok_rec_dup)

lemma duplicate_never_hidden:
  assumes "ok r" and "resolve r i = Inl e"
  shows "\<exists>e. resolve (run_recs ops r) i = Inl e"
proof -
  have "2 \<le> card (known (run_recs ops r) i)"
    if "ok r" "2 \<le> card (known r i)" for r
    using that
  proof (induction ops arbitrary: r)
    case (Cons op ops)
    obtain dup j p where op: "op = (dup, j, p)" by (cases op)
    have "2 \<le> card (known (rec_path j p r) i)" using Cons.prems by (auto simp: known_rec_path)
    moreover have "2 \<le> card (known (rec_dup j p r) i)"
      using Cons.prems card_insert_le [of "known r j" p] by (cases "i = j") (auto simp: known_rec_dup)
    ultimately show ?case using Cons.IH Cons.prems(1) ok_rec_path ok_rec_dup by (simp add: op)
  qed simp
  then show ?thesis
    using resolve_error [OF assms(1), of i] resolve_error [OF ok_run_recs [OF assms(1)], of ops i] assms by blast
qed

end

section \<open>The index satisfies the contract\<close>

definition index_ok :: "index \<Rightarrow> bool" where
  "index_ok index \<longleftrightarrow> (\<forall>tid. distinct (index_paths index tid))"

definition index_known :: "index \<Rightarrow> task_id \<Rightarrow> path set" where
  "index_known index tid = (if tid = [] then {} else set (index_paths index tid))"

lemma index_paths_upd [simp]: "index_paths (fmupd i ps m) j = (if i = j then ps else index_paths m j)"
  by (simp add: index_paths_def)

lemma distinct_two: "distinct ps \<Longrightarrow> 2 \<le> length ps \<longleftrightarrow> 2 \<le> card (set ps)"
  by (simp add: distinct_card)

interpretation idx: task_path_resolver index_ok index_known Resolve Record_path RecordDuplicate
proof
  fix r :: index and i j p
  have paths: "Resolve r i = (if i = [] then Inr None else case index_paths r i of [] \<Rightarrow> Inr None | [p] \<Rightarrow> Inr (Some p)
      | p # q # _ \<Rightarrow> Inl (Errorf ''duplicate task_identifier %s in %s and %s'' [i, p, q]))"
    by (simp add: Resolve_def)
  show "finite (index_known r i)" by (simp add: index_known_def)
  show "index_known (RecordDuplicate i p r) j =
      (if j = i \<and> i \<noteq> [] \<and> p \<noteq> [] then insert p (index_known r i) else index_known r j)"
    by (auto simp: index_known_def RecordDuplicate_def)
  assume ok: "index_ok r"
  then have d: "distinct (index_paths r i)" by (simp add: index_ok_def)
  show "index_ok (Record_path i p r)" using ok by (simp add: index_ok_def Record_path_def)
  show "index_ok (RecordDuplicate i p r)" using ok by (simp add: index_ok_def RecordDuplicate_def)
  show "Resolve r i = Inr (Some p) \<longleftrightarrow> index_known r i = {p}"
    using d by (auto simp: paths index_known_def split: list.splits)
  show "Resolve r i = Inr None \<longleftrightarrow> index_known r i = {}"
    by (simp add: paths index_known_def split: list.splits)
  show "index_known (Record_path i p r) j =
      (if j = i \<and> i \<noteq> [] \<and> p \<noteq> [] \<and> card (index_known r i) < 2 then {p} else index_known r j)"
    using distinct_two [OF d] by (auto simp: index_known_def Record_path_def)
qed

section \<open>The lookup on a stable vault\<close>

text \<open>
  While a lookup runs nobody else writes: every read of a path gives the same answer and the listing is
  fixed. \<open>I\<close> is what the reads keep of the world.
\<close>

definition snapshot ::
  "'w world \<Rightarrow> gitClient \<Rightarrow> string \<Rightarrow> ('w \<Rightarrow> bool) \<Rightarrow> (path \<Rightarrow> bytes res) \<Rightarrow> path list \<Rightarrow> bool" where
  "snapshot W a glob I files paths \<longleftrightarrow>
     (\<forall>w p. I w \<longrightarrow> fst (ReadFile W a p w) = files p \<and> I (snd (ReadFile W a p w))) \<and>
     (\<forall>w. I w \<longrightarrow> fst (ListFiles W a glob w) = Inr paths \<and> I (snd (ListFiles W a glob w)))"

text \<open>The walk accepts a file whose decoded identifiers match.\<close>

definition carries :: "pure_lib \<Rightarrow> (path \<Rightarrow> bytes res) \<Rightarrow> task_id \<Rightarrow> path \<Rightarrow> bool" where
  "carries L files tid p =
     (case files p of
        Inl _ \<Rightarrow> False
      | Inr content \<Rightarrow>
          (case ExtractFrontmatter content of
             Inl _ \<Rightarrow> False
           | Inr frontmatter \<Rightarrow>
               (case yaml_Identifiers L frontmatter of
                  Inl _ \<Rightarrow> False
                | Inr (current, previous) \<Rightarrow> fst (taskIdentifierMatch current previous tid))))"

text \<open>The specification of the walk: the one match, none, or an error naming the first two.\<close>

definition duplicate_error :: "task_id \<Rightarrow> path \<Rightarrow> path \<Rightarrow> go_error" where
  "duplicate_error tid p q = Errorf ''duplicate task_identifier %s in %s and %s'' [tid, p, q]"

definition unique_match :: "task_id \<Rightarrow> path list \<Rightarrow> path res" where
  "unique_match tid ms = (case ms of [] \<Rightarrow> Inr [] | [p] \<Rightarrow> Inr p | p # q # _ \<Rightarrow> Inl (duplicate_error tid p q))"

definition found_path :: "(path \<times> 'a) res \<Rightarrow> path res" where
  "found_path r = (case r of Inl e \<Rightarrow> Inl e | Inr x \<Rightarrow> Inr (fst x))"

lemma found_path_simps [simp]: "found_path (Inl e) = Inl e" "found_path (Inr (p, x)) = Inr p"
  by (simp_all add: found_path_def)

lemma snapshot_read:
  assumes "snapshot W a glob I files paths" and "I w"
  shows "\<exists>w'. ReadFile W a p w = (files p, w') \<and> I w'"
  using assms unfolding snapshot_def by (metis prod.collapse)

lemma walk_spec:
  assumes "snapshot W a glob I files paths" and "I w" and "[] \<notin> set ps"
  shows "I (snd (walk_files W L a tid ps m v e w)) \<and>
    found_path (fst (walk_files W L a tid ps m v e w)) =
      unique_match tid ((if m = [] then [] else [m]) @ filter (carries L files tid) ps)"
  using assms(2,3)
proof (induction ps arbitrary: m v e w)
  case Nil
  then show ?case by (simp add: unique_match_def)
next
  case (Cons p ps)
  obtain w' where w': "ReadFile W a p w = (files p, w')" "I w'"
    using snapshot_read [OF assms(1) Cons.prems(1)] by blast
  have IH: "I (snd (walk_files W L a tid ps m' v' e' w')) \<and>
    found_path (fst (walk_files W L a tid ps m' v' e' w')) =
      unique_match tid ((if m' = [] then [] else [m']) @ filter (carries L files tid) ps)" for m' v' e'
    using Cons.IH [OF w'(2)] Cons.prems(2) by auto
  show ?case
  proof (cases "carries L files tid p")
    case False
    then have "walk_files W L a tid (p # ps) m v e w = walk_files W L a tid ps m v e w'"
      unfolding carries_def by (auto simp: w'(1) Let_def split_def split: sum.splits)
    then show ?thesis using IH [of m v e] False by simp
  next
    case True
    then obtain content t cur prev where c: "files p = Inr content" "ExtractFrontmatter content = Inr t"
        "yaml_Identifiers L t = Inr (cur, prev)" "fst (taskIdentifierMatch cur prev tid)"
      by (auto simp: carries_def split: sum.splits)
    obtain via where via: "taskIdentifierMatch cur prev tid = (True, via)"
      using c(4) by (cases "taskIdentifierMatch cur prev tid") auto
    show ?thesis
    proof (cases "m = []")
      case m: True
      have "p \<noteq> []" using Cons.prems(2) by auto
      then show ?thesis using True IH [of p] by (simp add: w'(1) c via m)
    next
      case False
      then show ?thesis using True w'(2) by (simp add: w'(1) c via unique_match_def duplicate_error_def)
    qed
  qed
qed

lemma resolve_from_index_miss:
  assumes "case resolver of None \<Rightarrow> True | Some index \<Rightarrow> Resolve index tid = Inr None"
  shows "resolveFromIndex W L a tid resolver w = (Inr None, w)"
  using assms by (cases resolver) (simp_all add: resolveFromIndex_def)

text \<open>A file names a task by the identifier in its frontmatter, current or recorded as previous.\<close>

definition names_task :: "pure_lib \<Rightarrow> bytes \<Rightarrow> task_id \<Rightarrow> bool" where
  "names_task L content tid \<longleftrightarrow>
     (\<exists>t. ExtractFrontmatter content = Inr t \<and>
        ((\<exists>m. yaml_Unmarshal L t = Inr m \<and> fm_get m ''task_identifier'' = Some (VStr tid)) \<or>
         (\<exists>cur prev. yaml_Identifiers L t = Inr (cur, prev) \<and> (cur = tid \<or> prev = tid))))"

lemma carries_names_task: "carries L files tid p \<Longrightarrow> \<exists>c. files p = Inr c \<and> names_task L c tid"
  by (auto simp: carries_def names_task_def taskIdentifierMatch_def split: sum.splits if_splits)

lemma resolve_from_index_hit:
  assumes "lib_ok L" and "snapshot W a glob I files paths" and "I w"
    and "resolveFromIndex W L a tid resolver w = (r, w')"
  shows "I w' \<and> (\<forall>p m. r = Inr (Some (p, m)) \<longrightarrow>
           (\<exists>c index. files p = Inr c \<and> names_task L c tid \<and> resolver = Some index \<and> Resolve index tid = Inr (Some p)))"
proof (cases "\<exists>index p. resolver = Some index \<and> Resolve index tid = Inr (Some p)")
  case False
  with assms(3,4) show ?thesis
    by (auto simp: resolveFromIndex_def split: option.splits sum.splits)
next
  case True
  then obtain index p where ip: "resolver = Some index" "Resolve index tid = Inr (Some p)" by blast
  obtain u where u: "ReadFile W a p w = (files p, u)" "I u" using snapshot_read [OF assms(2,3)] by blast
  have names: "\<exists>c. files p = Inr c \<and> names_task L c tid"
    if c: "files p = Inr c" "ExtractFrontmatter c = Inr t"
      "lib_String L (case yaml_Unmarshal L t of Inl _ \<Rightarrow> fmempty | Inr m \<Rightarrow> m) ''task_identifier'' = Some tid" for c t
    using c assms(1) by (auto simp: names_task_def lib_String_eq as_string_iff split: sum.splits)
  show ?thesis
    using assms(4) u ip names
    by (auto simp: resolveFromIndex_def Let_def split: sum.splits if_splits)
qed

text \<open>The reference server gives such a snapshot.\<close>

definition mem_read :: "(path \<times> bytes) list \<Rightarrow> path \<Rightarrow> bytes res" where
  "mem_read F p =
     wrap_res ''read file %s'' [p]
       (case map_of F p of Some b \<Rightarrow> Inr b | None \<Rightarrow> Inl (Errorf ''GET %s returned %d: %s'' [p, Itoa 404, []]))"

lemma mem_snapshot:
  assumes "\<forall>(p, b) \<in> set F. p \<noteq> [] \<and> nl \<notin> set p \<and> length b \<le> maxBody"
    and "F \<noteq> []" and "length (Join [nl] (map fst F)) \<le> maxBody"
  shows "snapshot (mem_world g) (NewGitClient g base) glob (\<lambda>m. mem_files m = F) (mem_read F) (map fst F)"
proof -
  have b: "map_of F p = Some b \<Longrightarrow> length b \<le> maxBody" for p b
    using assms(1) map_of_SomeD by fastforce
  have get: "Get (mem_world g) g p m = (case map_of F p of
      Some b \<Rightarrow> (Inr b, GitRestCallsTotal (mem_world g) ''get'' ''success'' m)
    | None \<Rightarrow> (Inl (Errorf ''GET %s returned %d: %s'' [p, Itoa 404, []]), GitRestCallsTotal (mem_world g) ''get'' ''error'' m))"
    if "mem_files m = F" for m p
    using that b
    by (auto simp: Get_def mem_world_def mem_http_def fileURL_no_query answer_def read_body_def preview_def
        split: option.splits)
  have metric: "mem_files (GitRestCallsTotal (mem_world g) op out m) = mem_files m" for op out m
    by (simp add: GitRestCallsTotal_def mem_world_def)
  have "Split nl (Join [nl] (map fst F)) = map fst F"
    using assms(1,2) by (intro Split_Join) auto
  moreover have "filter (\<lambda>p. p \<noteq> []) (map fst F) = map fst F"
    using assms(1) by (fastforce intro!: filter_True)
  ultimately have listing: "List_files (mem_world g) g glob m =
      (Inr (map fst F), GitRestCallsTotal (mem_world g) ''list'' ''success'' m)" if "mem_files m = F" for m
    using that assms(3)
    by (simp add: List_files_def mem_world_def mem_http_def answer_def read_body_def Let_def)
  show ?thesis
    unfolding snapshot_def
    by (auto simp: ReadFile_def ListFiles_def NewGitClient_def get listing metric mem_read_def split: option.splits)
qed

text \<open>A lookup that the index answers.\<close>

lemma find_indexed:
  assumes "serves W (client a) files" and "files w rel = Some b" and "length b \<le> maxBody"
    and "parseTaskFrontmatterAndBody L b = Inr (m, body)" and "lib_String L m ''task_identifier'' = Some tid"
    and "Resolve index tid = Inr (Some rel)"
  shows "\<exists>w1. FindTaskFilePath W L a d tid (Some index) w = (Inr (rel, m), Some index, w1) \<and> files w1 = files w"
proof -
  obtain w1 where "Get W (client a) rel w = (Inr b, w1)" "files w1 = files w" using serves_Get [OF assms(1-3)] by blast
  moreover obtain t where "ExtractFrontmatter b = Inr t" "yaml_Unmarshal L t = Inr m" using assms(4) unfolding parse_parts by blast
  ultimately show ?thesis
    using assms(5,6) by (simp add: FindTaskFilePath_def resolveFromIndex_def ReadFile_def wrap_res_def)
qed

section \<open>Properties\<close>

lemma find_task_walk:
  assumes "snapshot W a (taskDir @ ''/*.md'') I files paths" and "I w" and "[] \<notin> set paths"
    and "case resolver of None \<Rightarrow> True | Some index \<Rightarrow> Resolve index tid = Inr None"
  shows "found_path (fst (FindTaskFilePath W L a taskDir tid resolver w)) =
           unique_match tid (filter (carries L files tid) paths)"
proof -
  obtain u where u: "ListFiles W a (taskDir @ ''/*.md'') w = (Inr paths, u)" "I u"
    using assms(1,2) unfolding snapshot_def by (metis prod.collapse)
  have "found_path (fst (walk_files W L a tid paths [] False fmempty u)) =
      unique_match tid (filter (carries L files tid) paths)"
    using walk_spec [OF assms(1) u(2) assms(3), of L tid "[]" False fmempty] by simp
  moreover obtain r x where "walk_files W L a tid paths [] False fmempty u = (r, x)"
    by (cases "walk_files W L a tid paths [] False fmempty u")
  ultimately show ?thesis
    by (cases r) (auto simp: FindTaskFilePath_def resolve_from_index_miss [OF assms(4)] u(1) Let_def)
qed

text \<open>When the index does not know the identifier the lookup decides by the files alone: it returns
  the one file of the listing that carries the identifier, the empty path when none does, and the error
  naming the first two when several do; it never picks one of several.\<close>

theorem find_task_unique:
  assumes "snapshot W a (taskDir @ ''/*.md'') I files paths" and "I w" and "[] \<notin> set paths"
    and "case resolver of None \<Rightarrow> True | Some index \<Rightarrow> Resolve index tid = Inr None"
  shows "found_path (fst (FindTaskFilePath W L a taskDir tid resolver w)) =
           unique_match tid (filter (carries L files tid) paths)"
  using assms by (rule find_task_walk)

definition task_text :: bytes where
  "task_text = render_file (''t'' @ [nl]) ''body''"

definition task_lib :: pure_lib where
  "task_lib = ref_yaml ''t'' (fmap_of_list [(''task_identifier'', VStr ''u'')])"

definition one_file :: "(path \<times> bytes) list" where
  "one_file = [(''d/a.md'', task_text)]"

lemma one_file_snapshot:
  "snapshot (mem_world (NewGitRestClient ''h'' [] [])) (NewGitClient (NewGitRestClient ''h'' [] []) ''/v'') glob
     (\<lambda>m. mem_files m = one_file) (mem_read one_file) [''d/a.md'']"
  using mem_snapshot [of one_file "NewGitRestClient ''h'' [] []" "''/v''" glob]
  by (simp add: one_file_def task_text_def render_file_def maxBody_def)

lemma one_file_carries: "carries task_lib (mem_read one_file) ''u'' ''d/a.md''"
proof -
  have "ExtractFrontmatter task_text = Inr ''t''" by code_simp
  then show ?thesis
    by (simp add: carries_def mem_read_def one_file_def wrap_res_def task_lib_def ref_yaml_def taskIdentifierMatch_def
        fmlookup_of_list)
qed

theorem find_task_unique_witness:
  "found_path (fst (FindTaskFilePath (mem_world (NewGitRestClient ''h'' [] [])) task_lib
      (NewGitClient (NewGitRestClient ''h'' [] []) ''/v'') ''d'' ''u'' (Some fmempty)
      \<lparr>mem_files = one_file, mem_clock = 0, mem_metrics = []\<rparr>)) = Inr ''d/a.md''"
  by (subst find_task_unique [OF one_file_snapshot])
    (simp_all add: Resolve_def index_paths_def one_file_carries unique_match_def)

text \<open>Whatever the index holds, a path the lookup returns is the path of a file that was read in this
  lookup and names the task, in its current identifier or the recorded previous one: a stale index entry
  never sends a write to another task's file. An identifier the index knows twice is an error.\<close>

theorem find_task_sound:
  assumes "lib_ok L" and "snapshot W a (taskDir @ ''/*.md'') I files paths" and "I w" and "[] \<notin> set paths"
  shows "(\<forall>p m. fst (FindTaskFilePath W L a taskDir tid resolver w) = Inr (p, m) \<and> p \<noteq> [] \<longrightarrow>
            (\<exists>c. files p = Inr c \<and> names_task L c tid)) \<and>
         (\<forall>index e. resolver = Some index \<and> Resolve index tid = Inl e \<longrightarrow>
            fst (FindTaskFilePath W L a taskDir tid resolver w) = Inl e)"
proof (intro conjI allI impI; elim conjE)
  fix p m
  assume res: "fst (FindTaskFilePath W L a taskDir tid resolver w) = Inr (p, m)" and p: "p \<noteq> []"
  obtain r u where u: "resolveFromIndex W L a tid resolver w = (r, u)"
    by (cases "resolveFromIndex W L a tid resolver w")
  note hit = resolve_from_index_hit [OF assms(1,2,3) u]
  show "\<exists>c. files p = Inr c \<and> names_task L c tid"
  proof (cases "r = Inr None")
    case False
    with res u hit show ?thesis by (auto simp: FindTaskFilePath_def split: sum.splits option.splits)
  next
    case True
    obtain v where v: "ListFiles W a (taskDir @ ''/*.md'') u = (Inr paths, v)" "I v"
      using assms(2) hit unfolding snapshot_def by (metis prod.collapse)
    obtain q x where x: "walk_files W L a tid paths [] False fmempty v = (q, x)"
      by (cases "walk_files W L a tid paths [] False fmempty v")
    have "unique_match tid (filter (carries L files tid) paths) = Inr p"
      using walk_spec [OF assms(2) v(2) assms(4), of L tid "[]" False fmempty] res True u v(1) x
      by (cases q) (auto simp: FindTaskFilePath_def Let_def)
    then have "filter (carries L files tid) paths = [p]"
      using p by (simp add: unique_match_def split: list.splits)
    then have "p \<in> set (filter (carries L files tid) paths)" by simp
    then show ?thesis using carries_names_task by auto
  qed
next
  fix index e
  assume "resolver = Some index" "Resolve index tid = Inl e"
  then show "fst (FindTaskFilePath W L a taskDir tid resolver w) = Inl e"
    by (simp add: FindTaskFilePath_def resolveFromIndex_def)
qed

theorem find_task_sound_witness:
  "\<exists>c. mem_read one_file ''d/a.md'' = Inr c \<and> names_task task_lib c ''u''"
proof -
  let ?W = "mem_world (NewGitRestClient ''h'' [] [])" and ?a = "NewGitClient (NewGitRestClient ''h'' [] []) ''/v''"
  let ?m = "\<lparr>mem_files = one_file, mem_clock = 0, mem_metrics = []\<rparr>"
  have L: "lib_ok task_lib" unfolding task_lib_def by (rule lib_ok_ref_yaml)
  have "found_path (fst (FindTaskFilePath ?W task_lib ?a ''d'' ''u'' None ?m)) = Inr ''d/a.md''"
    using walk_spec [OF one_file_snapshot, of ?m "[''d/a.md'']" task_lib "''u''" "[]" False fmempty]
    by (simp add: find_task_walk [OF one_file_snapshot] one_file_carries unique_match_def)
  then obtain m where "fst (FindTaskFilePath ?W task_lib ?a ''d'' ''u'' None ?m) = Inr (''d/a.md'', m)"
    by (cases "fst (FindTaskFilePath ?W task_lib ?a ''d'' ''u'' None ?m)") (auto simp: found_path_def)
  then show ?thesis
    using find_task_sound [OF L one_file_snapshot, of ?m "''d''" "''u''" None] by simp
qed

text \<open>C24: Once the index knows two files for an identifier, no sequence of later recordings makes the
  identifier resolvable again: every lookup keeps failing until the index is rebuilt.\<close>

theorem index_duplicate_never_hidden:
  assumes "index_ok index" and "Resolve index tid = Inl e"
  shows "\<exists>e. Resolve (foldl (\<lambda>m (dup, i, p). if dup then RecordDuplicate i p m else Record_path i p m) index ops) tid = Inl e"
  using idx.duplicate_never_hidden [OF assms] unfolding idx.run_recs_def .

theorem index_duplicate_never_hidden_witness:
  "\<exists>e. Resolve (foldl (\<lambda>m (dup, i, p). if dup then RecordDuplicate i p m else Record_path i p m)
     (fmap_of_list [(''u'', [''a'', ''b''])]) [(False, ''u'', ''c'')]) ''u'' = Inl e"
  by (rule index_duplicate_never_hidden [of _ _ "Errorf ''duplicate task_identifier %s in %s and %s'' [''u'', ''a'', ''b'']"])
    (simp_all add: index_ok_def index_paths_def Resolve_def fmlookup_of_list)

end
