(* ===== verification/ResultWriter.thy ===== *)
theory ResultWriter
  imports Body Escalation Resolver "HOL-Library.Monad_Syntax"
begin

text \<open>
  The result write-back (\<open>pkg/result/result_writer.go\<close>): \<open>WriteResult\<close> finds the task file, merges the
  agent's result into it with one read-modify-write, and afterwards publishes what the write decided: at
  most one escalation notification, coalesced per pull request, and the state the ownership guard kept.
  The state of the writer is the resolver and the coalescing window; the notification sender and the
  kept-state publisher are the functions the struct holds, absent when nil. The two clock readings the
  modify closure can make are arguments.
\<close>

section \<open>Data\<close>

record Task =
  Object :: string
  TaskIdentifier :: task_id
  Frontmatter :: fm
  Content :: string

record escalation =
  esc_taskIdentifier :: string
  esc_taskName :: string
  esc_previousAssignee :: string
  esc_status :: string
  esc_phase :: string

record NotificationPublishCommand =
  Message :: string
  Metadata :: "(string \<times> string) list"

record 'w resultWriter =
  rw_git :: gitClient
  rw_taskDir :: string
  rw_vaultName :: string
  rw_humans :: HumanAssignees
  notificationSender :: "(NotificationPublishCommand \<Rightarrow> 'w \<Rightarrow> go_error option \<times> 'w) option"
  keptStatePublisher :: "(Task \<Rightarrow> 'w \<Rightarrow> go_error option \<times> 'w) option"

record rw_state =
  rw_resolver :: "index option"
  escalationPublishedAt :: "(string, instant) fmap"

section \<open>Escalation messages\<close>

definition taskNameFromRelPath :: "path \<Rightarrow> string" where
  "taskNameFromRelPath relPath = TrimSuffix (Base relPath) ''.md''"

definition redirectorBaseURL :: string where
  "redirectorBaseURL = ''https://redirect.benjamin-borbe.de/obsidian''"

definition vaultDeeplink :: "string \<Rightarrow> path \<Rightarrow> string" where
  "vaultDeeplink vaultName relPath =
     ReplaceAll
       (redirectorBaseURL @ ''?vault='' @ QueryEscape vaultName @ ''&file='' @ QueryEscape (TrimSuffix relPath ''.md''))
       (CHR ''+'') ''%20''"

section \<open>Coalescing\<close>

definition escalationCoalescingWindow :: duration where
  "escalationCoalescingWindow = 30 * Minute"

definition re_space :: "char \<Rightarrow> bool" where
  "re_space c \<longleftrightarrow> c \<in> {CHR 0x09, CHR 0x0A, CHR 0x0C, CHR 0x0D, CHR 0x20}"

text \<open>The pieces of the anchored pattern: a literal, a run of non-space bytes, a run of digits. Each run is
  followed by a space in the pattern, so it is the whole run.\<close>

definition re_literal :: "string \<Rightarrow> string \<Rightarrow> string option" where
  "re_literal lit s = (if HasPrefix s lit then Some (drop (length lit) s) else None)"

definition re_run :: "(char \<Rightarrow> bool) \<Rightarrow> string \<Rightarrow> (string \<times> string) option" where
  "re_run P s = (let t = takeWhile P s in if t = [] then None else Some (t, dropWhile P s))"

definition escalationTaskNamePattern :: "string \<Rightarrow> (string \<times> string) option" where
  "escalationTaskNamePattern name =
     do { s \<leftarrow> re_literal ''PR '' name;
          (kind, s) \<leftarrow> re_run (\<lambda>c. \<not> re_space c) s;
          s \<leftarrow> re_literal '' '' s;
          (provider, s) \<leftarrow> re_run (\<lambda>c. \<not> re_space c) s;
          s \<leftarrow> re_literal '' - '' s;
          (repo, s) \<leftarrow> re_run (\<lambda>c. \<not> re_space c) s;
          s \<leftarrow> re_literal '' - '' s;
          (number, s) \<leftarrow> re_run is_digit s;
          s \<leftarrow> re_literal '' - '' s;
          (sha, s) \<leftarrow> re_run (\<lambda>c. \<not> re_space c) s;
          Some (repo, number) }"

definition escalationCoalescingKey :: "string \<Rightarrow> string option" where
  "escalationCoalescingKey taskName =
     (case escalationTaskNamePattern taskName of
        None \<Rightarrow> None
      | Some (repo, number) \<Rightarrow> Some (repo @ ''#'' @ number))"

definition claimEscalationCoalescingSlot ::
  "string \<Rightarrow> instant \<Rightarrow> (string, instant) fmap \<Rightarrow> bool \<times> (string, instant) fmap" where
  "claimEscalationCoalescingSlot key now published =
     (let live = fmfilter (\<lambda>k. case fmlookup published k of
                                 Some publishedAt \<Rightarrow> \<not> escalationCoalescingWindow \<le> now - publishedAt
                               | None \<Rightarrow> False) published
      in if fmlookup live key \<noteq> None then (False, live) else (True, fmupd key now live))"

definition releaseEscalationCoalescingSlot :: "string \<Rightarrow> (string, instant) fmap \<Rightarrow> (string, instant) fmap" where
  "releaseEscalationCoalescingSlot key published = fmdrop key published"

definition em_dash :: string where
  "em_dash = [CHR 0xE2, CHR 0x80, CHR 0x94]"

definition escalation_command :: "'w resultWriter \<Rightarrow> escalation \<Rightarrow> NotificationPublishCommand" where
  "escalation_command r e =
     (let relPath = JoinPath (rw_taskDir r) (esc_taskName e @ ''.md'');
          deeplink = vaultDeeplink (rw_vaultName r) relPath
      in \<lparr>Message = ''escalation: '' @ esc_previousAssignee e @ '' cleared its assignee '' @ em_dash @
            '' status '' @ esc_status e @ '', phase '' @ esc_phase e @ [nl] @ deeplink,
          Metadata = [(''taskIdentifier'', esc_taskIdentifier e), (''taskName'', esc_taskName e),
            (''previousAssignee'', esc_previousAssignee e)]\<rparr>)"

definition publishEscalation ::
  "'w world \<Rightarrow> 'w resultWriter \<Rightarrow> escalation \<Rightarrow> (string, instant) fmap \<Rightarrow> 'w \<Rightarrow> (string, instant) fmap \<times> 'w" where
  "publishEscalation W r e published w =
     (case notificationSender r of
        None \<Rightarrow> (published, w)
      | Some send \<Rightarrow>
          (case escalationCoalescingKey (esc_taskName e) of
             None \<Rightarrow> (published, snd (send (escalation_command r e) w))
           | Some key \<Rightarrow>
               (case clock_now W w of (now, w) \<Rightarrow>
                  (case claimEscalationCoalescingSlot key now published of
                     (False, published) \<Rightarrow> (published, w)
                   | (True, published) \<Rightarrow>
                       (case send (escalation_command r e) w of
                          (Some _, w) \<Rightarrow> (releaseEscalationCoalescingSlot key published, w)
                        | (None, w) \<Rightarrow> (published, w))))))"

section \<open>The merge of one result\<close>

text \<open>What the modify closure records: the escalation it observed and the state the guard kept.\<close>

record recorded =
  rec_escalated :: "escalation option"
  rec_kept :: "Task option"

definition buildResultModifyFn ::
  "pure_lib \<Rightarrow> 'w resultWriter \<Rightarrow> instant \<Rightarrow> instant \<Rightarrow> Task \<Rightarrow> bytes \<Rightarrow> recorded \<Rightarrow> bytes res \<times> recorded" where
  "buildResultModifyFn L r now1 now2 req current s =
     (case ExtractFrontmatter current of
        Inl e \<Rightarrow> (Inl (Wrapf e ''extract frontmatter'' []), s)
      | Inr frontmatterStr \<Rightarrow>
     (case ExtractBody current of
        Inl e \<Rightarrow> (Inl (Wrapf e ''extract body'' []), s)
      | Inr bodyStr \<Rightarrow>
     (case yaml_Unmarshal L frontmatterStr of
        Inl e \<Rightarrow> (Inl (Wrapf e ''unmarshal current frontmatter'' []), s)
      | Inr currentOnDisk \<Rightarrow>
          (let (merged, decisions) = MergeFrontmatter L currentOnDisk (Frontmatter req);
               merged = HealTargetVault merged (rw_vaultName r);
               merged = ClearCurrentJobIfTerminal L merged;
               mergedBody = mergeBody bodyStr (Content req);
               (merged, body) = applyRetryCounter L (rw_humans r) now1 now2 merged currentOnDisk mergedBody;
               priorAssignee = lib_Assignee L currentOnDisk;
               s = (if priorAssignee \<noteq> [] \<and> lib_Assignee L merged = []
                    then s\<lparr>rec_escalated := Some
                           \<lparr>esc_taskIdentifier = TaskIdentifier req, esc_taskName = [],
                            esc_previousAssignee = priorAssignee, esc_status = lib_Status L merged,
                            esc_phase = string_or_empty (lib_Phase L merged)\<rparr>\<rparr>
                    else s)
           in case yaml_Marshal L merged of
                Inl e \<Rightarrow> (Inl (Wrapf e ''marshal frontmatter'' []), s)
              | Inr marshaled \<Rightarrow>
                  (Inr (render_file marshaled body),
                   s\<lparr>rec_kept := (if decisions \<noteq> []
                      then Some \<lparr>Object = Object req, TaskIdentifier = TaskIdentifier req,
                                 Frontmatter = merged, Content = body\<rparr>
                      else None)\<rparr>)))))"

definition publishKeptState :: "'w resultWriter \<Rightarrow> Task \<Rightarrow> 'w \<Rightarrow> 'w" where
  "publishKeptState r task w =
     (case keptStatePublisher r of
        None \<Rightarrow> w
      | Some publish \<Rightarrow> snd (publish task w))"

definition writeAndPublish ::
  "'w world \<Rightarrow> pure_lib \<Rightarrow> 'w resultWriter \<Rightarrow> instant \<Rightarrow> instant \<Rightarrow> path \<Rightarrow> Task \<Rightarrow> path \<Rightarrow> string \<Rightarrow> rw_state \<Rightarrow> 'w
     \<Rightarrow> unit res \<times> rw_state \<times> 'w" where
  "writeAndPublish W L r now1 now2 absPath req matchedRelPath commitMessage st w =
     (case AtomicReadModifyWriteAndCommitPush W (rw_git r) absPath (buildResultModifyFn L r now1 now2 req)
             commitMessage \<lparr>rec_escalated = None, rec_kept = None\<rparr> w of
        (Inl e, s, w) \<Rightarrow> (Inl e, st, w)
      | (Inr _, s, w) \<Rightarrow>
          (let (st, w) =
             (case rec_escalated s of
                None \<Rightarrow> (st, w)
              | Some e \<Rightarrow>
                  (case publishEscalation W r (e\<lparr>esc_taskName := taskNameFromRelPath matchedRelPath\<rparr>)
                          (escalationPublishedAt st) w of
                     (published, w) \<Rightarrow> (st\<lparr>escalationPublishedAt := published\<rparr>, w)));
               w = (case rec_kept s of None \<Rightarrow> w | Some kept \<Rightarrow> publishKeptState r kept w)
           in (Inr (), st, w)))"

section \<open>WriteResult\<close>

definition notFoundAttempts :: nat where "notFoundAttempts = 3"
definition notFoundBackoff :: duration where "notFoundBackoff = Second"

text \<open>The lookup loop: \<open>n\<close> attempts are left; the empty path stands for not found.\<close>

fun find_attempts ::
  "'w world \<Rightarrow> pure_lib \<Rightarrow> 'w resultWriter \<Rightarrow> task_id \<Rightarrow> nat \<Rightarrow> index option \<Rightarrow> 'w
     \<Rightarrow> path res \<times> index option \<times> 'w" where
  "find_attempts W L r tid 0 resolver w = (Inr [], resolver, w)"
| "find_attempts W L r tid (Suc n) resolver w =
     (case FindTaskFilePath W L (rw_git r) (rw_taskDir r) tid resolver w of
        (Inl e, resolver, w) \<Rightarrow> (Inl (Wrapf e ''find task file path failed'' []), resolver, w)
      | (Inr (matched, _), resolver, w) \<Rightarrow>
          (if matched \<noteq> [] then (Inr matched, resolver, w)
           else if n = 0 then (Inr [], resolver, w)
           else case wait_for W notFoundBackoff w of
                  (Some e, w) \<Rightarrow> (Inl (Wrapf e ''wait before retrying task file lookup'' []), resolver, w)
                | (None, w) \<Rightarrow> find_attempts W L r tid n resolver w))"

definition WriteResult ::
  "'w world \<Rightarrow> pure_lib \<Rightarrow> 'w resultWriter \<Rightarrow> instant \<Rightarrow> instant \<Rightarrow> Task \<Rightarrow> rw_state \<Rightarrow> 'w
     \<Rightarrow> unit res \<times> rw_state \<times> 'w" where
  "WriteResult W L r now1 now2 req st w =
     (case find_attempts W L r (TaskIdentifier req) notFoundAttempts (rw_resolver st) w of
        (Inl e, resolver, w) \<Rightarrow> (Inl e, st\<lparr>rw_resolver := resolver\<rparr>, w)
      | (Inr matched, resolver, w) \<Rightarrow>
          (let st = st\<lparr>rw_resolver := resolver\<rparr>
           in if matched = []
              then (if lib_String L (Frontmatter req) ''target_vault'' = None
                    then (Inr (), st, ResultsWrittenTotal W ''unowned'' w)
                    else (Inr (), st, ResultsWrittenTotal W ''not_found'' w))
              else
                (let absPath = JoinPath (Path (rw_git r)) matched;
                     commitMessage = ''[agent-task-controller] write result for task '' @ TaskIdentifier req;
                     w = snd (clock_now W w)
                 in case writeAndPublish W L r now1 now2 absPath req matched commitMessage st w of
                      (Inl e, st, w) \<Rightarrow>
                        (Inl (Wrapf e ''atomic read-modify-write and push failed'' []), st,
                         ResultsWrittenTotal W ''error'' w)
                    | (Inr _, st, w) \<Rightarrow> (Inr (), st, ResultsWrittenTotal W ''success'' (snd (clock_now W w))))))"

section \<open>The coalescing window\<close>

lemma claim_get:
  "claimEscalationCoalescingSlot key now m = (granted, m') \<Longrightarrow>
   (granted \<longleftrightarrow> (\<forall>t. fmlookup m key = Some t \<longrightarrow> escalationCoalescingWindow \<le> now - t)) \<and>
   fmlookup m' k = (if granted \<and> k = key then Some now
      else case fmlookup m k of Some t \<Rightarrow> if escalationCoalescingWindow \<le> now - t then None else Some t | None \<Rightarrow> None)"
  by (auto simp: claimEscalationCoalescingSlot_def Let_def split: if_splits option.splits)

definition apart :: "string \<times> instant \<Rightarrow> string \<times> instant \<Rightarrow> bool" where
  "apart p q \<longleftrightarrow> (fst p = fst q \<longrightarrow> escalationCoalescingWindow \<le> snd q - snd p)"

text \<open>The window remembers every ping delivered so far that can still suppress another one.\<close>

definition remembers :: "(string, instant) fmap \<Rightarrow> (string \<times> instant) set \<Rightarrow> instant \<Rightarrow> bool" where
  "remembers m D now \<longleftrightarrow>
     (\<forall>(k, t) \<in> D. now - t < escalationCoalescingWindow \<longrightarrow> fmlookup m k = Some t)"

lemma remembers_claim:
  assumes "remembers m D now" and "now \<le> n" and "claimEscalationCoalescingSlot key n m = (granted, m')"
  shows "granted \<Longrightarrow> d \<in> D \<Longrightarrow> apart d (key, n)"
    and "\<not> granted \<Longrightarrow> remembers m' D n"
    and "granted \<Longrightarrow> remembers m' (insert (key, n) D) n"
    and "granted \<Longrightarrow> remembers (releaseEscalationCoalescingSlot key m') D n"
proof -
  have get: "(granted \<longleftrightarrow> (\<forall>t. fmlookup m key = Some t \<longrightarrow> escalationCoalescingWindow \<le> n - t)) \<and>
    fmlookup m' k = (if granted \<and> k = key then Some n
      else case fmlookup m k of Some t \<Rightarrow> if escalationCoalescingWindow \<le> n - t then None else Some t | None \<Rightarrow> None)" for k
    by (rule claim_get [OF assms(3)])
  have live: "fmlookup m k = Some t" if "(k, t) \<in> D" "n - t < escalationCoalescingWindow" for k t
    using that assms(1,2) by (fastforce simp: remembers_def)
  show 1: "apart d (key, n)" if "granted" "d \<in> D" for d
    using that get live by (cases d) (fastforce simp: apart_def)
  show "remembers m' D n" if "\<not> granted"
    using live get that by (fastforce simp: remembers_def)
  show "remembers m' (insert (key, n) D) n" if "granted"
    using live get that 1 by (fastforce simp: remembers_def apart_def)
  show "remembers (releaseEscalationCoalescingSlot key m') D n" if "granted"
    using live get that 1 by (fastforce simp: remembers_def apart_def releaseEscalationCoalescingSlot_def)
qed

text \<open>The sender's side of the escalations: a world that keeps the last clock reading and, for every command the sender
  accepted, the reading under which it was sent.\<close>

type_synonym 'w ping_log = "'w \<times> instant \<times> (NotificationPublishCommand \<times> instant) list"

definition ping_logged :: "'w world \<Rightarrow> 'w ping_log world" where
  "ping_logged W =
     \<lparr>http_do = (\<lambda>q (w, x). case http_do W q w of (r, w) \<Rightarrow> (r, (w, x))),
      new_request_error = new_request_error W,
      ctx_err = (\<lambda>(w, x). ctx_err W w),
      wait_for = (\<lambda>d (w, x). case wait_for W d w of (r, w) \<Rightarrow> (r, (w, x))),
      clock_now = (\<lambda>(w, t, ds). case clock_now W w of (now, w) \<Rightarrow> (now, (w, now, ds))),
      inc_metric = (\<lambda>n ls (w, x). (inc_metric W n ls w, x)),
      json_paths = json_paths W\<rparr>"

definition ping_send ::
  "(NotificationPublishCommand \<Rightarrow> 'w \<Rightarrow> go_error option \<times> 'w) \<Rightarrow> NotificationPublishCommand \<Rightarrow> 'w ping_log \<Rightarrow> go_error option \<times> 'w ping_log" where
  "ping_send send c = (\<lambda>(w, t, ds).
     (case send c w of
        (Some e, w) \<Rightarrow> (Some e, (w, t, ds))
      | (None, w) \<Rightarrow> (None, (w, t, ds @ [(c, t)]))))"

text \<open>The pull request a notification is about, if its task is a pull-request task.\<close>

definition ping_key :: "NotificationPublishCommand \<Rightarrow> string option" where
  "ping_key c = (case map_of (Metadata c) ''taskName'' of Some name \<Rightarrow> escalationCoalescingKey name | None \<Rightarrow> None)"

lemma ping_key_command: "ping_key (escalation_command r e) = escalationCoalescingKey (esc_taskName e)"
  by (simp add: ping_key_def escalation_command_def Let_def)

text \<open>A clock that does not run backwards, neither while the sender works.\<close>

definition forward_clock :: "'w world \<Rightarrow> (NotificationPublishCommand \<Rightarrow> 'w \<Rightarrow> go_error option \<times> 'w) \<Rightarrow> ('w \<Rightarrow> instant) \<Rightarrow> bool" where
  "forward_clock W send T \<longleftrightarrow>
     (\<forall>w. T w \<le> fst (clock_now W w) \<and> fst (clock_now W w) \<le> T (snd (clock_now W w))) \<and> (\<forall>c w. T w \<le> T (snd (send c w)))"

text \<open>Escalations one after the other, with whatever else the process does in between.\<close>

fun escalations ::
  "'w world \<Rightarrow> 'w ping_log resultWriter \<Rightarrow> (('w \<Rightarrow> 'w) \<times> escalation) list \<Rightarrow> (string, instant) fmap \<Rightarrow> 'w ping_log
     \<Rightarrow> (string, instant) fmap \<times> 'w ping_log" where
  "escalations W r [] published x = (published, x)"
| "escalations W r ((between, e) # es) published (w, x) =
     (case publishEscalation (ping_logged W) r e published (between w, x) of (published, x) \<Rightarrow> escalations W r es published x)"

definition delivered_pings :: "(NotificationPublishCommand \<times> instant) list \<Rightarrow> (string \<times> instant) set" where
  "delivered_pings ds = {(k, t). \<exists>c. (c, t) \<in> set ds \<and> ping_key c = Some k}"

lemma delivered_pings_snoc: "delivered_pings (ds @ [(c, t)]) = (case ping_key c of None \<Rightarrow> delivered_pings ds | Some k \<Rightarrow> insert (k, t) (delivered_pings ds))"
  by (auto simp: delivered_pings_def split: option.split)

text \<open>Two deliveries for one pull request are a window apart.\<close>

definition pings_apart :: "NotificationPublishCommand \<times> instant \<Rightarrow> NotificationPublishCommand \<times> instant \<Rightarrow> bool" where
  "pings_apart p q \<longleftrightarrow> (\<forall>k. ping_key (fst p) = Some k \<longrightarrow> ping_key (fst q) = Some k \<longrightarrow> escalationCoalescingWindow \<le> snd q - snd p)"

text \<open>The window holds deliveries only, and every delivery that can still suppress a ping.\<close>

definition coalescing_inv :: "(string, instant) fmap \<Rightarrow> (NotificationPublishCommand \<times> instant) list \<Rightarrow> instant \<Rightarrow> bool" where
  "coalescing_inv m ds now \<longleftrightarrow>
     remembers m (delivered_pings ds) now \<and> (\<forall>k t. fmlookup m k = Some t \<longrightarrow> (k, t) \<in> delivered_pings ds) \<and> sorted_wrt pings_apart ds"

text \<open>An escalation of a pull-request task is sent exactly when no delivery for it lies within the window.\<close>

definition ping_due :: "string \<Rightarrow> (NotificationPublishCommand \<times> instant) list \<Rightarrow> instant \<Rightarrow> bool" where
  "ping_due key ds now \<longleftrightarrow> (\<forall>(c, t) \<in> set ds. ping_key c = Some key \<longrightarrow> escalationCoalescingWindow \<le> now - t)"

lemma claim_due:
  assumes "coalescing_inv m ds n0" and "n0 \<le> now" and "claimEscalationCoalescingSlot key now m = (granted, m')"
  shows "granted \<longleftrightarrow> ping_due key ds now"
proof -
  have granted: "granted \<longleftrightarrow> (\<forall>t. fmlookup m key = Some t \<longrightarrow> escalationCoalescingWindow \<le> now - t)"
    using claim_get [OF assms(3)] by blast
  have live: "(key, t) \<in> delivered_pings ds \<Longrightarrow> \<not> escalationCoalescingWindow \<le> now - t \<Longrightarrow> fmlookup m key = Some t" for t
    using assms(1,2) unfolding coalescing_inv_def remembers_def by force
  have sub: "fmlookup m key = Some t \<Longrightarrow> (key, t) \<in> delivered_pings ds" for t
    using assms(1) unfolding coalescing_inv_def by blast
  have "ping_due key ds now \<longleftrightarrow> (\<forall>t. (key, t) \<in> delivered_pings ds \<longrightarrow> escalationCoalescingWindow \<le> now - t)"
    unfolding ping_due_def delivered_pings_def by auto
  then show ?thesis unfolding granted using live sub by blast
qed

lemma publish_due:
  assumes "notificationSender r = Some (ping_send send)" and "escalationCoalescingKey (esc_taskName e) = Some key"
    and "coalescing_inv m ds n0" and "clock_now W w = (now, w1)" and "n0 \<le> now"
  shows "snd (publishEscalation (ping_logged W) r e m (w, t, ds)) =
    (if ping_due key ds now then snd (ping_send send (escalation_command r e) (w1, now, ds)) else (w1, now, ds))"
proof -
  obtain granted m' where claim: "claimEscalationCoalescingSlot key now m = (granted, m')" by (meson surj_pair)
  note d = claim_due [OF assms(3,5) claim]
  have "clock_now (ping_logged W) (w, t, ds) = (now, (w1, now, ds))" by (simp add: ping_logged_def assms(4))
  then show ?thesis using claim d by (simp add: publishEscalation_def assms(1,2) split: bool.split prod.split option.split)
qed

lemma publish_inv:
  assumes "forward_clock W send T" and "notificationSender r = Some (ping_send send)"
    and "coalescing_inv m ds n0" and "n0 \<le> T w"
    and "publishEscalation (ping_logged W) r e m (w, t, ds) = (m', (w', t', ds'))"
  shows "\<exists>n1. coalescing_inv m' ds' n1 \<and> n1 \<le> T w'"
proof -
  let ?c = "escalation_command r e"
  have mono: "send c v = (x, u) \<Longrightarrow> T v \<le> T u" for c v x u using assms(1) unfolding forward_clock_def by (metis snd_conv)
  show ?thesis
  proof (cases "escalationCoalescingKey (esc_taskName e)")
    case None
    obtain x u where s: "send ?c w = (x, u)" by (meson surj_pair)
    have "ping_key ?c = None" by (simp add: ping_key_command None)
    moreover have "m' = m" "w' = u" "ds' = ds \<or> ds' = ds @ [(?c, t)]"
      using assms(5) by (auto simp: publishEscalation_def assms(2) None ping_send_def s split: option.splits)
    ultimately show ?thesis
      using assms(3,4) mono [OF s]
      by (intro exI [of _ n0]) (auto simp: coalescing_inv_def delivered_pings_snoc sorted_wrt_append pings_apart_def)
  next
    case (Some key)
    obtain now w1 where clock: "clock_now W w = (now, w1)" by (meson surj_pair)
    have now: "n0 \<le> now" "now \<le> T w1" using assms(1,4) clock unfolding forward_clock_def by (metis fst_conv order_trans, metis fst_conv snd_conv)
    have lclock: "clock_now (ping_logged W) (w, t, ds) = (now, (w1, now, ds))" by (simp add: ping_logged_def clock)
    obtain granted m1 where claim: "claimEscalationCoalescingSlot key now m = (granted, m1)" by (meson surj_pair)
    have rem: "remembers m (delivered_pings ds) n0" using assms(3) by (simp add: coalescing_inv_def)
    note keep = remembers_claim [OF rem now(1) claim] and get = claim_get [OF claim]
    have sub: "(k, u) \<in> delivered_pings ds" if "fmlookup m1 k = Some u" "\<not> granted \<or> k \<noteq> key" for k u
      using get [of k] that assms(3) unfolding coalescing_inv_def by (auto split: option.splits if_splits)
    have key: "ping_key ?c = Some key" by (simp add: ping_key_command Some)
    obtain x u where s: "send ?c w1 = (x, u)" by (meson surj_pair)
    consider "\<not> granted" | e' where "granted" "x = Some e'" | "granted" "x = None" by (cases x) auto
    then show ?thesis
    proof cases
      case 1
      then have "m' = m1" "w' = w1" "ds' = ds" using assms(5) by (auto simp: publishEscalation_def assms(2) Some lclock claim)
      then show ?thesis using 1 keep(2) sub now assms(3) by (intro exI [of _ now]) (auto simp: coalescing_inv_def)
    next
      case 2
      then have "m' = releaseEscalationCoalescingSlot key m1" "w' = u" "ds' = ds"
        using assms(5) by (auto simp: publishEscalation_def assms(2) Some lclock claim ping_send_def s)
      then show ?thesis using 2 keep(4) sub now mono [OF s] assms(3)
        by (intro exI [of _ now]) (auto simp: coalescing_inv_def releaseEscalationCoalescingSlot_def)
    next
      case 3
      then have m': "m' = m1" "w' = u" "ds' = ds @ [(?c, now)]"
        using assms(5) by (auto simp: publishEscalation_def assms(2) Some lclock claim ping_send_def s)
      have "\<forall>p \<in> set ds. pings_apart p (?c, now)"
        using keep(1) 3 key by (fastforce simp: pings_apart_def apart_def delivered_pings_def)
      moreover have "(k, v) \<in> delivered_pings ds'" if "fmlookup m1 k = Some v" for k v
        using sub [OF that] get [of k] that 3 by (auto simp: m' delivered_pings_snoc key split: if_splits)
      ultimately show ?thesis
        using 3 keep(3) now mono [OF s] assms(3) unfolding m'
        by (intro exI [of _ now]) (auto simp: coalescing_inv_def delivered_pings_snoc key sorted_wrt_append)
    qed
  qed
qed

lemma escalations_inv:
  assumes "forward_clock W send T" and "notificationSender r = Some (ping_send send)"
    and "\<forall>(between, e) \<in> set es. \<forall>w. T w \<le> T (between w)"
    and "coalescing_inv m ds n0" and "n0 \<le> T w"
    and "escalations W r es m (w, t, ds) = (m', (w', t', ds'))"
  shows "\<exists>n1. coalescing_inv m' ds' n1 \<and> n1 \<le> T w'"
  using assms(3-6)
proof (induction es arbitrary: m w t ds n0)
  case Nil
  then show ?case by auto
next
  case (Cons a es)
  obtain f e where a: "a = (f, e)" by fastforce
  obtain m1 w1 t1 ds1 where step: "publishEscalation (ping_logged W) r e m (f w, t, ds) = (m1, (w1, t1, ds1))" by (metis surj_pair)
  have "T w \<le> T (f w)" using Cons.prems(1) by (simp add: a)
  with Cons.prems(3) have "n0 \<le> T (f w)" by (rule order_trans)
  from publish_inv [OF assms(1,2) Cons.prems(2) this step] obtain n1 where "coalescing_inv m1 ds1 n1" "n1 \<le> T w1" by blast
  from Cons.IH [OF _ this] Cons.prems(1,4) show ?case by (simp add: a step)
qed

section \<open>The image a result write produces\<close>

text \<open>Frontmatter, guard decisions and body before rendering, as a function of what is on disk.\<close>

definition result_image ::
  "pure_lib \<Rightarrow> 'w resultWriter \<Rightarrow> instant \<Rightarrow> instant \<Rightarrow> Task \<Rightarrow> fm \<Rightarrow> string \<Rightarrow> fm \<times> string" where
  "result_image L r now1 now2 req disk body =
     applyRetryCounter L (rw_humans r) now1 now2
       (ClearCurrentJobIfTerminal L (HealTargetVault (fst (MergeFrontmatter L disk (Frontmatter req))) (rw_vaultName r)))
       disk (mergeBody body (Content req))"

lemma modify_image:
  assumes "fst (buildResultModifyFn L r now1 now2 req current s) = Inr out"
  shows "\<exists>disk body. parseTaskFrontmatterAndBody L current = Inr (disk, body) \<and>
     marshalFileContent L (fst (result_image L r now1 now2 req disk body))
       (snd (result_image L r now1 now2 req disk body)) = Inr out"
  using assms
  by (auto simp: buildResultModifyFn_def result_image_def parseTaskFrontmatterAndBody_def parseTaskFrontmatter_def
      marshalFileContent_def Let_def split_def split: sum.splits)

text \<open>So a written image reads back as the merge of what the modify function read.\<close>

lemma modify_reads_back:
  assumes "yaml_ok L" and "parseTaskFrontmatterAndBody L current = Inr (disk, body)"
    and "fst (buildResultModifyFn L r now1 now2 req current s) = Inr out"
  obtains m' where "parseTaskFrontmatterAndBody L out = Inr (m', snd (result_image L r now1 now2 req disk body))"
    "fmrel same_value (fst (result_image L r now1 now2 req disk body)) m'"
proof -
  have "marshalFileContent L (fst (result_image L r now1 now2 req disk body))
      (snd (result_image L r now1 now2 req disk body)) = Inr out"
    using modify_image [OF assms(3)] assms(2) by auto
  from marshalFileContent_read_back [OF assms(1) this] that show thesis by blast
qed

lemma HealTargetVault_frame: "k \<noteq> ''target_vault'' \<Longrightarrow> fm_get (HealTargetVault m v) k = fm_get m k"
  by (simp add: HealTargetVault_def split: option.splits)

lemma ClearCurrentJob_frame: "k \<noteq> ''current_job'' \<Longrightarrow> fm_get (ClearCurrentJobIfTerminal L m) k = fm_get m k"
  by (simp add: ClearCurrentJobIfTerminal_def split: option.splits)

lemma result_image_frame:
  assumes "k \<notin> escalation_keys" and "k \<noteq> ''target_vault''" and "k \<noteq> ''current_job''"
  shows "fm_get (fst (result_image L r now1 now2 req disk body)) k =
         fm_get (fst (MergeFrontmatter L disk (Frontmatter req))) k"
  using assms by (simp add: result_image_def applyRetryCounter_frame HealTargetVault_frame ClearCurrentJob_frame)

lemma result_image_terminal:
  assumes "lib_ok L" and "fm_get disk ''status'' \<noteq> None" and "isTerminalStatus (lib_Status L disk)"
  shows "snd (result_image L r now1 now2 req disk body) = mergeBody body (Content req)"
    and "fm_get (fst (result_image L r now1 now2 req disk body)) ''status'' = fm_get disk ''status''"
    and "fm_get (fst (result_image L r now1 now2 req disk body)) ''current_job'' \<in> {None, Some VNil, Some (VStr [])}"
proof -
  let ?m = "fst (MergeFrontmatter L disk (Frontmatter req))"
  let ?h = "HealTargetVault ?m (rw_vaultName r)"
  let ?c = "ClearCurrentJobIfTerminal L ?h"
  have st: "fm_get ?m ''status'' = fm_get disk ''status''"
    using assms(2,3) by (simp add: merge_get_status)
  then have h: "lib_Status L ?h = lib_Status L disk" and c: "lib_Status L ?c = lib_Status L disk"
    by (auto intro!: lib_Status_cong [OF assms(1)] simp: HealTargetVault_frame ClearCurrentJob_frame)
  have image: "result_image L r now1 now2 req disk body = (?c, mergeBody body (Content req))"
    using assms(3) c by (simp add: result_image_def applyRetryCounter_def)
  show "snd (result_image L r now1 now2 req disk body) = mergeBody body (Content req)" by (simp add: image)
  show "fm_get (fst (result_image L r now1 now2 req disk body)) ''status'' = fm_get disk ''status''"
    by (simp add: image ClearCurrentJob_frame HealTargetVault_frame st)
  show "fm_get (fst (result_image L r now1 now2 req disk body)) ''current_job'' \<in> {None, Some VNil, Some (VStr [])}"
    using assms(3) h by (auto simp: image ClearCurrentJobIfTerminal_def split: option.splits)
qed

lemma same_value_VNil: "same_value v VNil \<Longrightarrow> v = VNil"
  by (cases v) (auto simp: same_value_def FrontmatterValueEqual_def split: option.splits)

section \<open>Properties\<close>

text \<open>C2: A result can never roll back a finished task. If the file on disk has a terminal status, the file
  the write produces reads back with the same status, without a live job and with the merged body and
  nothing else, whatever the result carries.\<close>

theorem result_keeps_terminal_status:
  assumes "lib_ok L" and "yaml_ok L"
    and "parseTaskFrontmatterAndBody L current = Inr (disk, body)"
    and "fm_get disk ''status'' = Some (VStr st)" and "isTerminalStatus (lib_Status L disk)"
    and "fst (buildResultModifyFn L r now1 now2 req current s) = Inr out"
  shows "\<exists>m'. parseTaskFrontmatterAndBody L out = Inr (m', mergeBody body (Content req)) \<and>
           fm_get m' ''status'' = Some (VStr st) \<and> lib_Status L m' = lib_Status L disk \<and>
           lib_CurrentJob L m' = []"
proof -
  obtain m' where m': "parseTaskFrontmatterAndBody L out = Inr (m', snd (result_image L r now1 now2 req disk body))"
    "fmrel same_value (fst (result_image L r now1 now2 req disk body)) m'"
    using modify_reads_back [OF assms(2,3,6)] by blast
  have "fm_get disk ''status'' \<noteq> None" using assms(4) by simp
  note image = result_image_terminal [OF assms(1) this assms(5), of r now1 now2 req body]
  have st: "fm_get m' ''status'' = Some (VStr st)"
    using image(2) assms(4) fmrel_same_value_VStr [OF m'(2)] by simp
  moreover have "lib_CurrentJob L m' = []"
  proof (cases "as_string (fm_get m' ''current_job'')")
    case (Some j)
    then show ?thesis
      using image(3) fmrel_same_value_VStr [OF m'(2), of "''current_job''" j]
      by (auto simp: lib_CurrentJob_eq [OF assms(1)] as_string_iff)
  qed (simp add: lib_CurrentJob_eq [OF assms(1)])
  moreover have "lib_Status L m' = lib_Status L disk"
    by (rule lib_Status_cong [OF assms(1)]) (simp add: st assms(4))
  ultimately show ?thesis using m'(1) image(1) by simp
qed

text \<open>The trigger budget belongs to the controller: the file a result write produces has exactly the
  counter, scope and cap that were on disk, also when the result carries others or the disk has none.\<close>

theorem result_keeps_trigger_budget:
  assumes "yaml_ok L" and "f \<in> set controllerOwnedFields"
    and "parseTaskFrontmatterAndBody L current = Inr (disk, body)"
    and "fst (buildResultModifyFn L r now1 now2 req current s) = Inr out"
  shows "\<exists>m' body'. parseTaskFrontmatterAndBody L out = Inr (m', body') \<and>
           rel_option same_value (fm_get disk f) (fm_get m' f)"
proof -
  obtain m' where m': "parseTaskFrontmatterAndBody L out = Inr (m', snd (result_image L r now1 now2 req disk body))"
    "fmrel same_value (fst (result_image L r now1 now2 req disk body)) m'"
    using modify_reads_back [OF assms(1,3,4)] by blast
  have "fm_get (fst (result_image L r now1 now2 req disk body)) f = fm_get disk f"
    using assms(2) merge_get_owned [OF assms(2), of L disk "Frontmatter req"]
    by (subst result_image_frame) (auto simp: escalation_keys_def)
  then show ?thesis using m' by (metis fmrelD)
qed

text \<open>C6: A file a result write leaves in the phase \<open>human_review\<close> with an open status has no agent as
  owner: its assignee is empty or a configured human.\<close>

theorem result_human_review_unowned:
  assumes "lib_ok L" and "yaml_ok L"
    and "parseTaskFrontmatterAndBody L current = Inr (disk, body)"
    and "fst (buildResultModifyFn L r now1 now2 req current s) = Inr out"
    and "parseTaskFrontmatterAndBody L out = Inr (m', body')"
    and "fm_get m' ''status'' = Some (VStr st)" and "\<not> isTerminalStatus (lib_Status L m')"
    and "fm_get m' ''phase'' = Some (VStr ''human_review'')"
  shows "parked_owner (rw_humans r) m'"
proof -
  let ?i = "result_image L r now1 now2 req disk body"
  let ?c = "ClearCurrentJobIfTerminal L (HealTargetVault (fst (MergeFrontmatter L disk (Frontmatter req))) (rw_vaultName r))"
  have rel: "fmrel same_value (fst ?i) m'"
    using modify_reads_back [OF assms(2,3,4)] assms(5) by (metis Inr_inject Pair_inject)
  have st: "fm_get (fst ?i) ''status'' = Some (VStr st)" "fm_get (fst ?i) ''phase'' = Some (VStr ''human_review'')"
    using assms(6,8) fmrel_same_value_VStr [OF rel] by auto
  have "fm_get ?c ''status'' = Some (VStr st)"
    using st(1) by (simp add: result_image_def applyRetryCounter_frame escalation_keys_def)
  then have "lib_Status L ?c = lib_Status L m'" by (intro lib_Status_cong [OF assms(1)]) (simp add: assms(6))
  then have "parked_owner (rw_humans r) (fst ?i)"
    unfolding result_image_def
    using assms(1,7) st(2) by (intro human_review_parked) (simp_all add: result_image_def)
  then show ?thesis using fmrel_same_value_VStr [OF rel] by (auto simp: parked_owner_def)
qed

section \<open>Reference instances\<close>

lemma yaml_ok_ref_yaml:
  assumes "\<not> Contains t ''\<newline>---''" and "\<not> HasPrefix t ''---''" and "fmrel same_value m m"
  shows "yaml_ok (ref_yaml t m)"
  unfolding yaml_ok_def using assms
  by (auto simp: ref_yaml_def split: if_splits)

lemma merge_empty: "fst (MergeFrontmatter L e fmempty) = e"
proof (rule fmap_ext)
  fix k
  have "fm_get (fst (foldl (controllerOwnedStep e fmempty) (e, []) controllerOwnedFields)) j = fm_get e j" for j
    using controllerOwned_get [of e fmempty j] by simp
  then show "fm_get (fst (MergeFrontmatter L e fmempty)) k = fm_get e k"
    by (simp add: merge_get assignee_discarded_def split: option.splits)
qed

text \<open>A file that the write leaves as it is: the map is its own merge.\<close>

definition ref_writer :: "mem resultWriter" where
  "ref_writer = \<lparr>rw_git = NewGitClient (NewGitRestClient ''h'' [] []) ''/v'', rw_taskDir = ''d'', rw_vaultName = ''v'',
     rw_humans = {||}, notificationSender = None, keptStatePublisher = None\<rparr>"

definition ref_task :: Task where
  "ref_task = \<lparr>Object = [], TaskIdentifier = ''u'', Frontmatter = fmempty, Content = []\<rparr>"

definition ref_file :: bytes where
  "ref_file = render_file (''t'' @ [nl]) []"

lemma ref_file_parse: "parseTaskFrontmatterAndBody (ref_yaml ''t'' m) ref_file = Inr (m, [])"
proof -
  have "ExtractFrontmatter ref_file = Inr ''t''" "ExtractBody ref_file = Inr []" by code_simp+
  then show ?thesis by (simp add: parseTaskFrontmatterAndBody_def parseTaskFrontmatter_def ref_yaml_def)
qed

lemma ref_yaml_simps:
  "yaml_Unmarshal (ref_yaml t m) t = Inr m" "yaml_Marshal (ref_yaml t m) m = Inr (t @ [nl])"
  by (simp_all add: ref_yaml_def)

lemma ref_modify:
  assumes "result_image (ref_yaml ''t'' m) ref_writer 0 0 ref_task m [] = (m, [])"
  shows "fst (buildResultModifyFn (ref_yaml ''t'' m) ref_writer 0 0 ref_task ref_file s) = Inr ref_file"
proof -
  have x: "ExtractFrontmatter ref_file = Inr ''t''" "ExtractBody ref_file = Inr []" by code_simp+
  show ?thesis
    using assms
    by (simp add: buildResultModifyFn_def x result_image_def Let_def split_def ref_yaml_simps) (simp add: ref_file_def)
qed

definition done_fm :: fm where
  "done_fm = fmap_of_list [(''status'', VStr ''completed''), (''target_vault'', VStr ''v''), (''trigger_count'', VInt 2)]"

lemma done_fm_simps:
  "fm_get done_fm ''status'' = Some (VStr ''completed'')" "fm_get done_fm ''target_vault'' = Some (VStr ''v'')"
  "fm_get done_fm ''current_job'' = None" "fm_get done_fm ''trigger_count'' = Some (VInt 2)"
  by (simp_all add: done_fm_def fmlookup_of_list)

lemma done_fm_terminal: "isTerminalStatus (lib_Status (ref_yaml ''t'' done_fm) done_fm)"
  by (simp add: ref_yaml_def ref_lib_def done_fm_simps isTerminalStatus_def terminalStatuses_def)

lemma done_fm_image: "result_image (ref_yaml ''t'' done_fm) ref_writer 0 0 ref_task done_fm [] = (done_fm, [])"
proof -
  have "mergeBody [] [] = []" by code_simp
  then show ?thesis
    by (simp add: result_image_def ref_task_def merge_empty HealTargetVault_def ClearCurrentJobIfTerminal_def
        done_fm_simps applyRetryCounter_def done_fm_terminal)
qed

lemma done_fm_yaml: "yaml_ok (ref_yaml ''t'' done_fm)"
  by (rule yaml_ok_ref_yaml)
    (simp_all add: Contains_def HasPrefix_def fmrel_iff done_fm_def fmlookup_of_list same_value_def)

theorem result_keeps_terminal_status_witness:
  "\<exists>m'. parseTaskFrontmatterAndBody (ref_yaml ''t'' done_fm) ref_file = Inr (m', mergeBody [] []) \<and>
     fm_get m' ''status'' = Some (VStr ''completed'')"
  using result_keeps_terminal_status [OF lib_ok_ref_yaml done_fm_yaml ref_file_parse done_fm_simps(1) done_fm_terminal
      ref_modify [OF done_fm_image]] by (auto simp: ref_task_def)

theorem result_keeps_trigger_budget_witness:
  "\<exists>m' body'. parseTaskFrontmatterAndBody (ref_yaml ''t'' done_fm) ref_file = Inr (m', body') \<and>
     rel_option same_value (Some (VInt 2)) (fm_get m' ''trigger_count'')"
  using result_keeps_trigger_budget [OF done_fm_yaml _ ref_file_parse ref_modify [OF done_fm_image], of "''trigger_count''"]
  by (simp add: done_fm_simps)

definition parked_fm :: fm where
  "parked_fm = fmap_of_list [(''status'', VStr ''in_progress''), (''target_vault'', VStr ''v''),
     (''phase'', VStr ''human_review''), (''assignee'', VStr [])]"

lemma parked_fm_simps:
  "fm_get parked_fm ''status'' = Some (VStr ''in_progress'')" "fm_get parked_fm ''target_vault'' = Some (VStr ''v'')"
  "fm_get parked_fm ''phase'' = Some (VStr ''human_review'')" "fm_get parked_fm ''assignee'' = Some (VStr [])"
  "fm_get parked_fm ''max_triggers'' = None" "fm_get parked_fm ''ref'' = None" "fm_get parked_fm ''max_retries'' = None"
  "fm_get parked_fm ''spawn_notification'' = None"
  by (simp_all add: parked_fm_def fmlookup_of_list)

lemma parked_fm_open: "\<not> isTerminalStatus (lib_Status (ref_yaml ''t'' parked_fm) parked_fm)"
  by (simp add: ref_yaml_def ref_lib_def parked_fm_simps isTerminalStatus_def terminalStatuses_def)

lemma parked_fm_clear: "snd (ClearAssigneeIfHumanReview (ref_yaml ''t'' parked_fm) parked_fm {||}) = parked_fm"
proof (rule fmap_ext)
  fix k
  have "lib_Assignee (ref_yaml ''t'' parked_fm) parked_fm = []"
    by (simp add: lib_Assignee_eq [OF lib_ok_ref_yaml] parked_fm_simps)
  then show "fm_get (snd (ClearAssigneeIfHumanReview (ref_yaml ''t'' parked_fm) parked_fm {||})) k = fm_get parked_fm k"
    by (simp add: ClearAssigneeIfHumanReview_def parked_fm_simps humans_Contains_def clearAssignee_get)
qed

lemma parked_fm_image: "result_image (ref_yaml ''t'' parked_fm) ref_writer 0 0 ref_task parked_fm [] = (parked_fm, [])"
proof -
  have "mergeBody [] [] = []" by code_simp
  moreover have "\<not> lib_SpawnNotification (ref_yaml ''t'' parked_fm) parked_fm"
    by (simp add: ref_yaml_def ref_lib_def parked_fm_simps)
  moreover have "\<not> TriggerCapEngaged (ref_yaml ''t'' parked_fm) parked_fm"
    by (simp add: TriggerCapEngaged_def lib_String_eq [OF lib_ok_ref_yaml] parked_fm_simps)
  ultimately show ?thesis
    by (simp add: result_image_def ref_task_def ref_writer_def merge_empty HealTargetVault_def ClearCurrentJobIfTerminal_def
        parked_fm_simps applyRetryCounter_def parked_fm_open applyTriggerCap_def parked_fm_clear applyRetryCap_def Let_def)
qed

lemma parked_fm_yaml: "yaml_ok (ref_yaml ''t'' parked_fm)"
  by (rule yaml_ok_ref_yaml)
    (simp_all add: Contains_def HasPrefix_def fmrel_iff parked_fm_def fmlookup_of_list same_value_def)

theorem result_human_review_unowned_witness: "parked_owner {||} parked_fm"
  using result_human_review_unowned [OF lib_ok_ref_yaml parked_fm_yaml ref_file_parse ref_modify [OF parked_fm_image]
      ref_file_parse parked_fm_simps(1) parked_fm_open parked_fm_simps(3)]
  by (simp add: ref_writer_def)

section \<open>What a result write sends\<close>

lemma posted_walk: "posted (snd (snd (walk_files (traced W) L a tid ps m v e x))) = posted (snd x)"
proof (induction ps arbitrary: m v e x)
  case (Cons p ps)
  obtain c y where y: "ReadFile (traced W) a p x = (c, y)" by (cases "ReadFile (traced W) a p x")
  then have "posted (snd y) = posted (snd x)" using posted_ReadFile [of W a p x] by simp
  then show ?case by (simp add: y Cons.IH Let_def split_def split: sum.split)
qed simp

lemma posted_resolve: "posted (snd (snd (resolveFromIndex (traced W) L a tid res x))) = posted (snd x)"
proof (cases "\<exists>i p. res = Some i \<and> Resolve i tid = Inr (Some p)")
  case False
  then show ?thesis by (auto simp: resolveFromIndex_def split: option.split sum.split)
next
  case True
  then obtain i p where ip: "res = Some i" "Resolve i tid = Inr (Some p)" by blast
  obtain c y where y: "ReadFile (traced W) a p x = (c, y)" by (cases "ReadFile (traced W) a p x")
  then have "posted (snd y) = posted (snd x)" using posted_ReadFile [of W a p x] by simp
  then show ?thesis by (simp add: resolveFromIndex_def ip y Let_def split: sum.split)
qed

lemma posted_Find: "posted (snd (snd (snd (FindTaskFilePath (traced W) L a d tid res x)))) = posted (snd x)"
proof -
  obtain r y where y: "resolveFromIndex (traced W) L a tid res x = (r, y)"
    by (cases "resolveFromIndex (traced W) L a tid res x")
  obtain l z where z: "ListFiles (traced W) a (d @ ''/*.md'') y = (l, z)" by (cases "ListFiles (traced W) a (d @ ''/*.md'') y")
  have yz: "posted (snd y) = posted (snd x)" "posted (snd z) = posted (snd x)"
    using posted_resolve [of W L a tid res x] posted_ListFiles [of W a "d @ ''/*.md''" y] y z by simp_all
  have "posted (snd (snd (walk_files (traced W) L a tid ps m v e z))) = posted (snd x)" for ps m v e
    using posted_walk [of W L a tid ps m v e z] yz by simp
  then show ?thesis
    by (simp add: FindTaskFilePath_def y z Let_def yz split_def split: sum.split option.split)
qed

lemma posted_find_attempts:
  "posted (snd (snd (snd (find_attempts (traced W) L r tid n res x)))) = posted (snd x)"
proof (induction n arbitrary: res x)
  case (Suc n)
  obtain f res' y where y: "FindTaskFilePath (traced W) L (rw_git r) (rw_taskDir r) tid res x = (f, res', y)"
    by (cases "FindTaskFilePath (traced W) L (rw_git r) (rw_taskDir r) tid res x")
  obtain c z where z: "wait_for (traced W) notFoundBackoff y = (c, z)" by (cases "wait_for (traced W) notFoundBackoff y")
  have "posted (snd y) = posted (snd x)" using posted_Find [of W L "rw_git r" "rw_taskDir r" tid res x] by (simp add: y)
  moreover have "snd z = snd y" using traced_simps(2) [of W notFoundBackoff y] by (simp add: z)
  ultimately show ?case by (simp add: y z Suc.IH split: sum.split option.split prod.split)
qed simp

text \<open>The sender and the publisher reach their own brokers, not the vault.\<close>

definition quiet :: "('w \<times> exchange list) resultWriter \<Rightarrow> bool" where
  "quiet r \<longleftrightarrow>
     (\<forall>send c x. notificationSender r = Some send \<longrightarrow> posted (snd (snd (send c x))) = posted (snd x)) \<and>
     (\<forall>publish t x. keptStatePublisher r = Some publish \<longrightarrow> posted (snd (snd (publish t x))) = posted (snd x))"

lemma posted_publishEscalation:
  assumes "quiet r"
  shows "posted (snd (snd (publishEscalation (traced W) r e m x))) = posted (snd x)"
proof (cases "notificationSender r")
  case None
  then show ?thesis by (simp add: publishEscalation_def)
next
  case (Some send)
  have send: "posted (snd (snd (send c y))) = posted (snd y)" for c y
    using assms Some unfolding quiet_def by blast
  obtain n y where y: "clock_now (traced W) x = (n, y)" by (cases "clock_now (traced W) x")
  then have "snd y = snd x" using traced_simps(3) [of W x] by simp
  moreover obtain q z where z: "send (escalation_command r e) y = (q, z)" by (cases "send (escalation_command r e) y")
  moreover have "posted (snd z) = posted (snd y)" using send [of "escalation_command r e" y] by (simp add: z)
  ultimately show ?thesis
    by (auto simp: publishEscalation_def Some y send split: option.split prod.split bool.split)
qed

lemma posted_publishKeptState: "quiet r \<Longrightarrow> posted (snd (publishKeptState r t x)) = posted (snd x)"
  unfolding publishKeptState_def quiet_def by (cases "keptStatePublisher r") (simp, metis option.simps(5))

lemma posted_writeAndPublish:
  assumes "quiet r" and "writeAndPublish (traced W) L r now1 now2 absPath req rel msg st x = (res, st', x')"
  shows "\<exists>k b. posted (snd x') = posted (snd x) @ replicate k b \<and> k \<le> 5 \<and>
    (0 < k \<longrightarrow> (\<exists>current s. fst (buildResultModifyFn L r now1 now2 req current s) = Inr b \<and> b \<noteq> current))"
proof -
  obtain q s y where y: "AtomicReadModifyWriteAndCommitPush (traced W) (rw_git r) absPath
      (buildResultModifyFn L r now1 now2 req) msg \<lparr>rec_escalated = None, rec_kept = None\<rparr> x = (q, s, y)"
    by (cases "AtomicReadModifyWriteAndCommitPush (traced W) (rw_git r) absPath
      (buildResultModifyFn L r now1 now2 req) msg \<lparr>rec_escalated = None, rec_kept = None\<rparr> x")
  have "posted (snd x') = posted (snd y)"
  proof (cases "rec_escalated s")
    case None
    then show ?thesis
      using assms
      by (auto simp: writeAndPublish_def y Let_def posted_publishKeptState [OF assms(1)] split: sum.splits option.splits)
  next
    case (Some e)
    obtain m z where z: "publishEscalation (traced W) r (e\<lparr>esc_taskName := taskNameFromRelPath rel\<rparr>)
        (escalationPublishedAt st) y = (m, z)"
      by (cases "publishEscalation (traced W) r (e\<lparr>esc_taskName := taskNameFromRelPath rel\<rparr>) (escalationPublishedAt st) y")
    then have "posted (snd z) = posted (snd y)"
      using posted_publishEscalation [OF assms(1), of W "e\<lparr>esc_taskName := taskNameFromRelPath rel\<rparr>" "escalationPublishedAt st" y]
      by simp
    then show ?thesis
      using assms(2) Some z
      by (auto simp: writeAndPublish_def y Let_def posted_publishKeptState [OF assms(1)] split: sum.splits option.splits)
  qed
  with rmw_trace [OF y] show ?thesis by auto
qed

lemma posted_WriteResult:
  assumes "quiet r" and "WriteResult (traced W) L r now1 now2 req st x = (res, st', x')"
  shows "\<exists>k b. posted (snd x') = posted (snd x) @ replicate k b \<and> k \<le> 5 \<and>
    (0 < k \<longrightarrow> (\<exists>current s. fst (buildResultModifyFn L r now1 now2 req current s) = Inr b \<and> b \<noteq> current))"
proof -
  obtain f resolver y where y: "find_attempts (traced W) L r (TaskIdentifier req) notFoundAttempts (rw_resolver st) x = (f, resolver, y)"
    by (cases "find_attempts (traced W) L r (TaskIdentifier req) notFoundAttempts (rw_resolver st) x")
  have py: "posted (snd y) = posted (snd x)"
    using posted_find_attempts [of W L r "TaskIdentifier req" notFoundAttempts "rw_resolver st" x] by (simp add: y)
  have metric: "snd (ResultsWrittenTotal (traced W) o' z) = snd z" for o' z
    by (simp add: ResultsWrittenTotal_def)
  show ?thesis
  proof (cases "\<exists>matched. f = Inr matched \<and> matched \<noteq> []")
    case False
    then have "posted (snd x') = posted (snd x)"
      using assms(2) py by (auto simp: WriteResult_def y Let_def metric split: sum.splits if_splits)
    then show ?thesis by (intro exI [of _ 0]) simp
  next
    case True
    then obtain matched where m: "f = Inr matched" "matched \<noteq> []" by blast
    obtain n z where z: "clock_now (traced W) y = (n, z)" by (cases "clock_now (traced W) y")
    then have pz: "snd z = snd y" using traced_simps(3) [of W y] by simp
    obtain q st'' v where v: "writeAndPublish (traced W) L r now1 now2 (JoinPath (Path (rw_git r)) matched) req matched
        (''[agent-task-controller] write result for task '' @ TaskIdentifier req) (st\<lparr>rw_resolver := resolver\<rparr>) z = (q, st'', v)"
      by (cases "writeAndPublish (traced W) L r now1 now2 (JoinPath (Path (rw_git r)) matched) req matched
        (''[agent-task-controller] write result for task '' @ TaskIdentifier req) (st\<lparr>rw_resolver := resolver\<rparr>) z")
    have "snd x' = snd v"
      using assms(2) m v z by (auto simp: WriteResult_def y Let_def metric split: sum.splits)
    with posted_writeAndPublish [OF assms(1) v] py pz show ?thesis by simp
  qed
qed

text \<open>Every byte a result write sends to the vault is the rendering of a merge: the write sends at most
  five requests, all with one content, and that content is the output of the modify function on some
  current content from which it differs. Looking the file up sends nothing.\<close>

theorem result_write_sends_only_merges:
  assumes "quiet r" and "WriteResult (traced W) L r now1 now2 req st x = (res, st', x')"
  shows "\<exists>k b. posted (snd x') = posted (snd x) @ replicate k b \<and> k \<le> 5 \<and>
    (0 < k \<longrightarrow> (\<exists>current s. fst (buildResultModifyFn L r now1 now2 req current s) = Inr b \<and> b \<noteq> current))"
  by (rule posted_WriteResult [OF assms])

theorem result_write_sends_only_merges_witness:
  "\<exists>k b. posted (snd (snd (snd (WriteResult (traced (mem_world (NewGitRestClient ''h'' [] []))) task_lib
      \<lparr>rw_git = NewGitClient (NewGitRestClient ''h'' [] []) ''/v'', rw_taskDir = ''d'', rw_vaultName = ''v'',
       rw_humans = {||}, notificationSender = None, keptStatePublisher = None\<rparr> 0 0 ref_task
      \<lparr>rw_resolver = None, escalationPublishedAt = fmempty\<rparr>
      (\<lparr>mem_files = one_file, mem_clock = 0, mem_metrics = []\<rparr>, []))))) = replicate k b \<and> k \<le> 5"
proof -
  let ?r = "\<lparr>rw_git = NewGitClient (NewGitRestClient ''h'' [] []) ''/v'', rw_taskDir = ''d'', rw_vaultName = ''v'',
       rw_humans = {||}, notificationSender = None, keptStatePublisher = None\<rparr> :: (mem \<times> exchange list) resultWriter"
  let ?run = "WriteResult (traced (mem_world (NewGitRestClient ''h'' [] []))) task_lib ?r 0 0 ref_task
      \<lparr>rw_resolver = None, escalationPublishedAt = fmempty\<rparr>
      (\<lparr>mem_files = one_file, mem_clock = 0, mem_metrics = []\<rparr>, [])"
  have quiet: "quiet ?r" by (simp add: quiet_def)
  obtain res st x where run: "?run = (res, st, x)" by (cases ?run)
  from result_write_sends_only_merges [OF quiet run]
  obtain k b where "posted (snd x) = posted [] @ replicate k b" "k \<le> 5" by auto
  then show ?thesis unfolding run by (auto simp: posted_def)
qed

section \<open>A missing file\<close>

lemma find_missing:
  assumes "snapshot W a (d @ ''/*.md'') I files paths" and "I w" and "[] \<notin> set paths"
    and "case resolver of None \<Rightarrow> True | Some index \<Rightarrow> Resolve index tid = Inr None"
    and "filter (carries L files tid) paths = []"
  shows "\<exists>m w'. FindTaskFilePath W L a d tid resolver w = (Inr ([], m), resolver, w') \<and> I w'"
proof -
  obtain u where u: "ListFiles W a (d @ ''/*.md'') w = (Inr paths, u)" "I u"
    using assms(1,2) unfolding snapshot_def by (metis prod.collapse)
  obtain q x where x: "walk_files W L a tid paths [] False fmempty u = (q, x)"
    by (cases "walk_files W L a tid paths [] False fmempty u")
  have "I x" and "found_path q = Inr []"
    using walk_spec [OF assms(1) u(2) assms(3), of L tid "[]" False fmempty] assms(5) x
    by (simp_all add: unique_match_def)
  then obtain v e where q: "q = Inr ([], v, e)" by (cases q) (auto simp: found_path_def)
  have "recordWalkMatch resolver tid [] = resolver"
    by (simp add: recordWalkMatch_def split: option.split)
  then show ?thesis using \<open>I x\<close> q
    by (simp add: FindTaskFilePath_def resolve_from_index_miss [OF assms(4)] u(1) x Let_def)
qed

text \<open>C25: A result whose task file does not exist is acknowledged: on a stable vault in which no file carries
  the identifier the write gives up after its bounded retries, reports no error, changes nothing but one
  counter, and counts the miss as unowned exactly when the result carries no target vault.\<close>

theorem missing_file_is_acknowledged:
  assumes "snapshot W (rw_git r) (rw_taskDir r @ ''/*.md'') I files paths" and "I w" and "[] \<notin> set paths"
    and "case rw_resolver st of None \<Rightarrow> True | Some index \<Rightarrow> Resolve index (TaskIdentifier req) = Inr None"
    and "filter (carries L files (TaskIdentifier req)) paths = []"
    and "\<And>d w. I w \<Longrightarrow> fst (wait_for W d w) = None \<and> I (snd (wait_for W d w))"
  shows "\<exists>w'. I w' \<and> WriteResult W L r now1 now2 req st w =
    (Inr (), st, ResultsWrittenTotal W
       (if lib_String L (Frontmatter req) ''target_vault'' = None then ''unowned'' else ''not_found'') w')"
proof -
  have "\<exists>w'. find_attempts W L r (TaskIdentifier req) n (rw_resolver st) w = (Inr [], rw_resolver st, w') \<and> I w'" for n
    using assms(2)
  proof (induction n arbitrary: w)
    case (Suc n)
    obtain m u where u: "FindTaskFilePath W L (rw_git r) (rw_taskDir r) (TaskIdentifier req) (rw_resolver st) w =
        (Inr ([], m), rw_resolver st, u)" "I u"
      using find_missing [OF assms(1) Suc.prems assms(3,4,5)] by blast
    obtain c v where v: "wait_for W notFoundBackoff u = (c, v)" by (cases "wait_for W notFoundBackoff u")
    then have "c = None" "I v" using assms(6) [OF u(2), of notFoundBackoff] by simp_all
    with Suc.IH [of v] u v show ?case by simp
  qed simp
  then obtain w' where "find_attempts W L r (TaskIdentifier req) notFoundAttempts (rw_resolver st) w =
      (Inr [], rw_resolver st, w')" "I w'" by blast
  then show ?thesis by (auto simp: WriteResult_def Let_def)
qed

theorem missing_file_is_acknowledged_witness:
  "\<exists>w'. WriteResult (mem_world (NewGitRestClient ''h'' [] [])) task_lib ref_writer 0 0 (ref_task\<lparr>TaskIdentifier := ''x''\<rparr>)
      \<lparr>rw_resolver = None, escalationPublishedAt = fmempty\<rparr> \<lparr>mem_files = one_file, mem_clock = 0, mem_metrics = []\<rparr> =
    (Inr (), \<lparr>rw_resolver = None, escalationPublishedAt = fmempty\<rparr>,
     ResultsWrittenTotal (mem_world (NewGitRestClient ''h'' [] [])) ''unowned'' w')"
proof -
  have "ExtractFrontmatter task_text = Inr ''t''" by code_simp
  then have none: "\<not> carries task_lib (mem_read one_file) ''x'' ''d/a.md''"
    by (simp add: carries_def mem_read_def one_file_def wrap_res_def task_lib_def ref_yaml_def taskIdentifierMatch_def
        fmlookup_of_list)
  have git: "rw_git ref_writer = NewGitClient (NewGitRestClient ''h'' [] []) ''/v''" by (simp add: ref_writer_def)
  have "lib_String task_lib fmempty ''target_vault'' = None"
    unfolding task_lib_def by (simp add: lib_String_eq [OF lib_ok_ref_yaml])
  note vault = this
  let ?W = "mem_world (NewGitRestClient ''h'' [] [])"
  let ?m = "\<lparr>mem_files = one_file, mem_clock = 0, mem_metrics = []\<rparr>"
  let ?st = "\<lparr>rw_resolver = None, escalationPublishedAt = fmempty\<rparr>"
  let ?req = "ref_task\<lparr>TaskIdentifier := ''x''\<rparr>"
  have "\<exists>w'. mem_files w' = one_file \<and> WriteResult ?W task_lib ref_writer 0 0 ?req ?st ?m =
    (Inr (), ?st, ResultsWrittenTotal ?W
       (if lib_String task_lib (Frontmatter ?req) ''target_vault'' = None then ''unowned'' else ''not_found'') w')"
    by (rule missing_file_is_acknowledged [where files = "mem_read one_file" and paths = "[''d/a.md'']"])
      (simp add: git one_file_snapshot, simp_all add: none mem_world_def)
  then show ?thesis using vault by (auto simp: ref_task_def)
qed

text \<open>C26: The operator is pinged about one pull request at most once in thirty minutes, and not less. Over any sequence of
  escalations, with a clock that does not run backwards and anything else happening in between, two notifications the sender
  accepted for one pull request are a window apart, and the next escalation of a pull-request task is sent exactly when none
  was accepted for it within the window; a notification the sender rejected does not count.\<close>

theorem pings_are_coalesced:
  assumes "forward_clock W send T" and "notificationSender r = Some (ping_send send)"
    and "\<forall>(between, e) \<in> set es. \<forall>w. T w \<le> T (between w)"
    and "escalations W r es fmempty (w, t, []) = (published, (w', t', ds))"
  shows "(\<forall>i j k. i < j \<longrightarrow> j < length ds \<longrightarrow> ping_key (fst (ds ! i)) = Some k \<longrightarrow> ping_key (fst (ds ! j)) = Some k \<longrightarrow>
            30 * Minute \<le> snd (ds ! j) - snd (ds ! i)) \<and>
         (\<forall>e key now w1. escalationCoalescingKey (esc_taskName e) = Some key \<longrightarrow> clock_now W w' = (now, w1) \<longrightarrow>
            snd (publishEscalation (ping_logged W) r e published (w', t', ds)) =
              (if \<forall>(c, t) \<in> set ds. ping_key c = Some key \<longrightarrow> 30 * Minute \<le> now - t
               then snd (ping_send send (escalation_command r e) (w1, now, ds)) else (w1, now, ds)))"
proof -
  have "coalescing_inv fmempty [] (T w)" by (simp add: coalescing_inv_def remembers_def delivered_pings_def)
  from escalations_inv [OF assms(1-3) this order.refl assms(4)] obtain n1 where inv: "coalescing_inv published ds n1" "n1 \<le> T w'" by blast
  have "pings_apart (ds ! i) (ds ! j)" if "i < j" "j < length ds" for i j
    using inv(1) that by (auto simp: coalescing_inv_def intro: sorted_wrt_nth_less)
  moreover have "n1 \<le> now" if "clock_now W w' = (now, w1)" for now w1
    using assms(1) inv(2) that unfolding forward_clock_def by (metis fst_conv order_trans)
  ultimately show ?thesis
    using publish_due [OF assms(2) _ inv(1)] by (auto simp: pings_apart_def escalationCoalescingWindow_def ping_due_def)
qed
text \<open>Three escalations of one pull request: two at once, the third half an hour later.\<close>

definition pr_escalation :: escalation where
  "pr_escalation =
     \<lparr>esc_taskIdentifier = ''u'', esc_taskName = ''PR Review github - agent - 12 - abc'', esc_previousAssignee = ''agent'',
      esc_status = ''in_progress'', esc_phase = ''human_review''\<rparr>"

definition ping_writer :: "mem ping_log resultWriter" where
  "ping_writer =
     \<lparr>rw_git = NewGitClient (NewGitRestClient ''h'' [] []) ''/v'', rw_taskDir = ''d'', rw_vaultName = ''vault'', rw_humans = {||},
      notificationSender = Some (ping_send (\<lambda>c m. (None, m))), keptStatePublisher = None\<rparr>"

definition half_hour_later :: "mem \<Rightarrow> mem" where
  "half_hour_later m = m\<lparr>mem_clock := mem_clock m + 30 * Minute\<rparr>"

lemma pr_key: "escalationCoalescingKey (esc_taskName pr_escalation) = Some ''agent#12''"
  by code_simp

theorem pings_are_coalesced_witness:
  "\<exists>published x c t1 t2. escalations ref_world ping_writer [(id, pr_escalation), (id, pr_escalation), (half_hour_later, pr_escalation)] fmempty
       (\<lparr>mem_files = [], mem_clock = 0, mem_metrics = []\<rparr>, 0, []) = (published, x) \<and>
     snd (snd x) = [(c, t1), (c, t2)] \<and> 30 * Minute \<le> t2 - t1"
proof -
  let ?m = "\<lparr>mem_files = [], mem_clock = 0, mem_metrics = []\<rparr> :: mem" and ?es = "[(id, pr_escalation), (id, pr_escalation), (half_hour_later, pr_escalation)]"
  let ?c = "escalation_command ping_writer pr_escalation" and ?send = "\<lambda>c m. (None, m) :: go_error option \<times> mem"
  have pos: "0 < Minute" by code_simp
  have forward: "forward_clock ref_world ?send mem_clock" by (simp add: forward_clock_def mem_world_def)
  have send: "notificationSender ping_writer = Some (ping_send ?send)" by (simp add: ping_writer_def)
  have between: "\<forall>(between, e) \<in> set ?es. \<forall>m. mem_clock m \<le> mem_clock (between m)" using pos by (simp add: half_hour_later_def)
  obtain published w' t' ds where run: "escalations ref_world ping_writer ?es fmempty (?m, 0, []) = (published, (w', t', ds))"
    by (metis prod_cases4)
  then have ds: "ds = [(?c, 0), (?c, 30 * Minute)]"
    using pos
    by (auto simp: publishEscalation_def send pr_key ping_logged_def mem_world_def ping_send_def half_hour_later_def
        claimEscalationCoalescingSlot_def escalationCoalescingWindow_def)
  from pings_are_coalesced [OF forward send between run] have "30 * Minute \<le> snd (ds ! 1) - snd (ds ! 0)"
    by (rule conjunct1 [THEN spec [of _ 0], THEN spec [of _ 1], THEN spec [of _ "''agent#12''"], THEN mp, THEN mp, THEN mp, THEN mp])
      (simp_all add: ds ping_key_command pr_key)
  with run ds show ?thesis by auto
qed

end
