(* ===== verification/Routing.thy ===== *)
theory Routing
  imports Frontmatter
begin

text \<open>
  Which controller acts on a command or a result (\<open>pkg/routing/routing.go\<close>). Every controller consumes
  the same topics; a command names its vault, an empty name falls back as the functions below say.
\<close>

definition LegacyDefaultVault :: string where
  "LegacyDefaultVault = ''openclaw''"

text \<open>The pattern \<open>^[a-z][a-z0-9-]*$\<close>.\<close>

definition slug_first :: "char \<Rightarrow> bool" where
  "slug_first c \<longleftrightarrow> c \<in> set ''abcdefghijklmnopqrstuvwxyz''"

definition slug_char :: "char \<Rightarrow> bool" where
  "slug_char c \<longleftrightarrow> slug_first c \<or> is_digit c \<or> c = CHR ''-''"

definition targetVaultSlugRegexp :: "string \<Rightarrow> bool" where
  "targetVaultSlugRegexp s = (case s of [] \<Rightarrow> False | c # cs \<Rightarrow> slug_first c \<and> list_all slug_char cs)"

definition ValidateVaultName :: "string \<Rightarrow> unit res" where
  "ValidateVaultName vaultName =
     (if vaultName = [] then Inl (Wrapf (Sentinel ErrValidation) ''VAULT_NAME must not be empty'' [])
      else if \<not> targetVaultSlugRegexp vaultName
      then Inl (Wrapf (Sentinel ErrValidation) ''VAULT_NAME %q must match ^[a-z][a-z0-9-]*$'' [vaultName])
      else Inr ())"

definition ShouldProcess :: "string \<Rightarrow> string \<Rightarrow> bool" where
  "ShouldProcess targetVault vaultName =
     (let effective = (if targetVault = [] then LegacyDefaultVault else targetVault)
      in effective = vaultName)"

definition ShouldProcessResult :: "pure_lib \<Rightarrow> fm \<Rightarrow> string \<Rightarrow> bool" where
  "ShouldProcessResult L frontmatter vaultName =
     (case lib_String L frontmatter ''target_vault'' of
        Some v \<Rightarrow> v = vaultName
      | None \<Rightarrow> True)"

definition ShouldProcessFrontmatterCommand :: "string \<Rightarrow> string \<Rightarrow> bool" where
  "ShouldProcessFrontmatterCommand targetVault vaultName =
     (if targetVault = [] then True else targetVault = vaultName)"

section \<open>Properties\<close>

text \<open>At most one controller acts on a create command, and exactly one if the vault it names is
  served; a result or frontmatter command that names a vault is acted on by the controller of that vault
  alone, and one that names none by every controller. A valid vault name is never empty and never
  contains a path separator.\<close>

theorem routing_is_exclusive:
  assumes "lib_ok L" and "distinct vaults"
  shows "length (filter (ShouldProcess target) vaults) \<le> 1 \<and>
         (\<forall>v. fm_get fm ''target_vault'' = Some (VStr v) \<longrightarrow>
            filter (ShouldProcessResult L fm) vaults = filter (\<lambda>x. x = v) vaults) \<and>
         (fm_get fm ''target_vault'' = None \<longrightarrow> filter (ShouldProcessResult L fm) vaults = vaults) \<and>
         (target \<noteq> [] \<longrightarrow> filter (ShouldProcessFrontmatterCommand target) vaults = filter (\<lambda>x. x = target) vaults) \<and>
         (ValidateVaultName target = Inr () \<longrightarrow> target \<noteq> [] \<and> CHR ''/'' \<notin> set target)"
proof (intro conjI allI impI)
  have one: "length (filter (\<lambda>x. x = y) vaults) \<le> 1" for y
    using assms(2) by (induction vaults) (auto simp: filter_empty_conv)
  have "filter (ShouldProcess target) vaults =
        filter (\<lambda>x. x = (if target = [] then LegacyDefaultVault else target)) vaults"
    by (intro filter_cong) (auto simp: ShouldProcess_def Let_def)
  then show "length (filter (ShouldProcess target) vaults) \<le> 1"
    using one by (simp only:)
  fix v
  assume "fm_get fm ''target_vault'' = Some (VStr v)"
  then show "filter (ShouldProcessResult L fm) vaults = filter (\<lambda>x. x = v) vaults"
    by (intro filter_cong) (auto simp: ShouldProcessResult_def lib_String_eq [OF assms(1)])
next
  assume "fm_get fm ''target_vault'' = None"
  then show "filter (ShouldProcessResult L fm) vaults = vaults"
    by (simp add: ShouldProcessResult_def lib_String_eq [OF assms(1)])
next
  assume "target \<noteq> []"
  then show "filter (ShouldProcessFrontmatterCommand target) vaults = filter (\<lambda>x. x = target) vaults"
    by (intro filter_cong) (auto simp: ShouldProcessFrontmatterCommand_def)
next
  assume valid: "ValidateVaultName target = Inr ()"
  then show "target \<noteq> []" by (auto simp: ValidateVaultName_def split: if_splits)
  have "\<not> slug_char (CHR ''/'')" by (simp add: slug_char_def slug_first_def is_digit_def)
  then have "CHR ''/'' \<notin> set s" if "targetVaultSlugRegexp s" for s
    using that by (cases s) (auto simp: targetVaultSlugRegexp_def slug_char_def list_all_iff)
  with valid show "CHR ''/'' \<notin> set target"
    by (auto simp: ValidateVaultName_def split: if_splits)
qed

theorem routing_is_exclusive_witness:
  "filter (ShouldProcessResult ref_lib (fmap_of_list [(''target_vault'', VStr ''personal'')])) [''openclaw'', ''personal''] =
     [''personal'']"
proof -
  have "distinct [''openclaw'', ''personal'']" by simp
  from routing_is_exclusive [OF lib_ok_ref_lib this, of "[]" "fmap_of_list [(''target_vault'', VStr ''personal'')]"]
  have "filter (ShouldProcessResult ref_lib (fmap_of_list [(''target_vault'', VStr ''personal'')])) [''openclaw'', ''personal''] =
     filter (\<lambda>x. x = ''personal'') [''openclaw'', ''personal'']" by (simp add: fmlookup_of_list)
  then show ?thesis by simp
qed

end
