(* ===== verification/VaultApi.thy ===== *)
theory VaultApi
  imports Frontmatter Metrics
begin

text \<open>
  The typed vault API (\<open>pkg/vaultapi/client.go\<close>): the interface \<open>Client\<close> is the record \<open>api\<close> of its
  operations, and \<open>http_api\<close> is the client over the HTTP transport. The JSON codec is a parameter: what
  it makes of each of the payloads and response bodies the client uses.
\<close>

section \<open>Data\<close>

record VTask =
  vt_ID :: string
  vt_Title :: string
  vt_Frontmatter :: fm
  vt_Body :: string
  vt_Reopened :: bool

record Filter =
  f_Assignee :: string
  f_Status :: string
  f_Phase :: string
  f_Goal :: string
  f_Cluster :: string
  f_TaskTypes :: "string list"

text \<open>The bodies the client sends: the create payload (title, frontmatter, body, reopen), a map of
  frontmatter fields, a body, a new identifier.\<close>

datatype payload =
    CreatePayload string fm string string
  | FieldsPayload fm
  | BodyPayload string
  | ReaddressPayload string

text \<open>A conflict envelope is decoded field by field; the flag says whether the decoder succeeded.\<close>

record json_lib =
  json_Marshal :: "payload \<Rightarrow> bytes res"
  json_Task :: "bytes \<Rightarrow> VTask res"
  json_Conflict :: "bytes \<Rightarrow> (string \<times> string \<times> string) \<times> bool"
  json_Page :: "bytes \<Rightarrow> (VTask list \<times> int) res"

record 'w api =
  api_ReadTask :: "string \<Rightarrow> 'w \<Rightarrow> VTask res \<times> 'w"
  api_CreateTask :: "VTask \<Rightarrow> bool \<Rightarrow> 'w \<Rightarrow> VTask res \<times> 'w"
  api_PatchTask :: "string \<Rightarrow> fm \<Rightarrow> 'w \<Rightarrow> VTask res \<times> 'w"
  api_PutBody :: "string \<Rightarrow> string \<Rightarrow> 'w \<Rightarrow> unit res \<times> 'w"
  api_ListTasks :: "Filter \<Rightarrow> 'w \<Rightarrow> VTask list res \<times> 'w"
  api_ReaddressTask :: "string \<Rightarrow> string \<Rightarrow> 'w \<Rightarrow> VTask res \<times> 'w"

record api_client =
  ac_baseURL :: string
  ac_gatewaySecret :: string
  ac_gatewayInitiator :: string

section \<open>Errors\<close>

definition AlreadyExistsError_Error :: "string \<Rightarrow> string \<Rightarrow> string \<Rightarrow> string" where
  "AlreadyExistsError_Error what taskIdentifier status =
     (let message = (if what \<noteq> [] then what @ '': '' else []) @ ''task already exists''
      in if taskIdentifier = [] then message
         else if status = [] then message @ '': '' @ taskIdentifier
         else message @ '': '' @ taskIdentifier @ '' ('' @ status @ '')'')"

definition IsTerminalStatus :: "string \<Rightarrow> bool" where
  "IsTerminalStatus status \<longleftrightarrow> status = ''completed'' \<or> status = ''aborted''"

definition snippet :: "bytes \<Rightarrow> string" where
  "snippet raw = (if length raw \<le> 200 then raw else take 200 raw @ [CHR 0xE2, CHR 0x80, CHR 0xA6])"

definition conflictError :: "json_lib \<Rightarrow> bytes \<Rightarrow> string \<Rightarrow> go_error" where
  "conflictError J raw what =
     (case json_Conflict J raw of ((code, taskIdentifier, status), decoded) \<Rightarrow>
        (if decoded \<and> code = ''ambiguous_name'' then Wrapf (Sentinel ErrAmbiguous) ''%s'' [what]
         else Wrapf (Sentinel (AlreadyExistsError code taskIdentifier status what)) ''%s'' [what]))"

definition decodeTask :: "json_lib \<Rightarrow> int \<Rightarrow> bytes \<Rightarrow> string \<Rightarrow> VTask res" where
  "decodeTask J status raw what =
     (if status = 200 \<or> status = 201 then
        (case json_Task J raw of
           Inl e \<Rightarrow> Inl (Wrapf e ''decode %s'' [what])
         | Inr task \<Rightarrow>
             (if vt_ID task = [] then Inl (Errorf ''%s: response carries no id'' [what]) else Inr task))
      else if status = 404 then Inl (Sentinel ErrNotFound)
      else if status = 409 then Inl (conflictError J raw what)
      else if status = 422 then Inl (Wrapf (Sentinel ErrAmbiguous) ''%s'' [what])
      else Inl (Errorf ''%s: unexpected status %d: %s'' [what, Itoa status, snippet raw]))"

section \<open>Requests\<close>

definition NewClient :: "string \<Rightarrow> string \<Rightarrow> string \<Rightarrow> api_client" where
  "NewClient url secret initiator =
     \<lparr>ac_baseURL = TrimRight1 url (CHR ''/''), ac_gatewaySecret = secret, ac_gatewayInitiator = initiator\<rparr>"

text \<open>\<open>url.Values.Encode\<close> of a list of pairs already in the order of their keys.\<close>

definition encode_query :: "(string \<times> string) list \<Rightarrow> string" where
  "encode_query q = Join ''&'' (map (\<lambda>(k, v). QueryEscape k @ ''='' @ QueryEscape v) q)"

definition query :: "Filter \<Rightarrow> (string \<times> string) list" where
  "query f =
     filter (\<lambda>(k, v). v \<noteq> [])
       [(''assignee'', f_Assignee f), (''cluster'', f_Cluster f), (''goal'', f_Goal f),
        (''phase'', f_Phase f), (''status'', f_Status f)] @
     map (\<lambda>t. (''task_type'', t)) (f_TaskTypes f)"

definition api_do ::
  "'w world \<Rightarrow> json_lib \<Rightarrow> api_client \<Rightarrow> string \<Rightarrow> string \<Rightarrow> (string \<times> string) list \<Rightarrow> payload option \<Rightarrow> 'w
     \<Rightarrow> (int \<times> bytes) res \<times> 'w" where
  "api_do W J c method path q body w =
     (case (case body of None \<Rightarrow> Inr [] | Some p \<Rightarrow> json_Marshal J p) of
        Inl e \<Rightarrow> (Inl (Wrapf e ''marshal %s %s'' [method, path]), w)
      | Inr raw \<Rightarrow>
          (let target = ac_baseURL c @ path @ (if q = [] then [] else ''?'' @ encode_query q)
           in case new_request_error W method target of
                Some e \<Rightarrow> (Inl (Wrapf e ''build %s %s'' [method, path]), w)
              | None \<Rightarrow>
                  (let headers =
                         (if body = None then [] else [(''Content-Type'', ''application/json'')]) @
                         (if ac_gatewaySecret c = [] then []
                          else [(''X-Gateway-Secret'', ac_gatewaySecret c), (''X-Gateway-Initator'', ac_gatewayInitiator c)])
                   in case http_do W \<lparr>req_method = method, req_url = target, req_headers = headers,
                                      req_body = raw, req_timeout = 30 * Second\<rparr> w of
                        (Inl e, w) \<Rightarrow> (Inl (Wrapf e ''%s %s'' [method, path]), w)
                      | (Inr resp, w) \<Rightarrow>
                          (case resp_body resp of
                             Inl e \<Rightarrow> (Inl (Wrapf e ''read %s %s'' [method, path]), w)
                           | Inr raw \<Rightarrow> (Inr (resp_status resp, raw), w)))))"

definition taskPath :: "string \<Rightarrow> string \<Rightarrow> string" where
  "taskPath tid sfx = ''/api/v1/tasks/'' @ PathEscape tid @ sfx"

text \<open>The task in the response of one request, as every typed route decodes it.\<close>

definition task_request ::
  "'w world \<Rightarrow> json_lib \<Rightarrow> api_client \<Rightarrow> string \<Rightarrow> string \<Rightarrow> payload option \<Rightarrow> string \<Rightarrow> 'w \<Rightarrow> VTask res \<times> 'w" where
  "task_request W J c method path body what w =
     (case api_do W J c method path [] body w of
        (Inl e, w) \<Rightarrow> (Inl e, w)
      | (Inr (status, raw), w) \<Rightarrow> (decodeTask J status raw what, w))"

definition ReadTask :: "'w world \<Rightarrow> json_lib \<Rightarrow> api_client \<Rightarrow> string \<Rightarrow> 'w \<Rightarrow> VTask res \<times> 'w" where
  "ReadTask W J c tid w = task_request W J c ''GET'' (taskPath tid []) None (''read task '' @ tid) w"

definition CreateTask :: "'w world \<Rightarrow> json_lib \<Rightarrow> api_client \<Rightarrow> VTask \<Rightarrow> bool \<Rightarrow> 'w \<Rightarrow> VTask res \<times> 'w" where
  "CreateTask W J c task reopenTerminal w =
     task_request W J c ''POST'' ''/api/v1/tasks''
       (Some (CreatePayload (vt_Title task) (vt_Frontmatter task) (vt_Body task)
                (if reopenTerminal then ''terminal'' else []))) ''create task'' w"

definition ReaddressTask :: "'w world \<Rightarrow> json_lib \<Rightarrow> api_client \<Rightarrow> string \<Rightarrow> string \<Rightarrow> 'w \<Rightarrow> VTask res \<times> 'w" where
  "ReaddressTask W J c tid new w =
     task_request W J c ''POST'' (taskPath tid ''/readdress'') (Some (ReaddressPayload new)) (''readdress task '' @ tid) w"

definition PatchTask :: "'w world \<Rightarrow> json_lib \<Rightarrow> api_client \<Rightarrow> string \<Rightarrow> fm \<Rightarrow> 'w \<Rightarrow> VTask res \<times> 'w" where
  "PatchTask W J c tid upd w =
     task_request W J c ''PATCH'' (taskPath tid []) (Some (FieldsPayload upd)) (''patch task '' @ tid) w"

definition PutBody :: "'w world \<Rightarrow> json_lib \<Rightarrow> api_client \<Rightarrow> string \<Rightarrow> string \<Rightarrow> 'w \<Rightarrow> unit res \<times> 'w" where
  "PutBody W J c tid body w =
     (case api_do W J c ''PUT'' (taskPath tid ''/content'') [] (Some (BodyPayload body)) w of
        (Inl e, w) \<Rightarrow> (Inl e, w)
      | (Inr (status, raw), w) \<Rightarrow>
          (if status = 200 \<or> status = 204 then Inr ()
           else if status = 404 then Inl (Sentinel ErrNotFound)
           else Inl (Errorf ''put body %s: unexpected status %d: %s'' [tid, Itoa status, snippet raw]), w))"

definition ListTasks :: "'w world \<Rightarrow> json_lib \<Rightarrow> api_client \<Rightarrow> Filter \<Rightarrow> 'w \<Rightarrow> VTask list res \<times> 'w" where
  "ListTasks W J c f w =
     (case api_do W J c ''GET'' ''/api/v1/tasks'' (query f) None w of
        (Inl e, w) \<Rightarrow> (Inl e, w)
      | (Inr (status, raw), w) \<Rightarrow>
          (if status \<noteq> 200 then Inl (Errorf ''list tasks: unexpected status %d: %s'' [Itoa status, snippet raw])
           else case json_Page J raw of
                  Inl e \<Rightarrow> Inl (Wrapf e ''decode task listing'' [])
                | Inr (items, tot) \<Rightarrow>
                    (if tot \<noteq> int (length items)
                     then Inl (Errorf ''list tasks: server reported total=%d but returned %d items; refusing to present a partial set as the whole population''
                            [Itoa tot, Itoa (int (length items))])
                     else Inr items), w))"

definition http_api :: "'w world \<Rightarrow> json_lib \<Rightarrow> api_client \<Rightarrow> 'w api" where
  "http_api W J c =
     \<lparr>api_ReadTask = ReadTask W J c, api_CreateTask = CreateTask W J c, api_PatchTask = PatchTask W J c,
      api_PutBody = PutBody W J c, api_ListTasks = ListTasks W J c, api_ReaddressTask = ReaddressTask W J c\<rparr>"

section \<open>The contract of the interface\<close>

text \<open>
  What every caller of the typed API relies on: a task that comes back has an identifier, and a listing
  is never a partial one. \<open>partial\<close> says of an answer of the server that it is a page that misses items.
\<close>

locale task_api =
  fixes A :: "'w api"
  assumes read_id: "fst (api_ReadTask A i w) = Inr t \<Longrightarrow> vt_ID t \<noteq> []"
    and create_id: "fst (api_CreateTask A task reopen w) = Inr t \<Longrightarrow> vt_ID t \<noteq> []"
    and patch_id: "fst (api_PatchTask A i upd w) = Inr t \<Longrightarrow> vt_ID t \<noteq> []"
    and readdress_id: "fst (api_ReaddressTask A i j w) = Inr t \<Longrightarrow> vt_ID t \<noteq> []"
begin

text \<open>A read followed by a write addressed by what was read never addresses the empty identifier.\<close>

lemma addressed:
  "api_ReadTask A i w = (Inr t, w') \<Longrightarrow> vt_ID t \<noteq> []"
  using read_id [of i w t] by simp

end

lemma task_request_id: "fst (task_request W J c m p b what w) = Inr t \<Longrightarrow> vt_ID t \<noteq> []"
  by (auto simp: task_request_def decodeTask_def split: sum.splits prod.splits if_splits)

interpretation http: task_api "http_api W J c" for W :: "'w world" and J c
proof
qed (auto simp: http_api_def ReadTask_def CreateTask_def PatchTask_def ReaddressTask_def dest!: task_request_id)

section \<open>The store behind the interface\<close>

text \<open>
  What the executors rely on of the server, as the comments on \<open>Client\<close> document it: the identifier is the
  address, \<open>PatchTask\<close> replaces the named frontmatter fields and nothing else, \<open>PutBody\<close> replaces the body and
  nothing else. Fields travel as JSON, so an integer is read back as the nearest \<open>float64\<close>; the laws are
  assumed for fields that JSON can carry (no time values, no NaN, no top-level null).
\<close>

fun json_decoded :: "val \<Rightarrow> bool" where
  "json_decoded VNil = True"
| "json_decoded (VBool b) = True"
| "json_decoded (VStr s) = True"
| "json_decoded (VFloat x) = (case x of Fin m e \<Rightarrow> True | _ \<Rightarrow> False)"
| "json_decoded (VList vs) = list_all json_decoded vs"
| "json_decoded (VMap m) = list_all (\<lambda>(k, v). json_decoded v) m"
| "json_decoded _ = False"

definition json_value :: "val \<Rightarrow> bool" where
  "json_value v = (case v of VNil \<Rightarrow> False | VInt n \<Rightarrow> True | _ \<Rightarrow> json_decoded v)"

definition json_fields :: "fm \<Rightarrow> bool" where
  "json_fields m = fmpred (\<lambda>k v. json_value v) m"

definition wire :: "val \<Rightarrow> val" where
  "wire v = (case v of VInt n \<Rightarrow> VFloat (float_of_int n) | _ \<Rightarrow> v)"

definition with_fields :: "VTask \<Rightarrow> fm \<Rightarrow> VTask" where
  "with_fields t upd = t\<lparr>vt_Frontmatter := vt_Frontmatter t ++\<^sub>f fmmap wire upd\<rparr>"

definition with_body :: "VTask \<Rightarrow> string \<Rightarrow> VTask" where
  "with_body t body = t\<lparr>vt_Body := body\<rparr>"

definition api_store :: "'w api \<Rightarrow> ('w \<Rightarrow> string \<Rightarrow> VTask option) \<Rightarrow> bool" where
  "api_store A S \<longleftrightarrow>
     (\<forall>w i t. S w i = Some t \<longrightarrow> vt_ID t = i) \<and>
     (\<forall>w i t. S w i = Some t \<longrightarrow> (\<exists>w'. api_ReadTask A i w = (Inr t, w') \<and> S w' = S w)) \<and>
     (\<forall>w i. S w i = None \<longrightarrow> (\<exists>w'. api_ReadTask A i w = (Inl (Sentinel ErrNotFound), w') \<and> S w' = S w)) \<and>
     (\<forall>w i t upd. S w i = Some t \<longrightarrow> json_fields upd \<longrightarrow>
        (\<exists>w' u. api_PatchTask A i upd w = (Inr u, w') \<and> S w' = (S w)(i \<mapsto> with_fields t upd))) \<and>
     (\<forall>w i t body. S w i = Some t \<longrightarrow>
        (\<exists>w'. api_PutBody A i body w = (Inr (), w') \<and> S w' = (S w)(i \<mapsto> with_body t body)))"

text \<open>Counting and reading the clock do not touch the store.\<close>

definition observer_only :: "'w world \<Rightarrow> ('w \<Rightarrow> 's) \<Rightarrow> bool" where
  "observer_only W S \<longleftrightarrow>
     (\<forall>m ls w. S (inc_metric W m ls w) = S w) \<and> (\<forall>w. S (snd (clock_now W w)) = S w)"

lemma with_fields_simps [simp]:
  "vt_ID (with_fields t upd) = vt_ID t" "vt_Body (with_fields t upd) = vt_Body t"
  "vt_Frontmatter (with_fields t upd) = vt_Frontmatter t ++\<^sub>f fmmap wire upd"
  "vt_ID (with_body t b) = vt_ID t" "vt_Body (with_body t b) = b"
  "vt_Frontmatter (with_body t b) = vt_Frontmatter t"
  by (simp_all add: with_fields_def with_body_def)

lemma api_storeD:
  assumes "api_store A S" and "S w i = Some t"
  shows store_id: "vt_ID t = i"
    and store_read: "\<exists>w'. api_ReadTask A i w = (Inr t, w') \<and> S w' = S w"
    and store_put: "\<exists>w'. api_PutBody A i body w = (Inr (), w') \<and> S w' = (S w)(i \<mapsto> with_body t body)"
    and store_patch: "json_fields upd \<Longrightarrow>
          \<exists>w' u. api_PatchTask A i upd w = (Inr u, w') \<and> S w' = (S w)(i \<mapsto> with_fields t upd)"
  using assms by (auto simp: api_store_def)

lemma store_read_None:
  "api_store A S \<Longrightarrow> S w i = None \<Longrightarrow>
   \<exists>w'. api_ReadTask A i w = (Inl (Sentinel ErrNotFound), w') \<and> S w' = S w"
  by (auto simp: api_store_def)

text \<open>An in-memory server with one slot per identifier.\<close>

type_synonym task_table = "(string \<times> VTask) list"

definition mem_edit :: "string \<Rightarrow> (VTask \<Rightarrow> VTask) \<Rightarrow> task_table \<Rightarrow> VTask res \<times> task_table" where
  "mem_edit i f m =
     (case map_of m i of
        None \<Rightarrow> (Inl (Sentinel ErrNotFound), m)
      | Some t \<Rightarrow> (Inr (f t), AList.update i (f t) m))"

definition mem_table :: "task_table \<Rightarrow> string \<Rightarrow> VTask option" where
  "mem_table m i = map_option (\<lambda>t. t\<lparr>vt_ID := i\<rparr>) (map_of m i)"

definition mem_api :: "task_table api" where
  "mem_api =
     \<lparr>api_ReadTask = (\<lambda>i m. (case mem_table m i of None \<Rightarrow> Inl (Sentinel ErrNotFound) | Some t \<Rightarrow> Inr t, m)),
      api_CreateTask = (\<lambda>t reopen m. (Inr t, AList.update (vt_ID t) t m)),
      api_PatchTask = (\<lambda>i upd. mem_edit i (\<lambda>t. with_fields t upd)),
      api_PutBody = (\<lambda>i body m. (case mem_edit i (\<lambda>t. with_body t body) m of
                                    (Inl e, m) \<Rightarrow> (Inl e, m) | (Inr _, m) \<Rightarrow> (Inr (), m))),
      api_ListTasks = (\<lambda>f m. (Inr (map snd m), m)),
      api_ReaddressTask = (\<lambda>i j. mem_edit i (\<lambda>t. t\<lparr>vt_ID := j\<rparr>))\<rparr>"

lemma mem_api_store: "api_store mem_api mem_table"
  by (auto simp: api_store_def mem_api_def mem_table_def mem_edit_def update_conv' with_fields_def with_body_def
        split: option.splits)

end
