(* ===== verification/FrontmatterCommands.thy ===== *)
theory FrontmatterCommands
  imports Escalation Routing VaultApi
begin

text \<open>
  The three command executors that edit one task through the typed vault API:
  \<open>task_update_frontmatter_executor.go\<close>, \<open>task_increment_frontmatter_executor.go\<close> and
  \<open>task_complete_task_executor.go\<close> of \<open>pkg/command\<close>. An executor takes the decoded command (or the text of the
  decoder's error) and returns the error of the Go closure, whose event results are always nil. Parameters: the API
  \<open>A\<close> it writes through, the world \<open>W\<close> that holds the clock and the metric counters,
  \<open>delivery.ReplaceOrAppendSection\<close> and \<open>TaskIdentifier.Validate\<close> of the agent library.
\<close>

section \<open>Shared helpers\<close>

definition frontmatterCommandVaultMismatch :: "string \<Rightarrow> string \<Rightarrow> string \<Rightarrow> string \<Rightarrow> go_error option" where
  "frontmatterCommandVaultMismatch operation targetVault vaultName taskID =
     (if ShouldProcessFrontmatterCommand targetVault vaultName then None
      else Some (Wrapf (Sentinel ErrCommandObjectSkipped) ''cross-vault %s for task %s'' [operation, taskID]))"

record triggerCapEscalation =
  tc_triggerCount :: int
  tc_maxTriggers :: int
  tc_agentName :: string

section \<open>Update\<close>

record UpdateFrontmatterCommand =
  uc_TargetVault :: string
  uc_TaskIdentifier :: string
  uc_Updates :: fm
  uc_Body :: "(string \<times> string) option"

definition capDefinitionFields :: "string list" where
  "capDefinitionFields = [''max_triggers'']"

definition defaultMaxTriggers :: "pure_lib \<Rightarrow> int" where
  "defaultMaxTriggers L = lib_MaxTriggers L fmempty"

definition withinDefaultCap :: "pure_lib \<Rightarrow> val \<Rightarrow> bool" where
  "withinDefaultCap L v =
     (case asFloat v of None \<Rightarrow> False | Some n \<Rightarrow> fle n (float_of_int (defaultMaxTriggers L)))"

definition capDefinitionStep :: "pure_lib \<Rightarrow> fm \<Rightarrow> fm \<Rightarrow> fm \<Rightarrow> string \<Rightarrow> fm" where
  "capDefinitionStep L updates frontmatter merged field =
     (case fm_get updates field of
        None \<Rightarrow> merged
      | Some incoming \<Rightarrow>
          (case fm_get frontmatter field of
             Some onDisk \<Rightarrow> fmupd field onDisk merged
           | None \<Rightarrow> (if withinDefaultCap L incoming then merged else fmdrop field merged)))"

definition applyControllerOwnedGuard :: "pure_lib \<Rightarrow> fm \<Rightarrow> fm \<Rightarrow> fm \<Rightarrow> fm" where
  "applyControllerOwnedGuard L updates frontmatter merged =
     (let merged = foldl (capDefinitionStep L updates frontmatter) merged capDefinitionFields
      in if fm_get updates ''trigger_scope'' = None then merged
         else if fm_get updates ''trigger_count'' \<noteq> None then merged
         else case fm_get frontmatter ''trigger_scope'' of
                Some onDiskScope \<Rightarrow> fmupd ''trigger_scope'' onDiskScope merged
              | None \<Rightarrow> fmdrop ''trigger_scope'' merged)"

definition applyUpdateTriggerCap ::
  "pure_lib \<Rightarrow> HumanAssignees \<Rightarrow> fm \<Rightarrow> triggerCapEscalation option \<times> fm" where
  "applyUpdateTriggerCap L humans merged =
     (if \<not> TriggerCapEngaged L merged then (None, merged)
      else let triggerCount = lib_TriggerCount L merged
           in if triggerCount = 0 \<or> triggerCount < lib_MaxTriggers L merged then (None, merged)
              else case ClearAssigneeUnlessHuman L merged humans of (agentName, merged) \<Rightarrow>
                     (Some \<lparr>tc_triggerCount = triggerCount, tc_maxTriggers = lib_MaxTriggers L merged,
                            tc_agentName = agentName\<rparr>, merged))"

text \<open>The fields of \<open>merged\<close> that are new or differ from \<open>before\<close>.\<close>

definition changed_fields :: "fm \<Rightarrow> fm \<Rightarrow> fm" where
  "changed_fields before merged =
     fmfilter (\<lambda>key. case (fm_get before key, fm_get merged key) of
                       (Some previous, Some value) \<Rightarrow> \<not> FrontmatterValueEqual previous value
                     | _ \<Rightarrow> True) merged"

definition buildUpdatePatch ::
  "pure_lib \<Rightarrow> fm \<Rightarrow> fm \<Rightarrow> string \<Rightarrow> HumanAssignees \<Rightarrow> fm \<times> triggerCapEscalation option" where
  "buildUpdatePatch L updates frontmatter vaultName humans =
     (let merged = applyControllerOwnedGuard L updates frontmatter (frontmatter ++\<^sub>f updates);
          (escalation, merged) = applyUpdateTriggerCap L humans merged;
          merged = snd (ClearAssigneeIfHumanReview L merged humans);
          merged = HealTargetVault merged vaultName;
          merged = ClearCurrentJobIfTerminal L merged
      in (changed_fields frontmatter merged, escalation))"

text \<open>\<open>PatchTask\<close> of the changed fields, skipped when there are none.\<close>

definition patch_fields :: "'w api \<Rightarrow> string \<Rightarrow> fm \<Rightarrow> 'w \<Rightarrow> unit res \<times> 'w" where
  "patch_fields A tid upd w =
     (if upd = fmempty then (Inr (), w)
      else case api_PatchTask A tid upd w of
             (Inl e, w) \<Rightarrow> (Inl (Wrapf e ''patch frontmatter'' []), w)
           | (Inr _, w) \<Rightarrow> (Inr (), w))"

definition applyUpdate ::
  "'w world \<Rightarrow> 'w api \<Rightarrow> pure_lib \<Rightarrow> (string \<Rightarrow> string \<Rightarrow> string \<Rightarrow> string) \<Rightarrow> string \<Rightarrow> HumanAssignees \<Rightarrow>
     VTask \<Rightarrow> UpdateFrontmatterCommand \<Rightarrow> 'w \<Rightarrow> unit res \<times> 'w" where
  "applyUpdate W A L ReplaceOrAppendSection vaultName humans task cmd w =
     (case buildUpdatePatch L (uc_Updates cmd) (vt_Frontmatter task) vaultName humans of (upd, escalation) \<Rightarrow>
        (if uc_Body cmd = None \<and> escalation = None then patch_fields A (vt_ID task) upd w
         else case api_ReadTask A (uc_TaskIdentifier cmd) w of
                (Inl e, w) \<Rightarrow> (Inl (Wrapf e ''re-read task for body merge'' []), w)
              | (Inr fresh, w) \<Rightarrow>
                  (let body = (case uc_Body cmd of
                                 None \<Rightarrow> vt_Body fresh
                               | Some (heading, sect) \<Rightarrow> ReplaceOrAppendSection (vt_Body fresh) heading sect);
                       (body, w) =
                         (case escalation of
                            None \<Rightarrow> (body, w)
                          | Some e \<Rightarrow>
                              (if ContainsTriggerCapEscalation body then (body, w)
                               else case clock_now W w of (now, w) \<Rightarrow>
                                      (body @ TriggerCapEscalationSection (tc_triggerCount e) (tc_maxTriggers e)
                                                (tc_agentName e) now, w)))
                   in case (if body \<noteq> vt_Body fresh then api_PutBody A (vt_ID fresh) body w else (Inr (), w)) of
                        (Inl e, w) \<Rightarrow> (Inl (Wrapf e ''put body'' []), w)
                      | (Inr _, w) \<Rightarrow> patch_fields A (vt_ID task) upd w)))"

definition NewUpdateFrontmatterExecutor ::
  "'w world \<Rightarrow> 'w api \<Rightarrow> pure_lib \<Rightarrow> (string \<Rightarrow> string \<Rightarrow> string \<Rightarrow> string) \<Rightarrow> string \<Rightarrow> HumanAssignees \<Rightarrow>
     string + UpdateFrontmatterCommand \<Rightarrow> 'w \<Rightarrow> unit res \<times> 'w" where
  "NewUpdateFrontmatterExecutor W A L ReplaceOrAppendSection vaultName humans data w =
     (let count = FrontmatterCommandsTotal W ''update-frontmatter''
      in case data of
           Inl e \<Rightarrow> (Inl (Wrapf (Sentinel ErrCommandObjectSkipped) ''malformed UpdateFrontmatterCommand: %v'' [e]), w)
         | Inr cmd \<Rightarrow>
             (case frontmatterCommandVaultMismatch ''update-frontmatter'' (uc_TargetVault cmd) vaultName (uc_TaskIdentifier cmd) of
                Some e \<Rightarrow> (Inl e, w)
              | None \<Rightarrow>
                  (if uc_Updates cmd = fmempty \<and> uc_Body cmd = None then (Inr (), w)
                   else case api_ReadTask A (uc_TaskIdentifier cmd) w of
                          (Inl e, w) \<Rightarrow>
                            (if err_is e ErrNotFound then (Inr (), count ''not_found'' w)
                             else (Inl (Wrapf e ''read task for update'' []), count ''error'' w))
                        | (Inr task, w) \<Rightarrow>
                            (case applyUpdate W A L ReplaceOrAppendSection vaultName humans task cmd w of
                               (Inl e, w) \<Rightarrow> (Inl (Wrapf e ''update task %s'' [uc_TaskIdentifier cmd]), count ''error'' w)
                             | (Inr _, w) \<Rightarrow> (Inr (), count ''success'' w)))))"

section \<open>Increment\<close>

record IncrementFrontmatterCommand =
  ic_TargetVault :: string
  ic_TaskIdentifier :: string
  ic_Field :: string
  ic_Delta :: int

definition buildIncrementPatch ::
  "pure_lib \<Rightarrow> IncrementFrontmatterCommand \<Rightarrow> fm \<Rightarrow> string \<Rightarrow> fm \<times> triggerCapEscalation option" where
  "buildIncrementPatch L cmd frontmatter vaultName =
     (let newVal = wrap64 (intFromFrontmatter frontmatter (ic_Field cmd) + ic_Delta cmd);
          patch = fmupd (ic_Field cmd) (VInt newVal) fmempty;
          (patch, escalation, frontmatter) =
            (if ic_Field cmd = ''trigger_count'' \<and> TriggerCapEngaged L frontmatter \<and> lib_MaxTriggers L frontmatter \<le> newVal
             then case ClearAssignee L frontmatter of (agentName, frontmatter) \<Rightarrow>
                    (let patch = fmupd ''assignee'' (VStr []) patch;
                         patch = (if agentName \<noteq> [] then fmupd ''previous_assignee'' (VStr agentName) patch else patch)
                     in (patch,
                         Some \<lparr>tc_triggerCount = newVal, tc_maxTriggers = lib_MaxTriggers L frontmatter,
                               tc_agentName = agentName\<rparr>,
                         frontmatter))
             else (patch, None, frontmatter));
          patch = (if fm_get frontmatter ''target_vault'' = None
                   then fmupd ''target_vault'' (VStr vaultName) patch else patch)
      in (patch, escalation))"

definition writeTriggerCapEscalation ::
  "'w api \<Rightarrow> string \<Rightarrow> triggerCapEscalation \<Rightarrow> instant \<Rightarrow> 'w \<Rightarrow> unit res \<times> 'w" where
  "writeTriggerCapEscalation A tid escalation now w =
     (case api_ReadTask A tid w of
        (Inl e, w) \<Rightarrow> (Inl (Wrapf e ''re-read task for trigger cap escalation body'' []), w)
      | (Inr fresh, w) \<Rightarrow>
          (if ContainsTriggerCapEscalation (vt_Body fresh) then (Inr (), w)
           else case api_PutBody A (vt_ID fresh)
                       (vt_Body fresh @ TriggerCapEscalationSection (tc_triggerCount escalation)
                          (tc_maxTriggers escalation) (tc_agentName escalation) now) w of
                  (Inl e, w) \<Rightarrow> (Inl (Wrapf e ''put trigger cap escalation body'' []), w)
                | (Inr _, w) \<Rightarrow> (Inr (), w)))"

definition NewIncrementFrontmatterExecutor ::
  "'w world \<Rightarrow> 'w api \<Rightarrow> pure_lib \<Rightarrow> string \<Rightarrow> string + IncrementFrontmatterCommand \<Rightarrow> 'w \<Rightarrow> unit res \<times> 'w" where
  "NewIncrementFrontmatterExecutor W A L vaultName data w =
     (let count = FrontmatterCommandsTotal W ''increment-frontmatter''
      in case data of
           Inl e \<Rightarrow> (Inl (Wrapf (Sentinel ErrCommandObjectSkipped) ''malformed IncrementFrontmatterCommand: %v'' [e]), w)
         | Inr cmd \<Rightarrow>
             (case frontmatterCommandVaultMismatch ''increment-frontmatter'' (ic_TargetVault cmd) vaultName (ic_TaskIdentifier cmd) of
                Some e \<Rightarrow> (Inl e, w)
              | None \<Rightarrow>
                  (case api_ReadTask A (ic_TaskIdentifier cmd) w of
                     (Inl e, w) \<Rightarrow>
                       (if err_is e ErrNotFound then (Inr (), count ''not_found'' w)
                        else (Inl (Wrapf e ''read task for increment'' []), count ''error'' w))
                   | (Inr task, w) \<Rightarrow>
                       (case buildIncrementPatch L cmd (vt_Frontmatter task) vaultName of (patch, escalation) \<Rightarrow>
                          (case (case escalation of
                                   None \<Rightarrow> (Inr (), w)
                                 | Some esc \<Rightarrow>
                                     (case clock_now W w of (now, w) \<Rightarrow>
                                        writeTriggerCapEscalation A (vt_ID task) esc now w)) of
                             (Inl e, w) \<Rightarrow>
                               (Inl (Wrapf e ''escalate trigger cap for task %s'' [ic_TaskIdentifier cmd]), count ''error'' w)
                           | (Inr _, w) \<Rightarrow>
                               (case api_PatchTask A (vt_ID task) patch w of
                                  (Inl e, w) \<Rightarrow>
                                    (Inl (Wrapf e ''increment %s for task %s'' [ic_Field cmd, ic_TaskIdentifier cmd]), count ''error'' w)
                                | (Inr _, w) \<Rightarrow> (Inr (), count ''success'' w)))))))"

section \<open>Complete\<close>

record CompleteCommand =
  cc_TargetVault :: string
  cc_TaskIdentifier :: string
  cc_RecoverySHA :: string

definition hasResolutionSection :: "string \<Rightarrow> bool" where
  "hasResolutionSection body =
     (\<exists>line \<in> set (Split nl body). TrimSpace line = ''# Resolution'' \<or> TrimSpace line = ''## Resolution'')"

definition shortSHA :: "string \<Rightarrow> string" where
  "shortSHA sha = (if 7 < length sha then take 7 sha else sha)"

definition resolutionBody :: "string \<Rightarrow> CompleteCommand \<Rightarrow> string \<Rightarrow> string" where
  "resolutionBody body cmd ts =
     (let closed = (if TrimSpace body \<noteq> [] \<and> \<not> HasSuffix body [nl] then body @ [nl] else body)
      in closed @ [nl] @ ''## Resolution'' @ [nl, nl] @
         ''- **Verdict:** green '' @ [CHR 0xE2, CHR 0x80, CHR 0x94] @
         '' build recovered; original failure no longer reproduces'' @ [nl] @
         (if cc_RecoverySHA cmd \<noteq> []
          then ''- **Recovery SHA:** `'' @ cc_RecoverySHA cmd @ ''` (default-branch HEAD at close time)'' @ [nl] else []) @
         ''- **Closed at:** '' @ ts @ '' (by `complete-task`)'' @ [nl])"

definition buildCompletePatch :: "CompleteCommand \<Rightarrow> fm \<Rightarrow> string \<Rightarrow> string \<Rightarrow> fm" where
  "buildCompletePatch cmd frontmatter ts vaultName =
     (let patch = fmap_of_list [(''status'', VStr ''completed''), (''phase'', VStr ''done''),
                                (''completed_date'', VStr ts), (''processed_at'', VStr ts)];
          patch = (if cc_RecoverySHA cmd \<noteq> [] then fmupd ''recovery_sha'' (VStr (cc_RecoverySHA cmd)) patch else patch)
      in if fm_get frontmatter ''target_vault'' = None then fmupd ''target_vault'' (VStr vaultName) patch else patch)"

definition closeTask ::
  "'w api \<Rightarrow> VTask \<Rightarrow> CompleteCommand \<Rightarrow> string \<Rightarrow> string \<Rightarrow> 'w \<Rightarrow> unit res \<times> 'w" where
  "closeTask A found cmd ts vaultName w =
     (if hasResolutionSection (vt_Body found) then (Inr (), w)
      else case api_PatchTask A (vt_ID found) (buildCompletePatch cmd (vt_Frontmatter found) ts vaultName) w of
             (Inl e, w) \<Rightarrow> (Inl (Wrapf e ''patch frontmatter'' []), w)
           | (Inr _, w) \<Rightarrow>
               (case api_ReadTask A (cc_TaskIdentifier cmd) w of
                  (Inl e, w) \<Rightarrow> (Inl (Wrapf e ''re-read task for resolution body'' []), w)
                | (Inr fresh, w) \<Rightarrow>
                    (if hasResolutionSection (vt_Body fresh) then (Inr (), w)
                     else case api_PutBody A (vt_ID fresh) (resolutionBody (vt_Body fresh) cmd ts) w of
                            (Inl e, w) \<Rightarrow> (Inl (Wrapf e ''put resolution body'' []), w)
                          | (Inr _, w) \<Rightarrow> (Inr (), w))))"

definition NewCompleteTaskExecutor ::
  "'w world \<Rightarrow> 'w api \<Rightarrow> (string \<Rightarrow> go_error option) \<Rightarrow> string \<Rightarrow> string + CompleteCommand \<Rightarrow> 'w \<Rightarrow> unit res \<times> 'w" where
  "NewCompleteTaskExecutor W A Validate vaultName data w =
     (let count = FrontmatterCommandsTotal W ''complete-task''
      in case data of
           Inl e \<Rightarrow> (Inl (Wrapf (Sentinel ErrCommandObjectSkipped) ''malformed CompleteTaskCommand: %v'' [e]), w)
         | Inr cmd \<Rightarrow>
             (case frontmatterCommandVaultMismatch ''complete-task'' (cc_TargetVault cmd) vaultName (cc_TaskIdentifier cmd) of
                Some e \<Rightarrow> (Inl e, w)
              | None \<Rightarrow>
                  (case Validate (cc_TaskIdentifier cmd) of
                     Some e \<Rightarrow> (Inl (Wrapf e ''validate task_identifier'' []), w)
                   | None \<Rightarrow>
                       (case api_ReadTask A (cc_TaskIdentifier cmd) w of
                          (Inl e, w) \<Rightarrow>
                            (if err_is e ErrNotFound then (Inr (), count ''not_found'' w)
                             else (Inl (Wrapf e ''read task for complete'' []), count ''error'' w))
                        | (Inr found, w) \<Rightarrow>
                            (case clock_now W w of (now, w) \<Rightarrow>
                               (case closeTask A found cmd (RFC3339 now) vaultName w of
                                  (Inl e, w) \<Rightarrow> (Inl (Wrapf e ''complete task %s'' [cc_TaskIdentifier cmd]), count ''error'' w)
                                | (Inr _, w) \<Rightarrow> (Inr (), count ''success'' w)))))))"

section \<open>The patch of an update\<close>

text \<open>The frontmatter the patch of an update leads to.\<close>

definition update_guarded :: "pure_lib \<Rightarrow> fm \<Rightarrow> fm \<Rightarrow> fm" where
  "update_guarded L u f = applyControllerOwnedGuard L u f (f ++\<^sub>f u)"

definition update_target :: "pure_lib \<Rightarrow> HumanAssignees \<Rightarrow> string \<Rightarrow> fm \<Rightarrow> fm \<Rightarrow> fm" where
  "update_target L h v u f =
     ClearCurrentJobIfTerminal L
       (HealTargetVault (snd (ClearAssigneeIfHumanReview L (snd (applyUpdateTriggerCap L h (update_guarded L u f))) h)) v)"

lemma buildUpdatePatch_eq:
  "buildUpdatePatch L u f v h =
     (changed_fields f (update_target L h v u f), fst (applyUpdateTriggerCap L h (update_guarded L u f)))"
  by (simp add: buildUpdatePatch_def update_target_def update_guarded_def Let_def split_def)

lemma guard_get:
  "fm_get (applyControllerOwnedGuard L u f m) k =
     (if k = ''max_triggers'' then
        (case fm_get u k of
           None \<Rightarrow> fm_get m k
         | Some v \<Rightarrow> (case fm_get f k of Some d \<Rightarrow> Some d | None \<Rightarrow> if withinDefaultCap L v then fm_get m k else None))
      else if k = ''trigger_scope'' \<and> fm_get u k \<noteq> None \<and> fm_get u ''trigger_count'' = None then fm_get f k
      else fm_get m k)"
  by (auto simp: applyControllerOwnedGuard_def capDefinitionFields_def capDefinitionStep_def Let_def
      split: option.splits)

definition doctrine_keys :: "string set" where
  "doctrine_keys = {''assignee'', ''previous_assignee'', ''target_vault'', ''current_job''}"

lemma applyUpdateTriggerCap_get:
  "k \<notin> {''assignee'', ''previous_assignee''} \<Longrightarrow>
   fm_get (snd (applyUpdateTriggerCap L h m)) k = fm_get m k"
  by (auto simp: applyUpdateTriggerCap_def Let_def split_def ClearAssigneeUnlessHuman_get clearAssignee_get)

lemma HealTargetVault_get:
  "fm_get (HealTargetVault m v) k =
     (if k = ''target_vault'' \<and> fm_get m k = None then Some (VStr v) else fm_get m k)"
  by (auto simp: HealTargetVault_def split: option.splits)

lemma ClearCurrentJob_get:
  "k \<noteq> ''current_job'' \<Longrightarrow> fm_get (ClearCurrentJobIfTerminal L m) k = fm_get m k"
  by (auto simp: ClearCurrentJobIfTerminal_def split: option.splits)

lemma ClearAssigneeIfHumanReview_other:
  "k \<notin> {''assignee'', ''previous_assignee''} \<Longrightarrow>
   fm_get (snd (ClearAssigneeIfHumanReview L m h)) k = fm_get m k"
  by (auto simp: ClearAssigneeIfHumanReview_def clearAssignee_get split: option.splits)

lemma update_target_get:
  "k \<notin> doctrine_keys \<Longrightarrow> fm_get (update_target L h v u f) k = fm_get (update_guarded L u f) k"
  by (simp add: update_target_def doctrine_keys_def ClearCurrentJob_get HealTargetVault_get
      ClearAssigneeIfHumanReview_other applyUpdateTriggerCap_get)

lemma update_target_vault: "fm_get (update_target L h v u f) ''target_vault'' \<noteq> None"
  by (simp add: update_target_def ClearCurrentJob_get HealTargetVault_get)

text \<open>Every value of the target comes from the task, the command or is a string of a doctrine.\<close>

definition from_sources :: "fm \<Rightarrow> fm \<Rightarrow> fm \<Rightarrow> bool" where
  "from_sources u f m \<longleftrightarrow>
     (\<forall>k x. fm_get m k = Some x \<longrightarrow> fm_get u k = Some x \<or> fm_get f k = Some x \<or> (\<exists>s. x = VStr s))"

lemma from_sources_upd: "from_sources u f m \<Longrightarrow> from_sources u f (fmupd k (VStr s) m)"
  by (auto simp: from_sources_def)

lemma clearAssignee_sources: "from_sources u f m \<Longrightarrow> from_sources u f (snd (clearAssignee L m))"
  by (auto simp: clearAssignee_def Let_def from_sources_upd)

lemma guarded_sources: "from_sources u f (update_guarded L u f)"
  by (auto simp: from_sources_def update_guarded_def guard_get fmlookup_fmadd split: option.splits if_splits)

lemma update_target_sources: "from_sources u f (update_target L h v u f)"
proof -
  have cap: "from_sources u f (snd (applyUpdateTriggerCap L h m))" if "from_sources u f m" for m
    using that clearAssignee_sources
    by (auto simp: applyUpdateTriggerCap_def Let_def split_def ClearAssigneeUnlessHuman_def)
  have review: "from_sources u f (snd (ClearAssigneeIfHumanReview L m h))" if "from_sources u f m" for m
    using that clearAssignee_sources by (auto simp: ClearAssigneeIfHumanReview_def split: option.splits)
  have heal: "from_sources u f (HealTargetVault m v)" if "from_sources u f m" for m
    using that by (auto simp: HealTargetVault_def from_sources_upd split: option.splits)
  have job: "from_sources u f (ClearCurrentJobIfTerminal L m)" if "from_sources u f m" for m
    using that by (auto simp: ClearCurrentJobIfTerminal_def from_sources_upd split: option.splits)
  show ?thesis
    unfolding update_target_def by (intro job heal review cap guarded_sources)
qed

lemma changed_fields_get:
  "fm_get (changed_fields f m) k =
     (case fm_get m k of
        None \<Rightarrow> None
      | Some v \<Rightarrow> (case fm_get f k of Some p \<Rightarrow> if FrontmatterValueEqual p v then None else Some v | None \<Rightarrow> Some v))"
  by (auto simp: changed_fields_def split: option.splits)

definition comparable :: "fm \<Rightarrow> bool" where
  "comparable m = fmpred (\<lambda>k v. FrontmatterValueEqual v v) m"

lemma changed_json:
  assumes "json_fields u" and "comparable f" and "from_sources u f m"
  shows "json_fields (changed_fields f m)"
  unfolding json_fields_def
proof (rule fmpredI)
  fix k x
  assume "fm_get (changed_fields f m) k = Some x"
  then have x: "fm_get m k = Some x" and new: "fm_get f k \<noteq> Some x"
    using assms(2) by (auto simp: changed_fields_get comparable_def split: option.splits if_splits dest: fmpredD)
  then consider "fm_get u k = Some x" | s where "x = VStr s" using assms(3) by (auto simp: from_sources_def)
  then show "json_value x"
    using assms(1) by cases (auto simp: json_fields_def json_value_def dest: fmpredD)
qed

lemma wire_unequal: "\<not> FrontmatterValueEqual p p \<Longrightarrow> wire p = p"
  by (cases p) (auto simp: wire_def FrontmatterValueEqual_def float_of_int_def round64_def Let_def feq_refl split: if_splits)

lemma patched_get:
  "fm_get (f ++\<^sub>f fmmap wire (changed_fields f m)) k =
     (case fm_get m k of
        None \<Rightarrow> fm_get f k
      | Some v \<Rightarrow> (case fm_get f k of Some p \<Rightarrow> Some (if FrontmatterValueEqual p v then p else wire v) | None \<Rightarrow> Some (wire v)))"
  by (auto simp: fmlookup_fmadd changed_fields_get split: option.splits)

lemma patched_same:
  "fm_get m k = fm_get f k \<Longrightarrow> fm_get (f ++\<^sub>f fmmap wire (changed_fields f m)) k = fm_get f k"
  unfolding patched_get by (auto simp: wire_unequal split: option.splits)

lemma FrontmatterValueEqual_string: "FrontmatterValueEqual p (VStr s) \<longleftrightarrow> p = VStr s"
  by (cases p) (auto simp: FrontmatterValueEqual_def split: option.splits)

lemma patched_string:
  "fm_get m k = Some (VStr s) \<Longrightarrow> fm_get (f ++\<^sub>f fmmap wire (changed_fields f m)) k = Some (VStr s)"
  unfolding patched_get by (auto simp: wire_def FrontmatterValueEqual_string split: option.splits)

section \<open>Running an update against the store\<close>

lemma with_fields_empty [simp]: "with_fields t fmempty = t"
  by (simp add: with_fields_def)

lemma with_body_same [simp]: "with_body t (vt_Body t) = t"
  by (simp add: with_body_def)

lemma patch_fields_store:
  assumes "api_store A S" and "S w i = Some t" and "json_fields upd"
  shows "\<exists>w'. patch_fields A i upd w = (Inr (), w') \<and> S w' = (S w)(i \<mapsto> with_fields t upd)"
proof (cases "upd = fmempty")
  case True
  then show ?thesis using assms(2) by (auto simp: patch_fields_def)
next
  case False
  obtain w' u where "api_PatchTask A i upd w = (Inr u, w')" "S w' = (S w)(i \<mapsto> with_fields t upd)"
    using store_patch [OF assms] by blast
  with False show ?thesis by (simp add: patch_fields_def)
qed

lemma put_then_patch:
  assumes "api_store A S" and "S w i = Some t" and "json_fields upd"
  shows "\<exists>w'. (case (if body \<noteq> vt_Body t then api_PutBody A i body w else (Inr (), w)) of
                  (Inl e, w) \<Rightarrow> (Inl (Wrapf e ''put body'' []), w)
                | (Inr _, w) \<Rightarrow> patch_fields A i upd w) = (Inr (), w') \<and>
              S w' = (S w)(i \<mapsto> with_fields (with_body t body) upd)"
proof -
  obtain w1 where put: "(if body \<noteq> vt_Body t then api_PutBody A i body w else (Inr (), w)) = (Inr (), w1)"
    and s1: "S w1 = (S w)(i \<mapsto> with_body t body)"
    using store_put [OF assms(1,2), of body] assms(2) by (cases "body = vt_Body t") (auto simp: fun_upd_idem)
  obtain w' where "patch_fields A i upd w1 = (Inr (), w')"
    and "S w' = (S w1)(i \<mapsto> with_fields (with_body t body) upd)"
    using patch_fields_store [OF assms(1) _ assms(3), of w1 i "with_body t body"] s1 by auto
  with put s1 show ?thesis by simp
qed

text \<open>The body after an update: the task's own body with the command's section, and the escalation section
  if the cap was reached and the section is not there yet.\<close>

definition escalated_body :: "triggerCapEscalation option \<Rightarrow> instant \<Rightarrow> string \<Rightarrow> string" where
  "escalated_body esc now body =
     (case esc of
        None \<Rightarrow> body
      | Some e \<Rightarrow> (if ContainsTriggerCapEscalation body then body
                   else body @ TriggerCapEscalationSection (tc_triggerCount e) (tc_maxTriggers e) (tc_agentName e) now))"

definition updated_body ::
  "(string \<Rightarrow> string \<Rightarrow> string \<Rightarrow> string) \<Rightarrow> (string \<times> string) option \<Rightarrow> triggerCapEscalation option \<Rightarrow> instant \<Rightarrow> string \<Rightarrow> string" where
  "updated_body R cb esc now body =
     escalated_body esc now (case cb of None \<Rightarrow> body | Some (heading, sect) \<Rightarrow> R body heading sect)"

lemma escalated_body_contains:
  "esc \<noteq> None \<Longrightarrow> ContainsTriggerCapEscalation (escalated_body esc now b)"
  by (auto simp: escalated_body_def TriggerCapEscalationSection_contains split: option.splits)

lemma applyUpdate_store:
  assumes store: "api_store A S" and obs: "observer_only W S" and task: "S w (uc_TaskIdentifier cmd) = Some t"
    and patch: "buildUpdatePatch L (uc_Updates cmd) (vt_Frontmatter t) v h = (upd, esc)" and json: "json_fields upd"
  shows "\<exists>w' now. applyUpdate W A L R v h t cmd w = (Inr (), w') \<and>
           S w' = (S w)(uc_TaskIdentifier cmd \<mapsto> with_fields (with_body t (updated_body R (uc_Body cmd) esc now (vt_Body t))) upd)"
proof (cases "uc_Body cmd = None \<and> esc = None")
  case True
  then show ?thesis
    using patch_fields_store [OF store task json] store_id [OF store task]
    by (auto simp: applyUpdate_def patch updated_body_def escalated_body_def)
next
  case False
  obtain w1 where read: "api_ReadTask A (uc_TaskIdentifier cmd) w = (Inr t, w1)" and s1: "S w1 = S w"
    using store_read [OF store task] by blast
  obtain now w2 where clock: "clock_now W w1 = (now, w2)" by (cases "clock_now W w1")
  define b where "b = (case uc_Body cmd of None \<Rightarrow> vt_Body t | Some (heading, sect) \<Rightarrow> R (vt_Body t) heading sect)"
  define body where "body = updated_body R (uc_Body cmd) esc now (vt_Body t)"
  define w3 where "w3 = (if esc = None \<or> ContainsTriggerCapEscalation b then w1 else w2)"
  have s3: "S w3 = S w" using s1 obs clock by (auto simp: w3_def observer_only_def dest: spec [of _ w1])
  have task3: "S w3 (uc_TaskIdentifier cmd) = Some t" using s3 task by simp
  have step: "(case esc of None \<Rightarrow> (b, w1)
      | Some e \<Rightarrow> (if ContainsTriggerCapEscalation b then (b, w1)
                   else case clock_now W w1 of (now, w) \<Rightarrow>
                     (b @ TriggerCapEscalationSection (tc_triggerCount e) (tc_maxTriggers e) (tc_agentName e) now, w)))
      = (body, w3)"
    by (auto simp: body_def updated_body_def escalated_body_def w3_def b_def [symmetric] clock split: option.split)
  obtain w' where put: "(case (if body \<noteq> vt_Body t then api_PutBody A (vt_ID t) body w3 else (Inr (), w3)) of
                  (Inl e, w) \<Rightarrow> (Inl (Wrapf e ''put body'' []), w)
                | (Inr _, w) \<Rightarrow> patch_fields A (vt_ID t) upd w) = (Inr (), w')"
    and s': "S w' = (S w3)(uc_TaskIdentifier cmd \<mapsto> with_fields (with_body t body) upd)"
    using put_then_patch [OF store task3 json, of body] unfolding store_id [OF store task] by blast
  have "applyUpdate W A L R v h t cmd w = (Inr (), w')"
    using False unfolding applyUpdate_def patch read prod.case sum.case Let_def b_def [symmetric] step put
    by (simp only: if_False)
  with s' s3 show ?thesis by (auto simp: body_def)
qed


lemma FrontmatterCommandsTotal_store: "observer_only W S \<Longrightarrow> S (FrontmatterCommandsTotal W op out w) = S w"
  by (simp add: FrontmatterCommandsTotal_def observer_only_def)

lemma update_executor_store:
  assumes store: "api_store A S" and obs: "observer_only W S" and task: "S w (uc_TaskIdentifier cmd) = Some t"
    and mine: "ShouldProcessFrontmatterCommand (uc_TargetVault cmd) v"
    and work: "uc_Updates cmd \<noteq> fmempty \<or> uc_Body cmd \<noteq> None"
    and json: "json_fields (uc_Updates cmd)" and disk: "comparable (vt_Frontmatter t)"
  shows "\<exists>w' now. NewUpdateFrontmatterExecutor W A L R v h (Inr cmd) w = (Inr (), w') \<and>
           S w' = (S w)(uc_TaskIdentifier cmd \<mapsto>
             with_fields (with_body t (updated_body R (uc_Body cmd)
                 (fst (applyUpdateTriggerCap L h (update_guarded L (uc_Updates cmd) (vt_Frontmatter t)))) now (vt_Body t)))
               (changed_fields (vt_Frontmatter t) (update_target L h v (uc_Updates cmd) (vt_Frontmatter t))))"
proof -
  obtain w1 where read: "api_ReadTask A (uc_TaskIdentifier cmd) w = (Inr t, w1)" and s1: "S w1 = S w"
    using store_read [OF store task] by blast
  have task1: "S w1 (uc_TaskIdentifier cmd) = Some t" using s1 task by simp
  note patch_ok = changed_json [OF json disk update_target_sources]
  obtain w2 now where run: "applyUpdate W A L R v h t cmd w1 = (Inr (), w2)"
    and s2: "S w2 = (S w1)(uc_TaskIdentifier cmd \<mapsto>
             with_fields (with_body t (updated_body R (uc_Body cmd)
                 (fst (applyUpdateTriggerCap L h (update_guarded L (uc_Updates cmd) (vt_Frontmatter t)))) now (vt_Body t)))
               (changed_fields (vt_Frontmatter t) (update_target L h v (uc_Updates cmd) (vt_Frontmatter t))))"
    using applyUpdate_store [OF store obs task1 buildUpdatePatch_eq patch_ok] by blast
  have "NewUpdateFrontmatterExecutor W A L R v h (Inr cmd) w =
        (Inr (), FrontmatterCommandsTotal W ''update-frontmatter'' ''success'' w2)"
    using work mine run read by (auto simp: NewUpdateFrontmatterExecutor_def frontmatterCommandVaultMismatch_def)
  with s2 s1 FrontmatterCommandsTotal_store [OF obs] show ?thesis by auto
qed

text \<open>The frontmatter of a task after the patch of an update, key by key.\<close>

definition updated_fm :: "pure_lib \<Rightarrow> HumanAssignees \<Rightarrow> string \<Rightarrow> fm \<Rightarrow> fm \<Rightarrow> fm" where
  "updated_fm L h v u f = f ++\<^sub>f fmmap wire (changed_fields f (update_target L h v u f))"

text \<open>A field after an update is as the command says: the commanded value, or an equal one that was there, or unchanged
  when the command does not name it.\<close>

definition as_commanded :: "fm \<Rightarrow> fm \<Rightarrow> fm \<Rightarrow> string \<Rightarrow> bool" where
  "as_commanded u f m k \<longleftrightarrow>
     (case fm_get u k of
        None \<Rightarrow> fm_get m k = fm_get f k
      | Some x \<Rightarrow> fm_get m k = Some (wire x) \<or> (\<exists>p. fm_get f k = Some p \<and> FrontmatterValueEqual p x \<and> fm_get m k = Some p))"

text \<open>What a doctrine may make of its field instead.\<close>

definition by_doctrine :: "string \<Rightarrow> fm \<Rightarrow> fm \<Rightarrow> fm \<Rightarrow> string \<Rightarrow> bool" where
  "by_doctrine vault u f m k \<longleftrightarrow>
     k \<in> {''assignee'', ''current_job''} \<and> fm_get m k = Some (VStr []) \<or>
     k = ''previous_assignee'' \<and> fm_get m ''assignee'' = Some (VStr []) \<and> (\<exists>name. name \<noteq> [] \<and> fm_get m k = Some (VStr name)) \<or>
     k = ''target_vault'' \<and> fm_get u k = None \<and> fm_get f k = None \<and> fm_get m k = Some (VStr vault)"

lemma as_commanded_target:
  assumes "fm_get (update_target L h v u f) k = (case fm_get u k of Some x \<Rightarrow> Some x | None \<Rightarrow> fm_get f k)"
  shows "as_commanded u f (updated_fm L h v u f) k"
proof (cases "fm_get u k")
  case None
  then show ?thesis using patched_same [OF assms [unfolded None option.case]] by (simp add: updated_fm_def as_commanded_def)
next
  case (Some x)
  then show ?thesis unfolding updated_fm_def as_commanded_def patched_get assms by (auto split: option.split)
qed

lemma updated_fm_other:
  "k \<notin> doctrine_keys \<union> {''max_triggers'', ''trigger_scope''} \<Longrightarrow> as_commanded u f (updated_fm L h v u f) k"
  by (rule as_commanded_target)
    (simp add: update_target_get update_guarded_def guard_get fmlookup_fmadd split: option.split)

lemma updated_fm_scope:
  "if fm_get u ''trigger_count'' = None then fm_get (updated_fm L h v u f) ''trigger_scope'' = fm_get f ''trigger_scope''
   else as_commanded u f (updated_fm L h v u f) ''trigger_scope''"
proof (cases "fm_get u ''trigger_count'' = None")
  case True
  then have "fm_get (update_target L h v u f) ''trigger_scope'' = fm_get f ''trigger_scope''"
    by (simp add: update_target_get doctrine_keys_def update_guarded_def guard_get fmlookup_fmadd split: option.split)
  from patched_same [OF this] True show ?thesis by (simp add: updated_fm_def)
next
  case False
  then have "fm_get (update_target L h v u f) ''trigger_scope'' =
      (case fm_get u ''trigger_scope'' of Some x \<Rightarrow> Some x | None \<Rightarrow> fm_get f ''trigger_scope'')"
    by (auto simp: update_target_get doctrine_keys_def update_guarded_def guard_get fmlookup_fmadd split: option.split)
  show ?thesis unfolding if_not_P [OF False] by (rule as_commanded_target) fact
qed

text \<open>The doctrines, stage by stage: a stage leaves its fields alone or clears the owner, keeping the name.\<close>

definition owner_cleared :: "fm \<Rightarrow> fm \<Rightarrow> bool" where
  "owner_cleared m m' \<longleftrightarrow>
     (\<forall>k \<in> {''assignee'', ''previous_assignee''}. fm_get m' k = fm_get m k) \<or>
     fm_get m' ''assignee'' = Some (VStr []) \<and>
       (fm_get m' ''previous_assignee'' = fm_get m ''previous_assignee'' \<or>
        (\<exists>name. name \<noteq> [] \<and> fm_get m' ''previous_assignee'' = Some (VStr name)))"

lemma owner_cleared_refl: "owner_cleared m m"
  by (simp add: owner_cleared_def)

lemma owner_cleared_trans: "owner_cleared a b \<Longrightarrow> owner_cleared b c \<Longrightarrow> owner_cleared a c"
  by (auto simp: owner_cleared_def)

lemma owner_cleared_clear: "owner_cleared m (snd (clearAssignee L m))"
  by (simp add: owner_cleared_def clearAssignee_get)

lemma owner_cleared_stages:
  "owner_cleared m (snd (applyUpdateTriggerCap L h m))" "owner_cleared m (snd (ClearAssigneeIfHumanReview L m h))"
  "owner_cleared m (HealTargetVault m v)" "owner_cleared m (ClearCurrentJobIfTerminal L m)"
  by (auto simp: applyUpdateTriggerCap_def Let_def split_def ClearAssigneeUnlessHuman_def ClearAssigneeIfHumanReview_def
      owner_cleared_refl owner_cleared_clear split: option.split)
    (simp_all add: owner_cleared_def HealTargetVault_get ClearCurrentJob_get)

lemma target_owner: "owner_cleared (update_guarded L u f) (update_target L h v u f)"
  unfolding update_target_def
  using owner_cleared_trans [OF owner_cleared_trans [OF owner_cleared_trans]] owner_cleared_stages by blast

lemma target_job:
  "fm_get (update_target L h v u f) ''current_job'' = fm_get (update_guarded L u f) ''current_job'' \<or>
   fm_get (update_target L h v u f) ''current_job'' = Some (VStr [])"
proof -
  define m where "m = HealTargetVault (snd (ClearAssigneeIfHumanReview L (snd (applyUpdateTriggerCap L h (update_guarded L u f))) h)) v"
  have "fm_get m ''current_job'' = fm_get (update_guarded L u f) ''current_job''"
    by (simp add: m_def HealTargetVault_get ClearAssigneeIfHumanReview_other applyUpdateTriggerCap_get)
  then show ?thesis
    unfolding update_target_def m_def [symmetric] by (auto simp: ClearCurrentJobIfTerminal_def split: option.split)
qed

lemma target_vault_value:
  "fm_get (update_target L h v u f) ''target_vault'' =
     (case fm_get (update_guarded L u f) ''target_vault'' of Some x \<Rightarrow> Some x | None \<Rightarrow> Some (VStr v))"
  by (simp add: update_target_def ClearCurrentJob_get HealTargetVault_get ClearAssigneeIfHumanReview_other applyUpdateTriggerCap_get
      split: option.split)

lemma guarded_doctrine:
  "k \<in> doctrine_keys \<Longrightarrow> fm_get (update_guarded L u f) k = (case fm_get u k of Some x \<Rightarrow> Some x | None \<Rightarrow> fm_get f k)"
  by (auto simp: update_guarded_def guard_get fmlookup_fmadd doctrine_keys_def split: option.split)

lemma updated_string: "fm_get (update_target L h v u f) k = Some (VStr s) \<Longrightarrow> fm_get (updated_fm L h v u f) k = Some (VStr s)"
  unfolding updated_fm_def by (rule patched_string)

lemma updated_fm_doctrine:
  assumes "k \<in> doctrine_keys"
  shows "as_commanded u f (updated_fm L h v u f) k \<or> by_doctrine v u f (updated_fm L h v u f) k"
proof (cases "fm_get (update_target L h v u f) k = fm_get (update_guarded L u f) k")
  case True
  then show ?thesis using as_commanded_target [of L h v u f k] guarded_doctrine [OF assms, of L u f] by simp
next
  case False
  consider "k = ''assignee''" | "k = ''previous_assignee''" | "k = ''current_job''" | "k = ''target_vault''"
    using assms by (auto simp: doctrine_keys_def)
  then show ?thesis
  proof cases
    case 1
    then have "fm_get (update_target L h v u f) k = Some (VStr [])" using False target_owner [of L u f h v] by (auto simp: owner_cleared_def)
    from updated_string [OF this] 1 show ?thesis by (simp add: by_doctrine_def)
  next
    case 2
    then obtain name where "fm_get (update_target L h v u f) ''assignee'' = Some (VStr [])" "name \<noteq> []"
      "fm_get (update_target L h v u f) k = Some (VStr name)"
      using False target_owner [of L u f h v] by (auto simp: owner_cleared_def)
    from updated_string [OF this(1)] this(2) updated_string [OF this(3)] 2 show ?thesis by (simp add: by_doctrine_def)
  next
    case 3
    then have "fm_get (update_target L h v u f) k = Some (VStr [])" using False target_job [of L h v u f] by simp
    from updated_string [OF this] 3 show ?thesis by (simp add: by_doctrine_def)
  next
    case 4
    then have none: "fm_get (update_guarded L u f) k = None" and "fm_get (update_target L h v u f) k = Some (VStr v)"
      using False target_vault_value [of L h v u f] by (auto split: option.splits)
    moreover have "fm_get u k = None" "fm_get f k = None"
      using none guarded_doctrine [OF assms, of L u f] by (auto split: option.splits)
    ultimately show ?thesis using updated_string [of L h v u f k v] 4 by (simp add: by_doctrine_def)
  qed
qed

lemma updated_fm_cap:
  shows "fm_get f ''max_triggers'' = Some d \<Longrightarrow> fm_get (updated_fm L h v u f) ''max_triggers'' = Some d"
    and "fm_get f ''max_triggers'' = None \<Longrightarrow> fm_get (updated_fm L h v u f) ''max_triggers'' = Some x \<Longrightarrow>
         \<exists>y. fm_get u ''max_triggers'' = Some y \<and> withinDefaultCap L y \<and> x = wire y"
proof -
  have cap: "fm_get (update_target L h v u f) ''max_triggers'' =
      (case fm_get f ''max_triggers'' of
         Some d \<Rightarrow> Some d
       | None \<Rightarrow> (case fm_get u ''max_triggers'' of
                    Some y \<Rightarrow> if withinDefaultCap L y then Some y else None | None \<Rightarrow> None))"
    by (simp add: update_target_get doctrine_keys_def update_guarded_def guard_get fmlookup_fmadd split: option.split)
  show "fm_get (updated_fm L h v u f) ''max_triggers'' = Some d" if "fm_get f ''max_triggers'' = Some d"
    using patched_same [of "update_target L h v u f" "''max_triggers''" f] that cap
    by (simp only: updated_fm_def option.case)
  show "\<exists>y. fm_get u ''max_triggers'' = Some y \<and> withinDefaultCap L y \<and> x = wire y"
    if "fm_get f ''max_triggers'' = None" and "fm_get (updated_fm L h v u f) ''max_triggers'' = Some x"
    using that unfolding updated_fm_def patched_get cap by (auto split: option.splits if_splits)
qed

lemma updated_fm_vault: "fm_get (updated_fm L h v u f) ''target_vault'' \<noteq> None"
  unfolding updated_fm_def patched_get using update_target_vault [of L h v u f] by (auto split: option.split)

lemma updated_fm_parked:
  assumes "lib_ok L" and "fst (applyUpdateTriggerCap L h (update_guarded L u f)) \<noteq> None"
  shows "parked_owner h (updated_fm L h v u f)"
proof -
  have "parked_owner h (snd (applyUpdateTriggerCap L h (update_guarded L u f)))"
    using assms(2) ClearAssigneeUnlessHuman_parked [OF assms(1)]
    by (auto simp: applyUpdateTriggerCap_def Let_def split_def split: if_splits)
  then have "parked_owner h (snd (ClearAssigneeIfHumanReview L (snd (applyUpdateTriggerCap L h (update_guarded L u f))) h))"
    by (rule ClearAssigneeIfHumanReview_keeps_parked)
  then have "parked_owner h (update_target L h v u f)"
    by (simp add: parked_owner_def update_target_def ClearCurrentJob_get HealTargetVault_get)
  then show ?thesis
    unfolding parked_owner_def updated_fm_def using patched_string by blast
qed

lemma update_executor_store':
  assumes "api_store A S" and "observer_only W S" and "S w (uc_TaskIdentifier cmd) = Some t"
    and "ShouldProcessFrontmatterCommand (uc_TargetVault cmd) v"
    and "uc_Updates cmd \<noteq> fmempty \<or> uc_Body cmd \<noteq> None"
    and "json_fields (uc_Updates cmd)" and "comparable (vt_Frontmatter t)"
  obtains w' t' now where "NewUpdateFrontmatterExecutor W A L R v h (Inr cmd) w = (Inr (), w')"
    and "S w' = (S w)(uc_TaskIdentifier cmd \<mapsto> t')"
    and "vt_Frontmatter t' = updated_fm L h v (uc_Updates cmd) (vt_Frontmatter t)"
    and "vt_Body t' = updated_body R (uc_Body cmd)
           (fst (applyUpdateTriggerCap L h (update_guarded L (uc_Updates cmd) (vt_Frontmatter t)))) now (vt_Body t)"
proof -
  obtain w' now where run: "NewUpdateFrontmatterExecutor W A L R v h (Inr cmd) w = (Inr (), w')"
    and s': "S w' = (S w)(uc_TaskIdentifier cmd \<mapsto>
             with_fields (with_body t (updated_body R (uc_Body cmd)
                 (fst (applyUpdateTriggerCap L h (update_guarded L (uc_Updates cmd) (vt_Frontmatter t)))) now (vt_Body t)))
               (changed_fields (vt_Frontmatter t) (update_target L h v (uc_Updates cmd) (vt_Frontmatter t))))"
    using update_executor_store [OF assms, of L R h] by blast
  show ?thesis by (rule that [OF run s']) (simp_all add: updated_fm_def)
qed

section \<open>A reference task\<close>

definition table_world :: "task_table world" where
  "table_world =
     \<lparr>http_do = (\<lambda>q m. (Inl (Errorf ''offline'' []), m)), new_request_error = (\<lambda>_ _. None), ctx_err = (\<lambda>_. None),
      wait_for = (\<lambda>d m. (None, m)), clock_now = (\<lambda>m. (0, m)), inc_metric = (\<lambda>n ls m. m), json_paths = (\<lambda>b. Inr [])\<rparr>"

lemma table_observer: "observer_only table_world mem_table"
  by (simp add: observer_only_def table_world_def)

definition capped_task :: VTask where
  "capped_task =
     \<lparr>vt_ID = ''t1'', vt_Title = ''Fix the build'',
      vt_Frontmatter = fmap_of_list [(''assignee'', VStr ''claude''), (''status'', VStr ''in_progress''),
        (''trigger_count'', VInt 2), (''max_triggers'', VInt 3)],
      vt_Body = ''do it'', vt_Reopened = False\<rparr>"

definition capped_table :: task_table where
  "capped_table = [(''t1'', capped_task)]"

lemma capped_table_get: "mem_table capped_table ''t1'' = Some capped_task"
  by (simp add: mem_table_def capped_table_def capped_task_def)

lemma capped_fm:
  "fm_get (vt_Frontmatter capped_task) ''assignee'' = Some (VStr ''claude'')"
  "fm_get (vt_Frontmatter capped_task) ''status'' = Some (VStr ''in_progress'')"
  "fm_get (vt_Frontmatter capped_task) ''trigger_count'' = Some (VInt 2)"
  "fm_get (vt_Frontmatter capped_task) ''max_triggers'' = Some (VInt 3)"
  by (simp_all add: capped_task_def fmlookup_of_list)

lemma capped_comparable: "comparable (vt_Frontmatter capped_task)"
  by (simp add: comparable_def capped_task_def) (auto intro!: fmpred_upd simp: FrontmatterValueEqual_def float_of_int_exact)

definition spawn_update :: UpdateFrontmatterCommand where
  "spawn_update =
     \<lparr>uc_TargetVault = ''openclaw'', uc_TaskIdentifier = ''t1'',
      uc_Updates = fmap_of_list [(''trigger_count'', VInt 3), (''max_triggers'', VInt 9)], uc_Body = None\<rparr>"

lemma spawn_update_simps:
  "uc_TaskIdentifier spawn_update = ''t1''"
  "ShouldProcessFrontmatterCommand (uc_TargetVault spawn_update) ''openclaw''"
  "json_fields (uc_Updates spawn_update)"
  "uc_Updates spawn_update \<noteq> fmempty \<or> uc_Body spawn_update \<noteq> None"
  "fm_get (uc_Updates spawn_update) ''trigger_count'' = Some (VInt 3)"
  "fm_get (uc_Updates spawn_update) ''max_triggers'' = Some (VInt 9)"
  "fm_get (uc_Updates spawn_update) ''status'' = None"
  by (auto simp: spawn_update_def ShouldProcessFrontmatterCommand_def json_fields_def json_value_def fmlookup_of_list
      intro!: fmpred_upd dest: arg_cong [of _ _ "\<lambda>m. fm_get m ''trigger_count''"])

definition no_section :: "string \<Rightarrow> string \<Rightarrow> string \<Rightarrow> string" where
  "no_section body heading sect = body"



text \<open>An update command that brings the trigger count of a task to its cap leaves the task without an agent
  as owner and with the escalation section in its body.\<close>

theorem update_at_cap_parks:
  assumes "lib_ok L" and "api_store A S" and "observer_only W S" and "S w (uc_TaskIdentifier cmd) = Some t"
    and "ShouldProcessFrontmatterCommand (uc_TargetVault cmd) vault"
    and "uc_Updates cmd \<noteq> fmempty \<or> uc_Body cmd \<noteq> None"
    and "json_fields (uc_Updates cmd)" and "comparable (vt_Frontmatter t)"
    and "fm_get (vt_Frontmatter t) ''max_triggers'' = Some (VInt cap)"
    and "fm_get (uc_Updates cmd) ''trigger_count'' = Some (VInt n)" and "n \<noteq> 0" and "cap \<le> n"
  shows "\<exists>w' t'. NewUpdateFrontmatterExecutor W A L R vault humans (Inr cmd) w = (Inr (), w') \<and>
           S w' = (S w)(uc_TaskIdentifier cmd \<mapsto> t') \<and>
           parked_owner humans (vt_Frontmatter t') \<and> ContainsTriggerCapEscalation (vt_Body t')"
proof -
  have g: "fm_get (update_guarded L (uc_Updates cmd) (vt_Frontmatter t)) ''max_triggers'' = Some (VInt cap)"
    "fm_get (update_guarded L (uc_Updates cmd) (vt_Frontmatter t)) ''trigger_count'' = Some (VInt n)"
    using assms(9,10) by (simp_all add: update_guarded_def guard_get fmlookup_fmadd split: option.split)
  then have esc: "fst (applyUpdateTriggerCap L humans (update_guarded L (uc_Updates cmd) (vt_Frontmatter t))) \<noteq> None"
    using assms(1,11,12)
    by (auto simp: applyUpdateTriggerCap_def TriggerCapEngaged_def Let_def split_def lib_ok_def lib_reads_budget_def)
  obtain w' t' now where "NewUpdateFrontmatterExecutor W A L R vault humans (Inr cmd) w = (Inr (), w')"
    and "S w' = (S w)(uc_TaskIdentifier cmd \<mapsto> t')"
    and "vt_Frontmatter t' = updated_fm L humans vault (uc_Updates cmd) (vt_Frontmatter t)"
    and "vt_Body t' = updated_body R (uc_Body cmd)
           (fst (applyUpdateTriggerCap L humans (update_guarded L (uc_Updates cmd) (vt_Frontmatter t)))) now (vt_Body t)"
    by (rule update_executor_store' [OF assms(2-8)])
  then show ?thesis using updated_fm_parked [OF assms(1) esc] escalated_body_contains [OF esc] by (auto simp: updated_body_def)
qed

theorem update_at_cap_parks_witness:
  "\<exists>w' t'. NewUpdateFrontmatterExecutor table_world mem_api ref_lib no_section ''openclaw'' {||} (Inr spawn_update) capped_table = (Inr (), w') \<and>
     mem_table w' = (mem_table capped_table)(''t1'' \<mapsto> t') \<and>
     parked_owner {||} (vt_Frontmatter t') \<and> ContainsTriggerCapEscalation (vt_Body t')"
proof -
  have task: "mem_table capped_table (uc_TaskIdentifier spawn_update) = Some capped_task"
    by (simp add: spawn_update_simps capped_table_get)
  show ?thesis
    using update_at_cap_parks [OF lib_ok_ref_lib mem_api_store table_observer task spawn_update_simps(2,4,3) capped_comparable
        capped_fm(4) spawn_update_simps(5), of no_section "{||}"]
    by (simp add: spawn_update_simps)
qed

section \<open>Running an increment against the store\<close>

definition increment_capped :: "pure_lib \<Rightarrow> IncrementFrontmatterCommand \<Rightarrow> fm \<Rightarrow> bool" where
  "increment_capped L cmd f \<longleftrightarrow>
     ic_Field cmd = ''trigger_count'' \<and> TriggerCapEngaged L f \<and>
     lib_MaxTriggers L f \<le> wrap64 (intFromFrontmatter f (ic_Field cmd) + ic_Delta cmd)"

lemma buildIncrementPatch_eq:
  "buildIncrementPatch L cmd f v =
     (let n = wrap64 (intFromFrontmatter f (ic_Field cmd) + ic_Delta cmd);
          p = fmupd (ic_Field cmd) (VInt n) fmempty;
          p' = (if increment_capped L cmd f
                then (if lib_Assignee L f \<noteq> [] then fmupd ''previous_assignee'' (VStr (lib_Assignee L f)) else (\<lambda>m. m))
                       (fmupd ''assignee'' (VStr []) p)
                else p)
      in (if fm_get f ''target_vault'' = None then fmupd ''target_vault'' (VStr v) p' else p',
          if increment_capped L cmd f
          then Some \<lparr>tc_triggerCount = n, tc_maxTriggers = lib_MaxTriggers L (snd (clearAssignee L f)),
                     tc_agentName = lib_Assignee L f\<rparr>
          else None))"
  unfolding buildIncrementPatch_def Let_def increment_capped_def [symmetric]
  by (simp add: ClearAssignee_def split_def clearAssignee_get)

lemma increment_patch_get:
  "fm_get (fst (buildIncrementPatch L cmd f v)) k =
     (if k = ''target_vault'' \<and> fm_get f k = None then Some (VStr v)
      else if increment_capped L cmd f \<and> k = ''assignee'' then Some (VStr [])
      else if increment_capped L cmd f \<and> k = ''previous_assignee'' \<and> lib_Assignee L f \<noteq> [] then Some (VStr (lib_Assignee L f))
      else if k = ic_Field cmd then Some (VInt (wrap64 (intFromFrontmatter f k + ic_Delta cmd)))
      else None)"
  by (cases "increment_capped L cmd f"; cases "lib_Assignee L f = []"; cases "fm_get f ''target_vault''")
    (simp_all add: buildIncrementPatch_eq Let_def)

lemma increment_patch_escalation:
  "snd (buildIncrementPatch L cmd f v) \<noteq> None \<longleftrightarrow> increment_capped L cmd f"
  by (simp add: buildIncrementPatch_eq Let_def)

lemma increment_patch_json: "json_fields (fst (buildIncrementPatch L cmd f v))"
  unfolding json_fields_def
  by (rule fmpredI) (auto simp: increment_patch_get json_value_def split: if_splits)

lemma writeTriggerCapEscalation_store:
  assumes "api_store A S" and "S w i = Some t"
  shows "\<exists>w'. writeTriggerCapEscalation A i esc now w = (Inr (), w') \<and>
           S w' = (S w)(i \<mapsto> with_body t (escalated_body (Some esc) now (vt_Body t)))"
proof -
  obtain w1 where read: "api_ReadTask A i w = (Inr t, w1)" and s1: "S w1 = S w"
    using store_read [OF assms] by blast
  have t1: "S w1 i = Some t" using s1 assms(2) by simp
  define b where "b = vt_Body t @ TriggerCapEscalationSection (tc_triggerCount esc) (tc_maxTriggers esc) (tc_agentName esc) now"
  obtain w2 where put: "api_PutBody A i b w1 = (Inr (), w2)" and s2: "S w2 = (S w1)(i \<mapsto> with_body t b)"
    using store_put [OF assms(1) t1] by blast
  show ?thesis
    using read s1 put s2 assms(2) store_id [OF assms]
    by (cases "ContainsTriggerCapEscalation (vt_Body t)")
      (auto simp: writeTriggerCapEscalation_def escalated_body_def b_def fun_upd_idem)
qed

lemma increment_executor_store:
  assumes store: "api_store A S" and obs: "observer_only W S" and task: "S w (ic_TaskIdentifier cmd) = Some t"
    and mine: "ShouldProcessFrontmatterCommand (ic_TargetVault cmd) v"
  obtains w' t' now where "NewIncrementFrontmatterExecutor W A L v (Inr cmd) w = (Inr (), w')"
    and "S w' = (S w)(ic_TaskIdentifier cmd \<mapsto> t')"
    and "vt_Frontmatter t' = vt_Frontmatter t ++\<^sub>f fmmap wire (fst (buildIncrementPatch L cmd (vt_Frontmatter t) v))"
    and "vt_Body t' = escalated_body (snd (buildIncrementPatch L cmd (vt_Frontmatter t) v)) now (vt_Body t)"
proof -
  obtain patch esc where build: "buildIncrementPatch L cmd (vt_Frontmatter t) v = (patch, esc)"
    by (cases "buildIncrementPatch L cmd (vt_Frontmatter t) v")
  obtain w1 where read: "api_ReadTask A (ic_TaskIdentifier cmd) w = (Inr t, w1)" and s1: "S w1 = S w"
    using store_read [OF store task] by blast
  obtain now w2 where clock: "clock_now W w1 = (now, w2)" by (cases "clock_now W w1")
  have s2: "S w2 = S w" using obs clock s1 by (auto simp: observer_only_def dest: spec [of _ w1])
  then have t2: "S w2 (vt_ID t) = Some t" using task store_id [OF store task] by simp
  define t1 where "t1 = with_body t (escalated_body esc now (vt_Body t))"
  obtain w3 where esc: "(case esc of None \<Rightarrow> (Inr (), w1)
       | Some e \<Rightarrow> (case clock_now W w1 of (now, w) \<Rightarrow> writeTriggerCapEscalation A (vt_ID t) e now w)) = (Inr (), w3)"
    and s3: "S w3 = (S w)(ic_TaskIdentifier cmd \<mapsto> t1)"
  proof (cases esc)
    case None
    then show ?thesis using that [of w1] s1 task by (simp add: t1_def escalated_body_def fun_upd_idem)
  next
    case (Some e)
    obtain w3 where "writeTriggerCapEscalation A (vt_ID t) e now w2 = (Inr (), w3)"
      and "S w3 = (S w2)(vt_ID t \<mapsto> with_body t (escalated_body (Some e) now (vt_Body t)))"
      using writeTriggerCapEscalation_store [OF store t2] by blast
    then show ?thesis using that [of w3] clock Some s2 store_id [OF store task] by (simp add: t1_def)
  qed
  have t3: "S w3 (vt_ID t) = Some t1" using s3 store_id [OF store task] by simp
  have "json_fields patch" using increment_patch_json [of L cmd "vt_Frontmatter t" v] build by simp
  from store_patch [OF store t3 this]
  obtain w4 x where patch: "api_PatchTask A (vt_ID t) patch w3 = (Inr x, w4)"
    and s4: "S w4 = (S w3)(vt_ID t \<mapsto> with_fields t1 patch)" by blast
  have run: "NewIncrementFrontmatterExecutor W A L v (Inr cmd) w =
      (Inr (), FrontmatterCommandsTotal W ''increment-frontmatter'' ''success'' w4)"
    using mine
    by (simp add: NewIncrementFrontmatterExecutor_def frontmatterCommandVaultMismatch_def read build esc patch)
  have "S (FrontmatterCommandsTotal W ''increment-frontmatter'' ''success'' w4) =
      (S w)(ic_TaskIdentifier cmd \<mapsto> with_fields t1 patch)"
    using s4 s3 store_id [OF store task] FrontmatterCommandsTotal_store [OF obs] by simp
  from that [OF run this] show ?thesis by (simp add: t1_def build)
qed

lemma increment_step:
  assumes "api_store A S" and "observer_only W S" and "S w (ic_TaskIdentifier cmd) = Some t"
    and "ShouldProcessFrontmatterCommand (ic_TargetVault cmd) vault" and "ic_Field cmd \<noteq> ''target_vault''"
  shows "\<exists>w' t'. NewIncrementFrontmatterExecutor W A L vault (Inr cmd) w = (Inr (), w') \<and>
           S w' = (S w)(ic_TaskIdentifier cmd \<mapsto> t') \<and>
           fm_get (vt_Frontmatter t') (ic_Field cmd) =
             Some (VFloat (float_of_int (wrap64 (intFromFrontmatter (vt_Frontmatter t) (ic_Field cmd) + ic_Delta cmd)))) \<and>
           (\<forall>k. k \<notin> {ic_Field cmd, ''target_vault'', ''assignee'', ''previous_assignee''} \<longrightarrow>
              fm_get (vt_Frontmatter t') k = fm_get (vt_Frontmatter t) k) \<and>
           (if increment_capped L cmd (vt_Frontmatter t)
            then fm_get (vt_Frontmatter t') ''assignee'' = Some (VStr []) \<and> ContainsTriggerCapEscalation (vt_Body t') \<and>
                 (lib_Assignee L (vt_Frontmatter t) \<noteq> [] \<longrightarrow>
                    fm_get (vt_Frontmatter t') ''previous_assignee'' = Some (VStr (lib_Assignee L (vt_Frontmatter t))))
            else vt_Body t' = vt_Body t \<and>
                 (ic_Field cmd \<noteq> ''assignee'' \<longrightarrow>
                    fm_get (vt_Frontmatter t') ''assignee'' = fm_get (vt_Frontmatter t) ''assignee''))"
proof -
  obtain w' t' now where run: "NewIncrementFrontmatterExecutor W A L vault (Inr cmd) w = (Inr (), w')"
    and s': "S w' = (S w)(ic_TaskIdentifier cmd \<mapsto> t')"
    and f': "vt_Frontmatter t' = vt_Frontmatter t ++\<^sub>f fmmap wire (fst (buildIncrementPatch L cmd (vt_Frontmatter t) vault))"
    and b': "vt_Body t' = escalated_body (snd (buildIncrementPatch L cmd (vt_Frontmatter t) vault)) now (vt_Body t)"
    by (rule increment_executor_store [OF assms(1-4)])
  have get: "fm_get (vt_Frontmatter t') k =
      (case fm_get (fst (buildIncrementPatch L cmd (vt_Frontmatter t) vault)) k of
         Some x \<Rightarrow> Some (wire x) | None \<Rightarrow> fm_get (vt_Frontmatter t) k)" for k
    unfolding f' fmlookup_fmadd by (simp split: option.split)
  have capped: "ic_Field cmd = ''trigger_count''" if "increment_capped L cmd (vt_Frontmatter t)"
    using that by (simp add: increment_capped_def)
  have body: "if increment_capped L cmd (vt_Frontmatter t) then ContainsTriggerCapEscalation (vt_Body t')
      else vt_Body t' = vt_Body t"
    using increment_patch_escalation [of L cmd "vt_Frontmatter t" vault] unfolding b'
    by (auto simp: escalated_body_contains) (simp add: escalated_body_def)
  show ?thesis
  proof (rule exI [of _ w'], rule exI [of _ t'], intro conjI allI impI, rule run, rule s')
  qed (use body capped assms(5) in \<open>auto simp: get increment_patch_get wire_def\<close>)
qed

text \<open>Executors run one after the other, with the result of each.\<close>

fun run_all :: "('w \<Rightarrow> unit res \<times> 'w) list \<Rightarrow> 'w \<Rightarrow> unit res list \<times> 'w" where
  "run_all [] w = ([], w)"
| "run_all (x # xs) w = (case x w of (r, w) \<Rightarrow> (case run_all xs w of (rs, w) \<Rightarrow> (r # rs, w)))"

definition increments :: "string \<Rightarrow> string \<Rightarrow> string \<Rightarrow> int list \<Rightarrow> IncrementFrontmatterCommand list" where
  "increments vault i field = map (\<lambda>d. \<lparr>ic_TargetVault = vault, ic_TaskIdentifier = i, ic_Field = field, ic_Delta = d\<rparr>)"

lemma int_of_float_of_int: "\<bar>n\<bar> < 2 ^ 53 \<Longrightarrow> int_of_float (float_of_int n) = n"
  by (auto simp: float_of_int_exact int64_range_def)

lemma wrap64_small: "\<bar>n\<bar> < 2 ^ 53 \<Longrightarrow> wrap64 n = n"
  by (rule wrap64_id) (auto simp: int64_range_def)

text \<open>C18: A sequence of increment commands on one field adds up: every one succeeds, the field holds the initial
  value plus the sum of the deltas (as long as every partial sum is exact in a \<open>float64\<close>), and no other task changes.\<close>

theorem increments_add_up:
  assumes "api_store A S" and "observer_only W S" and "S w i = Some t" and "field \<noteq> ''target_vault''"
    and "intFromFrontmatter (vt_Frontmatter t) field = n"
    and "\<forall>j \<le> length ds. \<bar>n + sum_list (take j ds)\<bar> < 2 ^ 53"
  shows "\<exists>w' t'. run_all (map (\<lambda>c. NewIncrementFrontmatterExecutor W A L vault (Inr c)) (increments vault i field ds)) w =
             (replicate (length ds) (Inr ()), w') \<and>
           S w' i = Some t' \<and> (\<forall>j. j \<noteq> i \<longrightarrow> S w' j = S w j) \<and>
           intFromFrontmatter (vt_Frontmatter t') field = n + sum_list ds"
  using assms(3,5,6)
proof (induction ds arbitrary: w t n)
  case Nil
  then show ?case by (simp add: increments_def)
next
  case (Cons d ds)
  define cmd where "cmd = \<lparr>ic_TargetVault = vault, ic_TaskIdentifier = i, ic_Field = field, ic_Delta = d\<rparr>"
  have cmd: "ic_TargetVault cmd = vault" "ic_TaskIdentifier cmd = i" "ic_Field cmd = field" "ic_Delta cmd = d"
    by (simp_all add: cmd_def)
  have small: "\<bar>n + d\<bar> < 2 ^ 53" using Cons.prems(3) by (auto dest: spec [of _ 1])
  have mine: "ShouldProcessFrontmatterCommand (ic_TargetVault cmd) vault"
    by (simp add: cmd ShouldProcessFrontmatterCommand_def)
  obtain w1 t1 where run: "NewIncrementFrontmatterExecutor W A L vault (Inr cmd) w = (Inr (), w1)"
    and s1: "S w1 = (S w)(i \<mapsto> t1)"
    and "fm_get (vt_Frontmatter t1) field =
         Some (VFloat (float_of_int (wrap64 (intFromFrontmatter (vt_Frontmatter t) field + d))))"
    using increment_step [OF assms(1,2) _ mine] Cons.prems(1) assms(4) unfolding cmd by blast
  then have f1: "intFromFrontmatter (vt_Frontmatter t1) field = n + d"
    using small Cons.prems(2) by (simp add: intFromFrontmatter_def int_of_float_of_int wrap64_small)
  have "\<forall>j \<le> length ds. \<bar>(n + d) + sum_list (take j ds)\<bar> < 2 ^ 53"
    using Cons.prems(3) [rule_format, of "Suc _"] by (simp add: add.assoc)
  from Cons.IH [OF _ f1 this, of w1] s1 obtain w' t' where
    "run_all (map (\<lambda>c. NewIncrementFrontmatterExecutor W A L vault (Inr c)) (increments vault i field ds)) w1 =
       (replicate (length ds) (Inr ()), w')"
    "S w' i = Some t'" "\<forall>j. j \<noteq> i \<longrightarrow> S w' j = S w1 j"
    "intFromFrontmatter (vt_Frontmatter t') field = n + d + sum_list ds" by auto
  with run s1 show ?case by (auto simp: increments_def cmd_def [symmetric] add.assoc)
qed

theorem increments_add_up_witness:
  "\<exists>w' t'. run_all (map (\<lambda>c. NewIncrementFrontmatterExecutor table_world mem_api ref_lib ''openclaw'' (Inr c))
              (increments ''openclaw'' ''t1'' ''trigger_count'' [1, 4, 2])) capped_table =
             (replicate 3 (Inr ()), w') \<and>
           mem_table w' ''t1'' = Some t' \<and> intFromFrontmatter (vt_Frontmatter t') ''trigger_count'' = 9"
proof -
  have "\<forall>j \<le> length [1, 4, 2 :: int]. \<bar>2 + sum_list (take j [1, 4, 2])\<bar> < (2 ^ 53 :: int)"
    by (auto simp: take_Cons' le_Suc_eq)
  moreover have "intFromFrontmatter (vt_Frontmatter capped_task) ''trigger_count'' = 2"
    by (simp add: intFromFrontmatter_def capped_fm)
  ultimately show ?thesis
    using increments_add_up [OF mem_api_store table_observer capped_table_get, of "''trigger_count''" 2 "[1, 4, 2]" ref_lib "''openclaw''"]
    by (auto simp: numeral_3_eq_3)
qed

section \<open>Running a completion against the store\<close>

lemma Split_line: "x \<notin> set m \<Longrightarrow> m \<in> set (Split x (a @ [x] @ m @ [x, x] @ b))"
  by (simp add: Split_append_sep Split_no_sep)

lemma resolutionBody_resolved: "hasResolutionSection (resolutionBody body cmd ts)"
proof -
  have "TrimSpace ''## Resolution'' = ''## Resolution''" by code_simp
  then show ?thesis
    unfolding hasResolutionSection_def resolutionBody_def Let_def
    by (intro bexI [OF disjI2 Split_line]) simp_all
qed

lemma complete_patch_json: "json_fields (buildCompletePatch cmd f ts v)"
  unfolding json_fields_def
  by (auto simp: buildCompletePatch_def Let_def json_value_def intro!: fmpred_upd fmpred_of_list)

lemma complete_executor_resolved:
  assumes "api_store A S" and "observer_only W S" and "S w (cc_TaskIdentifier cmd) = Some t"
    and "ShouldProcessFrontmatterCommand (cc_TargetVault cmd) v" and "Validate (cc_TaskIdentifier cmd) = None"
    and "hasResolutionSection (vt_Body t)"
  shows "\<exists>w'. NewCompleteTaskExecutor W A Validate v (Inr cmd) w = (Inr (), w') \<and> S w' = S w"
proof -
  obtain w1 where read: "api_ReadTask A (cc_TaskIdentifier cmd) w = (Inr t, w1)" and s1: "S w1 = S w"
    using store_read [OF assms(1,3)] by blast
  obtain now w2 where clock: "clock_now W w1 = (now, w2)" by (cases "clock_now W w1")
  have "S w2 = S w" using assms(2) clock s1 by (auto simp: observer_only_def dest: spec [of _ w1])
  then show ?thesis
    using assms(4-6) FrontmatterCommandsTotal_store [OF assms(2)]
    by (simp add: NewCompleteTaskExecutor_def frontmatterCommandVaultMismatch_def read clock closeTask_def)
qed

lemma complete_executor_open:
  assumes store: "api_store A S" and obs: "observer_only W S" and task: "S w (cc_TaskIdentifier cmd) = Some t"
    and ok: "ShouldProcessFrontmatterCommand (cc_TargetVault cmd) v" "Validate (cc_TaskIdentifier cmd) = None"
    and unresolved: "\<not> hasResolutionSection (vt_Body t)"
  shows "\<exists>w' ts. NewCompleteTaskExecutor W A Validate v (Inr cmd) w = (Inr (), w') \<and>
           S w' = (S w)(cc_TaskIdentifier cmd \<mapsto>
             with_body (with_fields t (buildCompletePatch cmd (vt_Frontmatter t) ts v)) (resolutionBody (vt_Body t) cmd ts))"
proof -
  let ?i = "cc_TaskIdentifier cmd"
  obtain w1 where read: "api_ReadTask A ?i w = (Inr t, w1)" and s1: "S w1 = S w"
    using store_read [OF store task] by blast
  obtain now w2 where clock: "clock_now W w1 = (now, w2)" by (cases "clock_now W w1")
  have s2: "S w2 = S w" using obs clock s1 by (auto simp: observer_only_def dest: spec [of _ w1])
  define t1 where "t1 = with_fields t (buildCompletePatch cmd (vt_Frontmatter t) (RFC3339 now) v)"
  note ids = store_id [OF store task]
  have t2: "S w2 ?i = Some t" using s2 task by simp
  obtain w3 x where patch: "api_PatchTask A ?i (buildCompletePatch cmd (vt_Frontmatter t) (RFC3339 now) v) w2 = (Inr x, w3)"
    and s3: "S w3 = (S w2)(?i \<mapsto> t1)" using store_patch [OF store t2 complete_patch_json] unfolding t1_def by blast
  have t3: "S w3 ?i = Some t1" using s3 by simp
  obtain w4 where read4: "api_ReadTask A ?i w3 = (Inr t1, w4)" and s4: "S w4 = S w3" using store_read [OF store t3] by blast
  have t4: "S w4 ?i = Some t1" using s4 t3 by simp
  obtain w5 where put: "api_PutBody A ?i (resolutionBody (vt_Body t) cmd (RFC3339 now)) w4 = (Inr (), w5)"
    and s5: "S w5 = (S w4)(?i \<mapsto> with_body t1 (resolutionBody (vt_Body t) cmd (RFC3339 now)))"
    using store_put [OF store t4] by blast
  have "vt_ID t1 = ?i" "vt_Body t1 = vt_Body t" by (simp_all add: t1_def ids)
  then have "NewCompleteTaskExecutor W A Validate v (Inr cmd) w =
      (Inr (), FrontmatterCommandsTotal W ''complete-task'' ''success'' w5)"
    using ok unresolved
    by (simp add: NewCompleteTaskExecutor_def frontmatterCommandVaultMismatch_def read clock closeTask_def ids patch read4 put)
  with s5 s4 s3 s2 FrontmatterCommandsTotal_store [OF obs] show ?thesis by (auto simp: t1_def)
qed

text \<open>C19: Completing a task that has no Resolution section marks it completed and done, stamps it, changes no other field
  and appends exactly the Resolution section. Completing a task whose body has the section, whatever its status, changes
  nothing at all, and so does completing the same task again.\<close>

theorem completion_is_idempotent:
  assumes "api_store A S" and "observer_only W S" and "S w (cc_TaskIdentifier cmd) = Some t"
    and "ShouldProcessFrontmatterCommand (cc_TargetVault cmd) vault" and "Validate (cc_TaskIdentifier cmd) = None"
  shows "\<exists>w' t'. NewCompleteTaskExecutor W A Validate vault (Inr cmd) w = (Inr (), w') \<and>
           S w' = (S w)(cc_TaskIdentifier cmd \<mapsto> t') \<and> hasResolutionSection (vt_Body t') \<and>
           (if hasResolutionSection (vt_Body t) then t' = t
            else \<exists>ts. fm_get (vt_Frontmatter t') ''status'' = Some (VStr ''completed'') \<and>
              fm_get (vt_Frontmatter t') ''phase'' = Some (VStr ''done'') \<and>
              fm_get (vt_Frontmatter t') ''completed_date'' = Some (VStr ts) \<and>
              fm_get (vt_Frontmatter t') ''processed_at'' = Some (VStr ts) \<and>
              (\<forall>k. k \<notin> {''status'', ''phase'', ''completed_date'', ''processed_at'', ''recovery_sha'', ''target_vault''} \<longrightarrow>
                 fm_get (vt_Frontmatter t') k = fm_get (vt_Frontmatter t) k) \<and>
              fm_get (vt_Frontmatter t') ''recovery_sha'' =
                (if cc_RecoverySHA cmd = [] then fm_get (vt_Frontmatter t) ''recovery_sha'' else Some (VStr (cc_RecoverySHA cmd))) \<and>
              fm_get (vt_Frontmatter t') ''target_vault'' =
                (case fm_get (vt_Frontmatter t) ''target_vault'' of None \<Rightarrow> Some (VStr vault) | Some v \<Rightarrow> Some v) \<and>
              vt_Body t' = resolutionBody (vt_Body t) cmd ts) \<and>
           (\<exists>w''. NewCompleteTaskExecutor W A Validate vault (Inr cmd) w' = (Inr (), w'') \<and> S w'' = S w')"
proof (cases "hasResolutionSection (vt_Body t)")
  case True
  obtain w' where run: "NewCompleteTaskExecutor W A Validate vault (Inr cmd) w = (Inr (), w')" and s': "S w' = S w"
    using complete_executor_resolved [where Validate = Validate, OF assms True] by blast
  have again: "\<exists>w''. NewCompleteTaskExecutor W A Validate vault (Inr cmd) w' = (Inr (), w'') \<and> S w'' = S w'"
    by (rule complete_executor_resolved [where Validate = Validate, OF assms(1,2) _ assms(4,5) True])
      (simp add: s' assms(3))
  have "S w' = (S w)(cc_TaskIdentifier cmd \<mapsto> t)" using s' assms(3) by (simp add: fun_upd_idem)
  then show ?thesis
    unfolding if_P [OF True] by (intro exI [of _ w'] exI [of _ t] conjI run True refl again)
next
  case False
  obtain w' ts where run: "NewCompleteTaskExecutor W A Validate vault (Inr cmd) w = (Inr (), w')"
    and s': "S w' = (S w)(cc_TaskIdentifier cmd \<mapsto>
       with_body (with_fields t (buildCompletePatch cmd (vt_Frontmatter t) ts vault)) (resolutionBody (vt_Body t) cmd ts))"
    using complete_executor_open [where Validate = Validate, OF assms False] by blast
  define t' where "t' = with_body (with_fields t (buildCompletePatch cmd (vt_Frontmatter t) ts vault)) (resolutionBody (vt_Body t) cmd ts)"
  have t': "S w' (cc_TaskIdentifier cmd) = Some t'" using s' by (simp add: t'_def)
  have body: "vt_Body t' = resolutionBody (vt_Body t) cmd ts" by (simp add: t'_def)
  have res: "hasResolutionSection (vt_Body t')" unfolding body by (rule resolutionBody_resolved)
  have fields: "fm_get (vt_Frontmatter t') k =
      (case fm_get (buildCompletePatch cmd (vt_Frontmatter t) ts vault) k of Some x \<Rightarrow> Some (wire x) | None \<Rightarrow> fm_get (vt_Frontmatter t) k)" for k
    by (simp add: t'_def fmlookup_fmadd split: option.split)
  have again: "\<exists>w''. NewCompleteTaskExecutor W A Validate vault (Inr cmd) w' = (Inr (), w'') \<and> S w'' = S w'"
    using complete_executor_resolved [where Validate = Validate, OF assms(1,2) t' assms(4,5) res] by blast
  show ?thesis
    unfolding if_not_P [OF False]
    by (intro exI [of _ w'] exI [of _ t'] conjI run s' [folded t'_def] res exI [of _ ts] again body)
      (auto simp: fields buildCompletePatch_def Let_def fmlookup_of_list wire_def split: option.split)
qed


text \<open>An increment that brings the trigger count to the cap clears the assignee whoever it is, keeps the name
  as previous assignee and puts the escalation section into the body.\<close>

theorem increment_at_cap_parks:
  assumes "lib_ok L" and "api_store A S" and "observer_only W S" and "S w (ic_TaskIdentifier cmd) = Some t"
    and "ShouldProcessFrontmatterCommand (ic_TargetVault cmd) vault" and "ic_Field cmd = ''trigger_count''"
    and "fm_get (vt_Frontmatter t) ''max_triggers'' = Some (VInt cap)"
    and "fm_get (vt_Frontmatter t) ''trigger_count'' = Some (VInt n)"
    and "int64_range (n + ic_Delta cmd)" and "cap \<le> n + ic_Delta cmd"
    and "fm_get (vt_Frontmatter t) ''assignee'' = Some (VStr owner)" and "owner \<noteq> []"
  shows "\<exists>w' t'. NewIncrementFrontmatterExecutor W A L vault (Inr cmd) w = (Inr (), w') \<and>
           S w' = (S w)(ic_TaskIdentifier cmd \<mapsto> t') \<and>
           fm_get (vt_Frontmatter t') ''trigger_count'' = Some (VFloat (float_of_int (n + ic_Delta cmd))) \<and>
           fm_get (vt_Frontmatter t') ''assignee'' = Some (VStr []) \<and>
           fm_get (vt_Frontmatter t') ''previous_assignee'' = Some (VStr owner) \<and>
           ContainsTriggerCapEscalation (vt_Body t')"
proof -
  have count: "intFromFrontmatter (vt_Frontmatter t) (ic_Field cmd) = n"
    using assms(6,8) by (simp add: intFromFrontmatter_def)
  have owner: "lib_Assignee L (vt_Frontmatter t) = owner"
    using assms(1,11) by (simp add: lib_Assignee_eq)
  have "lib_MaxTriggers L (vt_Frontmatter t) = cap"
    using assms(1,7) by (auto simp: lib_ok_def lib_reads_budget_def)
  then have capped: "increment_capped L cmd (vt_Frontmatter t)"
    using assms(6,7,9,10) count by (simp add: increment_capped_def TriggerCapEngaged_def)
  have "ic_Field cmd \<noteq> ''target_vault''" using assms(6) by simp
  from increment_step [OF assms(2-5) this, of L] show ?thesis
    unfolding count if_P [OF capped] owner using assms(6,9,12) by (auto 4 0)
qed

definition spawn_increment :: IncrementFrontmatterCommand where
  "spawn_increment = \<lparr>ic_TargetVault = ''openclaw'', ic_TaskIdentifier = ''t1'', ic_Field = ''trigger_count'', ic_Delta = 1\<rparr>"

theorem increment_at_cap_parks_witness:
  "\<exists>w' t'. NewIncrementFrontmatterExecutor table_world mem_api ref_lib ''openclaw'' (Inr spawn_increment) capped_table = (Inr (), w') \<and>
     mem_table w' = (mem_table capped_table)(''t1'' \<mapsto> t') \<and>
     fm_get (vt_Frontmatter t') ''previous_assignee'' = Some (VStr ''claude'') \<and> ContainsTriggerCapEscalation (vt_Body t')"
proof -
  have task: "mem_table capped_table (ic_TaskIdentifier spawn_increment) = Some capped_task"
    by (simp add: spawn_increment_def capped_table_get)
  have mine: "ShouldProcessFrontmatterCommand (ic_TargetVault spawn_increment) ''openclaw''"
    and field: "ic_Field spawn_increment = ''trigger_count''"
    by (simp_all add: spawn_increment_def ShouldProcessFrontmatterCommand_def)
  have "int64_range (2 + ic_Delta spawn_increment)" "3 \<le> 2 + ic_Delta spawn_increment"
    by (simp_all add: spawn_increment_def int64_range_def)
  from increment_at_cap_parks [OF lib_ok_ref_lib mem_api_store table_observer task mine field capped_fm(4,3) this capped_fm(1)]
  show ?thesis by (auto simp: spawn_increment_def)
qed

text \<open>A command that names another vault is refused as skipped before anything is read or counted; a command for
  a task that does not exist changes no task.\<close>

theorem foreign_and_missing_commands_write_nothing:
  assumes "api_store A S" and "observer_only W S"
  shows "(uc_TargetVault u \<notin> {[], vault} \<longrightarrow>
            (\<exists>e. NewUpdateFrontmatterExecutor W A L R vault humans (Inr u) w = (Inl e, w) \<and> err_is e ErrCommandObjectSkipped)) \<and>
         (ic_TargetVault c \<notin> {[], vault} \<longrightarrow>
            (\<exists>e. NewIncrementFrontmatterExecutor W A L vault (Inr c) w = (Inl e, w) \<and> err_is e ErrCommandObjectSkipped)) \<and>
         (cc_TargetVault d \<notin> {[], vault} \<longrightarrow>
            (\<exists>e. NewCompleteTaskExecutor W A Validate vault (Inr d) w = (Inl e, w) \<and> err_is e ErrCommandObjectSkipped)) \<and>
         (S w (uc_TaskIdentifier u) = None \<longrightarrow> S (snd (NewUpdateFrontmatterExecutor W A L R vault humans (Inr u) w)) = S w) \<and>
         (S w (ic_TaskIdentifier c) = None \<longrightarrow> S (snd (NewIncrementFrontmatterExecutor W A L vault (Inr c) w)) = S w) \<and>
         (S w (cc_TaskIdentifier d) = None \<longrightarrow> S (snd (NewCompleteTaskExecutor W A Validate vault (Inr d) w)) = S w)"
proof (intro conjI impI)
  note count = FrontmatterCommandsTotal_store [OF assms(2)]
  note defs = frontmatterCommandVaultMismatch_def ShouldProcessFrontmatterCommand_def err_is_def Let_def
  note missing = store_read_None [OF assms(1), of w]
  show "\<exists>e. NewUpdateFrontmatterExecutor W A L R vault humans (Inr u) w = (Inl e, w) \<and> err_is e ErrCommandObjectSkipped"
    if "uc_TargetVault u \<notin> {[], vault}" using that by (simp add: NewUpdateFrontmatterExecutor_def defs)
  show "\<exists>e. NewIncrementFrontmatterExecutor W A L vault (Inr c) w = (Inl e, w) \<and> err_is e ErrCommandObjectSkipped"
    if "ic_TargetVault c \<notin> {[], vault}" using that by (simp add: NewIncrementFrontmatterExecutor_def defs)
  show "\<exists>e. NewCompleteTaskExecutor W A Validate vault (Inr d) w = (Inl e, w) \<and> err_is e ErrCommandObjectSkipped"
    if "cc_TargetVault d \<notin> {[], vault}" using that by (simp add: NewCompleteTaskExecutor_def defs)
  show "S (snd (NewUpdateFrontmatterExecutor W A L R vault humans (Inr u) w)) = S w"
    if "S w (uc_TaskIdentifier u) = None"
    using missing [OF that] count by (auto simp: NewUpdateFrontmatterExecutor_def defs)
  show "S (snd (NewIncrementFrontmatterExecutor W A L vault (Inr c) w)) = S w"
    if "S w (ic_TaskIdentifier c) = None"
    using missing [OF that] count by (auto simp: NewIncrementFrontmatterExecutor_def defs)
  show "S (snd (NewCompleteTaskExecutor W A Validate vault (Inr d) w)) = S w"
    if "S w (cc_TaskIdentifier d) = None"
    using missing [OF that] count by (auto simp: NewCompleteTaskExecutor_def defs split: option.split)
qed


definition recovered :: CompleteCommand where
  "recovered = \<lparr>cc_TargetVault = ''openclaw'', cc_TaskIdentifier = ''t1'', cc_RecoverySHA = ''abcdef12''\<rparr>"

theorem foreign_and_missing_commands_write_nothing_witness:
  "\<exists>e. NewUpdateFrontmatterExecutor table_world mem_api ref_lib no_section ''personal'' {||} (Inr spawn_update) capped_table =
         (Inl e, capped_table) \<and> err_is e ErrCommandObjectSkipped"
proof -
  have "uc_TargetVault spawn_update \<notin> {[], ''personal''}" by (simp add: spawn_update_def)
  with foreign_and_missing_commands_write_nothing [OF mem_api_store table_observer,
      where u = spawn_update and vault = "''personal''" and w = capped_table and L = ref_lib and R = no_section
        and humans = "{||}" and c = spawn_increment and d = recovered and Validate = "\<lambda>_. None"]
  show ?thesis by blast
qed

theorem completion_is_idempotent_witness:
  "\<exists>w' t'. NewCompleteTaskExecutor table_world mem_api (\<lambda>_. None) ''openclaw'' (Inr recovered) capped_table = (Inr (), w') \<and>
     mem_table w' = (mem_table capped_table)(''t1'' \<mapsto> t') \<and> hasResolutionSection (vt_Body t') \<and>
     fm_get (vt_Frontmatter t') ''status'' = Some (VStr ''completed'')"
proof -
  have task: "mem_table capped_table (cc_TaskIdentifier recovered) = Some capped_task"
    and mine: "ShouldProcessFrontmatterCommand (cc_TargetVault recovered) ''openclaw''"
    by (simp_all add: recovered_def capped_table_get ShouldProcessFrontmatterCommand_def)
  have open_task: "\<not> hasResolutionSection (vt_Body capped_task)" unfolding capped_task_def by code_simp
  have tid: "cc_TaskIdentifier recovered = ''t1''" by (simp add: recovered_def)
  from completion_is_idempotent [where Validate = "\<lambda>_. None", OF mem_api_store table_observer task mine refl]
  show ?thesis unfolding if_not_P [OF open_task] tid by blast
qed

end
