(* ===== verification/TaskIdentifier.thy ===== *)
theory TaskIdentifier
  imports Frontmatter
begin

text \<open>
  Repairing the identifier of a task file (\<open>pkg/scanner/task_identifier.go\<close>), removing duplicate frontmatter
  keys (\<open>pkg/scanner/frontmatter.go\<close>) and the parse pipeline every reader of the scanner shares. The node
  interface of the YAML library is a parameter: a document is absent, not a mapping, or a mapping with its
  style and its entries, each a key text with the line it stands on and an opaque value node.
\<close>

section \<open>The node interface of the YAML library\<close>

type_synonym yentry = "(string \<times> nat) \<times> string"

datatype ynode = NoDocument | NoMapping | Mapping bool "yentry list"

record yaml_nodes =
  yn_parse :: "string \<Rightarrow> ynode res"
  yn_render :: "yentry list \<Rightarrow> string res"
  yn_scalar :: "string \<Rightarrow> string res"

text \<open>The line of a node counts from 1 and goes up at line breaks only, so it is at most one more than the breaks of the
  parsed text; and an empty text has no mapping.\<close>

definition nodes_ok :: "yaml_nodes \<Rightarrow> bool" where
  "nodes_ok Y \<longleftrightarrow>
     (\<forall>flow ents. yn_parse Y [] \<noteq> Inr (Mapping flow ents)) \<and>
     (\<forall>text flow ents. yn_parse Y text = Inr (Mapping flow ents) \<longrightarrow>
        (\<forall>((k, line), v) \<in> set ents. 1 \<le> line \<and> line \<le> 1 + yaml_breaks text))"

text \<open>No break inside a line of the frontmatter: between the delimiters only LF and CR LF end a line.\<close>

definition plain_breaks :: "string list \<Rightarrow> nat \<Rightarrow> bool" where
  "plain_breaks lines closing \<longleftrightarrow> (\<forall>l \<in> set (take (closing - 1) (drop 1 lines)). yaml_breaks (TrimRight1 l cr) = 0)"

lemma break_at_nl: "nl \<notin> set a \<Longrightarrow> a \<noteq> [] \<Longrightarrow> break_at (a @ nl # b) \<longleftrightarrow> break_at a"
  by (cases a rule: remdups_adj.cases; cases "tl (tl a)") (auto simp: break_at_def)

lemma break_at_LF [simp]: "break_at (nl # b)"
  by (simp add: break_at_def)

lemma yaml_breaks_line: "nl \<notin> set a \<Longrightarrow> yaml_breaks (a @ nl # b) = yaml_breaks a + 1 + yaml_breaks b"
proof (induction a)
  case (Cons c a)
  then show ?case using break_at_nl [of "c # a" b] by simp
qed simp

lemma yaml_breaks_Join:
  "\<forall>l \<in> set ls. yaml_breaks l = 0 \<and> nl \<notin> set l \<Longrightarrow> ls \<noteq> [] \<Longrightarrow> 1 + yaml_breaks (Join [nl] ls) = length ls"
proof (induction ls)
  case (Cons l ls)
  then show ?case by (cases ls) (simp_all add: yaml_breaks_line)
qed simp

text \<open>Nodes of texts that are no mappings.\<close>

definition plain_nodes :: yaml_nodes where
  "plain_nodes = \<lparr>yn_parse = (\<lambda>_. Inr NoMapping), yn_render = (\<lambda>_. Inr []), yn_scalar = (\<lambda>s. Inr s)\<rparr>"

section \<open>Duplicate keys\<close>

abbreviation entry_key :: "yentry \<Rightarrow> string" where
  "entry_key e \<equiv> fst (fst e)"

definition dedup_step :: "yentry list \<Rightarrow> yentry \<Rightarrow> yentry list" where
  "dedup_step newContent e =
     (if entry_key e \<in> entry_key ` set newContent
      then map (\<lambda>x. if entry_key x = entry_key e then (fst x, snd e) else x) newContent
      else newContent @ [e])"

definition DeduplicateFrontmatter :: "yaml_nodes \<Rightarrow> string \<Rightarrow> (string \<times> bool) res" where
  "DeduplicateFrontmatter Y fmYAML =
     (case yn_parse Y fmYAML of
        Inl e \<Rightarrow> Inl (Wrapf e ''parse frontmatter for deduplication'' [])
      | Inr NoDocument \<Rightarrow> Inr (fmYAML, False)
      | Inr NoMapping \<Rightarrow> Inr (fmYAML, False)
      | Inr (Mapping flow entries) \<Rightarrow>
          (let newContent = foldl dedup_step [] entries;
               hasDuplicates = (length newContent \<noteq> length entries)
           in if \<not> hasDuplicates then Inr (fmYAML, False)
              else case yn_render Y newContent of
                     Inl e \<Rightarrow> Inl (Wrapf e ''re-marshal deduplicated frontmatter'' [])
                   | Inr out \<Rightarrow> Inr (out, True)))"

text \<open>Extraction, removal of duplicates and decoding in one go.\<close>

definition parseFrontmatterMap :: "pure_lib \<Rightarrow> yaml_nodes \<Rightarrow> bytes \<Rightarrow> fm option" where
  "parseFrontmatterMap L Y content =
     (case scanner_extractFrontmatter content of
        Inl _ \<Rightarrow> None
      | Inr fmYAML \<Rightarrow>
          (case DeduplicateFrontmatter Y fmYAML of
             Inl _ \<Rightarrow> None
           | Inr (deduped, _) \<Rightarrow>
               (case yaml_Unmarshal L deduped of Inl _ \<Rightarrow> None | Inr fmMap \<Rightarrow> Some fmMap)))"

section \<open>Removing a key\<close>

definition isValidUUID :: "pure_lib \<Rightarrow> string \<Rightarrow> bool" where
  "isValidUUID L s = uuid_valid L s"

definition shouldRecordPrevious :: "string \<Rightarrow> bool" where
  "shouldRecordPrevious tid \<longleftrightarrow> TrimSpace tid \<noteq> [] \<and> \<not> ContainsAny tid [cr, nl]"

definition recordablePrevious :: "string \<Rightarrow> bool \<Rightarrow> string" where
  "recordablePrevious tid isString = (if isString \<and> shouldRecordPrevious tid then tid else [])"

abbreviation blank_char :: "char \<Rightarrow> bool" where
  "blank_char c \<equiv> c = CHR '' '' \<or> c = CHR 0x09"

definition isBlankLine :: "string \<Rightarrow> bool" where
  "isBlankLine line = (dropWhile blank_char line = [])"

definition leadingWhitespaceLen :: "string \<Rightarrow> nat" where
  "leadingWhitespaceLen line = length (takeWhile blank_char line)"

text \<open>The search for the closing delimiter, from line \<open>i\<close> on.\<close>

fun closing_from :: "nat \<Rightarrow> string list \<Rightarrow> nat option" where
  "closing_from i [] = None"
| "closing_from i (l # ls) = (if TrimRight1 l cr = ''---'' then Some i else closing_from (i + 1) ls)"

definition frontmatterClosingIndex :: "string list \<Rightarrow> nat option" where
  "frontmatterClosingIndex lines =
     (case lines of
        [] \<Rightarrow> None
      | l # ls \<Rightarrow> (if TrimRight1 l cr \<noteq> ''---'' then None else closing_from 1 ls))"

definition frontmatterKeyLines :: "yaml_nodes \<Rightarrow> string list \<Rightarrow> nat \<Rightarrow> string \<Rightarrow> nat list option" where
  "frontmatterKeyLines Y lines closing wanted =
     (let body = map (\<lambda>l. TrimRight1 l cr) (take (closing - 1) (drop 1 lines))
      in case yn_parse Y (Join [nl] body) of
           Inl _ \<Rightarrow> None
         | Inr NoDocument \<Rightarrow> None
         | Inr NoMapping \<Rightarrow> None
         | Inr (Mapping flow entries) \<Rightarrow>
             (if flow then None
              else Some (map (\<lambda>e. snd (fst e)) (filter (\<lambda>e. entry_key e = wanted) entries))))"

text \<open>The loop of \<open>markValueSpan\<close> over the lines from \<open>j\<close> up to the closing delimiter.\<close>

fun mark_span :: "nat \<Rightarrow> string list \<Rightarrow> nat \<Rightarrow> nat list \<Rightarrow> bool list \<Rightarrow> bool list" where
  "mark_span j [] indent pending remove = remove"
| "mark_span j (l # ls) indent pending remove =
     (let line = TrimRight1 l cr
      in if isBlankLine line then mark_span (j + 1) ls indent (pending @ [j]) remove
         else if leadingWhitespaceLen line \<le> indent then remove
         else mark_span (j + 1) ls indent []
                ((foldl (\<lambda>r p. r[p := True]) remove pending)[j := True]))"

definition markValueSpan :: "string list \<Rightarrow> nat \<Rightarrow> nat \<Rightarrow> nat \<Rightarrow> bool list \<Rightarrow> bool list" where
  "markValueSpan lines from closing indent remove =
     mark_span from (drop from (take closing lines)) indent [] remove"

definition remove_key_step :: "string list \<Rightarrow> nat \<Rightarrow> bool list \<Rightarrow> nat \<Rightarrow> bool list" where
  "remove_key_step lines closing remove i =
     markValueSpan lines (i + 1) closing (leadingWhitespaceLen (lines ! i)) (remove[i := True])"

text \<open>
  A key line outside the lines of the file is an index out of range, where the code panics; in the model \<open>lines ! i\<close> is then
  unspecified. C34 says when this cannot happen; \<open>lone_return_panics\<close> shows a file with which it does.
\<close>

definition removeFrontmatterKey :: "yaml_nodes \<Rightarrow> bytes \<Rightarrow> string \<Rightarrow> bytes" where
  "removeFrontmatterKey Y content wanted =
     (let lines = Split nl content
      in case frontmatterClosingIndex lines of
           None \<Rightarrow> content
         | Some closing \<Rightarrow>
             (case frontmatterKeyLines Y lines closing wanted of
                None \<Rightarrow> content
              | Some keyLines \<Rightarrow>
                  (let remove = foldl (remove_key_step lines closing) (replicate (length lines) False) keyLines
                   in Join [nl] (map snd (filter (\<lambda>(r, l). \<not> r) (zip remove lines))))))"

definition removeTaskIdentifier :: "yaml_nodes \<Rightarrow> bytes \<Rightarrow> bytes" where
  "removeTaskIdentifier Y content = removeFrontmatterKey Y content ''task_identifier''"

section \<open>Injecting an identifier\<close>

definition InjectTaskIdentifier :: "bytes \<Rightarrow> string \<Rightarrow> bytes res" where
  "InjectTaskIdentifier s tid =
     (if HasPrefix s (''---'' @ [cr, nl])
      then Inr (''---'' @ [cr, nl] @ ''task_identifier: '' @ tid @ [cr, nl] @ drop 5 s)
      else if HasPrefix s (''---'' @ [nl])
      then Inr (''---'' @ [nl] @ ''task_identifier: '' @ tid @ [nl] @ drop 4 s)
      else Inl (Errorf ''content does not start with frontmatter delimiter'' []))"

definition injectTaskIdentifierWithPrevious :: "yaml_nodes \<Rightarrow> bytes \<Rightarrow> string \<Rightarrow> string \<Rightarrow> bytes res" where
  "injectTaskIdentifierWithPrevious Y s tid previous =
     (if previous = [] then InjectTaskIdentifier s tid
      else
        (let with_end = (\<lambda>lineEnd.
               (case yn_scalar Y previous of
                  Inl e \<Rightarrow> Inl (Wrapf e ''marshal task_identifier_previous'' [])
                | Inr scalar \<Rightarrow>
                    (let stripped = removeFrontmatterKey Y s ''task_identifier_previous'';
                         rest = drop (length (''---'' @ lineEnd)) stripped;
                         withAlias = ''---'' @ lineEnd @ ''task_identifier_previous: '' @ TrimSuffix scalar [nl] @ lineEnd @ rest
                     in InjectTaskIdentifier withAlias tid)))
         in if HasPrefix s (''---'' @ [cr, nl]) then with_end [cr, nl]
            else if HasPrefix s (''---'' @ [nl]) then with_end [nl]
            else Inl (Errorf ''content does not start with frontmatter delimiter'' [])))"

section \<open>Last value wins\<close>

definition entry_map :: "yentry list \<Rightarrow> string \<Rightarrow> string option" where
  "entry_map es = map_of (map (\<lambda>e. (entry_key e, snd e)) es)"

lemma entry_map_replace:
  "entry_map (map (\<lambda>x. if entry_key x = c then (fst x, v) else x) es) k =
     (if k = c \<and> c \<in> entry_key ` set es then Some v else entry_map es k)"
  by (induction es) (auto simp: entry_map_def rev_image_eqI)

lemma entry_map_append: "entry_map (es @ [e]) k =
    (case entry_map es k of Some v \<Rightarrow> Some v | None \<Rightarrow> if k = entry_key e then Some (snd e) else None)"
  by (auto simp: entry_map_def map_add_def split: option.split)

lemma entry_map_None: "entry_map es k = None \<longleftrightarrow> k \<notin> entry_key ` set es"
  by (auto simp: entry_map_def map_of_eq_None_iff image_iff)

lemma dedup_step_map:
  "entry_map (dedup_step acc e) k = (if k = entry_key e then Some (snd e) else entry_map acc k)"
  using entry_map_None [of acc "entry_key e"]
  by (auto simp: dedup_step_def entry_map_replace entry_map_append split: option.split)

lemma replace_keys:
  "map entry_key (map (\<lambda>x. if entry_key x = c then (fst x, v) else x) es) = map entry_key es"
  by simp

lemma dedup_step_distinct:
  assumes "distinct (map entry_key acc)"
  shows "distinct (map entry_key (dedup_step acc e))"
proof (cases "entry_key e \<in> entry_key ` set acc")
  case True
  then show ?thesis using assms by (simp only: dedup_step_def if_True replace_keys)
next
  case False
  then show ?thesis using assms by (auto simp: dedup_step_def)
qed

lemma dedup_map: "entry_map (foldl dedup_step acc es) k =
    (case entry_map (rev es) k of Some v \<Rightarrow> Some v | None \<Rightarrow> entry_map acc k)"
proof (induction es arbitrary: acc)
  case Nil
  then show ?case by (simp add: entry_map_def)
next
  case (Cons e es)
  then show ?case by (auto simp: dedup_step_map entry_map_append split: option.split)
qed

lemma dedup_distinct: "distinct (map entry_key acc) \<Longrightarrow> distinct (map entry_key (foldl dedup_step acc es))"
  by (induction es arbitrary: acc) (auto simp: dedup_step_distinct)

section \<open>Removal keeps the rest of the file\<close>

text \<open>The flags set by the span of a key stay between its line and the closing delimiter.\<close>

definition flags_within :: "nat \<Rightarrow> bool list \<Rightarrow> bool" where
  "flags_within closing r \<longleftrightarrow> (\<forall>i < length r. r ! i \<longrightarrow> 1 \<le> i \<and> i < closing)"

lemma flags_within_update: "flags_within c r \<Longrightarrow> 1 \<le> i \<Longrightarrow> i < c \<Longrightarrow> flags_within c (r[i := True])"
  by (cases "i < length r") (auto simp: flags_within_def nth_list_update split: if_splits)

lemma flags_within_pending:
  "flags_within c r \<Longrightarrow> \<forall>p \<in> set ps. 1 \<le> p \<and> p < c \<Longrightarrow>
   flags_within c (foldl (\<lambda>r p. r[p := True]) r ps) \<and> length (foldl (\<lambda>r p. r[p := True]) r ps) = length r"
  by (induction ps arbitrary: r) (auto simp: flags_within_update)

lemma mark_span_within:
  assumes "flags_within c r" and "\<forall>p \<in> set ps. 1 \<le> p \<and> p < c" and "1 \<le> j" and "j + length ls \<le> c"
  shows "flags_within c (mark_span j ls indent ps r) \<and> length (mark_span j ls indent ps r) = length r"
  using assms
proof (induction j ls indent ps r rule: mark_span.induct)
  case (2 j l ls indent ps r)
  have j: "1 \<le> j" "j < c" using 2(5,6) by auto
  have "flags_within c ((foldl (\<lambda>r p. r[p := True]) r ps)[j := True])"
    using flags_within_pending [OF 2(3,4)] j by (simp add: flags_within_update)
  moreover have "length ((foldl (\<lambda>r p. r[p := True]) r ps)[j := True]) = length r"
    using flags_within_pending [OF 2(3,4)] by simp
  ultimately show ?case using 2 j by (auto simp: Let_def)
qed simp

lemma remove_key_step_within:
  assumes "flags_within c r" and "1 \<le> i" and "i < c" and "c \<le> length lines"
  shows "flags_within c (remove_key_step lines c r i) \<and> length (remove_key_step lines c r i) = length r"
  unfolding remove_key_step_def markValueSpan_def
  using mark_span_within [OF flags_within_update [OF assms(1-3)], of "[]" "i + 1" "drop (i + 1) (take c lines)"] assms
  by simp

lemma remove_flags_within:
  assumes "flags_within c r" and "\<forall>i \<in> set is. 1 \<le> i \<and> i < c" and "c \<le> length lines"
  shows "flags_within c (foldl (remove_key_step lines c) r is) \<and>
         length (foldl (remove_key_step lines c) r is) = length r"
  using assms(1,2) by (induction "is" arbitrary: r) (use remove_key_step_within [OF _ _ _ assms(3)] in auto)

lemma kept_lines:
  assumes "flags_within c r" and "length r = length lines" and "0 < c" and "c \<le> length lines"
  obtains region where
    "map snd (filter (\<lambda>(b, l). \<not> b) (zip r lines)) = hd lines # region @ drop c lines"
    and "subseq region (take (c - 1) (tl lines))"
proof -
  obtain b rs l ls where r: "r = b # rs" and l: "lines = l # ls"
    using assms(2,3,4) by (cases r; cases lines) auto
  have "\<not> b" using assms(1) r by (auto simp: flags_within_def)
  define k where "k = c - 1"
  have "\<not> drop k rs ! i" if "i < length (drop k rs)" for i
    using assms(1) [unfolded flags_within_def r, rule_format, of "Suc (k + i)"] that assms(3) by (auto simp: k_def less_diff_conv add.commute)
  then have after: "\<forall>x \<in> set (drop k rs). \<not> x" by (auto simp: in_set_conv_nth)
  have split: "zip rs ls = zip (take k rs) (take k ls) @ zip (drop k rs) (drop k ls)"
    by (metis append_take_drop_id take_zip drop_zip)
  have "map snd (filter (\<lambda>(b, l). \<not> b) (zip (drop k rs) (drop k ls))) = drop k ls"
  proof -
    have "filter (\<lambda>(b, l). \<not> b) (zip (drop k rs) (drop k ls)) = zip (drop k rs) (drop k ls)"
      using after by (auto simp: filter_id_conv dest: set_zip_leftD)
    then show ?thesis using assms(2) r l by simp
  qed
  moreover have "drop k ls = drop c lines" using l assms(3) by (simp add: k_def drop_Cons')
  moreover have "subseq (map snd (filter (\<lambda>(b, l). \<not> b) (zip (take k rs) (take k ls)))) (take k ls)"
    by (metis (no_types, lifting) assms(2) l length_Cons length_take map_snd_zip nat.inject r subseq_filter_left subseq_map)
  ultimately show ?thesis
    using that [of "map snd (filter (\<lambda>(b, l). \<not> b) (zip (take k rs) (take k ls)))"] \<open>\<not> b\<close> split r l
    by (simp add: k_def)
qed

lemma closing_from_bound: "closing_from i ls = Some c \<Longrightarrow> i \<le> c \<and> c < i + length ls"
  by (induction i ls rule: closing_from.induct) (auto split: if_splits)

lemma frontmatterClosingIndex_bound: "frontmatterClosingIndex lines = Some c \<Longrightarrow> 0 < c \<and> c < length lines"
  by (auto simp: frontmatterClosingIndex_def split: list.splits if_splits dest!: closing_from_bound)

lemma key_lines_bound:
  assumes "nodes_ok Y" and "frontmatterKeyLines Y lines closing wanted = Some ks" and "closing < length lines"
    and "\<forall>l \<in> set lines. nl \<notin> set l" and "plain_breaks lines closing"
  shows "\<forall>i \<in> set ks. 1 \<le> i \<and> i < closing"
proof -
  define body where "body = map (\<lambda>l. TrimRight1 l cr) (take (closing - 1) (drop 1 lines))"
  have sub: "set (TrimRight1 l cr) \<subseteq> set l" for l
    using set_dropWhileD [of _ "\<lambda>x. x = cr" "rev l"] by (auto simp: TrimRight1_def)
  have "\<forall>l \<in> set body. yaml_breaks l = 0 \<and> nl \<notin> set l"
    using assms(4,5) sub by (auto simp: body_def plain_breaks_def dest!: in_set_takeD in_set_dropD)
  moreover have len: "length body = closing - 1" using assms(3) by (simp add: body_def)
  ultimately have breaks: "body \<noteq> [] \<Longrightarrow> 1 + yaml_breaks (Join [nl] body) = closing - 1"
    using yaml_breaks_Join by metis
  obtain ents where parse: "yn_parse Y (Join [nl] body) = Inr (Mapping False ents)"
    and ks: "ks = map (\<lambda>e. snd (fst e)) (filter (\<lambda>e. entry_key e = wanted) ents)"
    using assms(2) unfolding frontmatterKeyLines_def Let_def body_def [symmetric]
    by (auto split: sum.splits ynode.splits if_splits)
  have "body \<noteq> []" using parse assms(1) by (auto simp: nodes_ok_def)
  then have closing: "1 < closing" using len by (cases body) auto
  have "1 \<le> snd (fst e) \<and> snd (fst e) < closing" if "e \<in> set ents" for e
    using assms(1) parse that breaks [OF \<open>body \<noteq> []\<close>] closing by (fastforce simp: nodes_ok_def)
  then show ?thesis by (auto simp: ks)
qed

section \<open>Properties\<close>

text \<open>C34: In a file whose frontmatter lines end in LF or CR LF and hold no other YAML line break, removing a key keeps the
  opening delimiter, the closing delimiter and every line of the body exactly as they are and drops only whole lines in
  between; every line the parser names for the key lies between the delimiters, so no index leaves the file.\<close>

theorem removal_keeps_the_body:
  assumes "nodes_ok Y" and "frontmatterClosingIndex (Split nl content) = Some closing"
    and "plain_breaks (Split nl content) closing"
  shows "(\<exists>region. removeFrontmatterKey Y content wanted =
           Join [nl] (hd (Split nl content) # region @ drop closing (Split nl content)) \<and>
         subseq region (take (closing - 1) (tl (Split nl content)))) \<and>
     (\<forall>ks. frontmatterKeyLines Y (Split nl content) closing wanted = Some ks \<longrightarrow> (\<forall>i \<in> set ks. 1 \<le> i \<and> i < closing))"
proof (cases "frontmatterKeyLines Y (Split nl content) closing wanted")
  case None
  define lines where "lines = Split nl content"
  have "0 < closing" using frontmatterClosingIndex_bound [OF assms(2)] by simp
  moreover obtain l ls where "lines = l # ls" by (cases lines) (auto simp: lines_def)
  ultimately have "lines = hd lines # take (closing - 1) (tl lines) @ drop closing lines"
    by (simp add: drop_Cons')
  moreover have "removeFrontmatterKey Y content wanted = Join [nl] lines"
    using None assms(2) by (simp add: removeFrontmatterKey_def Let_def Join_Split lines_def)
  ultimately show ?thesis unfolding lines_def [symmetric] using None [folded lines_def]
    by (metis option.distinct(1) subseq_order.order_refl)
next
  case (Some ks)
  define lines where "lines = Split nl content"
  have bound: "0 < closing" "closing < length lines"
    using frontmatterClosingIndex_bound [OF assms(2)] by (simp_all add: lines_def)
  have within: "\<forall>i \<in> set ks. 1 \<le> i \<and> i < closing"
    using key_lines_bound [OF assms(1) Some _ _ assms(3)] bound Split_pieces by (auto simp: lines_def)
  moreover have "flags_within closing (replicate (length lines) False)" by (simp add: flags_within_def)
  ultimately have flags: "flags_within closing (foldl (remove_key_step lines closing) (replicate (length lines) False) ks)"
    "length (foldl (remove_key_step lines closing) (replicate (length lines) False) ks) = length lines"
    using remove_flags_within [of closing "replicate (length lines) False" ks lines] bound by auto
  obtain region where
    "map snd (filter (\<lambda>(b, l). \<not> b) (zip (foldl (remove_key_step lines closing) (replicate (length lines) False) ks) lines)) =
       hd lines # region @ drop closing lines"
    and "subseq region (take (closing - 1) (tl lines))"
    by (rule kept_lines [OF flags bound(1)]) (use bound in auto)
  moreover have "removeFrontmatterKey Y content wanted = Join [nl] (map snd (filter (\<lambda>(b, l). \<not> b)
      (zip (foldl (remove_key_step lines closing) (replicate (length lines) False) ks) lines)))"
    using Some assms(2) by (simp add: removeFrontmatterKey_def Let_def lines_def)
  ultimately have "\<exists>region. removeFrontmatterKey Y content wanted =
           Join [nl] (hd (Split nl content) # region @ drop closing (Split nl content)) \<and>
         subseq region (take (closing - 1) (tl (Split nl content)))" by (auto simp: lines_def)
  then show ?thesis using Some within by simp
qed

definition one_key_nodes :: yaml_nodes where
  "one_key_nodes =
     \<lparr>yn_parse = (\<lambda>text. if text = [] then Inr NoDocument else Inr (Mapping False [((''task_identifier'', 1), ''x'')])),
      yn_render = (\<lambda>es. Inr []), yn_scalar = (\<lambda>s. Inr s)\<rparr>"

theorem removal_keeps_the_body_witness:
  "\<exists>region. removeFrontmatterKey one_key_nodes ''---\<newline>task_identifier:\<newline>  - a\<newline>b: c\<newline>---\<newline>task_identifier: body'' ''task_identifier'' =
     Join [nl] (''---'' # region @ [''---'', ''task_identifier: body''])"
proof -
  have "nodes_ok one_key_nodes"
    by (auto simp: nodes_ok_def one_key_nodes_def Suc_le_eq)
  moreover have closing: "frontmatterClosingIndex (Split nl ''---\<newline>task_identifier:\<newline>  - a\<newline>b: c\<newline>---\<newline>task_identifier: body'') = Some 4"
    by code_simp
  moreover have "plain_breaks (Split nl ''---\<newline>task_identifier:\<newline>  - a\<newline>b: c\<newline>---\<newline>task_identifier: body'') 4"
    by code_simp
  ultimately show ?thesis
    using removal_keeps_the_body [of one_key_nodes _ 4 "''task_identifier''"] by fastforce
qed

text \<open>A bare CR ends a line for YAML but not for the split of the file. With one of them the key after it is reported on the
  line of the closing delimiter, which is removed; with two the reported line is past the end of the file.\<close>

definition return_nodes :: yaml_nodes where
  "return_nodes =
     \<lparr>yn_parse = (\<lambda>text. if text = [] then Inr NoDocument
        else Inr (Mapping False [((''a'', 1), ''1''), ((''task_identifier'', 1 + yaml_breaks text), ''x'')])),
      yn_render = (\<lambda>es. Inr []), yn_scalar = (\<lambda>s. Inr s)\<rparr>"

lemma nodes_ok_return_nodes: "nodes_ok return_nodes"
  by (auto simp: nodes_ok_def return_nodes_def)

lemma lone_return_removes_the_closing_delimiter:
  "removeTaskIdentifier return_nodes (''---\<newline>a: 1'' @ cr # ''task_identifier: x\<newline>---\<newline>body'') =
     ''---\<newline>a: 1'' @ cr # ''task_identifier: x\<newline>body''"
  by code_simp

lemma lone_return_panics:
  "frontmatterKeyLines return_nodes (Split nl (''---\<newline>a: 1'' @ cr # cr # ''task_identifier: x\<newline>---'')) 2 ''task_identifier'' = Some [3]"
  "length (Split nl (''---\<newline>a: 1'' @ cr # cr # ''task_identifier: x\<newline>---'')) = 3"
  by code_simp+

end
