(* ===== verification/WorldOrder.thy ===== *)
theory WorldOrder
  imports Metrics
begin

text \<open>
  Operations only move the world forward: if every primitive step of the world is in a preorder, so is every
  call of the git-rest client and its adapter. The contract is a locale; the traced world of
  \<open>GitRest\<close> is an instance, with the preorder that the list of exchanges grows.
\<close>

locale forward_world =
  fixes W :: "'w world" and R :: "'w \<Rightarrow> 'w \<Rightarrow> bool"
  assumes R_refl: "R w w"
    and R_trans: "R u v \<Longrightarrow> R v w \<Longrightarrow> R u w"
    and http_R: "R w (snd (http_do W q w))"
    and wait_R: "R w (snd (wait_for W d w))"
    and clock_R: "R w (snd (clock_now W w))"
    and metric_R: "exposed (m, ls) \<Longrightarrow> R w (inc_metric W m ls w)"
begin

lemma http_step: "http_do W q w = (r, w') \<Longrightarrow> R w w'"
  using http_R [of w q] by simp

lemma count_R:
  "op \<in> {''get'', ''post'', ''delete'', ''list'', ''readiness''} \<Longrightarrow> out \<in> {''success'', ''error''} \<Longrightarrow>
   R w (GitRestCallsTotal W op out w)"
  by (simp add: GitRestCallsTotal_def metric_R)

lemma count_after:
  "op \<in> {''get'', ''post'', ''delete'', ''list'', ''readiness''} \<Longrightarrow> out \<in> {''success'', ''error''} \<Longrightarrow>
   R u w \<Longrightarrow> R u (GitRestCallsTotal W op out w)"
  by (erule R_trans) (rule count_R)

lemma Get_R: "R w (snd (Get W g p w))"
  by (auto simp: Get_def Let_def count_R dest!: http_step intro: count_after
      split: option.splits prod.splits sum.splits)

lemma List_files_R: "R w (snd (List_files W g p w))"
  by (auto simp: List_files_def Let_def count_R dest!: http_step intro: count_after
      split: option.splits prod.splits sum.splits)

lemma retry_loop_R:
  assumes op: "op \<in> {''get'', ''post'', ''delete'', ''list'', ''readiness''}"
  shows "R w (snd (retry_loop W g p verb op q c n le w))"
proof (induction n arbitrary: le w)
  case 0
  then show ?case by (auto simp: R_refl split: option.split)
next
  case (Suc n)
  obtain cancelled w1 where wait: "(if 0 < 4 - int n then wait_for W (backoff g (4 - int n)) (inc_metric W ''controller_kafka_consume_paused_total'' [] w)
      else (None, w)) = (cancelled, w1)" by (meson surj_pair)
  have w1: "R w w1"
    using wait wait_R [of "inc_metric W ''controller_kafka_consume_paused_total'' [] w" "backoff g (4 - int n)"] metric_R [OF exposed_paused] R_refl
    by (auto split: if_splits intro: R_trans)
  have next_R: "R w (snd (retry_loop W g p verb op q c n le' (GitRestCallsTotal W op out w2)))" if "R w w2" "out \<in> {''success'', ''error''}" for le' out w2
    by (rule R_trans [OF count_after [OF op that(2,1)] Suc.IH])
  obtain r w2 where http: "http_do W q w1 = (r, w2)" by (meson surj_pair)
  have w2: "R w w2" using R_trans [OF w1 http_step [OF http]] .
  show ?case
  proof (cases "ctx_err W w")
    case None
    show ?thesis
    proof (cases cancelled)
      case None': None
      show ?thesis
        unfolding retry_loop.simps Let_def wait None None' option.case prod.case http
        by (cases "new_request_error W (req_method q) (req_url q)"; cases r)
          (use w1 w2 next_R count_after [OF op] in auto)
    next
      case (Some e)
      then show ?thesis unfolding retry_loop.simps Let_def wait None option.case prod.case using w1 by simp
    qed
  qed (simp add: R_refl)
qed

lemma Post_R: "R w (snd (Post W g p b w))"
  by (simp add: Post_def post_def Let_def retry_loop_R)

lemma ReadFile_R: "R w (snd (ReadFile W a p w))"
  using Get_R [of w "client a" p] by (simp add: ReadFile_def split_def)

lemma WriteFile_R: "R w (snd (WriteFile W a p b w))"
  using Post_R [of w "client a" p b] by (simp add: WriteFile_def split_def)

lemma IsReady_R: "R w (snd (IsReady W g d w))"
  by (auto simp: IsReady_def Let_def R_refl count_R dest!: http_step intro: count_after
      split: option.splits prod.splits sum.splits)

lemma rmw_R: "R w (snd (snd (AtomicReadModifyWriteAndCommitPush W a p f msg s w)))"
proof (cases "under_base a p")
  case (Inr rel)
  have "R w w'" if "Get W (client a) rel w = (r, w')" for r w' using Get_R [of w "client a" rel] that by simp
  moreover have "R w' w''" if "Post W (client a) rel b w' = (r, w'')" for b w' r w''
    using Post_R [of w' "client a" rel b] that by simp
  ultimately show ?thesis
    using Inr by (auto simp: AtomicReadModifyWriteAndCommitPush_def split: prod.splits sum.splits intro: R_trans)
qed (simp add: AtomicReadModifyWriteAndCommitPush_def R_refl)

end

lemma traced_forward: "forward_world (traced W) (\<lambda>x y. prefix (snd x) (snd y))"
  by unfold_locales (auto intro: prefix_order.trans)

interpretation trace: forward_world "traced W" "\<lambda>x y. prefix (snd x) (snd y)" for W :: "'w world"
  by (rule traced_forward)

end
