(* ===== verification/Scanner.thy ===== *)
theory Scanner
  imports ResultWriter TaskIdentifier WorldOrder
begin

text \<open>
  The vault scanner (\<open>pkg/scanner/vault_scanner.go\<close>, \<open>capped_idle.go\<close>, \<open>stuck_planning.go\<close>,
  \<open>parse_task.go\<close>): the scan cycle that repairs missing, invalid and duplicate identifiers, detects changed
  and deleted tasks, resets the trigger counter of a re-delegated task, escalates capped idle tasks and
  publishes the identifier index. The state is the bookkeeping per file (\<open>hashes\<close>) and the published index.
  Parameters besides the world: SHA-256, the UUID generator, the order in which Go ranges over a map, the
  time parser and the gauges.
\<close>

section \<open>State\<close>

record fileEntry =
  fe_hash :: string
  fe_taskIdentifier :: string
  fe_assignee :: string
  fe_capped :: bool
  fe_phase :: string

definition zero_hash :: string where
  "zero_hash = replicate 32 (CHR 0x00)"

record 'w fileOps =
  listFiles :: "string \<Rightarrow> 'w \<Rightarrow> path list res \<times> 'w"
  readFile :: "path \<Rightarrow> 'w \<Rightarrow> bytes res \<times> 'w"
  writeFile :: "path \<Rightarrow> bytes \<Rightarrow> 'w \<Rightarrow> unit res \<times> 'w"

record 'w scan_lib =
  sha256 :: "bytes \<Rightarrow> string"
  new_uuid :: "'w \<Rightarrow> string \<times> 'w"
  map_order :: "path fset \<Rightarrow> path list"
  parse_RFC3339 :: "string \<Rightarrow> instant option"
  set_gauge :: "string \<Rightarrow> string list \<Rightarrow> int \<Rightarrow> 'w \<Rightarrow> 'w"

record 'w vaultScanner =
  sc_gitClient :: gitClient
  sc_taskDir :: string
  sc_ops :: "'w fileOps"
  sc_autoInject :: bool
  sc_vaultName :: string

record scan_state =
  hashes :: "(path, fileEntry) fmap"
  scan_index :: index

record ScanResult =
  Changed :: "Task list"
  Deleted :: "task_id list"

definition NewGitRestVaultScanner ::
  "'w world \<Rightarrow> gitClient \<Rightarrow> string \<Rightarrow> bool \<Rightarrow> string \<Rightarrow> 'w vaultScanner \<times> scan_state" where
  "NewGitRestVaultScanner W git taskDir autoInject vaultName =
     (\<lparr>sc_gitClient = git, sc_taskDir = taskDir,
       sc_ops = \<lparr>listFiles = ListFiles W git, readFile = ReadFile W git, writeFile = WriteFile W git\<rparr>,
       sc_autoInject = autoInject, sc_vaultName = vaultName\<rparr>,
      \<lparr>hashes = fmempty, scan_index = fmempty\<rparr>)"

section \<open>Parsing\<close>

definition ParseTask :: "pure_lib \<Rightarrow> yaml_nodes \<Rightarrow> bytes \<Rightarrow> Task option" where
  "ParseTask L Y file =
     (case parseFrontmatterMap L Y file of
        None \<Rightarrow> None
      | Some fmMap \<Rightarrow>
          (let taskID = string_or_empty (as_string (fm_get fmMap ''task_identifier''))
           in if taskID = [] then None
              else Some \<lparr>Object = [], TaskIdentifier = taskID, Frontmatter = fmMap, Content = scanner_extractBody file\<rparr>))"

definition phaseString :: "pure_lib \<Rightarrow> fm \<Rightarrow> string" where
  "phaseString L m = string_or_empty (lib_Phase L m)"

definition stringField :: "fm \<Rightarrow> string \<Rightarrow> string" where
  "stringField m key = string_or_empty (as_string (fm_get m key))"

section \<open>Capped idle tasks\<close>

definition isCappedIdle :: "pure_lib \<Rightarrow> fm \<Rightarrow> bool" where
  "isCappedIdle L m \<longleftrightarrow>
     TriggerCapEngaged L m \<and> 0 < lib_TriggerCount L m \<and> lib_MaxTriggers L m \<le> lib_TriggerCount L m"

definition escalateCappedContent :: "pure_lib \<Rightarrow> bytes \<Rightarrow> instant \<Rightarrow> (bytes \<times> bool) res" where
  "escalateCappedContent L current now =
     (case scanner_extractFrontmatter current of
        Inl e \<Rightarrow> Inl (Wrapf e ''extract frontmatter'' [])
      | Inr frontmatterStr \<Rightarrow>
          (case yaml_Unmarshal L frontmatterStr of
             Inl e \<Rightarrow> Inl (Wrapf e ''unmarshal frontmatter'' [])
           | Inr m \<Rightarrow>
               (if \<not> isCappedIdle L m \<or> lib_Status L m \<noteq> ''in_progress'' \<or> lib_CurrentJob L m \<noteq> [] then Inr ([], False)
                else case ClearAssignee L m of (agentName, m) \<Rightarrow>
                  (if agentName = [] then Inr ([], False)
                   else
                     (let m = fmupd ''status'' (VStr ''hold'') m;
                          body = scanner_extractBody current;
                          body = (if ContainsTriggerCapEscalation body then body
                                  else body @ TriggerCapEscalationSection (lib_TriggerCount L m) (lib_MaxTriggers L m) agentName now)
                      in case yaml_Marshal L m of
                           Inl e \<Rightarrow> Inl (Wrapf e ''marshal frontmatter'' [])
                         | Inr newFmYAML \<Rightarrow> Inr (render_file newFmYAML body, True))))))"

text \<open>The closure state is the flag \<open>wrote\<close>; the clock is read before the write.\<close>

definition escalateCappedTask :: "'w world \<Rightarrow> pure_lib \<Rightarrow> 'w vaultScanner \<Rightarrow> path \<Rightarrow> 'w \<Rightarrow> bool res \<times> 'w" where
  "escalateCappedTask W L v relPath w =
     (case clock_now W w of (now, w) \<Rightarrow>
        (case AtomicReadModifyWriteAndCommitPush W (sc_gitClient v) (JoinPath (Path (sc_gitClient v)) relPath)
                (\<lambda>current wrote.
                   (case escalateCappedContent L current now of
                      Inl e \<Rightarrow> (Inl e, wrote)
                    | Inr (next, changed) \<Rightarrow> (if \<not> changed then (Inr current, wrote) else (Inr next, True))))
                (''[agent-task-controller] escalate capped task '' @ relPath) False w of
           (Inl e, wrote, w) \<Rightarrow> (Inl (Wrapf e ''atomic escalation'' []), w)
         | (Inr _, wrote, w) \<Rightarrow> (Inr wrote, w)))"

text \<open>The bookkeeping of a rescued file: to be read again, without its assignee.\<close>

definition swept_entry :: "fileEntry \<Rightarrow> fileEntry" where
  "swept_entry entry =
     \<lparr>fe_hash = zero_hash, fe_taskIdentifier = fe_taskIdentifier entry, fe_assignee = [], fe_capped = False, fe_phase = []\<rparr>"

fun escalateCappedPaths ::
  "'w world \<Rightarrow> pure_lib \<Rightarrow> 'w vaultScanner \<Rightarrow> path list \<Rightarrow> nat \<Rightarrow> bool \<Rightarrow> scan_state \<Rightarrow> 'w \<Rightarrow> (nat \<times> bool) \<times> scan_state \<times> 'w" where
  "escalateCappedPaths W L v [] escalated writeError st w = ((escalated, writeError), st, w)"
| "escalateCappedPaths W L v (relPath # paths) escalated writeError st w =
     (if ctx_err W w \<noteq> None then ((escalated, writeError), st, w)
      else case escalateCappedTask W L v relPath w of
             (Inl _, w) \<Rightarrow> escalateCappedPaths W L v paths escalated True st w
           | (Inr wrote, w) \<Rightarrow>
               (if \<not> wrote then escalateCappedPaths W L v paths escalated writeError st w
                else escalateCappedPaths W L v paths (escalated + 1) writeError
                       (case fmlookup (hashes st) relPath of
                          None \<Rightarrow> st
                        | Some entry \<Rightarrow> st\<lparr>hashes := fmupd relPath (swept_entry entry) (hashes st)\<rparr>) w))"

definition escalateCappedIdleTasks ::
  "'w world \<Rightarrow> pure_lib \<Rightarrow> 'w scan_lib \<Rightarrow> 'w vaultScanner \<Rightarrow> scan_state \<Rightarrow> 'w \<Rightarrow> (nat \<times> bool) \<times> scan_state \<times> 'w" where
  "escalateCappedIdleTasks W L X v st w =
     (let paths = filter (\<lambda>p. case fmlookup (hashes st) p of
                                 Some entry \<Rightarrow> fe_capped entry \<and> fe_assignee entry \<noteq> []
                               | None \<Rightarrow> False) (map_order X (fmdom (hashes st)))
      in escalateCappedPaths W L v paths 0 False st w)"

section \<open>Repairing an identifier\<close>

definition isIdentifierUnique :: "(path, fileEntry) fmap \<Rightarrow> string \<Rightarrow> path \<Rightarrow> bool" where
  "isIdentifierUnique h tid relPath =
     fBall (fmdom h) (\<lambda>p. p \<noteq> relPath \<longrightarrow> map_option fe_taskIdentifier (fmlookup h p) \<noteq> Some tid)"

definition repairConverges :: "pure_lib \<Rightarrow> yaml_nodes \<Rightarrow> bytes \<Rightarrow> string \<Rightarrow> bool" where
  "repairConverges L Y candidate tid =
     (case scanner_extractFrontmatter candidate of
        Inl _ \<Rightarrow> False
      | Inr fmYAML \<Rightarrow>
          (case DeduplicateFrontmatter Y fmYAML of
             Inl _ \<Rightarrow> False
           | Inr (dedupedYAML, _) \<Rightarrow>
               (case yaml_Unmarshal L dedupedYAML of
                  Inl _ \<Rightarrow> False
                | Inr fmMap \<Rightarrow> as_string (fm_get fmMap ''task_identifier'') = Some tid)))"

text \<open>The result of processing one file: a task to publish, the path written, a write error.\<close>

type_synonym outcome = "Task option \<times> path \<times> bool"

definition remember :: "path \<Rightarrow> fileEntry \<Rightarrow> scan_state \<Rightarrow> scan_state" where
  "remember relPath entry st = st\<lparr>hashes := fmupd relPath entry (hashes st)\<rparr>"

definition injectAndStore ::
  "'w world \<Rightarrow> pure_lib \<Rightarrow> yaml_nodes \<Rightarrow> 'w scan_lib \<Rightarrow> 'w vaultScanner \<Rightarrow> bytes \<Rightarrow> path \<Rightarrow> string \<Rightarrow> string \<Rightarrow> string
     \<Rightarrow> scan_state \<Rightarrow> 'w \<Rightarrow> outcome \<times> scan_state \<times> 'w" where
  "injectAndStore W L Y X v file relPath currentAssignee onDiskHash previous st w =
     (case new_uuid X w of (tid, w) \<Rightarrow>
        (case injectTaskIdentifierWithPrevious Y file tid previous of
           Inl _ \<Rightarrow> ((None, [], False), st, SkippedFilesTotal W ''inject_task_identifier_failed'' w)
         | Inr newContent \<Rightarrow>
             (if \<not> repairConverges L Y newContent tid
              then ((None, [], False),
                    remember relPath \<lparr>fe_hash = onDiskHash, fe_taskIdentifier = [], fe_assignee = currentAssignee,
                                      fe_capped = False, fe_phase = []\<rparr> st,
                    SkippedFilesTotal W ''repair_not_converging'' w)
              else case writeFile (sc_ops v) relPath newContent w of
                     (Inl _, w) \<Rightarrow> ((None, [], True), st, w)
                   | (Inr _, w) \<Rightarrow>
                       ((None, relPath, False),
                        remember relPath \<lparr>fe_hash = zero_hash, fe_taskIdentifier = tid, fe_assignee = currentAssignee,
                                          fe_capped = False, fe_phase = []\<rparr> st, w))))"

section \<open>Counter reset\<close>

definition resetCounters :: "pure_lib \<Rightarrow> bytes \<Rightarrow> bytes res" where
  "resetCounters L current =
     (case scanner_extractFrontmatter current of
        Inl e \<Rightarrow> Inl (Wrapf e ''extract frontmatter'' [])
      | Inr frontmatterStr \<Rightarrow>
          (case yaml_Unmarshal L frontmatterStr of
             Inl e \<Rightarrow> Inl (Wrapf e ''unmarshal frontmatter'' [])
           | Inr m \<Rightarrow>
               (case yaml_Marshal L (fmupd ''trigger_count'' (VInt 0) m) of
                  Inl e \<Rightarrow> Inl (Wrapf e ''marshal frontmatter'' [])
                | Inr newFmYAML \<Rightarrow> Inr (render_file newFmYAML (scanner_extractBody current)))))"

definition writeCounterReset :: "'w world \<Rightarrow> pure_lib \<Rightarrow> 'w vaultScanner \<Rightarrow> path \<Rightarrow> 'w \<Rightarrow> (path \<times> bool) \<times> 'w" where
  "writeCounterReset W L v relPath w =
     (case AtomicReadModifyWriteAndCommitPush W (sc_gitClient v) (JoinPath (Path (sc_gitClient v)) relPath)
             (\<lambda>current s. (resetCounters L current, s))
             (''[agent-task-controller] reset counters for '' @ relPath) () w of
        (Inl _, _, w) \<Rightarrow> (([], True), w)
      | (Inr _, _, w) \<Rightarrow> ((relPath, False), w))"

section \<open>One file\<close>

text \<open>The part of \<open>processFile\<close> after the frontmatter of a valid, unique identifier was parsed.\<close>

definition process_valid ::
  "'w world \<Rightarrow> pure_lib \<Rightarrow> 'w vaultScanner \<Rightarrow> path \<Rightarrow> bytes \<Rightarrow> string \<Rightarrow> fm \<Rightarrow> string \<Rightarrow> scan_state \<Rightarrow> 'w
     \<Rightarrow> outcome \<times> scan_state \<times> 'w" where
  "process_valid W L v relPath file hash m taskID st w =
     (let assignee = lib_Assignee L m;
          prevEntry = (case fmlookup (hashes st) relPath of
                         Some e \<Rightarrow> e
                       | None \<Rightarrow> \<lparr>fe_hash = zero_hash, fe_taskIdentifier = [], fe_assignee = [], fe_capped = False, fe_phase = []\<rparr>);
          currentPhase = phaseString L m;
          (reset, w) = (if assignee \<noteq> [] \<and> fe_taskIdentifier prevEntry \<noteq> [] \<and> fe_assignee prevEntry = []
                        then case writeCounterReset W L v relPath w of (r, w) \<Rightarrow> (Some r, w)
                        else (None, w))
      in case reset of
           Some (_, True) \<Rightarrow> ((None, [], True), st, w)
         | _ \<Rightarrow>
             (if reset \<noteq> None \<and> fst (the reset) \<noteq> []
              then ((None, fst (the reset), False),
                    remember relPath \<lparr>fe_hash = zero_hash, fe_taskIdentifier = taskID, fe_assignee = assignee,
                                      fe_capped = False, fe_phase = []\<rparr> st, w)
              else
                (let st = remember relPath \<lparr>fe_hash = hash, fe_taskIdentifier = taskID, fe_assignee = assignee,
                                            fe_capped = isCappedIdle L m, fe_phase = currentPhase\<rparr> st
                 in if lib_Status L m = [] then ((None, [], False), st, SkippedFilesTotal W ''empty_status'' w)
                    else if assignee = [] \<and> (fe_phase prevEntry = [] \<or> fe_phase prevEntry = currentPhase)
                    then ((None, [], False), st, w)
                    else ((Some \<lparr>Object = [], TaskIdentifier = taskID, Frontmatter = m,
                                 Content = scanner_extractBody file\<rparr>, [], False), st, w))))"

definition processFile ::
  "'w world \<Rightarrow> pure_lib \<Rightarrow> yaml_nodes \<Rightarrow> 'w scan_lib \<Rightarrow> 'w vaultScanner \<Rightarrow> path \<Rightarrow> scan_state \<Rightarrow> 'w
     \<Rightarrow> outcome \<times> scan_state \<times> 'w" where
  "processFile W L Y X v relPath st w =
     (let skip = (\<lambda>reason w. ((None, [], False), st, SkippedFilesTotal W reason w))
      in case readFile (sc_ops v) relPath w of
           (Inl _, w) \<Rightarrow> skip ''read_failed'' w
         | (Inr file, w) \<Rightarrow>
             (let hash = sha256 X file
              in if map_option fe_hash (fmlookup (hashes st) relPath) = Some hash then ((None, [], False), st, w)
                 else case scanner_extractFrontmatter file of
                        Inl _ \<Rightarrow> skip ''invalid_frontmatter'' w
                      | Inr fmYAML \<Rightarrow>
                   (case DeduplicateFrontmatter Y fmYAML of
                      Inl _ \<Rightarrow> skip ''duplicate_frontmatter_invalid'' w
                    | Inr (dedupedYAML, _) \<Rightarrow>
                   (case yaml_Unmarshal L dedupedYAML of
                      Inl _ \<Rightarrow> skip ''invalid_frontmatter'' w
                    | Inr m \<Rightarrow>
                        (let assignee = lib_Assignee L m;
                             raw = fm_get m ''task_identifier'';
                             taskID = string_or_empty (as_string raw);
                             isString = (as_string raw \<noteq> None)
                         in if raw = None then
                              (if \<not> sc_autoInject v then skip ''auto_inject_disabled'' w
                               else injectAndStore W L Y X v file relPath assignee hash [] st w)
                            else if \<not> isString \<or> \<not> isValidUUID L taskID then
                              (if \<not> sc_autoInject v then skip ''auto_inject_disabled'' w
                               else injectAndStore W L Y X v (removeTaskIdentifier Y file) relPath assignee hash
                                      (recordablePrevious taskID isString) st w)
                            else if \<not> isIdentifierUnique (hashes st) taskID relPath then
                              (if \<not> sc_autoInject v then skip ''auto_inject_disabled'' w
                               else injectAndStore W L Y X v (removeTaskIdentifier Y file) relPath assignee hash [] st w)
                            else process_valid W L v relPath file hash m taskID st w)))))"

section \<open>One cycle\<close>

fun collect_loop ::
  "'w world \<Rightarrow> path set \<Rightarrow> path list \<Rightarrow> task_id list \<Rightarrow> (path, fileEntry) fmap \<Rightarrow> 'w \<Rightarrow> task_id list \<times> (path, fileEntry) fmap" where
  "collect_loop W seen [] deleted h w = (deleted, h)"
| "collect_loop W seen (relPath # paths) deleted h w =
     (if ctx_err W w \<noteq> None then (deleted, h)
      else if relPath \<in> seen then collect_loop W seen paths deleted h w
      else let tid = (case fmlookup h relPath of Some entry \<Rightarrow> fe_taskIdentifier entry | None \<Rightarrow> [])
           in collect_loop W seen paths (if tid = [] then deleted else deleted @ [tid]) (fmdrop relPath h) w)"

definition collectDeleted ::
  "'w world \<Rightarrow> 'w scan_lib \<Rightarrow> path set \<Rightarrow> (path, fileEntry) fmap \<Rightarrow> 'w \<Rightarrow> task_id list \<times> (path, fileEntry) fmap" where
  "collectDeleted W X seen h w = collect_loop W seen (map_order X (fmdom h)) [] h w"

definition index_step :: "(path, fileEntry) fmap \<Rightarrow> index \<Rightarrow> path \<Rightarrow> index" where
  "index_step h index relPath =
     (case fmlookup h relPath of
        None \<Rightarrow> index
      | Some entry \<Rightarrow>
          (if fe_taskIdentifier entry = [] then index
           else fmupd (fe_taskIdentifier entry) (index_paths index (fe_taskIdentifier entry) @ [relPath]) index))"

definition publishIndex :: "'w scan_lib \<Rightarrow> scan_state \<Rightarrow> scan_state" where
  "publishIndex X st =
     st\<lparr>scan_index := foldl (index_step (hashes st)) fmempty (map_order X (fmdom (hashes st)))\<rparr>"

definition isStuckPlanningTask ::
  "'w world \<Rightarrow> pure_lib \<Rightarrow> yaml_nodes \<Rightarrow> 'w scan_lib \<Rightarrow> 'w vaultScanner \<Rightarrow> path \<Rightarrow> instant \<Rightarrow> 'w \<Rightarrow> bool \<times> 'w" where
  "isStuckPlanningTask W L Y X v relPath now w =
     (case readFile (sc_ops v) relPath w of
        (Inl _, w) \<Rightarrow> (False, w)
      | (Inr file, w) \<Rightarrow>
          (case parseFrontmatterMap L Y file of
             None \<Rightarrow> False
           | Some m \<Rightarrow>
               stringField m ''task_type'' = ''github-update-go'' \<and> stringField m ''phase'' = ''planning'' \<and>
               stringField m ''status'' = ''in_progress'' \<and>
               (case parse_RFC3339 X (stringField m ''job_started_at'') of
                  None \<Rightarrow> False
                | Some startedAt \<Rightarrow>
                    \<not> now - startedAt \<le> 24 * Hour \<and> Contains (scanner_extractBody file) ([nl] @ ''## Failure'')), w))"

fun countStuckPlanningTasks ::
  "'w world \<Rightarrow> pure_lib \<Rightarrow> yaml_nodes \<Rightarrow> 'w scan_lib \<Rightarrow> 'w vaultScanner \<Rightarrow> path list \<Rightarrow> instant \<Rightarrow> int \<Rightarrow> 'w \<Rightarrow> int \<times> 'w" where
  "countStuckPlanningTasks W L Y X v [] now stuck w = (stuck, w)"
| "countStuckPlanningTasks W L Y X v (relPath # paths) now stuck w =
     (if ctx_err W w \<noteq> None then (stuck, w)
      else if \<not> HasPrefix (Base relPath) ''Update Go '' then countStuckPlanningTasks W L Y X v paths now stuck w
      else case isStuckPlanningTask W L Y X v relPath now w of (is_stuck, w) \<Rightarrow>
             countStuckPlanningTasks W L Y X v paths now (if is_stuck then stuck + 1 else stuck) w)"

text \<open>The per-file loop; no result when the context ends in between.\<close>

fun process_loop ::
  "'w world \<Rightarrow> pure_lib \<Rightarrow> yaml_nodes \<Rightarrow> 'w scan_lib \<Rightarrow> 'w vaultScanner \<Rightarrow> path list \<Rightarrow> Task list \<Rightarrow> path list \<Rightarrow> bool
     \<Rightarrow> scan_state \<Rightarrow> 'w \<Rightarrow> (Task list \<times> path list \<times> bool) option \<times> scan_state \<times> 'w" where
  "process_loop W L Y X v [] changed written writeError st w = (Some (changed, written, writeError), st, w)"
| "process_loop W L Y X v (relPath # paths) changed written writeError st w =
     (if ctx_err W w \<noteq> None then (None, st, w)
      else case processFile W L Y X v relPath st w of ((task, wrote, werr), st, w) \<Rightarrow>
             process_loop W L Y X v paths
               (case task of Some t \<Rightarrow> changed @ [t] | None \<Rightarrow> changed)
               (if wrote \<noteq> [] then written @ [wrote] else written)
               (writeError \<or> werr) st w)"

definition scanFiles ::
  "'w world \<Rightarrow> pure_lib \<Rightarrow> yaml_nodes \<Rightarrow> 'w scan_lib \<Rightarrow> 'w vaultScanner \<Rightarrow> scan_state \<Rightarrow> 'w
     \<Rightarrow> (Task list \<times> task_id list \<times> path list \<times> bool) \<times> scan_state \<times> 'w" where
  "scanFiles W L Y X v st w =
     (case listFiles (sc_ops v) (sc_taskDir v @ ''/*.md'') w of
        (Inl _, w) \<Rightarrow> (([], [], [], False), st, w)
      | (Inr paths, w) \<Rightarrow>
          (case collectDeleted W X (set paths) (hashes st) w of (deleted, h) \<Rightarrow>
             (case process_loop W L Y X v paths [] [] False (st\<lparr>hashes := h\<rparr>) w of
                (None, st, w) \<Rightarrow> (([], [], [], False), st, w)
              | (Some (changed, written, writeError), st, w) \<Rightarrow>
                  (case escalateCappedIdleTasks W L X v st w of ((escalated, escalateError), st, w) \<Rightarrow>
                     (case clock_now W w of (now, w) \<Rightarrow>
                        (case countStuckPlanningTasks W L Y X v paths now 0 w of (stuck, w) \<Rightarrow>
                           ((changed, deleted, written, writeError \<or> escalateError),
                            publishIndex X st,
                            set_gauge X ''agent_controller_update_go_stuck_planning_tasks'' [] stuck w)))))))"

text \<open>One cycle; the result offered on the channel, or nothing.\<close>

definition RunCycle ::
  "'w world \<Rightarrow> pure_lib \<Rightarrow> yaml_nodes \<Rightarrow> 'w scan_lib \<Rightarrow> 'w vaultScanner \<Rightarrow> scan_state \<Rightarrow> 'w
     \<Rightarrow> ScanResult option \<times> scan_state \<times> 'w" where
  "RunCycle W L Y X v st w =
     (case Pull W (sc_gitClient v) w of
        (Inl _, w) \<Rightarrow> (None, st, w)
      | (Inr _, w) \<Rightarrow>
          (case scanFiles W L Y X v st w of ((changed, deleted, written, writeError), st, w) \<Rightarrow>
             (let result = \<lparr>Changed = changed, Deleted = deleted\<rparr>
              in if written \<noteq> [] \<and> \<not> writeError
                 then (case CommitAndPush W (sc_gitClient v) ''[agent-task-controller] update task metadata'' w of
                         (Inl _, w) \<Rightarrow> (None, st, w)
                       | (Inr _, w) \<Rightarrow> (Some result, st, w))
                 else (Some result, st, w))))"

section \<open>Index at start\<close>

fun build_loop ::
  "'w world \<Rightarrow> pure_lib \<Rightarrow> 'w vaultScanner \<Rightarrow> path list \<Rightarrow> index \<Rightarrow> path list \<Rightarrow> 'w \<Rightarrow> (index \<times> path list) option \<times> 'w" where
  "build_loop W L v [] index cappedAssigned w = (Some (index, cappedAssigned), w)"
| "build_loop W L v (relPath # paths) index cappedAssigned w =
     (if ctx_err W w \<noteq> None then (None, w)
      else case readFile (sc_ops v) relPath w of
             (Inl _, w) \<Rightarrow> build_loop W L v paths index cappedAssigned w
           | (Inr file, w) \<Rightarrow>
               (case scanner_extractFrontmatter file of
                  Inl _ \<Rightarrow> build_loop W L v paths index cappedAssigned w
                | Inr fmYAML \<Rightarrow>
                    (case yaml_Unmarshal L fmYAML of
                       Inl _ \<Rightarrow> build_loop W L v paths index cappedAssigned w
                     | Inr m \<Rightarrow>
                         (let taskID = string_or_empty (as_string (fm_get m ''task_identifier''))
                          in if taskID = [] \<or> \<not> isValidUUID L taskID then build_loop W L v paths index cappedAssigned w
                             else build_loop W L v paths
                                    (fmupd taskID (index_paths index taskID @ [relPath]) index)
                                    (if isCappedIdle L m \<and> lib_Assignee L m \<noteq> [] then cappedAssigned @ [relPath]
                                     else cappedAssigned) w))))"

definition buildIndex ::
  "'w world \<Rightarrow> pure_lib \<Rightarrow> 'w vaultScanner \<Rightarrow> scan_state \<Rightarrow> 'w \<Rightarrow> scan_state \<times> 'w" where
  "buildIndex W L v st w =
     (case listFiles (sc_ops v) (sc_taskDir v @ ''/*.md'') w of
        (Inl _, w) \<Rightarrow> (st, w)
      | (Inr paths, w) \<Rightarrow>
          (case build_loop W L v paths fmempty [] w of
             (None, w) \<Rightarrow> (st, w)
           | (Some (index, cappedAssigned), w) \<Rightarrow>
               (case escalateCappedPaths W L v cappedAssigned 0 False (st\<lparr>scan_index := index\<rparr>) w of
                  (_, st, w) \<Rightarrow> (st, w))))"

section \<open>The world moves forward\<close>

text \<open>What the scanner relies on of its file operations, the UUID generator and the gauges, and that every
  step of a cycle inherits it.\<close>

locale scanner_world = forward_world W R for W :: "'w world" and R +
  fixes X :: "'w scan_lib" and v :: "'w vaultScanner"
  assumes list_R: "R w (snd (listFiles (sc_ops v) g w))"
    and read_R: "R w (snd (readFile (sc_ops v) p w))"
    and write_R: "R w (snd (writeFile (sc_ops v) p b w))"
    and uuid_R: "R w (snd (new_uuid X w))"
    and gauge_R: "R w (set_gauge X n ls i w)"
begin

lemma skip_R: "reason \<in> set AvailableSkipReasons \<Longrightarrow> R w (SkippedFilesTotal W reason w)"
  by (simp add: SkippedFilesTotal_def metric_R)

lemma writeCounterReset_R: "writeCounterReset W L v p w = (r, w') \<Longrightarrow> R w w'"
  using rmw_R [of w "sc_gitClient v" "JoinPath (Path (sc_gitClient v)) p" "\<lambda>current s. (resetCounters L current, s)"
      "''[agent-task-controller] reset counters for '' @ p" "()"]
  by (auto simp: writeCounterReset_def split: prod.splits sum.splits)

lemma escalateCappedTask_R: "escalateCappedTask W L v p w = (r, w') \<Longrightarrow> R w w'"
proof -
  assume run: "escalateCappedTask W L v p w = (r, w')"
  obtain now w1 where clock: "clock_now W w = (now, w1)" by (meson surj_pair)
  have "R w w1" using clock_R [of w] clock by simp
  moreover have "R w1 w'"
    using run rmw_R [of w1 "sc_gitClient v" "JoinPath (Path (sc_gitClient v)) p"
      "\<lambda>current wrote. (case escalateCappedContent L current now of
                      Inl e \<Rightarrow> (Inl e, wrote)
                    | Inr (next, changed) \<Rightarrow> (if \<not> changed then (Inr current, wrote) else (Inr next, True)))"
      "''[agent-task-controller] escalate capped task '' @ p" False]
    by (auto simp: escalateCappedTask_def clock split: prod.splits sum.splits)
  ultimately show ?thesis by (rule R_trans)
qed

lemma injectAndStore_R: "R w (snd (snd (injectAndStore W L Y X v file p a hash prev st w)))"
proof -
  obtain tid w1 where uuid: "new_uuid X w = (tid, w1)" by (meson surj_pair)
  have w1: "R w w1" using uuid_R [of w] uuid by simp
  have "R w (SkippedFilesTotal W reason w1)" if "reason \<in> set AvailableSkipReasons" for reason
    by (rule R_trans [OF w1 skip_R [OF that]])
  moreover have "R w (snd (writeFile (sc_ops v) p b w1))" for b by (rule R_trans [OF w1 write_R])
  ultimately show ?thesis
    by (auto simp: injectAndStore_def uuid split: sum.split prod.split) (metis snd_conv)+
qed

lemma process_valid_R: "R w (snd (snd (process_valid W L v p file hash m tid st w)))"
proof -
  obtain r w1 where reset: "writeCounterReset W L v p w = (r, w1)" by (meson surj_pair)
  have w1: "R w w1" by (rule writeCounterReset_R [OF reset])
  have skip: "R w (SkippedFilesTotal W reason w')" if "R w w'" "reason \<in> set AvailableSkipReasons" for reason w'
    by (rule R_trans [OF that(1) skip_R [OF that(2)]])
  show ?thesis
    unfolding process_valid_def Let_def reset prod.case
    by (auto simp: w1 R_refl skip split: option.split prod.split bool.split)
qed

lemma processFile_R: "R w (snd (snd (processFile W L Y X v p st w)))"
proof -
  obtain r w1 where read: "readFile (sc_ops v) p w = (r, w1)" by (meson surj_pair)
  have w1: "R w w1" using read_R [of w p] read by simp
  have skip: "R w (SkippedFilesTotal W reason w1)" if "reason \<in> set AvailableSkipReasons" for reason
    by (rule R_trans [OF w1 skip_R [OF that]])
  have inject: "R w (snd (snd (injectAndStore W L Y X v f p a hash prev st w1)))" for f a hash prev
    by (rule R_trans [OF w1 injectAndStore_R])
  have valid: "R w (snd (snd (process_valid W L v p f hash m tid st w1)))" for f hash m tid
    by (rule R_trans [OF w1 process_valid_R])
  show ?thesis
    unfolding processFile_def Let_def read prod.case
    by (auto simp: w1 skip inject valid split: sum.split)
qed

lemma escalateCappedPaths_R: "R w (snd (snd (escalateCappedPaths W L v ps n e st w)))"
proof (induction ps arbitrary: n e st w)
  case Nil
  then show ?case by (simp add: R_refl)
next
  case (Cons p ps)
  obtain r w1 where run: "escalateCappedTask W L v p w = (r, w1)" by (meson surj_pair)
  have step: "R w (snd (snd (escalateCappedPaths W L v ps n e st w1)))" for n e st
    by (rule R_trans [OF escalateCappedTask_R [OF run] Cons.IH])
  show ?case by (cases r) (simp_all add: run R_refl step)
qed

lemma escalateCappedIdleTasks_R: "R w (snd (snd (escalateCappedIdleTasks W L X v st w)))"
  by (simp add: escalateCappedIdleTasks_def Let_def escalateCappedPaths_R)

lemma countStuck_R: "R w (snd (countStuckPlanningTasks W L Y X v ps now n w))"
proof (induction ps arbitrary: n w)
  case Nil
  then show ?case by (simp add: R_refl)
next
  case (Cons p ps)
  obtain b w1 where run: "isStuckPlanningTask W L Y X v p now w = (b, w1)" by (meson surj_pair)
  have "R w w1" using run read_R [of w p]
    by (auto simp: isStuckPlanningTask_def split: prod.splits sum.splits)
  then have step: "R w (snd (countStuckPlanningTasks W L Y X v ps now n w1))" for n
    by (rule R_trans) (rule Cons.IH)
  show ?case by (simp add: run R_refl step Cons.IH)
qed

end

text \<open>The trace of exchanges of the scanner over git-rest only grows.\<close>

definition traced_lib :: "'w scan_lib \<Rightarrow> ('w \<times> exchange list) scan_lib" where
  "traced_lib X =
     \<lparr>sha256 = sha256 X, new_uuid = (\<lambda>(w, t). case new_uuid X w of (u, w) \<Rightarrow> (u, (w, t))), map_order = map_order X,
      parse_RFC3339 = parse_RFC3339 X, set_gauge = (\<lambda>n ls i (w, t). (set_gauge X n ls i w, t))\<rparr>"

interpretation trace_scan: scanner_world "traced W" "\<lambda>x y. prefix (snd x) (snd y)" "traced_lib X"
  "fst (NewGitRestVaultScanner (traced W) git taskDir autoInject vaultName)"
  for W :: "'w world" and X git taskDir autoInject vaultName
proof
  fix w g p b n ls i
  let ?v = "fst (NewGitRestVaultScanner (traced W) git taskDir autoInject vaultName)"
  show "prefix (snd w) (snd (snd (listFiles (sc_ops ?v) g w)))"
    using trace.List_files_R by (simp add: NewGitRestVaultScanner_def ListFiles_def)
  show "prefix (snd w) (snd (snd (readFile (sc_ops ?v) p w)))"
    using trace.ReadFile_R by (simp add: NewGitRestVaultScanner_def)
  show "prefix (snd w) (snd (snd (writeFile (sc_ops ?v) p b w)))"
    using trace.WriteFile_R by (simp add: NewGitRestVaultScanner_def)
  show "prefix (snd w) (snd (snd (new_uuid (traced_lib X) w)))"
    by (simp add: traced_lib_def split_def)
  show "prefix (snd w) (snd (set_gauge (traced_lib X) n ls i w))"
    by (simp add: traced_lib_def split_def)
qed

section \<open>Identifiers\<close>

definition ids :: "(path, fileEntry) fmap \<Rightarrow> string set" where
  "ids h = {fe_taskIdentifier e | p e. fmlookup h p = Some e}"

definition unique_ids :: "(path, fileEntry) fmap \<Rightarrow> bool" where
  "unique_ids h \<longleftrightarrow>
     (\<forall>p q e f. fmlookup h p = Some e \<longrightarrow> fmlookup h q = Some f \<longrightarrow> p \<noteq> q \<longrightarrow>
        fe_taskIdentifier e = fe_taskIdentifier f \<longrightarrow> fe_taskIdentifier e = [])"

definition fresh_ids ::
  "'w world \<Rightarrow> pure_lib \<Rightarrow> yaml_nodes \<Rightarrow> 'w scan_lib \<Rightarrow> 'w vaultScanner \<Rightarrow> ('w \<Rightarrow> string set) \<Rightarrow> bool" where
  "fresh_ids W L Y X v known \<longleftrightarrow>
     scanner_world W (\<lambda>w w'. known w \<subseteq> known w') X v \<and>
     (\<forall>w. fst (new_uuid X w) \<notin> known w \<and> fst (new_uuid X w) \<in> known (snd (new_uuid X w))) \<and>
     (\<forall>w p file m tid. fst (readFile (sc_ops v) p w) = Inr file \<longrightarrow> parseFrontmatterMap L Y file = Some m \<longrightarrow>
        as_string (fm_get m ''task_identifier'') = Some tid \<longrightarrow> tid \<in> known (snd (readFile (sc_ops v) p w)))"

definition id_inv :: "('w \<Rightarrow> string set) \<Rightarrow> scan_state \<Rightarrow> 'w \<Rightarrow> bool" where
  "id_inv known st w \<longleftrightarrow> unique_ids (hashes st) \<and> ids (hashes st) \<subseteq> insert [] (known w)"

lemma id_inv_mono: "id_inv known st w \<Longrightarrow> known w \<subseteq> known w' \<Longrightarrow> id_inv known st w'"
  by (auto simp: id_inv_def)

lemma id_inv_remember:
  assumes "id_inv known st w" and "fe_taskIdentifier e = [] \<or> fe_taskIdentifier e \<in> known w"
    and "fe_taskIdentifier e = [] \<or> isIdentifierUnique (hashes st) (fe_taskIdentifier e) p"
  shows "id_inv known (remember p e st) w"
proof -
  have "fe_taskIdentifier e = []" if "fmlookup (hashes st) q = Some f" "q \<noteq> p" "fe_taskIdentifier f = fe_taskIdentifier e" for q f
    using assms(3) that by (auto simp: isIdentifierUnique_def intro: fmdomI)
  then have "unique_ids (fmupd p e (hashes st))"
    using assms(1) unfolding id_inv_def unique_ids_def by (auto split: if_splits)
  moreover have "ids (fmupd p e (hashes st)) \<subseteq> insert [] (known w)"
    using assms(1,2) by (auto simp: id_inv_def ids_def)
  ultimately show ?thesis by (simp add: id_inv_def remember_def)
qed

lemma id_inv_not_unique: "id_inv known st w \<Longrightarrow> tid \<notin> known w \<Longrightarrow> tid \<noteq> [] \<Longrightarrow> isIdentifierUnique (hashes st) tid p"
  by (auto simp: id_inv_def ids_def isIdentifierUnique_def)

lemma fresh_idsD:
  assumes "fresh_ids W L Y X v known"
  shows fresh_world: "scanner_world W (\<lambda>w w'. known w \<subseteq> known w') X v"
    and fresh_uuid: "new_uuid X w = (tid, w') \<Longrightarrow> tid \<notin> known w \<and> tid \<in> known w' \<and> known w \<subseteq> known w'"
    and fresh_read: "readFile (sc_ops v) p w = (Inr file, w') \<Longrightarrow> parseFrontmatterMap L Y file = Some m \<Longrightarrow>
          as_string (fm_get m ''task_identifier'') = Some tid \<Longrightarrow> tid \<in> known w'"
proof -
  show world: "scanner_world W (\<lambda>w w'. known w \<subseteq> known w') X v" using assms by (simp add: fresh_ids_def)
  show "tid \<notin> known w \<and> tid \<in> known w' \<and> known w \<subseteq> known w'" if "new_uuid X w = (tid, w')"
    using assms that scanner_world.uuid_R [OF world, of w] by (auto simp: fresh_ids_def dest: spec [of _ w])
  show "tid \<in> known w'" if "readFile (sc_ops v) p w = (Inr file, w')" "parseFrontmatterMap L Y file = Some m"
    "as_string (fm_get m ''task_identifier'') = Some tid"
    using assms that unfolding fresh_ids_def by (metis fst_conv snd_conv)
qed

text \<open>What one file can do to the bookkeeping: nothing, or an entry of its own with a given identifier.\<close>

definition own_entry :: "path \<Rightarrow> string set \<Rightarrow> scan_state \<Rightarrow> scan_state \<Rightarrow> bool" where
  "own_entry p T st st' \<longleftrightarrow> st' = st \<or> (\<exists>e. fe_taskIdentifier e \<in> T \<and> st' = remember p e st)"

lemma own_entry_simps [simp]:
  "own_entry p T st st"
  "fe_taskIdentifier e \<in> T \<Longrightarrow> own_entry p T st (remember p e st)"
  by (auto simp: own_entry_def)

lemma own_entry_inv:
  assumes "id_inv known st w" and "own_entry p T st st'"
    and "\<forall>t \<in> T. t = [] \<or> t \<in> known w \<and> isIdentifierUnique (hashes st) t p"
  shows "id_inv known st' w"
  using assms id_inv_remember [OF assms(1)] unfolding own_entry_def by blast

lemma injectAndStore_state:
  assumes "new_uuid X w = (tid, w1)" and "injectAndStore W L Y X v cont p a hash prev st w = (out, st', w')"
  shows "own_entry p {[], tid} st st'"
  using assms(2) unfolding injectAndStore_def assms(1) prod.case by (auto split: sum.splits prod.splits if_splits)

lemma process_valid_state:
  "process_valid W L v p cont hash m tid st w = (out, st', w') \<Longrightarrow> own_entry p {tid} st st'"
  unfolding process_valid_def Let_def by (auto split: prod.splits option.splits bool.splits if_splits)

lemma injectAndStore_inv:
  assumes fresh: "fresh_ids W L Y X v known" and inv: "id_inv known st w"
    and run: "injectAndStore W L Y X v cont p a hash prev st w = (out, st', w')"
  shows "id_inv known st' w'"
proof -
  obtain tid w1 where uuid: "new_uuid X w = (tid, w1)" by (meson surj_pair)
  note new = fresh_uuid [OF fresh uuid]
  have mono: "known w1 \<subseteq> known w'"
  proof -
    note world = fresh_world [OF fresh]
    have mono: "known w1 \<subseteq> known (SkippedFilesTotal W r w1)" if "r \<in> set AvailableSkipReasons" for r
      by (rule scanner_world.skip_R [OF world that])
    have writes: "known w1 \<subseteq> known w2" if "writeFile (sc_ops v) p b w1 = (r, w2)" for b r w2
      using scanner_world.write_R [OF world, of w1 p b] that by simp
    show ?thesis
      using run unfolding injectAndStore_def uuid prod.case
      by (auto split: sum.splits prod.splits if_splits dest!: writes intro: subsetD [OF mono])
  qed
  have "id_inv known st' w1"
  proof (rule own_entry_inv [OF _ injectAndStore_state [OF uuid run]])
    show "id_inv known st w1" using id_inv_mono [OF inv] new by blast
    show "\<forall>t \<in> {[], tid}. t = [] \<or> t \<in> known w1 \<and> isIdentifierUnique (hashes st) t p"
      using new id_inv_not_unique [OF inv] by blast
  qed
  then show ?thesis using mono by (rule id_inv_mono)
qed

lemma process_valid_inv:
  assumes fresh: "fresh_ids W L Y X v known" and inv: "id_inv known st w" and known: "tid \<in> known w"
    and unique: "isIdentifierUnique (hashes st) tid p"
    and run: "process_valid W L v p cont hash m tid st w = (out, st', w')"
  shows "id_inv known st' w'"
proof -
  have mono: "known w \<subseteq> known w'"
    using scanner_world.process_valid_R [OF fresh_world [OF fresh], of w L p cont hash m tid st] run by simp
  show ?thesis
    by (rule id_inv_mono [OF own_entry_inv [OF inv process_valid_state [OF run]] mono]) (simp add: known unique)
qed

lemma processFile_inv:
  assumes fresh: "fresh_ids W L Y X v known" and inv: "id_inv known st w"
    and run: "processFile W L Y X v p st w = (out, st', w')"
  shows "id_inv known st' w'"
proof -
  obtain r w1 where read: "readFile (sc_ops v) p w = (r, w1)" by (meson surj_pair)
  note world = fresh_world [OF fresh]
  have inv1: "id_inv known st w1" using id_inv_mono [OF inv] scanner_world.read_R [OF world, of w p] read by simp
  have skip: "id_inv known st (SkippedFilesTotal W reason w1)" if "reason \<in> set AvailableSkipReasons" for reason
    by (rule id_inv_mono [OF inv1 scanner_world.skip_R [OF world that]])
  show ?thesis
  proof (cases r)
    case (Inl e)
    then show ?thesis using run skip by (auto simp: processFile_def read)
  next
    case (Inr f)
    have parse: "parseFrontmatterMap L Y f = Some m"
      if "scanner_extractFrontmatter f = Inr y" "DeduplicateFrontmatter Y y = Inr (d, b)" "yaml_Unmarshal L d = Inr m" for y d b m
      using that by (simp add: parseFrontmatterMap_def)
    have known: "tid \<in> known w1" if "parseFrontmatterMap L Y f = Some m" "as_string (fm_get m ''task_identifier'') = Some tid" for m tid
      using fresh_read [OF fresh read [unfolded Inr] that] .
    have valid: "id_inv known st' w'"
      if "process_valid W L v p f hash m tid st w1 = (out, st', w')" "isIdentifierUnique (hashes st) tid p"
        "fm_get m ''task_identifier'' = Some y" "as_string (Some y) = Some tid" "scanner_extractFrontmatter f = Inr u"
        "DeduplicateFrontmatter Y u = Inr (d, b)" "yaml_Unmarshal L d = Inr m" for hash m tid y u d b
      using process_valid_inv [OF fresh inv1 known [OF parse [OF that(5-7)]] that(2,1)] that(3,4) by simp
    show ?thesis
      using run inv1 skip unfolding processFile_def read Inr prod.case sum.case Let_def
      by (auto split: sum.splits prod.splits if_splits
          intro: injectAndStore_inv [OF fresh inv1] valid)
  qed
qed

lemma process_loop_inv:
  assumes "fresh_ids W L Y X v known" and "id_inv known st w"
    and "process_loop W L Y X v ps changed written e st w = (out, st', w')"
  shows "id_inv known st' w'"
  using assms(2,3)
proof (induction ps arbitrary: changed written e st w)
  case (Cons p ps)
  obtain task wrote werr st1 w1 where run: "processFile W L Y X v p st w = ((task, wrote, werr), st1, w1)"
    by (metis prod_cases3 surj_pair)
  show ?case
    using Cons.prems Cons.IH [OF processFile_inv [OF assms(1) Cons.prems(1) run]] by (auto simp: run split: if_splits)
qed simp

lemma sub_state_inv:
  assumes "id_inv known st w"
    and "\<And>p e. fmlookup (hashes st') p = Some e \<Longrightarrow>
           \<exists>f. fmlookup (hashes st) p = Some f \<and> fe_taskIdentifier f = fe_taskIdentifier e"
  shows "id_inv known st' w"
proof -
  have "ids (hashes st') \<subseteq> ids (hashes st)" 
  proof
    fix x
    assume "x \<in> ids (hashes st')"
    then obtain p e where "fmlookup (hashes st') p = Some e" and x: "x = fe_taskIdentifier e" by (auto simp: ids_def)
    then obtain f where "fmlookup (hashes st) p = Some f" and "x = fe_taskIdentifier f" using assms(2) by force
    then show "x \<in> ids (hashes st)" by (auto simp: ids_def)
  qed
  moreover have "unique_ids (hashes st')"
    unfolding unique_ids_def
  proof (intro allI impI)
    fix p q e f
    assume e: "fmlookup (hashes st') p = Some e" and f: "fmlookup (hashes st') q = Some f" and "p \<noteq> q"
      and same: "fe_taskIdentifier e = fe_taskIdentifier f"
    obtain e0 f0 where "fmlookup (hashes st) p = Some e0" "fe_taskIdentifier e0 = fe_taskIdentifier e"
      "fmlookup (hashes st) q = Some f0" "fe_taskIdentifier f0 = fe_taskIdentifier f"
      using assms(2) [OF e] assms(2) [OF f] by blast
    then show "fe_taskIdentifier e = []"
      using assms(1) \<open>p \<noteq> q\<close> same unfolding id_inv_def unique_ids_def by metis
  qed
  ultimately show ?thesis using assms(1) unfolding id_inv_def by blast
qed

lemma collect_loop_sub:
  "collect_loop W seen ps d h w = (d', h') \<Longrightarrow> fmlookup h' p = Some e \<Longrightarrow> fmlookup h p = Some e"
proof (induction ps arbitrary: d h)
  case (Cons q ps)
  define d1 where "d1 = (let tid = (case fmlookup h q of Some entry \<Rightarrow> fe_taskIdentifier entry | None \<Rightarrow> [])
    in if tid = [] then d else d @ [tid])"
  show ?case
  proof (cases "ctx_err W w = None \<and> q \<notin> seen")
    case True
    then have "collect_loop W seen ps d1 (fmdrop q h) w = (d', h')" using Cons.prems(1) by (simp add: d1_def Let_def)
    from Cons.IH [OF this Cons.prems(2)] show ?thesis by (simp split: if_splits)
  next
    case False
    then show ?thesis using Cons.prems Cons.IH [of d h] by (auto split: if_splits)
  qed
qed simp

lemma escalateCappedPaths_sub:
  "escalateCappedPaths W L v ps n e st w = (out, st', w') \<Longrightarrow> fmlookup (hashes st') p = Some x \<Longrightarrow>
   \<exists>f. fmlookup (hashes st) p = Some f \<and> fe_taskIdentifier f = fe_taskIdentifier x"
proof (induction ps arbitrary: n e st w)
  case (Cons q ps)
  obtain r w1 where run: "escalateCappedTask W L v q w = (r, w1)" by (meson surj_pair)
  define st1 where "st1 = (case fmlookup (hashes st) q of
      None \<Rightarrow> st | Some entry \<Rightarrow> st\<lparr>hashes := fmupd q (swept_entry entry) (hashes st)\<rparr>)"
  have "\<exists>f. fmlookup (hashes st) p = Some f \<and> fe_taskIdentifier f = fe_taskIdentifier x"
    if "\<exists>f. fmlookup (hashes st1) p = Some f \<and> fe_taskIdentifier f = fe_taskIdentifier x"
    using that by (auto simp: st1_def swept_entry_def split: option.splits if_splits)
  moreover note Cons.IH [of _ _ st w1] Cons.IH [of _ _ st1 w1]
  ultimately show ?case
    using Cons.prems by (auto simp: run st1_def [symmetric] split: if_splits sum.splits)
qed auto

lemma scanFiles_inv:
  assumes fresh: "fresh_ids W L Y X v known" and inv: "id_inv known st w"
    and run: "scanFiles W L Y X v st w = (out, st', w')"
  shows "id_inv known st' w'"
proof -
  note world = fresh_world [OF fresh]
  obtain r w1 where list: "listFiles (sc_ops v) (sc_taskDir v @ ''/*.md'') w = (r, w1)" by (meson surj_pair)
  have inv1: "id_inv known st w1" using id_inv_mono [OF inv] scanner_world.list_R [OF world, of w] list by (metis snd_conv)
  show ?thesis
  proof (cases r)
    case (Inl e)
    then show ?thesis using run inv1 by (auto simp: scanFiles_def list)
  next
    case (Inr paths)
    obtain d h where collect: "collectDeleted W X (set paths) (hashes st) w1 = (d, h)" by (meson surj_pair)
    have inv2: "id_inv known (st\<lparr>hashes := h\<rparr>) w1"
    proof (rule sub_state_inv [OF inv1])
      fix p e
      assume "fmlookup (hashes (st\<lparr>hashes := h\<rparr>)) p = Some e"
      then show "\<exists>f. fmlookup (hashes st) p = Some f \<and> fe_taskIdentifier f = fe_taskIdentifier e"
        using collect_loop_sub [OF collect [unfolded collectDeleted_def], of p e] by simp
    qed
    obtain lo st2 w2 where loop: "process_loop W L Y X v paths [] [] False (st\<lparr>hashes := h\<rparr>) w1 = (lo, st2, w2)"
      by (metis surj_pair)
    have inv3: "id_inv known st2 w2" by (rule process_loop_inv [OF fresh inv2 loop])
    obtain n e st3 w3 where esc: "escalateCappedIdleTasks W L X v st2 w2 = ((n, e), st3, w3)" by (metis surj_pair)
    obtain now w4 where clock: "clock_now W w3 = (now, w4)" by (meson surj_pair)
    obtain stuck w5 where count: "countStuckPlanningTasks W L Y X v paths now 0 w4 = (stuck, w5)" by (meson surj_pair)
    have inv4: "id_inv known st3 w2"
      by (rule sub_state_inv [OF inv3 escalateCappedPaths_sub [OF esc [unfolded escalateCappedIdleTasks_def Let_def]]])
    have "known w2 \<subseteq> known w3"
      using scanner_world.escalateCappedIdleTasks_R [OF world, of w2 L st2] esc by simp
    also have "\<dots> \<subseteq> known w4"
      using forward_world.clock_R [OF scanner_world.axioms(1) [OF world], of w3] clock by simp
    also have "\<dots> \<subseteq> known w5"
      using scanner_world.countStuck_R [OF world, of w4 L Y paths now 0] count by simp
    also have "\<dots> \<subseteq> known (set_gauge X ''agent_controller_update_go_stuck_planning_tasks'' [] stuck w5)"
      by (rule scanner_world.gauge_R [OF world])
    finally have last: "id_inv known st3 (set_gauge X ''agent_controller_update_go_stuck_planning_tasks'' [] stuck w5)"
      by (rule id_inv_mono [OF inv4])
    have "id_inv known (publishIndex X st3) w = id_inv known st3 w" for w by (simp add: id_inv_def publishIndex_def)
    then show ?thesis
      using run last inv3
      by (auto simp: scanFiles_def list Inr collect loop esc clock count split: option.splits prod.splits)
  qed
qed

lemma RunCycle_inv:
  assumes "fresh_ids W L Y X v known" and "id_inv known st w" and "RunCycle W L Y X v st w = (out, st', w')"
  shows "id_inv known st' w'"
proof -
  obtain c d wr e st1 w1 where scan: "scanFiles W L Y X v st w = ((c, d, wr, e), st1, w1)" by (metis surj_pair)
  then have "st' = st1 \<and> w' = w1"
    using assms(3) by (auto simp: RunCycle_def Pull_def CommitAndPush_def scan Let_def split: if_splits)
  with scanFiles_inv [OF assms(1,2) scan] show ?thesis by simp
qed

section \<open>The published index\<close>

definition order_ok :: "'w scan_lib \<Rightarrow> bool" where
  "order_ok X \<longleftrightarrow> (\<forall>s. set (map_order X s) = fset s \<and> distinct (map_order X s))"

lemma index_fold:
  "tid \<noteq> [] \<Longrightarrow> index_paths (foldl (index_step h) idx ps) tid =
     index_paths idx tid @ filter (\<lambda>p. map_option fe_taskIdentifier (fmlookup h p) = Some tid) ps"
proof (induction ps arbitrary: idx)
  case (Cons p ps)
  have "index_paths (index_step h idx p) tid =
      index_paths idx tid @ (if map_option fe_taskIdentifier (fmlookup h p) = Some tid then [p] else [])"
    using Cons.prems by (auto simp: index_step_def index_paths_def split: option.splits)
  then show ?case using Cons by simp
qed simp

lemma index_fold_empty_id: "index_paths (foldl (index_step h) idx ps) [] = index_paths idx []"
  by (induction ps arbitrary: idx) (auto simp: index_step_def index_paths_def split: option.splits)

lemma distinct_singleton: "distinct xs \<Longrightarrow> \<forall>x \<in> set xs. \<forall>y \<in> set xs. x = y \<Longrightarrow> xs = [] \<or> (\<exists>x. xs = [x])"
proof (cases xs)
  case (Cons x ys)
  assume *: "distinct xs" "\<forall>x \<in> set xs. \<forall>y \<in> set xs. x = y"
  have "ys = []"
  proof (cases ys)
    case ys: (Cons y zs)
    then have "x = y" using *(2) [rule_format, of x y] Cons by simp
    with * Cons ys show ?thesis by simp
  qed
  then show ?thesis using Cons by simp
qed simp

lemma published_paths:
  assumes "order_ok X" and "unique_ids (hashes st)" and "tid \<noteq> []"
  shows "index_paths (scan_index (publishIndex X st)) tid = [] \<or> (\<exists>p. index_paths (scan_index (publishIndex X st)) tid = [p])"
    and "set (index_paths (scan_index (publishIndex X st)) tid) =
           {p. \<exists>e. fmlookup (hashes st) p = Some e \<and> fe_taskIdentifier e = tid}"
proof -
  define ps where "ps = index_paths (scan_index (publishIndex X st)) tid"
  have eq: "ps = filter (\<lambda>p. map_option fe_taskIdentifier (fmlookup (hashes st) p) = Some tid) (map_order X (fmdom (hashes st)))"
    using index_fold [OF assms(3), of "hashes st" fmempty] by (simp add: ps_def publishIndex_def index_paths_def)
  show set: "set ps = {p. \<exists>e. fmlookup (hashes st) p = Some e \<and> fe_taskIdentifier e = tid}"
    using assms(1) by (auto simp: eq order_ok_def intro: fmdomI)
  have "distinct ps" using assms(1) by (simp add: eq order_ok_def)
  then show "ps = [] \<or> (\<exists>p. ps = [p])"
  proof (rule distinct_singleton)
    show "\<forall>x \<in> set ps. \<forall>y \<in> set ps. x = y"
    proof (intro ballI)
      fix x y
      assume "x \<in> set ps" and "y \<in> set ps"
      then obtain e f where "fmlookup (hashes st) x = Some e" "fmlookup (hashes st) y = Some f"
        "fe_taskIdentifier e = tid" "fe_taskIdentifier f = tid" unfolding set by auto
      then show "x = y" using assms(2,3) unfolding unique_ids_def by metis
    qed
  qed
qed

definition index_ok :: "index \<Rightarrow> bool" where
  "index_ok idx \<longleftrightarrow> (\<forall>tid. length (index_paths idx tid) \<le> 1)"

lemma index_ok_Resolve: "index_ok idx \<Longrightarrow> \<exists>r. Resolve idx tid = Inr r"
proof -
  assume "index_ok idx"
  then have "length (index_paths idx tid) \<le> 1" by (simp add: index_ok_def)
  then show ?thesis by (cases "index_paths idx tid" rule: remdups_adj.cases) (auto simp: Resolve_def)
qed

lemma publishIndex_ok: "order_ok X \<Longrightarrow> unique_ids (hashes st) \<Longrightarrow> index_ok (scan_index (publishIndex X st))"
proof -
  assume o: "order_ok X" "unique_ids (hashes st)"
  have "length (index_paths (scan_index (publishIndex X st)) tid) \<le> 1" for tid
    using published_paths(1) [OF o, of tid] index_fold_empty_id [of "hashes st" fmempty]
    by (cases "tid = []") (auto simp: publishIndex_def index_paths_def)
  then show ?thesis by (simp add: index_ok_def)
qed

lemma processFile_index: "processFile W L Y X v p st w = (out, st', w') \<Longrightarrow> scan_index st' = scan_index st"
proof -
  have own: "scan_index st' = scan_index st" if "own_entry p T st st'" for T st'
    using that by (auto simp: own_entry_def remember_def)
  have inject: "scan_index st' = scan_index st"
    if "injectAndStore W L Y X v c p a hash prev st u = (out, st', w')" for c a hash prev u out st' w'
    using own injectAndStore_state that by (metis surj_pair)
  have valid: "scan_index st' = scan_index st"
    if "process_valid W L v p c hash m tid st u = (out, st', w')" for c hash m tid u out st' w'
    using own process_valid_state that by metis
  assume "processFile W L Y X v p st w = (out, st', w')"
  then show ?thesis
    unfolding processFile_def Let_def by (auto split: sum.splits prod.splits if_splits dest!: inject valid)
qed

lemma process_loop_index:
  "process_loop W L Y X v ps changed written e st w = (out, st', w') \<Longrightarrow> scan_index st' = scan_index st"
proof (induction ps arbitrary: changed written e st w)
  case (Cons p ps)
  obtain task wrote werr st1 w1 where run: "processFile W L Y X v p st w = ((task, wrote, werr), st1, w1)"
    by (metis surj_pair)
  show ?case using Cons.prems Cons.IH processFile_index [OF run] by (auto simp: run split: if_splits)
qed simp

lemma scanFiles_index:
  assumes "order_ok X" and "fresh_ids W L Y X v known" and "id_inv known st w" and "index_ok (scan_index st)"
    and "scanFiles W L Y X v st w = (out, st', w')"
  shows "index_ok (scan_index st')"
proof -
  have "unique_ids (hashes st')" using scanFiles_inv [OF assms(2,3,5)] by (simp add: id_inv_def)
  then have pub: "index_ok (scan_index st')" if "st' = publishIndex X st2" for st2
    using publishIndex_ok [OF assms(1), of st2] that by (simp add: publishIndex_def)
  have "scan_index st' = scan_index st \<or> (\<exists>st2. st' = publishIndex X st2)"
    using assms(5) unfolding scanFiles_def
    by (auto split: sum.splits prod.splits option.splits dest!: process_loop_index)
  then show ?thesis using pub assms(4) by auto
qed

text \<open>A cycle that can list the files publishes the index of the bookkeeping it leaves; one that cannot changes nothing.\<close>

lemma process_loop_completes:
  "\<forall>w. ctx_err W w = None \<Longrightarrow> process_loop W L Y X v ps changed written e st w = (out, st', w') \<Longrightarrow> out \<noteq> None"
  by (induction ps arbitrary: changed written e st w) (auto split: prod.splits)

lemma publishIndex_idem: "publishIndex X (publishIndex X st) = publishIndex X st"
  by (simp add: publishIndex_def)

lemma scanFiles_publishes:
  assumes "\<forall>w. ctx_err W w = None" and "scanFiles W L Y X v st w = (out, st', w')"
  shows "case fst (listFiles (sc_ops v) (sc_taskDir v @ ''/*.md'') w) of Inl _ \<Rightarrow> st' = st | Inr _ \<Rightarrow> st' = publishIndex X st'"
  using assms(2) unfolding scanFiles_def
  by (auto simp: publishIndex_idem split: sum.splits prod.splits option.splits dest!: process_loop_completes [OF assms(1)])

lemma RunCycle_scans:
  assumes "RunCycle W L Y X v st w = (out, st', w')"
  obtains res where "scanFiles W L Y X v st w = (res, st', w')"
  using assms by (auto simp: RunCycle_def Pull_def CommitAndPush_def Let_def split: prod.splits if_splits)

section \<open>Runs\<close>

fun cycles :: "'w world \<Rightarrow> pure_lib \<Rightarrow> yaml_nodes \<Rightarrow> 'w scan_lib \<Rightarrow> 'w vaultScanner \<Rightarrow> nat \<Rightarrow> scan_state \<Rightarrow> 'w \<Rightarrow> scan_state \<times> 'w" where
  "cycles W L Y X v 0 st w = (st, w)"
| "cycles W L Y X v (Suc n) st w = (case RunCycle W L Y X v st w of (_, st, w) \<Rightarrow> cycles W L Y X v n st w)"

lemma cycles_inv:
  assumes "order_ok X" and "fresh_ids W L Y X v known" and "id_inv known st w" and "index_ok (scan_index st)"
    and "cycles W L Y X v n st w = (st', w')"
  shows "id_inv known st' w' \<and> index_ok (scan_index st')"
  using assms(3-5)
proof (induction n arbitrary: st w)
  case (Suc n)
  obtain c d wr e st1 w1 where scan: "scanFiles W L Y X v st w = ((c, d, wr, e), st1, w1)" by (metis surj_pair)
  obtain out where run: "RunCycle W L Y X v st w = (out, st1, w1)"
    by (cases "wr \<noteq> [] \<and> \<not> e") (auto simp: RunCycle_def Pull_def CommitAndPush_def scan Let_def)
  show ?case
    by (rule Suc.IH [OF scanFiles_inv [OF assms(2) Suc.prems(1) scan] scanFiles_index [OF assms(1,2) Suc.prems(1,2) scan]])
      (use Suc.prems(3) run in simp)
qed simp

text \<open>C7: As long as no minted UUID was seen before, no two entries of the bookkeeping ever share an identifier, after any
  number of scan cycles from the empty state, and the index the cycles left resolves every identifier without an error. If
  the context stays alive, a cycle that can list the files leaves an index that resolves an identifier to exactly the file
  that the bookkeeping records it for; a cycle that cannot list them leaves bookkeeping and index as they were.\<close>

theorem scan_keeps_identifiers_unique:
  assumes "order_ok X" and "fresh_ids W L Y X v known"
    and "cycles W L Y X v n \<lparr>hashes = fmempty, scan_index = fmempty\<rparr> w = (st, w1)"
    and "RunCycle W L Y X v st w1 = (out, st', w')"
  shows "unique_ids (hashes st') \<and> (\<forall>tid. \<exists>r. Resolve (scan_index st') tid = Inr r) \<and>
     ((\<forall>w. ctx_err W w = None) \<longrightarrow>
        (case fst (listFiles (sc_ops v) (sc_taskDir v @ ''/*.md'') w1) of
           Inl _ \<Rightarrow> st' = st
         | Inr _ \<Rightarrow> \<forall>tid p. tid \<noteq> [] \<longrightarrow>
             (Resolve (scan_index st') tid = Inr (Some p) \<longleftrightarrow>
              (\<exists>e. fmlookup (hashes st') p = Some e \<and> fe_taskIdentifier e = tid))))"
proof -
  have "id_inv known \<lparr>hashes = fmempty, scan_index = fmempty\<rparr> w"
    by (simp add: id_inv_def unique_ids_def ids_def)
  moreover have "index_ok (scan_index \<lparr>hashes = fmempty, scan_index = fmempty\<rparr>)"
    by (simp add: index_ok_def index_paths_def)
  ultimately have inv: "id_inv known st w1" and idx: "index_ok (scan_index st)"
    using cycles_inv [OF assms(1,2) _ _ assms(3)] by blast+
  obtain res where scan: "scanFiles W L Y X v st w1 = (res, st', w')" by (rule RunCycle_scans [OF assms(4)])
  have unique: "unique_ids (hashes st')" using scanFiles_inv [OF assms(2) inv scan] by (simp add: id_inv_def)
  have "Resolve (scan_index (publishIndex X st')) tid = Inr (Some p) \<longleftrightarrow>
      (\<exists>e. fmlookup (hashes st') p = Some e \<and> fe_taskIdentifier e = tid)" if "tid \<noteq> []" for tid p
  proof -
    have "(\<exists>e. fmlookup (hashes st') p = Some e \<and> fe_taskIdentifier e = tid) \<longleftrightarrow>
        p \<in> set (index_paths (scan_index (publishIndex X st')) tid)"
      unfolding published_paths(2) [OF assms(1) unique that] by simp
    then show ?thesis using published_paths(1) [OF assms(1) unique that] that by (auto simp: Resolve_def)
  qed
  then have "\<forall>w. ctx_err W w = None \<Longrightarrow> case fst (listFiles (sc_ops v) (sc_taskDir v @ ''/*.md'') w1) of
           Inl _ \<Rightarrow> st' = st
         | Inr _ \<Rightarrow> \<forall>tid p. tid \<noteq> [] \<longrightarrow>
             (Resolve (scan_index st') tid = Inr (Some p) \<longleftrightarrow>
              (\<exists>e. fmlookup (hashes st') p = Some e \<and> fe_taskIdentifier e = tid))"
    using scanFiles_publishes [OF _ scan] by (auto split: sum.splits)
  with unique index_ok_Resolve [OF scanFiles_index [OF assms(1,2) inv idx scan]] show ?thesis by blast
qed

end
