(* ===== verification/ScannerRepair.thy ===== *)
theory ScannerRepair
  imports Scanner
begin

text \<open>
  What the scanner writes: the sweep over capped idle tasks and the repair of identifiers, with the reference
  instances that show the hypotheses of the scanner's theorems can hold.
\<close>

section \<open>Rewriting a file\<close>

lemma rendered_read_back:
  assumes "yaml_ok L" and "yaml_Marshal L m = Inr s"
  obtains t m' where "scanner_extractFrontmatter (render_file s body) = Inr t" and "yaml_Unmarshal L t = Inr m'"
    and "fmrel same_value m m'" and "scanner_extractBody (render_file s body) = body"
proof -
  obtain t m' where t: "s = t @ [nl]" "\<not> Contains t ''\<newline>---''"
    and m': "yaml_Unmarshal L t = Inr m'" "fmrel same_value m m'"
    using assms unfolding yaml_ok_def by blast
  show thesis
    by (rule that [of t m']) (simp_all add: t m' render_extract [OF t(2)] scanner_extractFrontmatter_eq)
qed

text \<open>A capped idle task is parked by the sweep and stays parked: the file it writes reads back with status hold,
  an empty assignee and the former one kept, its body is the old one with the escalation section, and a second
  sweep leaves it alone.\<close>

theorem capped_sweep_parks_once:
  assumes "lib_ok L" and "yaml_ok L" and "escalateCappedContent L current now = Inr (next, True)"
  shows "(\<exists>t m. scanner_extractFrontmatter next = Inr t \<and> yaml_Unmarshal L t = Inr m \<and>
            fm_get m ''status'' = Some (VStr ''hold'') \<and> fm_get m ''assignee'' = Some (VStr []) \<and>
            (\<exists>name. name \<noteq> [] \<and> fm_get m ''previous_assignee'' = Some (VStr name))) \<and>
         (\<exists>sect. scanner_extractBody next = scanner_extractBody current @ sect) \<and>
         ContainsTriggerCapEscalation (scanner_extractBody next) \<and>
         (\<forall>now'. \<exists>b. escalateCappedContent L next now' = Inr (b, False))"
proof -
  obtain t0 m0 m1 name body s where parse: "scanner_extractFrontmatter current = Inr t0" "yaml_Unmarshal L t0 = Inr m0"
    and clear: "ClearAssignee L m0 = (name, m1)" and name: "name \<noteq> []"
    and marshal: "yaml_Marshal L (fmupd ''status'' (VStr ''hold'') m1) = Inr s"
    and nxt: "next = render_file s body"
    and body: "body = (if ContainsTriggerCapEscalation (scanner_extractBody current) then scanner_extractBody current
        else scanner_extractBody current @ TriggerCapEscalationSection
          (lib_TriggerCount L (fmupd ''status'' (VStr ''hold'') m1)) (lib_MaxTriggers L (fmupd ''status'' (VStr ''hold'') m1)) name now)"
    using assms(3) unfolding escalateCappedContent_def Let_def
    by (auto split: sum.splits prod.splits if_splits)
  obtain t m where read: "scanner_extractFrontmatter next = Inr t" "yaml_Unmarshal L t = Inr m"
    and rel: "fmrel same_value (fmupd ''status'' (VStr ''hold'') m1) m" and b: "scanner_extractBody next = body"
    using rendered_read_back [OF assms(2) marshal] unfolding nxt by metis
  have "fm_get m1 ''assignee'' = Some (VStr [])" "fm_get m1 ''previous_assignee'' = Some (VStr name)"
    using clear name clearAssignee_get [of L m0] fst_clearAssignee [of L m0] by (auto simp: ClearAssignee_def)
  then have fields: "fm_get m ''status'' = Some (VStr ''hold'')" "fm_get m ''assignee'' = Some (VStr [])"
    "fm_get m ''previous_assignee'' = Some (VStr name)"
    using fmrel_same_value_VStr [OF rel] by simp_all
  have "lib_Status L m = ''hold''" by (rule lib_Status_canon [OF assms(1) fields(1)]) simp
  then have "\<exists>b. escalateCappedContent L next now' = Inr (b, False)" for now'
    by (simp add: escalateCappedContent_def read)
  moreover have "ContainsTriggerCapEscalation body" using body by (simp add: TriggerCapEscalationSection_contains)
  moreover have "\<exists>sect. body = scanner_extractBody current @ sect" using body by auto
  ultimately show ?thesis using read fields name unfolding b by blast
qed

lemma inject_publishes_nothing: "injectAndStore W L Y X v cont p a hash prev st w = (out, st', w') \<Longrightarrow> fst out = None"
  by (auto simp: injectAndStore_def split: prod.splits sum.splits if_splits)

lemma sweep_stores_swept_entry:
  "escalateCappedPaths W L v [p] 0 False st w = ((1, e), st1, w1) \<Longrightarrow> fmlookup (hashes st) p = Some entry \<Longrightarrow>
   fmlookup (hashes st1) p = Some (swept_entry entry)"
  by (auto split: if_splits prod.splits sum.splits)

text \<open>The bookkeeping entry the sweep leaves behind makes the next cycle drop the change: a swept file whose
  assignee is empty is processed without publishing a task.\<close>

theorem swept_task_is_not_published:
  assumes "fmlookup (hashes st) p = Some (swept_entry entry)"
    and "readFile (sc_ops v) p w = (Inr cont, w1)" and "parseFrontmatterMap L Y cont = Some m" and "lib_Assignee L m = []"
  shows "fst (fst (processFile W L Y X v p st w)) = None"
proof -
  have valid: "fst (fst (process_valid W L v p cont hash m tid st w1)) = None" for hash tid
    using assms(1,4) by (simp add: process_valid_def Let_def swept_entry_def)
  have inject: "fst (fst (injectAndStore W L Y X v c p a hash prev st w1)) = None" for c a hash prev
    using inject_publishes_nothing by (metis prod.collapse)
  obtain t d b where "scanner_extractFrontmatter cont = Inr t" "DeduplicateFrontmatter Y t = Inr (d, b)" "yaml_Unmarshal L d = Inr m"
    using assms(3) by (auto simp: parseFrontmatterMap_def split: sum.splits prod.splits)
  then show ?thesis by (simp add: processFile_def assms(2) Let_def valid inject)
qed

section \<open>Repair\<close>

definition file_store :: "'w world \<Rightarrow> 'w scan_lib \<Rightarrow> 'w vaultScanner \<Rightarrow> ('w \<Rightarrow> path \<Rightarrow> bytes option) \<Rightarrow> bool" where
  "file_store W X v S \<longleftrightarrow>
     (\<forall>w p f. S w p = Some f \<longrightarrow> (\<exists>w'. readFile (sc_ops v) p w = (Inr f, w') \<and> S w' = S w)) \<and>
     (\<forall>w p b. \<exists>w'. writeFile (sc_ops v) p b w = (Inr (), w') \<and> S w' = (S w)(p \<mapsto> b)) \<and>
     (\<forall>w. S (snd (new_uuid X w)) = S w) \<and> (\<forall>m ls w. S (inc_metric W m ls w) = S w)"

lemma file_storeD:
  assumes "file_store W X v S"
  shows file_store_read: "S w p = Some f \<Longrightarrow> \<exists>w'. readFile (sc_ops v) p w = (Inr f, w') \<and> S w' = S w"
    and file_store_write: "\<exists>w'. writeFile (sc_ops v) p b w = (Inr (), w') \<and> S w' = (S w)(p \<mapsto> b)"
    and file_store_uuid: "new_uuid X w = (tid, w') \<Longrightarrow> S w' = S w"
    and file_store_skip: "S (SkippedFilesTotal W r w) = S w"
  using assms by (auto simp: file_store_def SkippedFilesTotal_def) (metis snd_conv)

lemma inject_error_any:
  "injectTaskIdentifierWithPrevious Y c tid prev = Inl e \<Longrightarrow> \<exists>e'. injectTaskIdentifierWithPrevious Y c tid' prev = Inl e'"
  by (auto simp: injectTaskIdentifierWithPrevious_def InjectTaskIdentifier_def Let_def split: sum.splits if_splits)

lemma inject_error_run:
  assumes "file_store W X v S" and "\<forall>tid. \<exists>e. injectTaskIdentifierWithPrevious Y c tid prev = Inl e"
    and "injectAndStore W L Y X v c p a hash prev st w = (out, st', w')"
  shows "st' = st \<and> S w' = S w"
proof -
  obtain tid w1 where uuid: "new_uuid X w = (tid, w1)" by (meson surj_pair)
  obtain e where "injectTaskIdentifierWithPrevious Y c tid prev = Inl e" using assms(2) by blast
  then show ?thesis
    using assms(3) file_store_skip [OF assms(1)] file_store_uuid [OF assms(1) uuid]
    by (auto simp: injectAndStore_def uuid)
qed

text \<open>The three outcomes of a repair: it cannot be injected, it would not converge, or it is written.\<close>

lemma inject_cases [consumes 2, case_names error halt written]:
  assumes store: "file_store W X v S"
    and run: "injectAndStore W L Y X v c p a hash prev st w = (out, st', w')"
  obtains (error) "S w' = S w" "st' = st" "\<forall>tid. \<exists>e. injectTaskIdentifierWithPrevious Y c tid prev = Inl e"
  | (halt) e where "S w' = S w" "st' = remember p e st" "fe_hash e = hash"
  | (written) w1 w2 tid b e where "new_uuid X w1 = (tid, w2)" "S w' = (S w)(p \<mapsto> b)" "repairConverges L Y b tid" "st' = remember p e st"
      "fe_taskIdentifier e = tid" "fe_assignee e = a"
proof -
  obtain tid w1 where uuid: "new_uuid X w = (tid, w1)" by (meson surj_pair)
  have s1: "S w1 = S w" by (rule file_store_uuid [OF store uuid])
  show thesis
  proof (cases "injectTaskIdentifierWithPrevious Y c tid prev")
    case (Inl e)
    then have "\<forall>t. \<exists>e. injectTaskIdentifierWithPrevious Y c t prev = Inl e" using inject_error_any by blast
    moreover have "st' = st \<and> S w' = S w"
      using run s1 file_store_skip [OF store] by (auto simp: injectAndStore_def uuid Inl)
    ultimately show thesis using error by blast
  next
    case (Inr b)
    show thesis
    proof (cases "repairConverges L Y b tid")
      case True
      obtain w2 where stored: "writeFile (sc_ops v) p b w1 = (Inr (), w2)" and s2: "S w2 = (S w1)(p \<mapsto> b)"
        using file_store_write [OF store] by blast
      have "w' = w2" "st' = remember p \<lparr>fe_hash = zero_hash, fe_taskIdentifier = tid, fe_assignee = a, fe_capped = False, fe_phase = []\<rparr> st"
        using run by (auto simp: injectAndStore_def uuid Inr True stored)
      then show thesis using written [OF uuid _ True] s1 s2 by simp
    next
      case False
      have "S w' = S w" "st' = remember p \<lparr>fe_hash = hash, fe_taskIdentifier = [], fe_assignee = a, fe_capped = False, fe_phase = []\<rparr> st"
        using run s1 file_store_skip [OF store] by (auto simp: injectAndStore_def uuid Inr False)
      then show thesis using halt by simp
    qed
  qed
qed

text \<open>A file is broken when its identifier is missing, no UUID or in use.\<close>

definition broken :: "pure_lib \<Rightarrow> (path, fileEntry) fmap \<Rightarrow> path \<Rightarrow> fm \<Rightarrow> bool" where
  "broken L h p m \<longleftrightarrow>
     (case as_string (fm_get m ''task_identifier'') of
        None \<Rightarrow> True
      | Some tid \<Rightarrow> \<not> isValidUUID L tid \<or> \<not> isIdentifierUnique h tid p)"

lemma processFile_broken:
  assumes "map_option fe_hash (fmlookup (hashes st) p) \<noteq> Some (sha256 X f)"
    and "parseFrontmatterMap L Y f = Some m" and "broken L (hashes st) p m" and "sc_autoInject v"
  shows "\<exists>c prev. \<forall>w w1. readFile (sc_ops v) p w = (Inr f, w1) \<longrightarrow> processFile W L Y X v p st w =
      injectAndStore W L Y X v c p (lib_Assignee L m) (sha256 X f) prev st w1"
proof -
  obtain t d b where parse: "scanner_extractFrontmatter f = Inr t" "DeduplicateFrontmatter Y t = Inr (d, b)" "yaml_Unmarshal L d = Inr m"
    using assms(2) by (auto simp: parseFrontmatterMap_def split: sum.splits prod.splits)
  define c prev where "c = (if fm_get m ''task_identifier'' = None then f else removeTaskIdentifier Y f)"
    and "prev = (case as_string (fm_get m ''task_identifier'') of
                   None \<Rightarrow> []
                 | Some tid \<Rightarrow> if isValidUUID L tid then [] else recordablePrevious tid True)"
  have "processFile W L Y X v p st w = injectAndStore W L Y X v c p (lib_Assignee L m) (sha256 X f) prev st w1"
    if "readFile (sc_ops v) p w = (Inr f, w1)" for w w1
    unfolding processFile_def that prod.case sum.case Let_def parse if_not_P [OF assms(1)]
    using assms(3,4)
    by (auto simp: broken_def c_def prev_def recordablePrevious_def string_or_empty_def split: option.splits)
  then show ?thesis by blast
qed

text \<open>The same file processed again and again, nobody else writing: \<open>repaired\<close> holds once its repair is on disk, and then
  nothing is written any more.\<close>

fun passes ::
  "'w world \<Rightarrow> pure_lib \<Rightarrow> yaml_nodes \<Rightarrow> 'w scan_lib \<Rightarrow> 'w vaultScanner \<Rightarrow> path \<Rightarrow> nat \<Rightarrow> scan_state \<Rightarrow> 'w \<Rightarrow> scan_state \<times> 'w" where
  "passes W L Y X v p 0 st w = (st, w)"
| "passes W L Y X v p (Suc n) st w = (case processFile W L Y X v p st w of (out, st, w) \<Rightarrow> passes W L Y X v p n st w)"

lemma passes_inv:
  assumes "\<And>st w out st' w'. I st w \<Longrightarrow> processFile W L Y X v p st w = (out, st', w') \<Longrightarrow> I st' w'"
  shows "I st w \<Longrightarrow> I (fst (passes W L Y X v p n st w)) (snd (passes W L Y X v p n st w))"
  by (induction n arbitrary: st w) (auto split: prod.split intro: assms)

definition repaired :: "string \<Rightarrow> string \<Rightarrow> path \<Rightarrow> scan_state \<Rightarrow> bool" where
  "repaired tid assignee p st \<longleftrightarrow> isIdentifierUnique (hashes st) tid p \<and>
     (\<exists>e. fmlookup (hashes st) p = Some e \<and> fe_taskIdentifier e = tid \<and> fe_assignee e = assignee)"

lemma repaired_remember:
  "isIdentifierUnique (hashes st) tid p \<Longrightarrow> fe_taskIdentifier e = tid \<Longrightarrow> fe_assignee e = assignee \<Longrightarrow>
   repaired tid assignee p (remember p e st)"
  by (auto simp: repaired_def isIdentifierUnique_def remember_def)

lemma process_valid_repaired:
  assumes "file_store W X v S" and "repaired tid (lib_Assignee L m) p st"
    and "process_valid W L v p b hash m tid st w = (out, st', w')"
  shows "S w' = S w \<and> repaired tid (lib_Assignee L m) p st'"
proof -
  have "repaired tid (lib_Assignee L m) p
      (remember p \<lparr>fe_hash = h, fe_taskIdentifier = tid, fe_assignee = lib_Assignee L m, fe_capped = c, fe_phase = ph\<rparr> st)" for h c ph
    using assms(2) by (intro repaired_remember) (simp_all add: repaired_def)
  moreover obtain e where "fmlookup (hashes st) p = Some e" "fe_assignee e = lib_Assignee L m"
    using assms(2) by (auto simp: repaired_def)
  ultimately show ?thesis
    using assms(3) file_store_skip [OF assms(1)] by (auto simp: process_valid_def Let_def split: if_splits)
qed

lemma processFile_repaired:
  assumes store: "file_store W X v S" and b: "S w p = Some b" "repairConverges L Y b tid" "isValidUUID L tid"
    and same: "\<forall>m'. parseFrontmatterMap L Y b = Some m' \<longrightarrow> lib_Assignee L m' = assignee"
    and "repaired tid assignee p st" and run: "processFile W L Y X v p st w = (out, st', w')"
  shows "S w' = S w \<and> repaired tid assignee p st'"
proof -
  obtain u where read: "readFile (sc_ops v) p w = (Inr b, u)" and su: "S u = S w" using file_store_read [OF store b(1)] by blast
  show ?thesis
  proof (cases "map_option fe_hash (fmlookup (hashes st) p) = Some (sha256 X b)")
    case True
    then show ?thesis using run read su assms(6) by (auto simp: processFile_def Let_def)
  next
    case False
    obtain t d d' m where parse: "scanner_extractFrontmatter b = Inr t" "DeduplicateFrontmatter Y t = Inr (d, d')"
      "yaml_Unmarshal L d = Inr m" "as_string (fm_get m ''task_identifier'') = Some tid"
      using b(2) by (auto simp: repairConverges_def split: sum.splits prod.splits)
    have m: "lib_Assignee L m = assignee" using same parse by (simp add: parseFrontmatterMap_def)
    have "process_valid W L v p b (sha256 X b) m tid st u = (out, st', w')"
      using run unfolding processFile_def read prod.case sum.case Let_def parse if_not_P [OF False]
      using b(3) assms(6) parse(4) by (auto simp: string_or_empty_def repaired_def split: if_splits)
    from process_valid_repaired [OF store _ this] show ?thesis using assms(6) su by (simp add: m)
  qed
qed

text \<open>C33: The repair of a missing, invalid or duplicate identifier writes the file at most once, however often the file is
  processed afterwards. Either no pass ever changes the vault: the identifier cannot be injected, which every pass finds
  anew and counts as skipped, or the repair would not converge. Or the first pass writes bytes that carry the minted
  identifier, and if these keep the assignee no later pass changes the vault and the identifier stays.\<close>

theorem repair_writes_at_most_once:
  assumes store: "file_store W X v S" and auto: "sc_autoInject v" and f: "S w p = Some f"
    and parse: "parseFrontmatterMap L Y f = Some m" and broken: "broken L (hashes st) p m"
    and stale: "map_option fe_hash (fmlookup (hashes st) p) \<noteq> Some (sha256 X f)"
    and uuid: "\<forall>w. isValidUUID L (fst (new_uuid X w)) \<and> fst (new_uuid X w) \<notin> ids (hashes st)"
    and one: "processFile W L Y X v p st w = (out1, st1, w1)"
  shows "(\<forall>n. S (snd (passes W L Y X v p n st1 w1)) = S w) \<or>
         (\<exists>tid b. S w1 = (S w)(p \<mapsto> b) \<and> repairConverges L Y b tid \<and> isValidUUID L tid \<and>
            map_option fe_taskIdentifier (fmlookup (hashes st1) p) = Some tid \<and>
            ((\<forall>m'. parseFrontmatterMap L Y b = Some m' \<longrightarrow> lib_Assignee L m' = lib_Assignee L m) \<longrightarrow>
             (\<forall>n. S (snd (passes W L Y X v p n st1 w1)) = S w1 \<and>
                map_option fe_taskIdentifier (fmlookup (hashes (fst (passes W L Y X v p n st1 w1))) p) = Some tid)))"
proof -
  obtain u where read: "readFile (sc_ops v) p w = (Inr f, u)" and su: "S u = S w"
    using file_store_read [OF store f] by blast
  obtain c prev where
    again: "\<And>w w1. readFile (sc_ops v) p w = (Inr f, w1) \<Longrightarrow> processFile W L Y X v p st w =
      injectAndStore W L Y X v c p (lib_Assignee L m) (sha256 X f) prev st w1"
    using processFile_broken [where W = W, OF stale parse broken auto] by blast
  have run: "injectAndStore W L Y X v c p (lib_Assignee L m) (sha256 X f) prev st u = (out1, st1, w1)"
    using again [OF read] one by simp
  from store run show ?thesis
  proof (cases rule: inject_cases)
    case error
    have keep: "st2 = st \<and> S v2 = S w" if "st' = st \<and> S v1 = S w" "processFile W L Y X v p st' v1 = (out, st2, v2)" for st' v1 out st2 v2
    proof -
      have "S v1 p = Some f" using that(1) f by simp
      then obtain u1 where read1: "readFile (sc_ops v) p v1 = (Inr f, u1)" and su1: "S u1 = S v1"
        using file_store_read [OF store] by blast
      have "injectAndStore W L Y X v c p (lib_Assignee L m) (sha256 X f) prev st u1 = (out, st2, v2)"
        using that again [OF read1] by simp
      from inject_error_run [OF store error(3) this] su1 that(1) show ?thesis by simp
    qed
    have "fst (passes W L Y X v p n st1 w1) = st \<and> S (snd (passes W L Y X v p n st1 w1)) = S w" for n
      by (rule passes_inv [where I = "\<lambda>st' w'. st' = st \<and> S w' = S w", OF keep]) (use error(1,2) su in simp_all)
    then show ?thesis by blast
  next
    case (halt e)
    have hash: "map_option fe_hash (fmlookup (hashes st1) p) = Some (sha256 X f)" using halt by (simp add: remember_def)
    have keep: "st2 = st1 \<and> S v2 = S w" if "st' = st1 \<and> S v1 = S w" "processFile W L Y X v p st' v1 = (out, st2, v2)" for st' v1 out st2 v2
    proof -
      have "S v1 p = Some f" using that(1) f by simp
      then obtain u1 where "readFile (sc_ops v) p v1 = (Inr f, u1)" "S u1 = S v1" using file_store_read [OF store] by blast
      then show ?thesis using that hash by (simp add: processFile_def Let_def)
    qed
    have "fst (passes W L Y X v p n st1 w1) = st1 \<and> S (snd (passes W L Y X v p n st1 w1)) = S w" for n
      by (rule passes_inv [where I = "\<lambda>st' w'. st' = st1 \<and> S w' = S w", OF keep]) (use halt(1) su in simp_all)
    then show ?thesis by blast
  next
    case (written x y tid b e)
    have valid: "isValidUUID L tid" and "tid \<notin> ids (hashes st)" using uuid written(1) by (metis fst_conv)+
    then have "isIdentifierUnique (hashes st) tid p" by (auto simp: isIdentifierUnique_def ids_def)
    then have repaired: "repaired tid (lib_Assignee L m) p st1" unfolding written(4) by (rule repaired_remember [OF _ written(5,6)])
    have keep: "S v2 = S w1 \<and> repaired tid (lib_Assignee L m) p st2"
      if "\<forall>m'. parseFrontmatterMap L Y b = Some m' \<longrightarrow> lib_Assignee L m' = lib_Assignee L m"
        "S v1 = S w1 \<and> repaired tid (lib_Assignee L m) p st'" "processFile W L Y X v p st' v1 = (out, st2, v2)" for st' v1 out st2 v2
      using processFile_repaired [OF store _ written(3) valid that(1) _ that(3)] that(2) written(2) su by simp
    have "S (snd (passes W L Y X v p n st1 w1)) = S w1 \<and> repaired tid (lib_Assignee L m) p (fst (passes W L Y X v p n st1 w1))"
      if "\<forall>m'. parseFrontmatterMap L Y b = Some m' \<longrightarrow> lib_Assignee L m' = lib_Assignee L m" for n
      by (rule passes_inv [where I = "\<lambda>st' w'. S w' = S w1 \<and> repaired tid (lib_Assignee L m) p st'", OF keep [OF that]])
        (use repaired in simp_all)
    then have later: "S (snd (passes W L Y X v p n st1 w1)) = S w1 \<and>
        map_option fe_taskIdentifier (fmlookup (hashes (fst (passes W L Y X v p n st1 w1))) p) = Some tid"
      if "\<forall>m'. parseFrontmatterMap L Y b = Some m' \<longrightarrow> lib_Assignee L m' = lib_Assignee L m" for n
      using that unfolding repaired_def by fastforce
    have "S w1 = (S w)(p \<mapsto> b)" using written(2) su by simp
    moreover have "map_option fe_taskIdentifier (fmlookup (hashes st1) p) = Some tid"
      using repaired by (auto simp: repaired_def)
    ultimately show ?thesis using written(3) valid later by blast
  qed
qed

section \<open>Reference instances\<close>

text \<open>A decoder for one line \<open>task_identifier: \<dots>\<close>, and two small worlds: one with two files that never change
  and a counter for the identifiers issued, one with a table of files.\<close>

definition line_lib :: pure_lib where
  "line_lib =
     ref_lib\<lparr>yaml_Unmarshal := (\<lambda>s. Inr (if prefix ''task_identifier: '' s
               then fmap_of_list [(''task_identifier'', VStr (takeWhile (\<lambda>c. c \<noteq> nl) (drop 17 s)))] else fmempty)),
             uuid_valid := (\<lambda>s. s \<noteq> [])\<rparr>"

definition quiet_world :: "'w world" where
  "quiet_world =
     \<lparr>http_do = (\<lambda>q w. (Inl (Errorf ''offline'' []), w)), new_request_error = (\<lambda>_ _. None), ctx_err = (\<lambda>_. None),
      wait_for = (\<lambda>d w. (None, w)), clock_now = (\<lambda>w. (0, w)), inc_metric = (\<lambda>n ls w. w), json_paths = (\<lambda>b. Inr [])\<rparr>"

definition scan_lib_of :: "('w \<Rightarrow> string \<times> 'w) \<Rightarrow> 'w scan_lib" where
  "scan_lib_of uuid =
     \<lparr>sha256 = (\<lambda>b. b), new_uuid = uuid, map_order = (\<lambda>s. sorted_list_of_set (fset s)),
      parse_RFC3339 = (\<lambda>_. None), set_gauge = (\<lambda>n ls i w. w)\<rparr>"

definition scanner_of :: "'w fileOps \<Rightarrow> 'w vaultScanner" where
  "scanner_of fo =
     \<lparr>sc_gitClient = NewGitClient (NewGitRestClient ''http://git'' [] []) ''/vault'', sc_taskDir = ''tasks'', sc_ops = fo,
      sc_autoInject = True, sc_vaultName = ''openclaw''\<rparr>"

definition no_id_file :: bytes where
  "no_id_file = ''---\<newline>status: open\<newline>---\<newline>do it''"

definition two_files :: "nat fileOps" where
  "two_files =
     \<lparr>listFiles = (\<lambda>g n. (Inr [''a.md'', ''b.md''], n)), readFile = (\<lambda>p n. (Inr no_id_file, n)),
      writeFile = (\<lambda>p b n. (Inr (), n))\<rparr>"

definition count_uuid :: "nat \<Rightarrow> string \<times> nat" where
  "count_uuid n = (replicate (Suc n) (CHR ''u''), Suc n)"

definition issued :: "nat \<Rightarrow> string set" where
  "issued n = {replicate (Suc i) (CHR ''u'') | i. i < n}"

lemma order_ok_scan_lib_of: "order_ok (scan_lib_of uuid)"
  by (simp add: order_ok_def scan_lib_of_def)

lemma no_id_parse: "parseFrontmatterMap line_lib plain_nodes no_id_file = Some fmempty"
proof -
  have "scanner_extractFrontmatter no_id_file = Inr ''status: open''" by code_simp
  then show ?thesis
    by (simp add: parseFrontmatterMap_def DeduplicateFrontmatter_def plain_nodes_def line_lib_def)
qed

lemma two_files_fresh:
  "fresh_ids quiet_world line_lib plain_nodes (scan_lib_of count_uuid) (scanner_of two_files) issued"
proof -
  have "scanner_world quiet_world (\<lambda>w w'. issued w \<subseteq> issued w') (scan_lib_of count_uuid) (scanner_of two_files)"
    by unfold_locales
      (auto simp: quiet_world_def scan_lib_of_def count_uuid_def issued_def scanner_of_def two_files_def)
  moreover have "replicate (Suc n) (CHR ''u'') \<notin> issued n" for n
    by (auto simp: issued_def dest!: arg_cong [of _ _ length])
  moreover have "replicate (Suc n) (CHR ''u'') \<in> issued (Suc n)" for n by (auto simp: issued_def)
  ultimately show ?thesis
    using no_id_parse by (auto simp: fresh_ids_def scan_lib_of_def count_uuid_def scanner_of_def two_files_def)
qed

theorem scan_keeps_identifiers_unique_witness:
  "let st = fst (snd (RunCycle quiet_world line_lib plain_nodes (scan_lib_of count_uuid) (scanner_of two_files)
         (fst (cycles quiet_world line_lib plain_nodes (scan_lib_of count_uuid) (scanner_of two_files) 3
            \<lparr>hashes = fmempty, scan_index = fmempty\<rparr> 0))
         (snd (cycles quiet_world line_lib plain_nodes (scan_lib_of count_uuid) (scanner_of two_files) 3
            \<lparr>hashes = fmempty, scan_index = fmempty\<rparr> 0))))
   in unique_ids (hashes st) \<and>
      (\<forall>tid p. tid \<noteq> [] \<longrightarrow> (Resolve (scan_index st) tid = Inr (Some p) \<longleftrightarrow>
         (\<exists>e. fmlookup (hashes st) p = Some e \<and> fe_taskIdentifier e = tid)))"
proof -
  let ?c = "cycles quiet_world line_lib plain_nodes (scan_lib_of count_uuid) (scanner_of two_files) 3
      \<lparr>hashes = fmempty, scan_index = fmempty\<rparr> 0"
  let ?run = "RunCycle quiet_world line_lib plain_nodes (scan_lib_of count_uuid) (scanner_of two_files) (fst ?c) (snd ?c)"
  have run: "?run = (fst ?run, fst (snd ?run), snd (snd ?run))" by simp
  have live: "\<forall>w. ctx_err quiet_world w = None" by (simp add: quiet_world_def)
  have listed: "fst (listFiles (sc_ops (scanner_of two_files)) g n) = Inr [''a.md'', ''b.md'']" for g n
    by (simp add: scanner_of_def two_files_def)
  show ?thesis
    using scan_keeps_identifiers_unique [OF order_ok_scan_lib_of two_files_fresh prod.collapse [symmetric] run] live
    unfolding listed Let_def sum.case by blast
qed

definition table_ops :: "(nat \<times> (path \<times> bytes) list) fileOps" where
  "table_ops =
     \<lparr>listFiles = (\<lambda>g w. (Inr (map fst (snd w)), w)),
      readFile = (\<lambda>p w. (case map_of (snd w) p of Some b \<Rightarrow> Inr b | None \<Rightarrow> Inl (Sentinel ErrNotFound), w)),
      writeFile = (\<lambda>p b w. (Inr (), (fst w, AList.update p b (snd w))))\<rparr>"

definition table_uuid :: "nat \<times> (path \<times> bytes) list \<Rightarrow> string \<times> nat \<times> (path \<times> bytes) list" where
  "table_uuid w = (fst (count_uuid (fst w)), Suc (fst w), snd w)"

lemma table_file_store:
  "file_store quiet_world (scan_lib_of table_uuid) (scanner_of table_ops) (\<lambda>w. map_of (snd w))"
  by (auto simp: file_store_def quiet_world_def scan_lib_of_def scanner_of_def table_ops_def table_uuid_def update_conv'
      split: option.splits)

theorem repair_writes_at_most_once_witness:
  "let run = processFile quiet_world line_lib plain_nodes (scan_lib_of table_uuid) (scanner_of table_ops) ''a.md''
         \<lparr>hashes = fmempty, scan_index = fmempty\<rparr> (0, [(''a.md'', no_id_file)]);
       later = (\<lambda>n. passes quiet_world line_lib plain_nodes (scan_lib_of table_uuid) (scanner_of table_ops) ''a.md'' n (fst (snd run)) (snd (snd run)))
   in map_of (snd (snd (snd run))) ''a.md'' = Some ''---\<newline>task_identifier: u\<newline>status: open\<newline>---\<newline>do it'' \<and>
     (\<forall>n. map_of (snd (snd (later n))) = map_of (snd (snd (snd run))) \<and>
        map_option fe_taskIdentifier (fmlookup (hashes (fst (later n))) ''a.md'') = Some ''u'')"
proof -
  let ?st = "\<lparr>hashes = fmempty, scan_index = fmempty\<rparr>"
  define run where "run = processFile quiet_world line_lib plain_nodes (scan_lib_of table_uuid) (scanner_of table_ops) ''a.md'' ?st (0, [(''a.md'', no_id_file)])"
  define f where "f = ''---\<newline>task_identifier: u\<newline>status: open\<newline>---\<newline>do it''"
  have front: "scanner_extractFrontmatter f = Inr ''task_identifier: u\<newline>status: open''" unfolding f_def by code_simp
  have run: "run = ((None, ''a.md'', False), remember ''a.md'' \<lparr>fe_hash = zero_hash, fe_taskIdentifier = ''u'', fe_assignee = [], fe_capped = False, fe_phase = []\<rparr> ?st,
      (1, [(''a.md'', f)]))"
  proof -
    have "scanner_extractFrontmatter no_id_file = Inr ''status: open''" by code_simp
    moreover have "InjectTaskIdentifier no_id_file ''u'' = Inr f" unfolding f_def by code_simp
    ultimately show ?thesis
      by (simp add: front run_def processFile_def Let_def scanner_of_def table_ops_def scan_lib_of_def DeduplicateFrontmatter_def plain_nodes_def
          line_lib_def injectAndStore_def table_uuid_def count_uuid_def injectTaskIdentifierWithPrevious_def repairConverges_def
          fmlookup_of_list ref_lib_def)
  qed
  have same: "\<forall>m'. parseFrontmatterMap line_lib plain_nodes f = Some m' \<longrightarrow> lib_Assignee line_lib m' = lib_Assignee line_lib fmempty"
    by (simp add: parseFrontmatterMap_def front DeduplicateFrontmatter_def plain_nodes_def line_lib_def ref_lib_def fmlookup_of_list)
  have "map_of (snd (0::nat, [(''a.md'', no_id_file)])) ''a.md'' = Some no_id_file"
    and "sc_autoInject (scanner_of table_ops)" and "broken line_lib (hashes ?st) ''a.md'' fmempty"
    and "map_option fe_hash (fmlookup (hashes ?st) ''a.md'') \<noteq> Some (sha256 (scan_lib_of table_uuid) no_id_file)"
    and "\<forall>w. isValidUUID line_lib (fst (new_uuid (scan_lib_of table_uuid) w)) \<and>
      fst (new_uuid (scan_lib_of table_uuid) w) \<notin> ids (hashes ?st)"
    by (simp_all add: scanner_of_def broken_def isValidUUID_def line_lib_def scan_lib_of_def table_uuid_def count_uuid_def ids_def)
  note repair = repair_writes_at_most_once [OF table_file_store this(2,1) no_id_parse this(3-5) run [unfolded run_def]]
  have "f \<noteq> no_id_file" by (simp add: f_def no_id_file_def)
  then have "map_of [(''a.md'', f)] \<noteq> map_of [(''a.md'', no_id_file)]" by (simp add: fun_eq_iff)
  then have first: "\<not> (\<forall>n. map_of (snd (snd (passes quiet_world line_lib plain_nodes (scan_lib_of table_uuid) (scanner_of table_ops) ''a.md'' n
      (remember ''a.md'' \<lparr>fe_hash = zero_hash, fe_taskIdentifier = ''u'', fe_assignee = [], fe_capped = False, fe_phase = []\<rparr> ?st)
      (1, [(''a.md'', f)])))) = map_of (snd (0::nat, [(''a.md'', no_id_file)])))"
    by (metis passes.simps(1) snd_conv)
  from repair show ?thesis
  proof (elim disjE exE conjE)
    fix tid b
    assume two: "map_of (snd (1, [(''a.md'', f)])) = (map_of (snd (0::nat, [(''a.md'', no_id_file)])))(''a.md'' \<mapsto> b)"
      and tid: "map_option fe_taskIdentifier (fmlookup (hashes (remember ''a.md''
          \<lparr>fe_hash = zero_hash, fe_taskIdentifier = ''u'', fe_assignee = [], fe_capped = False, fe_phase = []\<rparr> ?st)) ''a.md'') = Some tid"
      and rest: "(\<forall>m'. parseFrontmatterMap line_lib plain_nodes b = Some m' \<longrightarrow> lib_Assignee line_lib m' = lib_Assignee line_lib fmempty) \<longrightarrow>
       (\<forall>n. map_of (snd (snd (passes quiet_world line_lib plain_nodes (scan_lib_of table_uuid) (scanner_of table_ops) ''a.md'' n
          (remember ''a.md'' \<lparr>fe_hash = zero_hash, fe_taskIdentifier = ''u'', fe_assignee = [], fe_capped = False, fe_phase = []\<rparr> ?st)
          (1, [(''a.md'', f)])))) = map_of (snd (1, [(''a.md'', f)])) \<and>
        map_option fe_taskIdentifier (fmlookup (hashes (fst (passes quiet_world line_lib plain_nodes (scan_lib_of table_uuid)
          (scanner_of table_ops) ''a.md'' n (remember ''a.md''
          \<lparr>fe_hash = zero_hash, fe_taskIdentifier = ''u'', fe_assignee = [], fe_capped = False, fe_phase = []\<rparr> ?st)
          (1, [(''a.md'', f)])))) ''a.md'') = Some tid)"
    have "b = f" using fun_cong [OF two, of "''a.md''"] by simp
    moreover have "tid = ''u''" using tid by (simp add: remember_def)
    ultimately show ?thesis using rest same unfolding Let_def run_def [symmetric] run by (simp add: f_def)
  qed (use first in blast)
qed

theorem swept_task_is_not_published_witness:
  "fst (fst (processFile quiet_world line_lib plain_nodes (scan_lib_of count_uuid) (scanner_of two_files) ''a.md''
     \<lparr>hashes = fmupd ''a.md'' (swept_entry \<lparr>fe_hash = ''h'', fe_taskIdentifier = ''t1'', fe_assignee = ''claude'', fe_capped = True, fe_phase = ''planning''\<rparr>) fmempty,
      scan_index = fmempty\<rparr> 0)) = None"
proof (rule swept_task_is_not_published)
  show "fmlookup (hashes \<lparr>hashes = fmupd ''a.md'' (swept_entry \<lparr>fe_hash = ''h'', fe_taskIdentifier = ''t1'', fe_assignee = ''claude'', fe_capped = True, fe_phase = ''planning''\<rparr>) fmempty,
      scan_index = fmempty\<rparr>) ''a.md'' = Some (swept_entry \<lparr>fe_hash = ''h'', fe_taskIdentifier = ''t1'', fe_assignee = ''claude'', fe_capped = True, fe_phase = ''planning''\<rparr>)"
    by simp
  show "readFile (sc_ops (scanner_of two_files)) ''a.md'' 0 = (Inr no_id_file, 0)" by (simp add: scanner_of_def two_files_def)
  show "parseFrontmatterMap line_lib plain_nodes no_id_file = Some fmempty" by (rule no_id_parse)
  show "lib_Assignee line_lib fmempty = []" by (simp add: line_lib_def ref_lib_def)
qed

definition sweep_fm :: fm where
  "sweep_fm = fmap_of_list [(''assignee'', VStr ''claude''), (''status'', VStr ''in_progress''),
     (''trigger_count'', VInt 3), (''max_triggers'', VInt 3)]"

definition held_fm :: fm where
  "held_fm = fmupd ''status'' (VStr ''hold'') (snd (ClearAssignee ref_lib sweep_fm))"

definition sweep_lib :: pure_lib where
  "sweep_lib =
     ref_lib\<lparr>yaml_Unmarshal := (\<lambda>s. if s = ''capped'' then Inr sweep_fm else if s = ''held'' then Inr held_fm else Inl (Errorf ''yaml'' [])),
             yaml_Marshal := (\<lambda>m. if m = held_fm then Inr (''held'' @ [nl]) else Inl (Errorf ''yaml'' []))\<rparr>"

theorem capped_sweep_parks_once_witness:
  "\<exists>b. escalateCappedContent sweep_lib
     (render_file (''held'' @ [nl]) (''do it'' @ TriggerCapEscalationSection 3 3 ''claude'' 0)) 60 = Inr (b, False)"
proof -
  have lib: "lib_ok sweep_lib"
    using lib_ok_ref_lib
    by (simp add: sweep_lib_def lib_ok_def lib_reads_strings_def lib_reads_ints_def lib_reads_status_def
        lib_reads_phase_def lib_reads_budget_def)
  have "fmrel same_value held_fm held_fm"
    by (auto simp: fmrel_iff held_fm_def sweep_fm_def ClearAssignee_def clearAssignee_def Let_def ref_lib_def
        fmlookup_of_list same_value_def option_rel_Some1 split: if_splits option.split)
  then have yaml: "yaml_ok sweep_lib"
    unfolding yaml_ok_def by (auto simp: sweep_lib_def Contains_def HasPrefix_def split: if_splits)
  have image: "scanner_extractFrontmatter (render_file (''capped'' @ [nl]) ''do it'') = Inr ''capped''"
    "scanner_extractBody (render_file (''capped'' @ [nl]) ''do it'') = ''do it''"
    "\<not> ContainsTriggerCapEscalation ''do it''" by code_simp+
  have "isCappedIdle sweep_lib sweep_fm" "lib_Status sweep_lib sweep_fm = ''in_progress''"
    "lib_CurrentJob sweep_lib sweep_fm = []" "lib_TriggerCount sweep_lib held_fm = 3" "lib_MaxTriggers sweep_lib held_fm = 3"
    "ClearAssignee sweep_lib sweep_fm = (''claude'', snd (ClearAssignee ref_lib sweep_fm))"
    by (simp_all add: isCappedIdle_def TriggerCapEngaged_def sweep_lib_def ref_lib_def ref_count_def sweep_fm_def held_fm_def
        ClearAssignee_def clearAssignee_def Let_def fmlookup_of_list)
  then have "escalateCappedContent sweep_lib (render_file (''capped'' @ [nl]) ''do it'') 0 =
      Inr (render_file (''held'' @ [nl]) (''do it'' @ TriggerCapEscalationSection 3 3 ''claude'' 0), True)"
    using image by (simp add: escalateCappedContent_def sweep_lib_def held_fm_def [symmetric] Let_def)
  from capped_sweep_parks_once [OF lib yaml this] show ?thesis by blast
qed

end
