(* ===== verification/Go_Utf8.thy ===== *)
theory Go_Utf8
  imports Go_Prelude
begin

text \<open>
  Runes of a Go string. Ranging over a string and converting it to \<open>[]rune\<close> decode UTF-8; a byte that
  does not start a valid sequence counts as one rune, the replacement character U+FFFD. A rune is
  represented by the bytes \<open>WriteRune\<close> writes for it.
\<close>

definition between :: "nat \<Rightarrow> nat \<Rightarrow> char \<Rightarrow> bool" where
  "between lo hi c \<longleftrightarrow> lo \<le> of_char c \<and> of_char c \<le> hi"

abbreviation continuation :: "char \<Rightarrow> bool" where
  "continuation \<equiv> between 0x80 0xBF"

text \<open>The well-formed byte sequences of the Unicode standard, by their number of bytes.\<close>

fun valid_rune :: "string \<Rightarrow> bool" where
  "valid_rune [a] \<longleftrightarrow> between 0 0x7F a"
| "valid_rune [a, b] \<longleftrightarrow> between 0xC2 0xDF a \<and> continuation b"
| "valid_rune [a, b, c] \<longleftrightarrow>
     (between 0xE0 0xE0 a \<and> between 0xA0 0xBF b \<or> between 0xE1 0xEC a \<and> continuation b \<or>
      between 0xED 0xED a \<and> between 0x80 0x9F b \<or> between 0xEE 0xEF a \<and> continuation b) \<and> continuation c"
| "valid_rune [a, b, c, d] \<longleftrightarrow>
     (between 0xF0 0xF0 a \<and> between 0x90 0xBF b \<or> between 0xF1 0xF3 a \<and> continuation b \<or>
      between 0xF4 0xF4 a \<and> between 0x80 0x8F b) \<and> continuation c \<and> continuation d"
| "valid_rune _ \<longleftrightarrow> False"

definition rune_error :: string where
  "rune_error = [CHR 0xEF, CHR 0xBF, CHR 0xBD]"

definition rune_width :: "string \<Rightarrow> nat option" where
  "rune_width s = find (\<lambda>n. valid_rune (take n s)) [1, 2, 3, 4]"

fun runes :: "string \<Rightarrow> string list" where
  "runes [] = []"
| "runes (c # cs) =
     (case rune_width (c # cs) of
        Some n \<Rightarrow> take n (c # cs) # runes (drop (n - 1) cs)
      | None \<Rightarrow> rune_error # runes cs)"

definition RuneCountInString :: "string \<Rightarrow> nat" where
  "RuneCountInString s = length (runes s)"

section \<open>Lemmas\<close>

lemma rune_width_Some: "rune_width s = Some n \<Longrightarrow> valid_rune (take n s) \<and> 1 \<le> n \<and> n \<le> 4"
  by (auto simp: rune_width_def find_Some_iff nth_Cons' split: if_splits)

lemma runes_valid: "r \<in> set (runes s) \<Longrightarrow> valid_rune r"
proof (induction s rule: runes.induct)
  case (2 c cs)
  have err: "valid_rune rune_error" by code_simp
  show ?case
  proof (cases "rune_width (c # cs)")
    case None
    with 2 err show ?thesis by auto
  next
    case (Some n)
    with 2(2) [OF Some] 2(3) rune_width_Some [OF Some] show ?thesis by auto
  qed
qed simp

text \<open>A well-formed sequence is a prefix code: cutting a concatenation of runes gives them back.\<close>

lemma valid_rune_width:
  assumes "valid_rune r"
  shows "rune_width (r @ s) = Some (length r)"
proof -
  have two: "between 0xC2 0xDF a \<Longrightarrow> \<not> valid_rune [a]" for a by (simp add: between_def)
  have three: "valid_rune [a, b, c] \<Longrightarrow> \<not> valid_rune [a] \<and> \<not> valid_rune [a, b]" for a b c
    by (auto simp: between_def)
  have four: "valid_rune [a, b, c, d] \<Longrightarrow> \<not> valid_rune [a] \<and> \<not> valid_rune [a, b] \<and> \<not> valid_rune [a, b, c]" for a b c d
    by (auto simp: between_def)
  consider a where "r = [a]" | a b where "r = [a, b]" | a b c where "r = [a, b, c]" | a b c d where "r = [a, b, c, d]"
    using assms by (cases r rule: valid_rune.cases) auto
  then show ?thesis
  proof cases
    case 1
    with assms show ?thesis by (simp add: rune_width_def)
  next
    case (2 a b)
    then have "\<not> valid_rune [a]" using assms two [of a] by simp
    with 2 assms show ?thesis by (simp add: rune_width_def del: valid_rune.simps)
  next
    case (3 a b c)
    with assms three [of a b c] show ?thesis by (simp add: rune_width_def del: valid_rune.simps)
  next
    case (4 a b c d)
    with assms four [of a b c d] show ?thesis by (simp add: rune_width_def del: valid_rune.simps)
  qed
qed

lemma runes_concat:
  assumes "\<forall>r \<in> set rs. valid_rune r"
  shows "runes (concat rs) = rs"
  using assms
proof (induction rs)
  case (Cons r rs)
  then have r: "valid_rune r" by simp
  then obtain c cs where c: "r = c # cs" by (cases r) auto
  have "runes (c # cs @ concat rs) = r # runes (concat rs)"
    using valid_rune_width [OF r, of "concat rs"] by (simp add: c)
  with Cons c show ?case by simp
qed simp

text \<open>Only the one-byte runes contain ASCII bytes.\<close>

lemma valid_rune_ascii: "valid_rune r \<Longrightarrow> c \<in> set r \<Longrightarrow> of_char c < (0x80 :: nat) \<Longrightarrow> r = [c]"
  by (cases r rule: valid_rune.cases) (auto simp: between_def)

text \<open>Decoding adds no bytes but those of the replacement character.\<close>

lemma runes_bytes: "r \<in> set (runes s) \<Longrightarrow> r = rune_error \<or> set r \<subseteq> set s"
proof (induction s rule: runes.induct)
  case (2 c cs)
  show ?case
  proof (cases "rune_width (c # cs)")
    case None
    with 2 show ?thesis by auto
  next
    case (Some n)
    then consider "r = take n (c # cs)" | "r \<in> set (runes (drop (n - 1) cs))" using 2(3) by auto
    then show ?thesis
    proof cases
      case 1
      then show ?thesis using set_take_subset by fastforce
    next
      case r: 2
      have "set (drop (n - 1) cs) \<subseteq> set (c # cs)" using set_drop_subset [of "n - 1" cs] by auto
      with 2(2) [OF Some r] show ?thesis by blast
    qed
  qed
qed simp

end
