(* ===== verification/RefCodec.thy ===== *)
theory RefCodec
  imports GitRest Frontmatter "HOL-Library.List_Lexorder" "HOL-Library.Char_ord"
begin

text \<open>
  A concrete frontmatter codec that satisfies \<open>yaml_ok\<close>, for maps of strings, integers and booleans: one line
  per key, keys and strings percent-encoded. It stands in for the YAML library wherever a hypothesis about that
  library is shown to be satisfiable by running several writes one after the other; \<open>codec_lib\<close> has the
  accessors of \<open>ref_lib\<close>.
\<close>

fun codec_val :: "val \<Rightarrow> string option" where
  "codec_val (VStr s) = Some (CHR ''s'' # PathEscape s)"
| "codec_val (VInt n) = Some ((if n < 0 then CHR ''n'' else CHR ''p'') # nat_dec (nat \<bar>n\<bar>))"
| "codec_val (VBool b) = Some [if b then CHR ''t'' else CHR ''f'']"
| "codec_val _ = None"

definition uncodec_val :: "string \<Rightarrow> val option" where
  "uncodec_val s =
     (case s of
        [] \<Rightarrow> None
      | tag # r \<Rightarrow>
          (if tag = CHR ''s'' then Some (VStr (PathUnescape r))
           else if tag = CHR ''p'' then Some (VInt (digits_val r))
           else if tag = CHR ''n'' then Some (VInt (- digits_val r))
           else if tag = CHR ''t'' then Some (VBool True)
           else if tag = CHR ''f'' then Some (VBool False)
           else None))"

definition codec_line :: "fm \<Rightarrow> string \<Rightarrow> string" where
  "codec_line m k = CHR ''k'' # PathEscape k @ ''/'' @ the (codec_val (the (fm_get m k)))"

definition uncodec_line :: "string \<Rightarrow> (string \<times> val) option" where
  "uncodec_line s =
     (case Cut ''/'' (drop 1 s) of
        None \<Rightarrow> None
      | Some (k, v) \<Rightarrow> map_option (Pair (PathUnescape k)) (uncodec_val v))"

definition codec_keys :: "fm \<Rightarrow> string list" where
  "codec_keys m = sorted_list_of_set (fset (fmdom m))"

definition codec_text :: "fm \<Rightarrow> string" where
  "codec_text m = Join [nl] (map (codec_line m) (codec_keys m))"

definition codec_able :: "fm \<Rightarrow> bool" where
  "codec_able m = fmpred (\<lambda>k v. codec_val v \<noteq> None) m"

definition uncodec :: "string \<Rightarrow> fm" where
  "uncodec s = fmap_of_list (List.map_filter uncodec_line (Split nl s))"

definition codec_lib :: pure_lib where
  "codec_lib =
     ref_lib\<lparr>yaml_Unmarshal := (\<lambda>s. Inr (uncodec s)),
             yaml_Marshal := (\<lambda>m. if codec_able m then Inr (codec_text m @ [nl]) else Inl (Errorf ''yaml'' [])),
             yaml_Identifiers := (\<lambda>s.
               Inr (string_or_empty (as_string (fm_get (uncodec s) ''task_identifier'')),
                    string_or_empty (as_string (fm_get (uncodec s) ''task_identifier_previous''))))\<rparr>"

section \<open>Lemmas\<close>

lemma digits_val_snoc: "digits_val (s @ [c]) = 10 * digits_val s + digit_val c"
  by (simp add: digits_val_def)

lemma digits_val_nat_dec: "digits_val (nat_dec n) = int n"
proof (induction n rule: nat_dec.induct)
  case (1 n)
  show ?case
  proof (cases "n < 10")
    case True
    then show ?thesis by (subst nat_dec.simps) (simp add: digits_val_def digit_char_val)
  next
    case False
    with 1 show ?thesis
      by (subst nat_dec.simps) (simp add: digits_val_snoc digit_char_val zdiv_int zmod_int)
  qed
qed

lemma nat_dec_digits: "list_all is_digit (nat_dec n)"
  by (induction n rule: nat_dec.induct) (subst nat_dec.simps, simp add: digit_char_val)

lemma uncodec_codec_val: "codec_val v = Some s \<Longrightarrow> uncodec_val s = Some v"
  by (cases v) (auto simp: uncodec_val_def PathUnescape_PathEscape digits_val_nat_dec split: if_splits)

lemma nl_not_plain: "\<not> path_plain nl" "\<not> is_digit nl"
  by (simp_all add: path_plain_def unreserved_def is_digit_def)

lemma codec_val_no_nl: "codec_val v = Some s \<Longrightarrow> nl \<notin> set s"
  using PathEscape_chars [of nl] nat_dec_digits nl_not_plain
  by (cases v) (auto simp: list_all_iff split: if_splits)

lemma codec_ableD: "codec_able m \<Longrightarrow> fm_get m k = Some v \<Longrightarrow> \<exists>s. codec_val v = Some s"
  unfolding codec_able_def by (drule (1) fmpredD) blast

lemma codec_line_no_nl: "codec_able m \<Longrightarrow> fm_get m k = Some v \<Longrightarrow> nl \<notin> set (codec_line m k)"
  using codec_ableD [of m k v] codec_val_no_nl [of v] PathEscape_chars [of nl k] nl_not_plain
  by (auto simp: codec_line_def)

lemma uncodec_codec_line:
  assumes "codec_able m" and "fm_get m k = Some v"
  shows "uncodec_line (codec_line m k) = Some (k, v)"
proof -
  obtain s where s: "codec_val v = Some s" using codec_ableD [OF assms] by blast
  have "Cut ''/'' (PathEscape k) = None"
  proof (rule ccontr)
    assume "Cut ''/'' (PathEscape k) \<noteq> None"
    then obtain a b where "PathEscape k = a @ ''/'' @ b" using Cut_Some by (metis not_None_eq surj_pair)
    then have "CHR ''/'' \<in> set (PathEscape k)" by simp
    then show False using PathEscape_chars [of "CHR ''/''" k] path_plain_special by auto
  qed
  then have "Cut ''/'' (PathEscape k @ ''/'' @ s) = Some (PathEscape k, s)"
    using Cut_first [of "CHR ''/''" "[]" "PathEscape k" s] by simp
  then show ?thesis
    using s assms(2) by (simp add: uncodec_line_def codec_line_def uncodec_codec_val PathUnescape_PathEscape)
qed

lemma codec_keys_set: "set (codec_keys m) = fmdom' m" "distinct (codec_keys m)"
  by (simp_all add: codec_keys_def fmdom'_alt_def)

lemma codec_keysD: "k \<in> set (codec_keys m) \<Longrightarrow> \<exists>v. fm_get m k = Some v"
  by (simp add: codec_keys_set fmlookup_dom'_iff)

lemma codec_lines:
  assumes "codec_able m" and "codec_keys m \<noteq> []"
  shows "Split nl (codec_text m) = map (codec_line m) (codec_keys m)"
  unfolding codec_text_def
  by (rule Split_Join) (use assms codec_line_no_nl codec_keysD in \<open>auto, metis\<close>)

lemma map_filter_all:
  "(\<And>x. x \<in> set xs \<Longrightarrow> f (g x) = Some (h x)) \<Longrightarrow> List.map_filter f (map g xs) = map h xs"
  by (induction xs) (simp_all add: List.map_filter_simps)

lemma uncodec_codec:
  assumes "codec_able m"
  shows "uncodec (codec_text m) = m"
proof (cases "codec_keys m = []")
  case True
  then have "fmdom' m = {}" using codec_keys_set(1) [of m] by simp
  then have "m = fmempty" by (metis fmap_ext fmempty_lookup fmdom'_notD empty_iff)
  moreover have "uncodec [] = fmempty"
    by (simp add: uncodec_def uncodec_line_def List.map_filter_simps)
  ultimately show ?thesis using True by (simp add: codec_text_def)
next
  case False
  have "List.map_filter uncodec_line (map (codec_line m) (codec_keys m)) = map (\<lambda>k. (k, the (fm_get m k))) (codec_keys m)"
    by (rule map_filter_all) (use codec_keysD uncodec_codec_line [OF assms] in fastforce)
  moreover have "fmap_of_list (map (\<lambda>k. (k, the (fm_get m k))) (codec_keys m)) = m"
  proof (rule fmap_ext)
    fix k
    have "map_of (map (\<lambda>k. (k, the (fm_get m k))) ks) k = (if k \<in> set ks then Some (the (fm_get m k)) else None)" for ks
      by (induction ks) auto
    then show "fm_get (fmap_of_list (map (\<lambda>k. (k, the (fm_get m k))) (codec_keys m))) k = fm_get m k"
      by (cases "fm_get m k") (auto simp: fmlookup_of_list codec_keys_set fmlookup_dom'_iff)
  qed
  ultimately show ?thesis by (simp add: uncodec_def codec_lines [OF assms False])
qed

lemma codec_text_no_close:
  assumes "codec_able m"
  shows "\<not> Contains (codec_text m) ''\<newline>---'' \<and> \<not> HasPrefix (codec_text m) ''---''"
proof (cases "codec_keys m = []")
  case True
  then show ?thesis by (simp add: codec_text_def Contains_def HasPrefix_def)
next
  case False
  have start: "l \<in> set (Split nl (codec_text m)) \<Longrightarrow> hd l = CHR ''k'' \<and> l \<noteq> []" for l
    by (auto simp: codec_lines [OF assms False] codec_line_def)
  have piece: "\<exists>l. CHR ''-'' # l \<in> set (Split nl (''---'' @ b))" for b
    by (cases "Split nl (CHR ''-'' # CHR ''-'' # b)") (auto split: list.split)
  have "\<not> Contains (codec_text m) ''\<newline>---''"
  proof
    assume "Contains (codec_text m) ''\<newline>---''"
    then obtain a b where "codec_text m = a @ nl # ''---'' @ b" by (auto elim!: ContainsE)
    then have "Split nl (codec_text m) = Split nl a @ Split nl (''---'' @ b)"
      using Split_append_sep [of nl a "''---'' @ b"] by simp
    then obtain l where "CHR ''-'' # l \<in> set (Split nl (codec_text m))"
      using piece [of b] by (metis UnI2 set_append)
    then show False using start by fastforce
  qed
  moreover have "\<not> HasPrefix (codec_text m) ''---''"
  proof
    assume "HasPrefix (codec_text m) ''---''"
    then obtain b where "codec_text m = ''---'' @ b" by (auto simp: HasPrefix_def prefix_def)
    then obtain l where "CHR ''-'' # l \<in> set (Split nl (codec_text m))" using piece [of b] by metis
    then show False using start by fastforce
  qed
  ultimately show ?thesis ..
qed

lemma same_value_codec: "codec_able m \<Longrightarrow> fmrel same_value m m"
  unfolding fmrel_iff
proof
  fix k
  assume "codec_able m"
  then show "rel_option same_value (fm_get m k) (fm_get m k)"
  proof (cases "fm_get m k")
    case (Some v)
    with codec_ableD [OF \<open>codec_able m\<close> Some] show ?thesis by (cases v) (simp_all add: same_value_def)
  qed simp
qed

lemma yaml_ok_codec_lib: "yaml_ok codec_lib"
proof -
  have "\<exists>t m'. s = t @ [nl] \<and> \<not> Contains t ''\<newline>---'' \<and> \<not> HasPrefix t ''---'' \<and>
      yaml_Unmarshal codec_lib t = Inr m' \<and> fmrel same_value m m'" if "yaml_Marshal codec_lib m = Inr s" for m s
  proof -
    have "codec_able m" "s = codec_text m @ [nl]" using that by (auto simp: codec_lib_def split: if_splits)
    then show ?thesis
      using codec_text_no_close [of m] uncodec_codec [of m] same_value_codec [of m]
      by (intro exI [of _ "codec_text m"] exI [of _ m]) (simp add: codec_lib_def)
  qed
  then show ?thesis by (simp add: yaml_ok_def)
qed

lemma lib_ok_codec_lib: "lib_ok codec_lib"
  using lib_ok_ref_lib
  by (simp add: codec_lib_def lib_ok_def lib_reads_strings_def lib_reads_ints_def lib_reads_status_def
      lib_reads_phase_def lib_reads_budget_def)

text \<open>The file image of a map.\<close>

definition codec_file :: "fm \<Rightarrow> string \<Rightarrow> bytes" where
  "codec_file m body = render_file (codec_text m @ [nl]) body"

lemma codec_file_read:
  assumes "codec_able m"
  shows "ExtractFrontmatter (codec_file m body) = Inr (codec_text m)" "ExtractBody (codec_file m body) = Inr body"
    "yaml_Unmarshal codec_lib (codec_text m) = Inr m"
    "parseTaskFrontmatterAndBody codec_lib (codec_file m body) = Inr (m, body)"
  using render_extract [of "codec_text m" body] codec_text_no_close [OF assms] uncodec_codec [OF assms]
  by (simp_all add: codec_file_def codec_lib_def parseTaskFrontmatterAndBody_def parseTaskFrontmatter_def)

lemma codec_file_written: "codec_able m \<Longrightarrow> marshalFileContent codec_lib m body = Inr (codec_file m body)"
  by (simp add: marshalFileContent_def codec_lib_def codec_file_def)

lemma codec_able_upd: "codec_able m \<Longrightarrow> codec_val v \<noteq> None \<Longrightarrow> codec_able (fmupd k v m)"
  by (simp add: codec_able_def fmpred_upd)

lemma codec_able_empty: "codec_able fmempty"
  by (simp add: codec_able_def)

end
