(* ===== verification/PlanningRetry.thy ===== *)
theory PlanningRetry
  imports ResultWriter Go_Utf8 RefCodec
begin

text \<open>
  The controller-side retry of failed pr-review planning results (\<open>pkg/command/planning_retry.go\<close>). \<open>Handle\<close>
  decides whether a result is a failed planning result of a task that is still in planning on disk, and
  then either starts another attempt (counter, progress line, fresh identifier) or, after three of them,
  hands the task to a human and comments on the pull request. The identifier the modify closure may draw is
  an argument. The pull-request commenter is a function the struct holds, and the task type of pr-review
  tasks (a constant of github.com/bborbe/agent) a field.
\<close>

section \<open>The gate\<close>

definition maxControllerPlanningRetries :: int where
  "maxControllerPlanningRetries = 3"

record 'w planningRetryGate =
  pg_gitClient :: gitClient
  pg_taskDir :: string
  pg_vaultName :: string
  pg_PostComment :: "fm \<Rightarrow> string \<Rightarrow> 'w \<Rightarrow> go_error option \<times> 'w"
  pg_humanAssignees :: HumanAssignees
  pg_TaskTypePRReview :: string

definition failure_line :: "string \<Rightarrow> bool" where
  "failure_line l = HasPrefix (TrimSpace l) ''Status: failed''"

definition hasFailureMarker :: "string \<Rightarrow> bool" where
  "hasFailureMarker txt = list_ex failure_line (Split nl txt)"

definition matchesRetryGate :: "pure_lib \<Rightarrow> 'w planningRetryGate \<Rightarrow> Task \<Rightarrow> bool" where
  "matchesRetryGate L g req \<longleftrightarrow>
     (lib_TaskType L (Frontmatter req) = pg_TaskTypePRReview g \<or>
      lib_Assignee L (Frontmatter req) = ''pr-reviewer-agent'') \<and>
     hasFailureMarker (Content req)"

text \<open>A control character is a one-byte rune below U+0020; a line end becomes a space.\<close>

definition sanitize_rune :: "string \<Rightarrow> string" where
  "sanitize_rune r =
     (if r = [cr] \<or> r = [nl] then '' ''
      else if length r = 1 \<and> of_char (hd r) < (0x20 :: nat) then []
      else r)"

definition sanitizeReason :: "string \<Rightarrow> string" where
  "sanitizeReason raw =
     (let sanitized = TrimSpace (concat (map sanitize_rune (runes raw)))
      in if 200 < RuneCountInString sanitized then concat (take 200 (runes sanitized)) else sanitized)"

fun reason_line :: "string list \<Rightarrow> bool \<Rightarrow> string option" where
  "reason_line [] afterMarker = None"
| "reason_line (line # ls) afterMarker =
     (let trimmed = TrimSpace line
      in if afterMarker \<and> trimmed \<noteq> [] then Some trimmed
         else reason_line ls (afterMarker \<or> HasPrefix trimmed ''Status: failed''))"

definition extractReason :: "string \<Rightarrow> string" where
  "extractReason txt =
     (case reason_line (Split nl txt) False of
        Some line \<Rightarrow> sanitizeReason line
      | None \<Rightarrow> sanitizeReason (TrimSpace txt))"

definition appendProgressLine :: "string \<Rightarrow> string \<Rightarrow> string" where
  "appendProgressLine body line =
     (let body = (if body \<noteq> [] \<and> \<not> HasSuffix body [nl] then body @ [nl] else body)
      in if Contains body ''## Progress'' then body @ line @ [nl]
         else body @ ''## Progress'' @ [nl, nl] @ line @ [nl])"

definition int_or_zero :: "int option \<Rightarrow> int" where
  "int_or_zero n = (case n of Some i \<Rightarrow> i | None \<Rightarrow> 0)"

definition retry_bullet :: "int \<Rightarrow> string \<Rightarrow> string \<Rightarrow> string" where
  "retry_bullet count reason ts = ''- retry '' @ Itoa (count + 1) @ ''/3: '' @ reason @ '' at '' @ ts"

text \<open>The captured variable is \<open>bump\<close>.\<close>

definition buildRetryModifyFn ::
  "pure_lib \<Rightarrow> 'w planningRetryGate \<Rightarrow> int \<Rightarrow> string \<Rightarrow> string \<Rightarrow> string \<Rightarrow> bytes \<Rightarrow> bool \<Rightarrow> bytes res \<times> bool" where
  "buildRetryModifyFn L g count reason ts newID current bump =
     (case ExtractFrontmatter current of
        Inl e \<Rightarrow> (Inl (Wrapf e ''extract frontmatter'' []), False)
      | Inr fmStr \<Rightarrow>
     (case ExtractBody current of
        Inl e \<Rightarrow> (Inl (Wrapf e ''extract body'' []), False)
      | Inr body \<Rightarrow>
     (case yaml_Unmarshal L fmStr of
        Inl e \<Rightarrow> (Inl (Wrapf e ''unmarshal frontmatter'' []), False)
      | Inr m \<Rightarrow>
          (if int_or_zero (lib_Int L m ''planning_retry_count'') \<noteq> count then (Inr current, False)
           else if lib_Phase L m \<noteq> Some ''planning'' then (Inr current, False)
           else if list_ex (\<lambda>line. TrimSpace line = retry_bullet count reason ts) (Split nl body)
           then (Inr current, False)
           else
             (let m = fmupd ''planning_retry_count'' (VInt (count + 1)) m;
                  m = fmupd ''phase'' (VStr ''planning'') m;
                  m = fmupd ''task_identifier'' (VStr newID) m;
                  m = HealTargetVault m (pg_vaultName g);
                  newBody = appendProgressLine body (retry_bullet count reason ts)
              in case yaml_Marshal L m of
                   Inl e \<Rightarrow> (Inl (Wrapf e ''marshal frontmatter'' []), True)
                 | Inr marshaled \<Rightarrow> (Inr (render_file marshaled newBody), True))))))"

text \<open>The captured variable is \<open>firstEscalation\<close>.\<close>

definition buildEscalationModifyFn ::
  "pure_lib \<Rightarrow> 'w planningRetryGate \<Rightarrow> string \<Rightarrow> string \<Rightarrow> bytes \<Rightarrow> bool \<Rightarrow> bytes res \<times> bool" where
  "buildEscalationModifyFn L g reason ts current firstEscalation =
     (case ExtractFrontmatter current of
        Inl e \<Rightarrow> (Inl (Wrapf e ''extract frontmatter'' []), firstEscalation)
      | Inr fmStr \<Rightarrow>
     (case ExtractBody current of
        Inl e \<Rightarrow> (Inl (Wrapf e ''extract body'' []), firstEscalation)
      | Inr body \<Rightarrow>
     (case yaml_Unmarshal L fmStr of
        Inl e \<Rightarrow> (Inl (Wrapf e ''unmarshal frontmatter'' []), firstEscalation)
      | Inr m \<Rightarrow>
          (if lib_Phase L m \<noteq> Some ''planning'' then (Inr current, False)
           else
             (let firstEscalation =
                    (if list_ex (\<lambda>line. HasPrefix (TrimSpace line) ''retry 3/3:'') (Split nl body)
                     then False else firstEscalation);
                  body = (if firstEscalation
                          then appendProgressLine body (''- retry 3/3: '' @ reason @ '' at '' @ ts) else body);
                  m = fmupd ''phase'' (VStr ''human_review'') m;
                  m = snd (ClearAssigneeIfHumanReview L m (pg_humanAssignees g));
                  m = HealTargetVault m (pg_vaultName g)
              in case yaml_Marshal L m of
                   Inl e \<Rightarrow> (Inl (Wrapf e ''marshal frontmatter'' []), firstEscalation)
                 | Inr marshaled \<Rightarrow> (Inr (render_file marshaled body), firstEscalation))))))"

definition escalate ::
  "'w world \<Rightarrow> pure_lib \<Rightarrow> 'w planningRetryGate \<Rightarrow> Task \<Rightarrow> path \<Rightarrow> fm \<Rightarrow> 'w \<Rightarrow> bool res \<times> 'w" where
  "escalate W L g req relPath existing w =
     (let reason = extractReason (Content req) in
      case clock_now W w of (now, w) \<Rightarrow>
      (let ts = RFC3339 now;
           msg = ''[agent-task-controller] planning retry exhausted for task '' @ TaskIdentifier req;
           absPath = JoinPath (Path (pg_gitClient g)) relPath
       in case AtomicReadModifyWriteAndCommitPush W (pg_gitClient g) absPath
                 (buildEscalationModifyFn L g reason ts) msg True w of
            (Inl e, _, w) \<Rightarrow> (Inl (Wrapf e ''planning-retry: escalation write for task %s'' [TaskIdentifier req]), w)
          | (Inr _, firstEscalation, w) \<Rightarrow>
              (if firstEscalation
               then (let commentBody = ''Automated pr-review planning failed after 3 controller retries and 3 in-agent retries. Last error: '' @
                           reason @ ''. Please investigate '' @ relPath @ ''.'';
                         w = snd (pg_PostComment g existing commentBody w)
                     in (Inr True, PlanningRetryTotal W ''exhausted'' w))
               else (Inr True, w))))"

definition Handle ::
  "'w world \<Rightarrow> pure_lib \<Rightarrow> 'w planningRetryGate \<Rightarrow> string \<Rightarrow> Task \<Rightarrow> index option \<Rightarrow> 'w \<Rightarrow> bool res \<times> index option \<times> 'w" where
  "Handle W L g newID req resolver w =
     (if \<not> matchesRetryGate L g req then (Inr False, resolver, w)
      else case FindTaskFilePath W L (pg_gitClient g) (pg_taskDir g) (TaskIdentifier req) resolver w of
        (Inl e, resolver, w) \<Rightarrow> (Inl (Wrapf e ''planning-retry: find task file'' []), resolver, w)
      | (Inr (relPath, existing), resolver, w) \<Rightarrow>
          (if relPath = [] then (Inr False, resolver, w)
           else if string_or_empty (lib_Phase L existing) \<noteq> ''planning'' then (Inr False, resolver, w)
           else
             (let count = max 0 (int_or_zero (lib_Int L existing ''planning_retry_count''))
              in if maxControllerPlanningRetries \<le> count
                 then (case escalate W L g req relPath existing w of (r, w) \<Rightarrow> (r, resolver, w))
                 else
                   (let reason = extractReason (Content req) in
                    case clock_now W w of (now, w) \<Rightarrow>
                    (let ts = RFC3339 now;
                         msg = ''[agent-task-controller] planning retry '' @ Itoa (count + 1) @ ''/3 for task '' @ TaskIdentifier req;
                         absPath = JoinPath (Path (pg_gitClient g)) relPath
                     in case AtomicReadModifyWriteAndCommitPush W (pg_gitClient g) absPath
                               (buildRetryModifyFn L g count reason ts newID) msg False w of
                          (Inl e, _, w) \<Rightarrow>
                            (Inl (Wrapf e ''planning-retry: write retry for task %s'' [TaskIdentifier req]), resolver, w)
                        | (Inr _, bump, w) \<Rightarrow>
                            (Inr True, resolver, if bump then PlanningRetryTotal W ''retry'' w else w))))))"

section \<open>Reasons\<close>

lemma sanitize_rune_ok:
  assumes "valid_rune r" and "c \<in> set (sanitize_rune r)"
  shows "0x20 \<le> (of_char c :: nat)"
proof (rule ccontr)
  assume "\<not> 0x20 \<le> (of_char c :: nat)"
  then have small: "of_char c < (0x20 :: nat)" by simp
  then have "c \<noteq> CHR '' ''" by auto
  with assms(2) have "sanitize_rune r = r" "c \<in> set r" by (auto simp: sanitize_rune_def split: if_splits)
  moreover from this have "r = [c]" using valid_rune_ascii [OF assms(1)] small by simp
  ultimately show False using small by (auto simp: sanitize_rune_def split: if_splits)
qed

lemma sanitizeReason_bytes:
  assumes "c \<in> set (sanitizeReason raw)"
  shows "0x20 \<le> (of_char c :: nat)"
proof -
  let ?t = "TrimSpace (concat (map sanitize_rune (runes raw)))"
  have plain: "c \<in> set ?t \<Longrightarrow> 0x20 \<le> (of_char c :: nat)" for c
    using TrimSpace_sub [of "concat (map sanitize_rune (runes raw))"] sanitize_rune_ok runes_valid by fastforce
  have cut: "0x20 \<le> (of_char c :: nat)" if "r \<in> set (runes ?t)" "c \<in> set r" for r
  proof -
    have "r = rune_error \<or> set r \<subseteq> set ?t" using that(1) by (rule runes_bytes)
    then show ?thesis using that(2) plain by (auto simp: rune_error_def)
  qed
  show ?thesis
    using assms plain cut by (auto simp: sanitizeReason_def Let_def split: if_splits dest!: in_set_takeD)
qed

lemma sanitizeReason_count: "RuneCountInString (sanitizeReason raw) \<le> 200"
proof -
  let ?t = "TrimSpace (concat (map sanitize_rune (runes raw)))"
  have "runes (concat (take 200 (runes ?t))) = take 200 (runes ?t)"
    by (rule runes_concat) (auto dest!: in_set_takeD intro: runes_valid)
  then show ?thesis by (simp add: sanitizeReason_def Let_def RuneCountInString_def)
qed

section \<open>What the two writes do to the file\<close>

definition retry_fm :: "'w planningRetryGate \<Rightarrow> int \<Rightarrow> string \<Rightarrow> fm \<Rightarrow> fm" where
  "retry_fm g count newID m =
     HealTargetVault (fmupd ''task_identifier'' (VStr newID) (fmupd ''phase'' (VStr ''planning'')
       (fmupd ''planning_retry_count'' (VInt (count + 1)) m))) (pg_vaultName g)"

definition escalated_fm :: "pure_lib \<Rightarrow> 'w planningRetryGate \<Rightarrow> fm \<Rightarrow> fm" where
  "escalated_fm L g m =
     HealTargetVault (snd (ClearAssigneeIfHumanReview L (fmupd ''phase'' (VStr ''human_review'') m) (pg_humanAssignees g)))
       (pg_vaultName g)"

lemma retry_output:
  assumes "parseTaskFrontmatterAndBody L b = Inr (m, body)"
  shows "buildRetryModifyFn L g count reason ts newID b s =
    (if int_or_zero (lib_Int L m ''planning_retry_count'') \<noteq> count \<or> lib_Phase L m \<noteq> Some ''planning'' \<or>
        (\<exists>line \<in> set (Split nl body). TrimSpace line = retry_bullet count reason ts)
     then (Inr b, False)
     else (marshalFileContent L (retry_fm g count newID m) (appendProgressLine body (retry_bullet count reason ts)), True))"
proof -
  obtain t where "ExtractFrontmatter b = Inr t" "ExtractBody b = Inr body" "yaml_Unmarshal L t = Inr m"
    using assms unfolding parse_parts by blast
  then show ?thesis
    by (auto simp: buildRetryModifyFn_def list_ex_iff Let_def retry_fm_def marshalFileContent_def split: sum.splits)
qed

definition progress_done :: "string \<Rightarrow> bool" where
  "progress_done body = (\<exists>line \<in> set (Split nl body). HasPrefix (TrimSpace line) ''retry 3/3:'')"

lemma escalation_output:
  assumes "parseTaskFrontmatterAndBody L b = Inr (m, body)"
  shows "buildEscalationModifyFn L g reason ts b True =
    (if lib_Phase L m \<noteq> Some ''planning'' then (Inr b, False)
     else (marshalFileContent L (escalated_fm L g m)
             (if progress_done body then body else appendProgressLine body (''- retry 3/3: '' @ reason @ '' at '' @ ts)),
           \<not> progress_done body))"
proof -
  obtain t where "ExtractFrontmatter b = Inr t" "ExtractBody b = Inr body" "yaml_Unmarshal L t = Inr m"
    using assms unfolding parse_parts by blast
  then show ?thesis
    by (auto simp: buildEscalationModifyFn_def list_ex_iff progress_done_def Let_def escalated_fm_def
        marshalFileContent_def split: sum.splits)
qed

lemma retry_parse_error:
  "parseTaskFrontmatterAndBody L b = Inl e \<Longrightarrow> \<exists>e. buildRetryModifyFn L g count reason ts newID b s = (Inl e, False)"
  by (auto simp: parseTaskFrontmatterAndBody_def parseTaskFrontmatter_def buildRetryModifyFn_def split: sum.splits)

lemma escalation_parse_error:
  "parseTaskFrontmatterAndBody L b = Inl e \<Longrightarrow> \<exists>e. buildEscalationModifyFn L g reason ts b s = (Inl e, s)"
  by (auto simp: parseTaskFrontmatterAndBody_def parseTaskFrontmatter_def buildEscalationModifyFn_def split: sum.splits)

lemma retry_fm_get:
  "fm_get (retry_fm g count newID m) k =
     (if k = ''task_identifier'' then Some (VStr newID)
      else if k = ''phase'' then Some (VStr ''planning'')
      else if k = ''planning_retry_count'' then Some (VInt (count + 1))
      else if k = ''target_vault'' \<and> fm_get m k = None then Some (VStr (pg_vaultName g)) else fm_get m k)"
  by (auto simp: retry_fm_def HealTargetVault_def split: option.splits)

lemma escalated_fm_review: "fm_get (escalated_fm L g m) ''phase'' = Some (VStr ''human_review'')"
  by (simp add: escalated_fm_def HealTargetVault_frame ClearAssigneeIfHumanReview_frame)

lemma escalated_fm_parked: "parked_owner (pg_humanAssignees g) (escalated_fm L g m)"
proof -
  have "parked_owner (pg_humanAssignees g)
      (snd (ClearAssigneeIfHumanReview L (fmupd ''phase'' (VStr ''human_review'') m) (pg_humanAssignees g)))"
    by (rule ClearAssigneeIfHumanReview_parked) simp
  then show ?thesis
    by (rule parked_owner_cong [THEN iffD1, rotated]) (simp add: escalated_fm_def HealTargetVault_frame)
qed

section \<open>The life of a task in planning\<close>

text \<open>
  One write of the gate to the file of a task: another attempt, or the hand-over to a human with or without the
  comment on the pull request. \<open>Handle\<close> compares the counter it read with the one the closure reads, so both are
  the counter of the file here.
\<close>

datatype planning_write = Retry | Escalate bool

definition planning_count :: "pure_lib \<Rightarrow> fm \<Rightarrow> int" where
  "planning_count L m = max 0 (int_or_zero (lib_Int L m ''planning_retry_count''))"

inductive planning_step :: "pure_lib \<Rightarrow> 'w planningRetryGate \<Rightarrow> bytes \<Rightarrow> planning_write \<Rightarrow> bytes \<Rightarrow> bool"
  for L g where
  retry: "parseTaskFrontmatterAndBody L b = Inr (m, body) \<Longrightarrow> planning_count L m < maxControllerPlanningRetries \<Longrightarrow>
    buildRetryModifyFn L g (planning_count L m) reason ts newID b False = (Inr b', True) \<Longrightarrow>
    planning_step L g b Retry b'"
| escalation: "parseTaskFrontmatterAndBody L b = Inr (m, body) \<Longrightarrow> maxControllerPlanningRetries \<le> planning_count L m \<Longrightarrow>
    lib_Phase L m = Some ''planning'' \<Longrightarrow>
    buildEscalationModifyFn L g reason ts b True = (Inr b', commented) \<Longrightarrow>
    planning_step L g b (Escalate commented) b'"

inductive_cases planning_stepE: "planning_step L g b l b'"

inductive planning_run :: "pure_lib \<Rightarrow> 'w planningRetryGate \<Rightarrow> bytes \<Rightarrow> planning_write list \<Rightarrow> bytes \<Rightarrow> bool"
  for L g where
  stop: "planning_run L g b [] b"
| step: "planning_step L g b l b' \<Longrightarrow> planning_run L g b' ls b'' \<Longrightarrow> planning_run L g b (l # ls) b''"

inductive_cases planning_run_ConsE: "planning_run L g b (l # ls) b''"

lemma retry_step_reads_back:
  assumes "lib_ok L" and "yaml_ok L" and "planning_step L g b Retry b'"
  obtains m body m' newID reason ts where "parseTaskFrontmatterAndBody L b = Inr (m, body)"
    "lib_Phase L m = Some ''planning''" "planning_count L m < 3"
    "parseTaskFrontmatterAndBody L b' = Inr (m', appendProgressLine body (retry_bullet (planning_count L m) reason ts))"
    "fmrel same_value (retry_fm g (planning_count L m) newID m) m'" "planning_count L m' = planning_count L m + 1"
    "lib_Phase L m' = Some ''planning''"
  using assms(3)
proof (cases rule: planning_step.cases)
  case (retry m body reason ts newID)
  note out = retry(3) [unfolded retry_output [OF retry(1)]]
  have phase: "lib_Phase L m = Some ''planning''" using out by (auto split: if_splits)
  have "marshalFileContent L (retry_fm g (planning_count L m) newID m)
      (appendProgressLine body (retry_bullet (planning_count L m) reason ts)) = Inr b'"
    using out by (auto split: if_splits)
  then obtain m' where m': "parseTaskFrontmatterAndBody L b' = Inr (m', appendProgressLine body (retry_bullet (planning_count L m) reason ts))"
    "fmrel same_value (retry_fm g (planning_count L m) newID m) m'"
    using marshalFileContent_read_back [OF assms(2)] by metis
  have "fm_get m' ''planning_retry_count'' = Some (VInt (planning_count L m + 1))"
    by (rule fmrel_same_value_VInt [OF m'(2)]) (simp add: retry_fm_get)
  then have count: "planning_count L m' = planning_count L m + 1"
    by (simp add: planning_count_def [of L m'] int_or_zero_def lib_Int_VInt [OF assms(1)])
      (simp add: planning_count_def)
  have "fm_get m' ''phase'' = Some (VStr ''planning'')"
    unfolding fmrel_same_value_VStr [OF m'(2)] by (simp add: retry_fm_get)
  then have phase': "lib_Phase L m' = Some ''planning''" by (simp add: lib_Phase_canon [OF assms(1)])
  show thesis
    by (rule that [OF retry(1) phase _ m' count phase']) (use retry(2) in \<open>simp add: maxControllerPlanningRetries_def\<close>)
qed

lemma escalation_step_reads_back:
  assumes "lib_ok L" and "yaml_ok L" and "planning_step L g b (Escalate commented) b'"
  obtains m body m' body' where "parseTaskFrontmatterAndBody L b = Inr (m, body)" "3 \<le> planning_count L m"
    "parseTaskFrontmatterAndBody L b' = Inr (m', body')" "lib_Phase L m' = Some ''human_review''"
    "fm_get m' ''phase'' = Some (VStr ''human_review'')" "parked_owner (pg_humanAssignees g) m'"
    "commented \<longleftrightarrow> \<not> progress_done body"
  using assms(3)
proof (cases rule: planning_step.cases)
  case (escalation m body reason ts)
  let ?body = "if progress_done body then body else appendProgressLine body (''- retry 3/3: '' @ reason @ '' at '' @ ts)"
  note out = escalation(4) [unfolded escalation_output [OF escalation(1)]]
  have "marshalFileContent L (escalated_fm L g m) ?body = Inr b'" and c: "commented \<longleftrightarrow> \<not> progress_done body"
    using out escalation(3) by auto
  then obtain m' where m': "parseTaskFrontmatterAndBody L b' = Inr (m', ?body)" "fmrel same_value (escalated_fm L g m) m'"
    using marshalFileContent_read_back [OF assms(2)] by metis
  have phase: "fm_get m' ''phase'' = Some (VStr ''human_review'')"
    unfolding fmrel_same_value_VStr [OF m'(2)] by (rule escalated_fm_review)
  have "parked_owner (pg_humanAssignees g) m'"
    using escalated_fm_parked [of g L m] fmrel_same_value_VStr [OF m'(2)] by (auto simp: parked_owner_def)
  then show thesis
    by (intro that [OF escalation(1) _ m'(1) _ phase _ c])
      (use escalation(2) phase in \<open>simp_all add: maxControllerPlanningRetries_def lib_Phase_canon [OF assms(1)]\<close>)
qed

lemma no_step_after_review:
  assumes "parseTaskFrontmatterAndBody L b = Inr (m, body)" and "lib_Phase L m = Some ''human_review''"
  shows "\<not> planning_step L g b l b'"
  using assms by (auto elim!: planning_stepE simp: retry_output split: if_splits)

lemma planning_run_shape:
  assumes "lib_ok L" and "yaml_ok L" and "planning_run L g b ls b'" and "parseTaskFrontmatterAndBody L b = Inr (m, body)"
  shows "\<exists>k. int k \<le> max 0 (3 - planning_count L m) \<and>
           (ls = replicate k Retry \<or>
            (\<exists>c m' body'. ls = replicate k Retry @ [Escalate c] \<and> int k = max 0 (3 - planning_count L m) \<and>
               parseTaskFrontmatterAndBody L b' = Inr (m', body') \<and>
               fm_get m' ''phase'' = Some (VStr ''human_review'') \<and> parked_owner (pg_humanAssignees g) m'))"
  using assms(3,4)
proof (induction arbitrary: m body rule: planning_run.induct)
  case (stop b)
  show ?case by (rule exI [of _ 0]) simp
next
  case (step b l b1 ls b2)
  show ?case
  proof (cases l)
    case Retry
    obtain m1 body1 where one: "parseTaskFrontmatterAndBody L b1 = Inr (m1, body1)"
        "planning_count L m1 = planning_count L m + 1" "planning_count L m < 3"
      using step.hyps(1) step.prems unfolding Retry
      by (cases rule: retry_step_reads_back [OF assms(1,2)]) auto
    from step.IH [OF one(1)] obtain k where
      k: "int k \<le> max 0 (3 - planning_count L m1)" and
      ls: "ls = replicate k Retry \<or>
            (\<exists>c m' body'. ls = replicate k Retry @ [Escalate c] \<and> int k = max 0 (3 - planning_count L m1) \<and>
               parseTaskFrontmatterAndBody L b2 = Inr (m', body') \<and>
               fm_get m' ''phase'' = Some (VStr ''human_review'') \<and> parked_owner (pg_humanAssignees g) m')"
      by blast
    show ?thesis
      by (rule exI [of _ "Suc k"]) (use k ls one(2,3) Retry in auto)
  next
    case (Escalate c)
    obtain m1 body1 where one: "parseTaskFrontmatterAndBody L b1 = Inr (m1, body1)" "lib_Phase L m1 = Some ''human_review''"
        "fm_get m1 ''phase'' = Some (VStr ''human_review'')" "parked_owner (pg_humanAssignees g) m1" "3 \<le> planning_count L m"
      using step.hyps(1) step.prems unfolding Escalate
      by (cases rule: escalation_step_reads_back [OF assms(1,2)]) auto
    have "ls = [] \<and> b2 = b1"
      using step.hyps(2) no_step_after_review [OF one(1,2)] by (cases rule: planning_run.cases) auto
    with one Escalate show ?thesis by (intro exI [of _ 0]) simp
  qed
qed

section \<open>Handle and the life of the task\<close>

text \<open>The clock, the counters and the comment do not touch the files.\<close>

definition gate_observes :: "'w world \<Rightarrow> 'w planningRetryGate \<Rightarrow> ('w \<Rightarrow> path \<Rightarrow> bytes option) \<Rightarrow> bool" where
  "gate_observes W g files \<longleftrightarrow>
     (\<forall>w. files (snd (clock_now W w)) = files w) \<and> (\<forall>m c w. files (snd (pg_PostComment g m c w)) = files w) \<and>
     (\<forall>n ls w. files (inc_metric W n ls w) = files w)"

lemma escalate_files:
  assumes "serves W (client (pg_gitClient g)) files" and "gate_observes W g files"
    and "under_base (pg_gitClient g) (JoinPath (Path (pg_gitClient g)) rel) = Inr rel"
    and "files w rel = Some b" and "length b \<le> maxBody"
    and "escalate W L g req rel existing w = (Inr handled, w')"
  shows "handled \<and> (\<exists>reason ts b' c. buildEscalationModifyFn L g reason ts b True = (Inr b', c) \<and> files w' = (files w)(rel \<mapsto> b'))"
proof -
  obtain now u where u: "clock_now W w = (now, u)" by (cases "clock_now W w")
  then have fu: "files u = files w" using assms(2) unfolding gate_observes_def by (metis snd_conv)
  let ?reason = "extractReason (Content req)"
  let ?rmw = "AtomicReadModifyWriteAndCommitPush W (pg_gitClient g) (JoinPath (Path (pg_gitClient g)) rel)
     (buildEscalationModifyFn L g ?reason (RFC3339 now)) (''[agent-task-controller] planning retry exhausted for task '' @ TaskIdentifier req) True u"
  obtain r c v where run: "?rmw = (r, c, v)" by (cases ?rmw)
  have r: "r = Inr ()" using assms(6) run by (cases r) (auto simp: escalate_def u Let_def)
  obtain b' where b': "buildEscalationModifyFn L g ?reason (RFC3339 now) b True = (Inr b', c)" "files v = (files u)(rel \<mapsto> b')"
    using serves_rmw_result [OF assms(1,3) _ assms(5)] run assms(4) fu unfolding r by metis
  have "files w' = files v" and "handled"
    using assms(2,6) run unfolding r
    by (auto simp: escalate_def u Let_def gate_observes_def PlanningRetryTotal_def split: if_splits)
  with b' fu show ?thesis by metis
qed

lemma Handle_run:
  assumes "serves W (client (pg_gitClient g)) files" and "gate_observes W g files"
    and "FindTaskFilePath W L (pg_gitClient g) (pg_taskDir g) (TaskIdentifier req) res w = (Inr (rel, m), res1, w1)"
    and "rel \<noteq> []" and "under_base (pg_gitClient g) (JoinPath (Path (pg_gitClient g)) rel) = Inr rel"
    and "files w1 rel = Some b" and "length b \<le> maxBody"
    and "matchesRetryGate L g req" and "lib_Phase L m = Some ''planning''"
    and "Handle W L g newID req res w = (Inr handled, res', w')"
  shows "handled \<and>
    (if 3 \<le> planning_count L m
     then \<exists>reason ts b' c. buildEscalationModifyFn L g reason ts b True = (Inr b', c) \<and> files w' = (files w1)(rel \<mapsto> b')
     else \<exists>reason ts b' c. buildRetryModifyFn L g (planning_count L m) reason ts newID b False = (Inr b', c) \<and>
            files w' = (files w1)(rel \<mapsto> b'))"
proof (cases "3 \<le> planning_count L m")
  case True
  note eq = assms(10) [unfolded Handle_def assms(3) prod.case sum.case Let_def planning_count_def [symmetric]]
  have "escalate W L g req rel m w1 = (Inr handled, w')"
    using eq True assms(4,8,9) by (cases "escalate W L g req rel m w1") (simp add: maxControllerPlanningRetries_def)
  from escalate_files [OF assms(1,2,5-7) this] True show ?thesis by simp
next
  case False
  obtain now u where u: "clock_now W w1 = (now, u)" by (cases "clock_now W w1")
  then have fu: "files u = files w1" using assms(2) unfolding gate_observes_def by (metis snd_conv)
  let ?reason = "extractReason (Content req)"
  let ?rmw = "AtomicReadModifyWriteAndCommitPush W (pg_gitClient g) (JoinPath (Path (pg_gitClient g)) rel)
     (buildRetryModifyFn L g (planning_count L m) ?reason (RFC3339 now) newID)
     (''[agent-task-controller] planning retry '' @ Itoa (planning_count L m + 1) @ ''/3 for task '' @ TaskIdentifier req) False u"
  obtain r c v where run: "?rmw = (r, c, v)" by (cases ?rmw)
  note eq = assms(10) [unfolded Handle_def assms(3) prod.case sum.case Let_def planning_count_def [symmetric] u]
  have r: "r = Inr ()"
    using eq run False assms(4,8,9) by (cases r) (auto simp: maxControllerPlanningRetries_def)
  obtain b' where b': "buildRetryModifyFn L g (planning_count L m) ?reason (RFC3339 now) newID b False = (Inr b', c)"
      "files v = (files u)(rel \<mapsto> b')"
    using serves_rmw_result [OF assms(1,5) _ assms(7)] run assms(6) fu unfolding r by metis
  have "files w' = files v" and "handled"
    using eq run False assms(2,4,8,9) unfolding r
    by (auto simp: gate_observes_def PlanningRetryTotal_def maxControllerPlanningRetries_def split: if_splits)
  with b' fu False show ?thesis by metis
qed

text \<open>A retry whose closure succeeds is carried out.\<close>

lemma Handle_retry_total:
  assumes "serves W (client (pg_gitClient g)) files" and "gate_observes W g files"
    and "FindTaskFilePath W L (pg_gitClient g) (pg_taskDir g) (TaskIdentifier req) res w = (Inr (rel, m), res1, w1)"
    and "rel \<noteq> []" and "under_base (pg_gitClient g) (JoinPath (Path (pg_gitClient g)) rel) = Inr rel"
    and "files w1 rel = Some b" and "length b \<le> maxBody"
    and "matchesRetryGate L g req" and "lib_Phase L m = Some ''planning''" and "planning_count L m < 3"
    and "\<And>ts. \<exists>b' c. buildRetryModifyFn L g (planning_count L m) (extractReason (Content req)) ts newID b False = (Inr b', c)"
  shows "\<exists>w'. Handle W L g newID req res w = (Inr True, res1, w')"
proof -
  obtain now u where u: "clock_now W w1 = (now, u)" by (cases "clock_now W w1")
  then have fu: "files u = files w1" using assms(2) unfolding gate_observes_def by (metis snd_conv)
  obtain b' c where "buildRetryModifyFn L g (planning_count L m) (extractReason (Content req)) (RFC3339 now) newID b False = (Inr b', c)"
    using assms(11) by blast
  then have "\<exists>v. AtomicReadModifyWriteAndCommitPush W (pg_gitClient g) (JoinPath (Path (pg_gitClient g)) rel)
     (buildRetryModifyFn L g (planning_count L m) (extractReason (Content req)) (RFC3339 now) newID) msg False u = (Inr (), c, v)" for msg
    using serves_rmw [OF assms(1,5) _ assms(7), of u
        "buildRetryModifyFn L g (planning_count L m) (extractReason (Content req)) (RFC3339 now) newID" False b' c msg]
      assms(6) fu by metis
  then obtain v where "AtomicReadModifyWriteAndCommitPush W (pg_gitClient g) (JoinPath (Path (pg_gitClient g)) rel)
     (buildRetryModifyFn L g (planning_count L m) (extractReason (Content req)) (RFC3339 now) newID)
     (''[agent-task-controller] planning retry '' @ Itoa (planning_count L m + 1) @ ''/3 for task '' @ TaskIdentifier req) False u = (Inr (), c, v)"
    by blast
  then show ?thesis
    unfolding Handle_def assms(3) prod.case sum.case Let_def planning_count_def [symmetric] u
    using assms(4,8-10) by (simp add: maxControllerPlanningRetries_def)
qed

section \<open>Properties\<close>

text \<open>C13: However many failed results arrive, the gate writes a task file at most four times: as many retries as
  are left of the three, then one hand-over to a human, after which it never writes the file again. The
  hand-over leaves the task in \<open>human_review\<close> with no agent as its owner. The steps are those of the two modify
  closures with arbitrary reasons, clock readings and identifiers.\<close>

theorem planning_retries_are_bounded:
  assumes "lib_ok L" and "yaml_ok L" and "parseTaskFrontmatterAndBody L b = Inr (m, body)"
    and "planning_run L g b ls b'"
  shows "\<exists>k. int k \<le> max 0 (3 - planning_count L m) \<and>
           (ls = replicate k Retry \<or>
            (\<exists>c m' body'. ls = replicate k Retry @ [Escalate c] \<and> int k = max 0 (3 - planning_count L m) \<and>
               parseTaskFrontmatterAndBody L b' = Inr (m', body') \<and>
               fm_get m' ''phase'' = Some (VStr ''human_review'') \<and> parked_owner (pg_humanAssignees g) m'))"
  by (rule planning_run_shape [OF assms(1,2,4,3)])

text \<open>C12: \<open>Handle\<close> carries out that life against an available server. It reports the result as handled exactly when
  the result is a failed pr-review result and the task is in planning on disk; then the file makes one step of
  the life and no other file changes, or it is left alone because its counter is negative or the same progress
  line is already there.\<close>

theorem handle_follows_the_planning_life:
  assumes "serves W (client (pg_gitClient g)) files" and "gate_observes W g files"
    and "FindTaskFilePath W L (pg_gitClient g) (pg_taskDir g) (TaskIdentifier req) res w = (Inr (rel, m), res1, w1)"
    and "rel \<noteq> []" and "under_base (pg_gitClient g) (JoinPath (Path (pg_gitClient g)) rel) = Inr rel"
    and "files w1 rel = Some b" and "length b \<le> maxBody" and "parseTaskFrontmatterAndBody L b = Inr (m, body)"
    and "Handle W L g newID req res w = (Inr handled, res', w')"
  shows "(handled \<longleftrightarrow> matchesRetryGate L g req \<and> lib_Phase L m = Some ''planning'') \<and>
         (if handled
          then (\<exists>l b'. planning_step L g b l b' \<and> files w' = (files w1)(rel \<mapsto> b')) \<or>
               files w' = files w1 \<and>
               (int_or_zero (lib_Int L m ''planning_retry_count'') < 0 \<or>
                (\<exists>line \<in> set (Split nl body). \<exists>reason ts. TrimSpace line = retry_bullet (planning_count L m) reason ts))
          else w' = w \<or> w' = w1)"
proof (cases "matchesRetryGate L g req \<and> lib_Phase L m = Some ''planning''")
  case False
  then show ?thesis
    using assms(3,4,9) by (cases "lib_Phase L m") (auto simp: Handle_def split: if_splits)
next
  case True
  then have gate: "matchesRetryGate L g req" and phase: "lib_Phase L m = Some ''planning''" by simp_all
  note run = Handle_run [OF assms(1-7) gate phase assms(9)]
  show ?thesis
  proof (cases "3 \<le> planning_count L m")
    case True
    then obtain reason ts b' c where out: "buildEscalationModifyFn L g reason ts b True = (Inr b', c)"
        and "files w' = (files w1)(rel \<mapsto> b')" "handled"
      using run by auto
    moreover have "planning_step L g b (Escalate c) b'"
      by (rule planning_step.escalation [OF assms(8) _ phase out])
        (use True in \<open>simp add: maxControllerPlanningRetries_def\<close>)
    ultimately show ?thesis using gate phase by auto
  next
    case False
    then obtain reason ts b' c where out: "buildRetryModifyFn L g (planning_count L m) reason ts newID b False = (Inr b', c)"
        and upd: "files w' = (files w1)(rel \<mapsto> b')" "handled"
      using run by auto
    show ?thesis
    proof (cases c)
      case True
      have "planning_step L g b Retry b'"
        by (rule planning_step.retry [OF assms(8)])
          (use False out True in \<open>auto simp: maxControllerPlanningRetries_def\<close>)
      with upd gate phase show ?thesis by auto
    next
      case False
      then have "b' = b" and "int_or_zero (lib_Int L m ''planning_retry_count'') < 0 \<or>
          (\<exists>line \<in> set (Split nl body). TrimSpace line = retry_bullet (planning_count L m) reason ts)"
        using out [unfolded retry_output [OF assms(8)]] phase
        by (auto simp: planning_count_def split: if_splits)
      with upd gate phase assms(6) show ?thesis by (auto simp: fun_upd_idem)
    qed
  qed
qed

text \<open>A task file whose retry counter is negative swallows every failed planning result: the gate clamps the
  counter it read to zero, the closure compares it with the raw one and writes nothing, and the result is
  reported as handled, so the result writer never sees it either.\<close>

theorem negative_counter_swallows_results:
  assumes "serves W (client (pg_gitClient g)) files" and "gate_observes W g files"
    and "FindTaskFilePath W L (pg_gitClient g) (pg_taskDir g) (TaskIdentifier req) res w = (Inr (rel, m), res1, w1)"
    and "rel \<noteq> []" and "under_base (pg_gitClient g) (JoinPath (Path (pg_gitClient g)) rel) = Inr rel"
    and "files w1 rel = Some b" and "length b \<le> maxBody" and "parseTaskFrontmatterAndBody L b = Inr (m, body)"
    and "matchesRetryGate L g req" and "lib_Phase L m = Some ''planning''"
    and "lib_Int L m ''planning_retry_count'' = Some c" and "c < 0"
  shows "\<exists>w'. Handle W L g newID req res w = (Inr True, res1, w') \<and> files w' = files w1"
proof -
  have zero: "planning_count L m = 0" using assms(11,12) by (simp add: planning_count_def int_or_zero_def)
  have same: "buildRetryModifyFn L g 0 reason ts newID b False = (Inr b, False)" for reason ts
    using assms(11,12) by (simp add: retry_output [OF assms(8)] int_or_zero_def)
  obtain w' where w': "Handle W L g newID req res w = (Inr True, res1, w')"
    using Handle_retry_total [OF assms(1-7,9,10), of newID] zero same by auto
  from Handle_run [OF assms(1-7,9,10) w'] zero same assms(6) w' show ?thesis by (auto simp: fun_upd_idem)
qed

text \<open>The reason that ends up in the progress list and in the comment is one line of at most two hundred
  characters without control characters, whatever the agent sent, including bytes that are not UTF-8.\<close>

theorem reason_is_one_short_line:
  "RuneCountInString (extractReason txt) \<le> 200 \<and> list_all (\<lambda>c. 0x20 \<le> (of_char c :: nat)) (extractReason txt)"
  by (auto simp: extractReason_def list_all_iff sanitizeReason_count dest: sanitizeReason_bytes split: option.split)

section \<open>Reference instances\<close>

definition ref_gate :: "mem planningRetryGate" where
  "ref_gate =
     \<lparr>pg_gitClient = NewGitClient (NewGitRestClient ''h'' [] []) ''/v'', pg_taskDir = ''d'', pg_vaultName = ''v'',
      pg_PostComment = (\<lambda>m c w. (None, w)), pg_humanAssignees = {||}, pg_TaskTypePRReview = ''pr-review''\<rparr>"

definition planning_fm :: "int \<Rightarrow> fm" where
  "planning_fm n =
     fmupd ''planning_retry_count'' (VInt n) (fmupd ''phase'' (VStr ''planning'')
       (fmupd ''assignee'' (VStr ''pr-reviewer-agent'') (fmupd ''task_identifier'' (VStr ''u'') fmempty)))"

lemma planning_fm_able: "codec_able (planning_fm n)"
  by (simp add: planning_fm_def codec_able_upd codec_able_empty)

lemma planning_fm_reads:
  "lib_Phase codec_lib (planning_fm n) = Some ''planning''"
  "lib_Int codec_lib (planning_fm n) ''planning_retry_count'' = Some n"
  "lib_String codec_lib (planning_fm n) ''task_identifier'' = Some ''u''"
  by (simp_all add: codec_lib_def ref_lib_def planning_fm_def)

lemma escalated_able: "codec_able (escalated_fm codec_lib ref_gate (planning_fm n))"
  by (simp add: escalated_fm_def ref_gate_def planning_fm_def ClearAssigneeIfHumanReview_def clearAssignee_def
      humans_Contains_def HealTargetVault_def codec_able_upd codec_able_empty Let_def)

theorem planning_retries_are_bounded_witness:
  "\<exists>ls b'. planning_run codec_lib ref_gate (codec_file (planning_fm 3) []) ls b' \<and> ls = [Escalate True] \<and>
     (\<exists>m' body'. parseTaskFrontmatterAndBody codec_lib b' = Inr (m', body') \<and> parked_owner {||} m')"
proof -
  let ?b = "codec_file (planning_fm 3) []"
  have parse: "parseTaskFrontmatterAndBody codec_lib ?b = Inr (planning_fm 3, [])"
    by (rule codec_file_read [OF planning_fm_able])
  have count: "planning_count codec_lib (planning_fm 3) = 3"
    by (simp add: planning_count_def planning_fm_reads int_or_zero_def)
  have prog: "\<not> progress_done []" by (simp add: progress_done_def TrimSpace_def strip_all.simps space_seqs_def HasPrefix_def)
  obtain b' where "buildEscalationModifyFn codec_lib ref_gate ''r'' ''t'' ?b True = (Inr b', True)"
    unfolding escalation_output [OF parse]
    by (simp add: planning_fm_reads prog codec_file_written [OF escalated_able])
  then have "planning_step codec_lib ref_gate ?b (Escalate True) b'"
    by (rule planning_step.escalation [OF parse, rotated 2])
      (simp_all add: count maxControllerPlanningRetries_def planning_fm_reads)
  then have run: "planning_run codec_lib ref_gate ?b [Escalate True] b'"
    by (rule planning_run.step) (rule planning_run.stop)
  from planning_retries_are_bounded [OF lib_ok_codec_lib yaml_ok_codec_lib parse run] obtain k where
    "[Escalate True] = replicate k Retry \<or>
      (\<exists>c m' body'. [Escalate True] = replicate k Retry @ [Escalate c] \<and>
        parseTaskFrontmatterAndBody codec_lib b' = Inr (m', body') \<and> parked_owner (pg_humanAssignees ref_gate) m')"
    by metis
  then have "\<exists>m' body'. parseTaskFrontmatterAndBody codec_lib b' = Inr (m', body') \<and> parked_owner {||} m'"
    by (cases k) (auto simp: ref_gate_def)
  with run show ?thesis by blast
qed

definition failed_task :: Task where
  "failed_task = \<lparr>Object = [], TaskIdentifier = ''u'', Frontmatter = fmupd ''assignee'' (VStr ''pr-reviewer-agent'') fmempty,
     Content = ''Status: failed''\<rparr>"

definition planning_mem :: "int \<Rightarrow> mem" where
  "planning_mem n = \<lparr>mem_files = [(''d/a.md'', codec_file (planning_fm n) [])], mem_clock = 0, mem_metrics = []\<rparr>"

definition planning_index :: index where
  "planning_index = fmupd ''u'' [''d/a.md''] fmempty"

lemma ref_gate_serves:
  "serves (mem_world (NewGitRestClient ''h'' [] [])) (client (pg_gitClient ref_gate)) (\<lambda>m. map_of (mem_files m))"
  "gate_observes (mem_world (NewGitRestClient ''h'' [] [])) ref_gate (\<lambda>m. map_of (mem_files m))"
  "under_base (pg_gitClient ref_gate) (JoinPath (Path (pg_gitClient ref_gate)) ''d/a.md'') = Inr ''d/a.md''"
proof -
  show "serves (mem_world (NewGitRestClient ''h'' [] [])) (client (pg_gitClient ref_gate)) (\<lambda>m. map_of (mem_files m))"
    by (simp add: ref_gate_def NewGitClient_def mem_serves)
  show "gate_observes (mem_world (NewGitRestClient ''h'' [] [])) ref_gate (\<lambda>m. map_of (mem_files m))"
    by (simp add: gate_observes_def mem_world_def ref_gate_def)
  show "under_base (pg_gitClient ref_gate) (JoinPath (Path (pg_gitClient ref_gate)) ''d/a.md'') = Inr ''d/a.md''"
    by code_simp
qed

lemma failed_task_matches: "matchesRetryGate codec_lib ref_gate failed_task"
proof -
  have "hasFailureMarker ''Status: failed''" by code_simp
  then show ?thesis by (simp add: matchesRetryGate_def failed_task_def codec_lib_def ref_lib_def)
qed

lemma planning_file_small: "length (codec_file (planning_fm n) []) \<le> maxBody" if "n \<in> {0, - 1}"
proof -
  have "length (codec_file (planning_fm 0) []) < 1000" "length (codec_file (planning_fm (- 1)) []) < 1000"
    by code_simp+
  then show ?thesis using that by (auto simp: maxBody_def)
qed

lemma planning_find:
  assumes "n \<in> {0, - 1}"
  shows "\<exists>w1. FindTaskFilePath (mem_world (NewGitRestClient ''h'' [] [])) codec_lib (pg_gitClient ref_gate) (pg_taskDir ref_gate)
     (TaskIdentifier failed_task) (Some planning_index) (planning_mem n) = (Inr (''d/a.md'', planning_fm n), Some planning_index, w1) \<and>
     map_of (mem_files w1) = map_of (mem_files (planning_mem n))"
proof (rule find_indexed [OF ref_gate_serves(1)])
  show "map_of (mem_files (planning_mem n)) ''d/a.md'' = Some (codec_file (planning_fm n) [])"
    by (simp add: planning_mem_def)
  show "Resolve planning_index (TaskIdentifier failed_task) = Inr (Some ''d/a.md'')"
    by (simp add: planning_index_def failed_task_def Resolve_def index_paths_def)
qed (simp_all add: planning_file_small [OF assms] codec_file_read [OF planning_fm_able] planning_fm_reads failed_task_def)

theorem negative_counter_swallows_results_witness:
  "\<exists>w'. Handle (mem_world (NewGitRestClient ''h'' [] [])) codec_lib ref_gate ''n'' failed_task (Some planning_index) (planning_mem (- 1)) =
      (Inr True, Some planning_index, w') \<and> map_of (mem_files w') ''d/a.md'' = Some (codec_file (planning_fm (- 1)) [])"
proof -
  obtain w1 where find: "FindTaskFilePath (mem_world (NewGitRestClient ''h'' [] [])) codec_lib (pg_gitClient ref_gate) (pg_taskDir ref_gate)
      (TaskIdentifier failed_task) (Some planning_index) (planning_mem (- 1)) = (Inr (''d/a.md'', planning_fm (- 1)), Some planning_index, w1)"
    and files: "map_of (mem_files w1) = map_of (mem_files (planning_mem (- 1)))"
    using planning_find [of "- 1"] by auto
  have b: "map_of (mem_files w1) ''d/a.md'' = Some (codec_file (planning_fm (- 1)) [])"
    by (simp add: files) (simp add: planning_mem_def)
  from negative_counter_swallows_results [OF ref_gate_serves(1,2) find _ ref_gate_serves(3) b _
      codec_file_read(4) [OF planning_fm_able] failed_task_matches planning_fm_reads(1,2), of "''n''"] planning_file_small [of "- 1"] b
  show ?thesis by auto
qed

lemma first_retry_able: "codec_able (retry_fm ref_gate 0 ''n'' (planning_fm 0))"
  by (simp add: retry_fm_def ref_gate_def planning_fm_def HealTargetVault_def codec_able_upd codec_able_empty)

theorem handle_follows_the_planning_life_witness:
  "\<exists>w' l b'. Handle (mem_world (NewGitRestClient ''h'' [] [])) codec_lib ref_gate ''n'' failed_task (Some planning_index) (planning_mem 0) =
      (Inr True, Some planning_index, w') \<and> planning_step codec_lib ref_gate (codec_file (planning_fm 0) []) l b' \<and>
      map_of (mem_files w') ''d/a.md'' = Some b'"
proof -
  obtain w1 where find: "FindTaskFilePath (mem_world (NewGitRestClient ''h'' [] [])) codec_lib (pg_gitClient ref_gate) (pg_taskDir ref_gate)
      (TaskIdentifier failed_task) (Some planning_index) (planning_mem 0) = (Inr (''d/a.md'', planning_fm 0), Some planning_index, w1)"
    and files: "map_of (mem_files w1) = map_of (mem_files (planning_mem 0))"
    using planning_find [of 0] by auto
  have b: "map_of (mem_files w1) ''d/a.md'' = Some (codec_file (planning_fm 0) [])"
    by (simp add: files) (simp add: planning_mem_def)
  have small: "length (codec_file (planning_fm 0) []) \<le> maxBody" by (rule planning_file_small) simp
  have parse: "parseTaskFrontmatterAndBody codec_lib (codec_file (planning_fm 0) []) = Inr (planning_fm 0, [])"
    by (rule codec_file_read [OF planning_fm_able])
  have zero: "planning_count codec_lib (planning_fm 0) = 0" by (simp add: planning_count_def planning_fm_reads int_or_zero_def)
  have blank: "TrimSpace [] = []" by (simp add: TrimSpace_def strip_all.simps space_seqs_def)
  have "\<exists>b' c. buildRetryModifyFn codec_lib ref_gate 0 reason ts ''n'' (codec_file (planning_fm 0) []) False = (Inr b', c)" for reason ts
    by (auto simp: retry_output [OF parse] codec_file_written [OF first_retry_able])
  then obtain w' where run: "Handle (mem_world (NewGitRestClient ''h'' [] [])) codec_lib ref_gate ''n'' failed_task (Some planning_index)
      (planning_mem 0) = (Inr True, Some planning_index, w')"
    using Handle_retry_total [OF ref_gate_serves(1,2) find _ ref_gate_serves(3) b small failed_task_matches planning_fm_reads(1), of "''n''"]
    by (auto simp: zero)
  have "\<not> (\<exists>line \<in> set (Split nl []). \<exists>reason ts. TrimSpace line = retry_bullet n reason ts)" for n
    by (simp add: blank retry_bullet_def)
  with handle_follows_the_planning_life [OF ref_gate_serves(1,2) find _ ref_gate_serves(3) b small parse run]
  obtain l b' where "planning_step codec_lib ref_gate (codec_file (planning_fm 0) []) l b'"
      "map_of (mem_files w') = (map_of (mem_files w1))(''d/a.md'' \<mapsto> b')"
    by (auto simp: planning_fm_reads int_or_zero_def)
  with run show ?thesis by auto
qed

end
