(* ===== verification/PeriodToken.thy ===== *)
theory PeriodToken
  imports Frontmatter Go_Time "HOL-Library.List_Lexorder" "HOL-Library.Char_ord" "HOL-Library.Multiset"
begin

text \<open>
  Period tokens of recurring tasks (\<open>pkg/command/period_token_ranking.go\<close>): the ordinal of a token, the split
  of a title into slug and token, and the ranking of the candidates of one schedule. Every pattern of the
  file is a concatenation of fixed-length pieces, so a pattern is a list of pieces, each with the byte
  classes it matches and whether it is captured. Ordinals of four-digit years lie far inside \<open>int64\<close>.
\<close>

section \<open>Patterns\<close>

type_synonym re_pattern = "(bool \<times> (char \<Rightarrow> bool) list) list"

fun FindStringSubmatch :: "re_pattern \<Rightarrow> string \<Rightarrow> string list option" where
  "FindStringSubmatch [] s = (if s = [] then Some [] else None)"
| "FindStringSubmatch ((captured, ps) # re) s =
     (let piece = take (length ps) s
      in if length piece = length ps \<and> list_all (\<lambda>(p, c). p c) (zip ps piece)
         then map_option (\<lambda>groups. if captured then piece # groups else groups)
                (FindStringSubmatch re (drop (length ps) s))
         else None)"

definition re_digits :: "nat \<Rightarrow> bool \<times> (char \<Rightarrow> bool) list" where
  "re_digits n = (True, replicate n is_digit)"

definition re_char :: "char \<Rightarrow> bool \<times> (char \<Rightarrow> bool) list" where
  "re_char c = (False, [\<lambda>x. x = c])"

definition is_lower :: "char \<Rightarrow> bool" where
  "is_lower c \<longleftrightarrow> CHR ''a'' \<le> c \<and> c \<le> CHR ''z''"

definition hourlyRe :: re_pattern where
  "hourlyRe = [re_digits 4, re_digits 2, re_digits 2, re_digits 2]"

definition dailyRe :: re_pattern where
  "dailyRe = [re_digits 4, re_char (CHR ''-''), re_digits 2, re_char (CHR ''-''), re_digits 2]"

definition weekdayRe :: re_pattern where
  "weekdayRe = [re_digits 4, re_char (CHR ''W''), re_digits 2, re_char (CHR ''-''), (True, replicate 3 is_lower)]"

definition weeklyRe :: re_pattern where
  "weeklyRe = [re_digits 4, re_char (CHR ''W''), re_digits 2]"

definition monthlyRe :: re_pattern where
  "monthlyRe = [re_digits 4, re_char (CHR ''-''), re_digits 2]"

definition quarterlyRe :: re_pattern where
  "quarterlyRe = [re_digits 4, re_char (CHR ''Q''), (True, [\<lambda>c. CHR ''1'' \<le> c \<and> c \<le> CHR ''4''])]"

definition yearlyRe :: re_pattern where
  "yearlyRe = [re_digits 4]"

section \<open>Ordinals\<close>

text \<open>A day number; \<open>AddDate\<close> with days only adds them.\<close>

definition isoWeekMonday :: "int \<Rightarrow> int \<Rightarrow> int" where
  "isoWeekMonday isoYear week =
     (let jan4 = unix_day isoYear 1 4;
          jan4Weekday = (if Weekday jan4 = 0 then 7 else Weekday jan4);
          mondayOfWeek1 = jan4 - (jan4Weekday - 1)
      in mondayOfWeek1 + (week - 1) * 7)"

text \<open>The captured groups, in order, as numbers; \<open>Atoi\<close> cannot fail on captured digits.\<close>

abbreviation group_int :: "string list \<Rightarrow> nat \<Rightarrow> int" where
  "group_int m i \<equiv> digits_val (m ! i)"

definition parsePeriodTokenOrdinal :: "string \<Rightarrow> int res" where
  "parsePeriodTokenOrdinal token =
     (case FindStringSubmatch hourlyRe token of
        Some m \<Rightarrow> Inr (Date_unix (group_int m 0) (group_int m 1) (group_int m 2) (group_int m 3))
      | None \<Rightarrow>
     (case FindStringSubmatch dailyRe token of
        Some m \<Rightarrow> Inr (Date_unix (group_int m 0) (group_int m 1) (group_int m 2) 0)
      | None \<Rightarrow>
     (case FindStringSubmatch weekdayRe token of
        Some m \<Rightarrow> Inr (86400 * isoWeekMonday (group_int m 0) (group_int m 1))
      | None \<Rightarrow>
     (case FindStringSubmatch weeklyRe token of
        Some m \<Rightarrow> Inr (86400 * isoWeekMonday (group_int m 0) (group_int m 1))
      | None \<Rightarrow>
     (case FindStringSubmatch monthlyRe token of
        Some m \<Rightarrow> Inr (Date_unix (group_int m 0) (group_int m 1) 1 0)
      | None \<Rightarrow>
     (case FindStringSubmatch quarterlyRe token of
        Some m \<Rightarrow> Inr (Date_unix (group_int m 0) ((group_int m 1 - 1) * 3 + 1) 1 0)
      | None \<Rightarrow>
     (case FindStringSubmatch yearlyRe token of
        Some m \<Rightarrow> Inr (Date_unix (group_int m 0) 1 1 0)
      | None \<Rightarrow> Inl (Errorf ''period token %q matches no recognized shape'' [token]))))))))"

section \<open>Ranking\<close>

datatype rankedCandidate = rankedCandidate (rc_Title: string) (rc_Ordinal: int)

text \<open>The comparison function given to \<open>sort.SliceStable\<close>: larger ordinals first, equal ones by descending title. It is a
  strict linear order, so the library's sorting applies.\<close>

definition ranked_before :: "rankedCandidate \<Rightarrow> rankedCandidate \<Rightarrow> bool" where
  "ranked_before a b \<longleftrightarrow>
     rc_Ordinal b < rc_Ordinal a \<or> (rc_Ordinal a = rc_Ordinal b \<and> rc_Title b < rc_Title a)"

instantiation rankedCandidate :: linorder
begin

definition less_rankedCandidate :: "rankedCandidate \<Rightarrow> rankedCandidate \<Rightarrow> bool" where
  "a < b \<longleftrightarrow> ranked_before a b"

definition less_eq_rankedCandidate :: "rankedCandidate \<Rightarrow> rankedCandidate \<Rightarrow> bool" where
  "a \<le> b \<longleftrightarrow> a < b \<or> a = (b :: rankedCandidate)"

instance
proof
  fix a b c :: rankedCandidate
  show "a < b \<longleftrightarrow> a \<le> b \<and> \<not> b \<le> a" "a \<le> a" "a \<le> b \<Longrightarrow> b \<le> a \<Longrightarrow> a = b"
    by (auto simp: less_eq_rankedCandidate_def less_rankedCandidate_def ranked_before_def)
  show "a \<le> b \<Longrightarrow> b \<le> c \<Longrightarrow> a \<le> c"
    by (auto simp: less_eq_rankedCandidate_def less_rankedCandidate_def ranked_before_def)
  show "a \<le> b \<or> b \<le> a"
    by (cases a; cases b) (auto simp: less_eq_rankedCandidate_def less_rankedCandidate_def ranked_before_def)
qed

end

definition splitTitleToken :: "string \<Rightarrow> (string \<times> string) option" where
  "splitTitleToken title = CutLast '' - '' title"

text \<open>The body of the loop: a candidate, or nothing for a title that is skipped.\<close>

definition candidate :: "string \<Rightarrow> rankedCandidate option" where
  "candidate title =
     (case splitTitleToken title of
        None \<Rightarrow> None
      | Some (slug, token) \<Rightarrow>
          (case parsePeriodTokenOrdinal token of
             Inl _ \<Rightarrow> None
           | Inr ordinal \<Rightarrow> Some (rankedCandidate title ordinal)))"

definition rankSameSlugCandidatesDescending :: "string list \<Rightarrow> rankedCandidate list" where
  "rankSameSlugCandidatesDescending titles = sort (List.map_filter candidate titles)"

section \<open>Periods\<close>

text \<open>
  The periods the tokens name, and how a token is written. \<open>dec w n\<close> is \<open>n\<close> with \<open>w\<close> digits.
\<close>

datatype period =
    Hourly int int int int
  | Daily int int int
  | Weekday_list int int string
  | Weekly int int
  | Monthly int int
  | Quarterly int int
  | Yearly int

fun dec :: "nat \<Rightarrow> nat \<Rightarrow> string" where
  "dec 0 n = []"
| "dec (Suc w) n = dec w (n div 10) @ [digit_char (n mod 10)]"

abbreviation idec :: "nat \<Rightarrow> int \<Rightarrow> string" where
  "idec w n \<equiv> dec w (nat n)"

fun token_of :: "period \<Rightarrow> string" where
  "token_of (Hourly y m d h) = idec 4 y @ idec 2 m @ idec 2 d @ idec 2 h"
| "token_of (Daily y m d) = idec 4 y @ ''-'' @ idec 2 m @ ''-'' @ idec 2 d"
| "token_of (Weekday_list y w a) = idec 4 y @ ''W'' @ idec 2 w @ ''-'' @ a"
| "token_of (Weekly y w) = idec 4 y @ ''W'' @ idec 2 w"
| "token_of (Monthly y m) = idec 4 y @ ''-'' @ idec 2 m"
| "token_of (Quarterly y q) = idec 4 y @ ''Q'' @ idec 1 q"
| "token_of (Yearly y) = idec 4 y"

definition iso_weeks :: "int \<Rightarrow> int" where
  "iso_weeks y = (isoWeekMonday (y + 1) 1 - isoWeekMonday y 1) div 7"

definition year_ok :: "int \<Rightarrow> bool" where
  "year_ok y \<longleftrightarrow> 0 \<le> y \<and> y \<le> 9999"

definition month_ok :: "int \<Rightarrow> bool" where
  "month_ok m \<longleftrightarrow> 1 \<le> m \<and> m \<le> 12"

definition date_ok :: "int \<Rightarrow> int \<Rightarrow> int \<Rightarrow> bool" where
  "date_ok y m d \<longleftrightarrow> year_ok y \<and> month_ok m \<and> 1 \<le> d \<and> d \<le> month_lengths y ! nat (m - 1)"

definition week_ok :: "int \<Rightarrow> int \<Rightarrow> bool" where
  "week_ok y w \<longleftrightarrow> year_ok y \<and> 1 \<le> w \<and> w \<le> iso_weeks y"

fun period_ok :: "period \<Rightarrow> bool" where
  "period_ok (Hourly y m d h) \<longleftrightarrow> date_ok y m d \<and> 0 \<le> h \<and> h \<le> 23"
| "period_ok (Daily y m d) \<longleftrightarrow> date_ok y m d"
| "period_ok (Weekday_list y w a) \<longleftrightarrow> week_ok y w \<and> length a = 3 \<and> list_all is_lower a"
| "period_ok (Weekly y w) \<longleftrightarrow> week_ok y w"
| "period_ok (Monthly y m) \<longleftrightarrow> year_ok y \<and> month_ok m"
| "period_ok (Quarterly y q) \<longleftrightarrow> year_ok y \<and> 1 \<le> q \<and> q \<le> 4"
| "period_ok (Yearly y) \<longleftrightarrow> year_ok y"

text \<open>The first second of a period, the calendar's own order of periods.\<close>

fun period_start :: "period \<Rightarrow> int" where
  "period_start (Hourly y m d h) = Date_unix y m d h"
| "period_start (Daily y m d) = Date_unix y m d 0"
| "period_start (Weekday_list y w a) = 86400 * isoWeekMonday y w"
| "period_start (Weekly y w) = 86400 * isoWeekMonday y w"
| "period_start (Monthly y m) = Date_unix y m 1 0"
| "period_start (Quarterly y q) = Date_unix y (3 * q - 2) 1 0"
| "period_start (Yearly y) = Date_unix y 1 1 0"

fun lex_less :: "int list \<Rightarrow> int list \<Rightarrow> bool" where
  "lex_less (x # xs) (y # ys) \<longleftrightarrow> x < y \<or> (x = y \<and> lex_less xs ys)"
| "lex_less _ _ \<longleftrightarrow> False"

text \<open>An earlier period of the same kind, by the components of the token.\<close>

fun earlier :: "period \<Rightarrow> period \<Rightarrow> bool" where
  "earlier (Hourly y m d h) (Hourly y' m' d' h') \<longleftrightarrow> lex_less [y, m, d, h] [y', m', d', h']"
| "earlier (Daily y m d) (Daily y' m' d') \<longleftrightarrow> lex_less [y, m, d] [y', m', d']"
| "earlier (Weekday_list y w a) (Weekday_list y' w' a') \<longleftrightarrow> lex_less [y, w] [y', w']"
| "earlier (Weekly y w) (Weekly y' w') \<longleftrightarrow> lex_less [y, w] [y', w']"
| "earlier (Monthly y m) (Monthly y' m') \<longleftrightarrow> lex_less [y, m] [y', m']"
| "earlier (Quarterly y q) (Quarterly y' q') \<longleftrightarrow> lex_less [y, q] [y', q']"
| "earlier (Yearly y) (Yearly y') \<longleftrightarrow> y < y'"
| "earlier _ _ \<longleftrightarrow> False"

section \<open>Reading a token\<close>

lemma length_dec [simp]: "length (dec w n) = w"
  by (induction w arbitrary: n) auto

lemma dec_digits: "list_all is_digit (dec w n)"
  by (induction w arbitrary: n) (auto simp: digit_char_val)

lemma digits_val_dec: "n < 10 ^ w \<Longrightarrow> digits_val (dec w n) = int n"
proof (induction w arbitrary: n)
  case (Suc w)
  have "digits_val (dec w (n div 10)) = int (n div 10)"
    by (rule Suc.IH) (use Suc.prems in \<open>simp add: less_mult_imp_div_less mult.commute\<close>)
  then show ?case by (simp add: digits_val_def digit_char_val zdiv_int zmod_int)
qed (simp add: digits_val_def)

lemma digits_val_idec: "0 \<le> n \<Longrightarrow> n < 10 ^ w \<Longrightarrow> digits_val (idec w n) = n"
  by (subst digits_val_dec) (simp_all add: nat_less_iff)

lemma zip_replicate_all: "length s = n \<Longrightarrow> list_all (\<lambda>(p, c). p c) (zip (replicate n P) s) = list_all P s"
  by (induction s arbitrary: n) auto

lemma match_run:
  "length s = n \<Longrightarrow>
   FindStringSubmatch ((True, replicate n P) # re) (s @ t) =
     (if list_all P s then map_option ((#) s) (FindStringSubmatch re t) else None)"
  by (simp add: zip_replicate_all)

lemma match_digits:
  "FindStringSubmatch (re_digits w # re) (dec w n @ t) = map_option ((#) (dec w n)) (FindStringSubmatch re t)"
  unfolding re_digits_def by (subst match_run) (simp_all add: dec_digits)

lemma match_digits_end:
  "FindStringSubmatch (re_digits w # re) (dec w n) = map_option ((#) (dec w n)) (FindStringSubmatch re [])"
  using match_digits [of w re n "[]"] by simp

lemma match_char:
  "FindStringSubmatch (re_char c # re) (d # t) = (if c = d then FindStringSubmatch re t else None)"
  by (cases "FindStringSubmatch re t") (auto simp: re_char_def)

text \<open>Two digits are expected where the token has a separator, or the token is too short.\<close>

lemma match_digits_sep:
  "\<not> is_digit c \<Longrightarrow> 0 < w \<Longrightarrow> FindStringSubmatch (re_digits w # re) (c # t) = None"
  by (cases w) (auto simp: re_digits_def)

lemma match_char_digit:
  "\<not> is_digit c \<Longrightarrow> 0 < w \<Longrightarrow> FindStringSubmatch (re_char c # re) (dec w n @ t) = None"
proof -
  assume c: "\<not> is_digit c" and "0 < w"
  then obtain d s where "dec w n = d # s" by (cases "dec w n") (auto dest: arg_cong [where f = length])
  moreover from this have "is_digit d" using dec_digits [of w n] by simp
  ultimately show ?thesis using c by (auto simp: match_char)
qed

lemma match_empty: "ps \<noteq> [] \<Longrightarrow> FindStringSubmatch ((cap, ps) # re) [] = None"
  by simp

lemma seps_no_digits:
  "\<not> is_digit (CHR ''-'')" "\<not> is_digit (CHR ''W'')" "\<not> is_digit (CHR ''Q'')" "\<not> is_digit (CHR '' '')"
  by code_simp+

lemma match_rest:
  "FindStringSubmatch [] (c # s) = None" "FindStringSubmatch [] [] = Some []"
  by simp_all

lemma match_nothing: "0 < w \<Longrightarrow> FindStringSubmatch (re_digits w # re) [] = None" "FindStringSubmatch (re_char c # re) [] = None"
  by (simp_all add: re_digits_def re_char_def)

lemma match_nil_dec: "0 < w \<Longrightarrow> FindStringSubmatch [] (dec w n @ t) = None"
  by (cases "dec w n") (auto dest: arg_cong [where f = length])

lemma match_nil_dec_end: "0 < w \<Longrightarrow> FindStringSubmatch [] (dec w n) = None"
  using match_nil_dec [of w n "[]"] by simp

lemmas match_simps = match_digits match_digits_end match_char match_digits_sep match_char_digit match_nothing
  match_nil_dec match_nil_dec_end match_rest seps_no_digits hourlyRe_def dailyRe_def weekdayRe_def
  weeklyRe_def monthlyRe_def quarterlyRe_def yearlyRe_def

lemma year_digits: "year_ok y \<Longrightarrow> digits_val (idec 4 y) = y"
  by (rule digits_val_idec) (simp_all add: year_ok_def)

lemma two_digits: "0 \<le> n \<Longrightarrow> n \<le> 99 \<Longrightarrow> digits_val (idec 2 n) = n"
  by (rule digits_val_idec) simp_all

section \<open>The calendar\<close>

lemma weekday_from_monday: "(if ((j::int) + 4) mod 7 = 0 then 7 else (j + 4) mod 7) - 1 = (j + 3) mod 7"
proof -
  define r where "r = (j + 3) mod 7"
  have r: "0 \<le> r" "r < 7" by (simp_all add: r_def)
  have "j + 4 = (j + 3) + 1" by simp
  then have "(j + 4) mod 7 = (r + 1) mod 7" using mod_add_left_eq [of "j + 3" 7 1] unfolding r_def by metis
  moreover have "(r + 1) mod 7 = (if r = 6 then 0 else r + 1)" using r by (auto simp: mod_pos_pos_trivial)
  ultimately show ?thesis using r by (simp add: r_def [symmetric])
qed
text \<open>The Monday of week 1 lies within the six days before January 4th.\<close>

lemma monday1_bounds:
  "isoWeekMonday y 1 \<le> unix_day y 1 4" "unix_day y 1 4 - 6 \<le> isoWeekMonday y 1"
  "(isoWeekMonday y 1 + 3) mod 7 = 0"
proof -
  define j where "j = unix_day y 1 4"
  have eq: "isoWeekMonday y 1 = j - (j + 3) mod 7"
  proof -
    have "(if (j + 4) mod 7 = 0 then 7 else (j + 4) mod 7) - 1 = (j + 3) mod 7" by (rule weekday_from_monday)
    then show ?thesis by (simp only: isoWeekMonday_def Weekday_def Let_def j_def [symmetric]) simp
  qed
  show "isoWeekMonday y 1 \<le> unix_day y 1 4" "unix_day y 1 4 - 6 \<le> isoWeekMonday y 1"
    unfolding j_def [symmetric] eq by auto
  show "(isoWeekMonday y 1 + 3) mod 7 = 0" unfolding eq by presburger
qed

lemma isoWeekMonday_week: "isoWeekMonday y w = isoWeekMonday y 1 + 7 * (w - 1)"
  by (simp add: isoWeekMonday_def Let_def)

lemma jan4_step: "unix_day (y + 1) 1 4 = unix_day y 1 4 + (if leap y then 366 else 365)"
  by (simp add: unix_day_valid days_before_year_step days_before_month_def)

lemma iso_weeks_exact: "isoWeekMonday (y + 1) 1 = isoWeekMonday y 1 + 7 * iso_weeks y"
  using monday1_bounds(3) [of y] monday1_bounds(3) [of "y + 1"] unfolding iso_weeks_def by presburger

lemma iso_weeks_bounds: "52 \<le> iso_weeks y \<and> iso_weeks y \<le> 53"
  using monday1_bounds(1,2) [of y] monday1_bounds(1,2) [of "y + 1"] jan4_step [of y] iso_weeks_exact [of y]
  by (auto split: if_splits)

lemma monday1_mono: "y < y' \<Longrightarrow> isoWeekMonday (y + 1) 1 \<le> isoWeekMonday y' 1"
proof (induction "nat (y' - y - 1)" arbitrary: y')
  case (Suc n)
  then have "n = nat (y' - 1 - y - 1)" "y < y' - 1" by auto
  then have "isoWeekMonday (y + 1) 1 \<le> isoWeekMonday (y' - 1) 1" by (rule Suc.hyps)
  then show ?case using iso_weeks_exact [of "y' - 1"] iso_weeks_bounds [of "y' - 1"] by simp
next
  case 0
  then have "y' = y + 1" by simp
  then show ?case by simp
qed

lemma week_less:
  assumes "week_ok y w" and "week_ok y' w'" and "lex_less [y, w] [y', w']"
  shows "isoWeekMonday y w < isoWeekMonday y' w'"
proof (cases "y < y'")
  case True
  have "isoWeekMonday y w < isoWeekMonday (y + 1) 1"
    using assms(1) iso_weeks_exact [of y] by (simp add: isoWeekMonday_week [of y w] week_ok_def)
  also have "\<dots> \<le> isoWeekMonday y' 1" using True by (rule monday1_mono)
  also have "\<dots> \<le> isoWeekMonday y' w'" using assms(2) by (simp add: isoWeekMonday_week [of y' w'] week_ok_def)
  finally show ?thesis .
next
  case False
  with assms(3) have "y' = y" "w < w'" by auto
  then show ?thesis by (simp add: isoWeekMonday_week [of y w] isoWeekMonday_week [of y w'])
qed

lemma day_in_month:
  "date_ok y m d \<Longrightarrow> unix_day y m 1 \<le> unix_day y m d \<and>
     unix_day y m d < days_before_year y + days_before_month y (nat m) - 719162"
  using days_before_month_Suc [of "nat (m - 1)" y]
  by (auto simp: date_ok_def month_ok_def unix_day_valid Suc_nat_eq_nat_zadd1)

lemma month_start:
  "month_ok m \<Longrightarrow> unix_day y m 1 = days_before_year y + days_before_month y (nat (m - 1)) - 719162"
  by (simp add: month_ok_def unix_day_valid)

lemma day_less:
  assumes "date_ok y m d" and "date_ok y' m' d'" and "lex_less [y, m, d] [y', m', d']"
  shows "unix_day y m d < unix_day y' m' d'"
proof -
  have m: "month_ok m" "month_ok m'" using assms(1,2) by (simp_all add: date_ok_def)
  consider "y < y'" | "y = y'" "m < m'" | "y = y'" "m = m'" "d < d'" using assms(3) by auto
  then show ?thesis
  proof cases
    case 1
    have "unix_day y m d < days_before_year y + days_before_month y 12 - 719162"
      using day_in_month [OF assms(1)] days_before_month_mono [of "nat m" 12 y] m by (simp add: month_ok_def nat_le_iff)
    also have "\<dots> = days_before_year (y + 1) - 719162"
      by (simp add: days_before_month_total days_before_year_step)
    also have "\<dots> \<le> days_before_year y' - 719162"
      using days_before_year_mono [of "y + 1" y'] 1 by simp
    also have "\<dots> \<le> unix_day y' m' 1"
      using days_before_month_mono [of 0 "nat (m' - 1)" y'] m
      by (simp add: month_start month_ok_def days_before_month_def nat_le_iff)
    also have "\<dots> \<le> unix_day y' m' d'" using day_in_month [OF assms(2)] by simp
    finally show ?thesis .
  next
    case 2
    have "unix_day y m d < days_before_year y + days_before_month y (nat m) - 719162"
      using day_in_month [OF assms(1)] by simp
    also have "\<dots> \<le> unix_day y' m' 1"
      using 2 m days_before_month_mono [of "nat m" "nat (m' - 1)" y] by (simp add: month_start month_ok_def)
    also have "\<dots> \<le> unix_day y' m' d'" using day_in_month [OF assms(2)] by simp
    finally show ?thesis .
  next
    case 3
    with m show ?thesis by (simp add: month_ok_def unix_day_valid)
  qed
qed

lemma first_ok: "year_ok y \<Longrightarrow> month_ok m \<Longrightarrow> date_ok y m 1"
  using month_length_bounds [of "nat (m - 1)" y] by (auto simp: date_ok_def month_ok_def nat_less_iff)

lemma month_less:
  assumes "year_ok y" "month_ok m" "year_ok y'" "month_ok m'" and "lex_less [y, m] [y', m']"
  shows "Date_unix y m 1 0 < Date_unix y' m' 1 0"
  using day_less [OF first_ok first_ok] assms by (auto simp: Date_unix_def)

lemma hour_less:
  assumes "period_ok (Hourly y m d h)" and "period_ok (Hourly y' m' d' h')"
    and "lex_less [y, m, d, h] [y', m', d', h']"
  shows "Date_unix y m d h < Date_unix y' m' d' h'"
proof (cases "lex_less [y, m, d] [y', m', d']")
  case True
  then have "unix_day y m d + 1 \<le> unix_day y' m' d'" using day_less assms(1,2) by fastforce
  then have "86400 * unix_day y m d + 86400 \<le> 86400 * unix_day y' m' d'" by simp
  then show ?thesis using assms(1,2) by (simp add: Date_unix_def)
next
  case False
  then show ?thesis using assms(3) by (auto simp: Date_unix_def)
qed

lemma earlier_start:
  assumes "period_ok p" and "period_ok q" and "earlier p q"
  shows "period_start p < period_start q"
proof (cases p)
  case (Hourly y m d h)
  with assms show ?thesis by (cases q) (auto intro: hour_less simp del: lex_less.simps)
next
  case (Daily y m d)
  with assms show ?thesis by (cases q) (auto intro: day_less simp: Date_unix_def simp del: lex_less.simps)
next
  case (Weekday_list y w a)
  with assms show ?thesis by (cases q) (auto intro: week_less simp del: lex_less.simps)
next
  case (Weekly y w)
  with assms show ?thesis by (cases q) (auto intro: week_less simp del: lex_less.simps)
next
  case (Monthly y m)
  with assms show ?thesis by (cases q) (auto intro: month_less simp del: lex_less.simps)
next
  case (Quarterly y k)
  with assms show ?thesis by (cases q) (auto intro!: month_less simp: month_ok_def)
next
  case (Yearly y)
  with assms show ?thesis by (cases q) (auto intro!: month_less simp: month_ok_def)
qed

lemma quarter_digit: "1 \<le> q \<Longrightarrow> q \<le> 4 \<Longrightarrow>
   FindStringSubmatch [(True, [\<lambda>c. CHR ''1'' \<le> c \<and> c \<le> CHR ''4''])] (idec 1 q) = Some [idec 1 q] \<and> digits_val (idec 1 q) = q"
proof -
  have "\<forall>q \<in> set [1..4]. FindStringSubmatch [(True, [\<lambda>c. CHR ''1'' \<le> c \<and> c \<le> CHR ''4''])] (idec 1 q) = Some [idec 1 q] \<and>
          digits_val (idec 1 q) = q"
    by code_simp
  then show "1 \<le> q \<Longrightarrow> q \<le> 4 \<Longrightarrow> ?thesis" by (simp del: FindStringSubmatch.simps dec.simps)
qed

lemma month_len31: "month_ok m \<Longrightarrow> month_lengths y ! nat (m - 1) \<le> 31"
  using month_length_bounds [of "nat (m - 1)" y] by (auto simp: month_ok_def nat_less_iff)

lemma date_digits:
  "date_ok y m d \<Longrightarrow> digits_val (idec 4 y) = y \<and> digits_val (idec 2 m) = m \<and> digits_val (idec 2 d) = d"
  using month_len31 [of m y] by (auto simp: date_ok_def month_ok_def intro!: year_digits two_digits)

lemma week_digits:
  "week_ok y w \<Longrightarrow> digits_val (idec 4 y) = y \<and> digits_val (idec 2 w) = w"
  using iso_weeks_bounds [of y] by (auto simp: week_ok_def intro!: year_digits two_digits)

lemma parse_token:
  assumes "period_ok p"
  shows "parsePeriodTokenOrdinal (token_of p) = Inr (period_start p)"
proof (cases p)
  case (Hourly y m d h)
  with assms show ?thesis
    using date_digits [of y m d] two_digits [of h] by (simp add: parsePeriodTokenOrdinal_def match_simps)
next
  case (Daily y m d)
  with assms show ?thesis
    using date_digits [of y m d] by (simp add: parsePeriodTokenOrdinal_def match_simps)
next
  case (Weekday_list y w a)
  have "FindStringSubmatch [(True, replicate 3 is_lower)] a = Some [a]"
    using match_run [of a 3 is_lower "[]" "[]"] assms Weekday_list by simp
  with assms Weekday_list show ?thesis
    using week_digits [of y w] by (simp add: parsePeriodTokenOrdinal_def match_simps)
next
  case (Weekly y w)
  with assms show ?thesis
    using week_digits [of y w] by (simp add: parsePeriodTokenOrdinal_def match_simps)
next
  case (Monthly y m)
  with assms show ?thesis
    using year_digits [of y] two_digits [of m] by (simp add: parsePeriodTokenOrdinal_def match_simps month_ok_def)
next
  case (Quarterly y q)
  with assms show ?thesis
    using year_digits [of y] quarter_digit [of q]
    by (simp add: parsePeriodTokenOrdinal_def match_simps mult.commute del: FindStringSubmatch.simps dec.simps)
next
  case (Yearly y)
  with assms show ?thesis
    using year_digits [of y] by (simp add: parsePeriodTokenOrdinal_def match_simps)
qed

section \<open>Titles\<close>

lemma match_chars:
  assumes "FindStringSubmatch re s = Some m" and "\<forall>(cap, ps) \<in> set re. \<forall>p \<in> set ps. \<not> p c"
  shows "c \<notin> set s"
  using assms
proof (induction re arbitrary: s m)
  case (Cons piece re)
  obtain cap ps where piece: "piece = (cap, ps)" by (cases piece)
  from Cons.prems(1) obtain m' where
    len: "length (take (length ps) s) = length ps" and
    all: "list_all (\<lambda>(p, c). p c) (zip ps (take (length ps) s))" and
    rest: "FindStringSubmatch re (drop (length ps) s) = Some m'"
    by (auto simp: piece Let_def split: if_splits)
  have "c \<notin> set (take (length ps) s)"
  proof
    assume "c \<in> set (take (length ps) s)"
    then obtain p where "(p, c) \<in> set (zip ps (take (length ps) s))"
      using len by (metis in_set_impl_in_set_zip2)
    then have "p c" "p \<in> set ps" using all by (auto simp: list_all_iff intro: set_zip_leftD)
    with Cons.prems(2) piece show False by auto
  qed
  moreover have "c \<notin> set (drop (length ps) s)" using Cons.IH [OF rest] Cons.prems(2) by simp
  ultimately show ?case by (metis Un_iff append_take_drop_id set_append)
qed (simp split: if_splits)

definition period_patterns :: "re_pattern list" where
  "period_patterns = [hourlyRe, dailyRe, weekdayRe, weeklyRe, monthlyRe, quarterlyRe, yearlyRe]"

lemma parse_matches:
  "parsePeriodTokenOrdinal token = Inr n \<Longrightarrow> \<exists>re \<in> set period_patterns. \<exists>m. FindStringSubmatch re token = Some m"
  by (simp add: parsePeriodTokenOrdinal_def period_patterns_def split: option.splits)

lemma patterns_no_space: "\<forall>re \<in> set period_patterns. \<forall>(cap, ps) \<in> set re. \<forall>p \<in> set ps. \<not> p (CHR '' '')"
  by (simp add: period_patterns_def hourlyRe_def dailyRe_def weekdayRe_def weeklyRe_def monthlyRe_def quarterlyRe_def
      yearlyRe_def re_digits_def re_char_def is_lower_def less_eq_char_def seps_no_digits)

lemma token_no_space: "parsePeriodTokenOrdinal token = Inr n \<Longrightarrow> CHR '' '' \<notin> set token"
proof -
  assume "parsePeriodTokenOrdinal token = Inr n"
  then obtain re m where "re \<in> set period_patterns" "FindStringSubmatch re token = Some m"
    using parse_matches by blast
  then show ?thesis using match_chars [of re token m "CHR '' ''"] bspec [OF patterns_no_space] by blast
qed

lemma CutLast_None: "c \<notin> set s \<Longrightarrow> CutLast (c # r) s = None"
  by (induction s) auto

lemma splitTitleToken_join:
  assumes "CHR '' '' \<notin> set token"
  shows "splitTitleToken (slug @ '' - '' @ token) = Some (slug, token)"
proof (induction slug)
  case Nil
  have "\<not> prefix ''- '' token" using assms by (auto simp: prefix_def)
  then show ?case using assms by (simp add: splitTitleToken_def CutLast_None)
next
  case (Cons c slug)
  then show ?case by (simp add: splitTitleToken_def)
qed

lemma candidate_join:
  "parsePeriodTokenOrdinal token = Inr n \<Longrightarrow>
   candidate (slug @ '' - '' @ token) = Some (rankedCandidate (slug @ '' - '' @ token) n)"
  unfolding candidate_def by (subst splitTitleToken_join [OF token_no_space]) simp_all

lemma candidate_title: "candidate t = Some c \<Longrightarrow> rc_Title c = t"
  by (auto simp: candidate_def split: option.splits sum.splits)

lemma mset_map_filter: "mset (List.map_filter f xs) = image_mset (\<lambda>x. the (f x)) (filter_mset (\<lambda>x. f x \<noteq> None) (mset xs))"
  by (simp add: List.map_filter_def o_def)

lemma rank_titles:
  "image_mset rc_Title (mset (rankSameSlugCandidatesDescending titles)) = filter_mset (\<lambda>t. candidate t \<noteq> None) (mset titles)"
proof -
  have "image_mset (\<lambda>t. rc_Title (the (candidate t))) (filter_mset (\<lambda>t. candidate t \<noteq> None) (mset titles)) =
        image_mset (\<lambda>t. t) (filter_mset (\<lambda>t. candidate t \<noteq> None) (mset titles))"
    by (rule image_mset_cong) (auto dest: candidate_title)
  then show ?thesis
    by (simp add: rankSameSlugCandidatesDescending_def mset_map_filter image_mset.compositionality o_def)
qed

lemma rank_sorted: "sorted (rankSameSlugCandidatesDescending titles)"
  by (simp add: rankSameSlugCandidatesDescending_def)

lemma rank_mset_cong:
  "mset titles = mset titles' \<Longrightarrow> rankSameSlugCandidatesDescending titles = rankSameSlugCandidatesDescending titles'"
  unfolding rankSameSlugCandidatesDescending_def
  by (rule properties_for_sort) (simp_all add: mset_map_filter)

section \<open>Properties\<close>

text \<open>The ordinal of a period token follows the calendar: of two titles of one schedule whose tokens name
  periods of the same kind, each written with the digits of a date that exists, both are recognized whatever
  the slug contains, and the earlier period gets the strictly smaller ordinal, across month, year and ISO
  week boundaries.\<close>

theorem ordinals_follow_the_calendar:
  assumes "period_ok p" and "period_ok q" and "earlier p q"
  shows "\<exists>a b. candidate (slug @ '' - '' @ token_of p) = Some (rankedCandidate (slug @ '' - '' @ token_of p) a) \<and>
               candidate (slug @ '' - '' @ token_of q) = Some (rankedCandidate (slug @ '' - '' @ token_of q) b) \<and> a < b"
  using parse_token [OF assms(1)] parse_token [OF assms(2)] earlier_start [OF assms]
  by (blast intro: candidate_join)

theorem ordinals_follow_the_calendar_witness:
  "\<exists>a b. candidate ''swing - 2026W53'' = Some (rankedCandidate ''swing - 2026W53'' a) \<and>
         candidate ''swing - 2027W01'' = Some (rankedCandidate ''swing - 2027W01'' b) \<and> a < b"
proof -
  have ok: "period_ok (Weekly 2026 53)" "period_ok (Weekly 2027 1)" "earlier (Weekly 2026 53) (Weekly 2027 1)"
    by code_simp+
  have "token_of (Weekly 2026 53) = ''2026W53''" "token_of (Weekly 2027 1) = ''2027W01''" by code_simp+
  with ordinals_follow_the_calendar [OF ok, of "''swing''"] show ?thesis by simp
qed

text \<open>The ranking is a function of the set of candidates, not of the order in which the vault listed
  them, so a redelivered command sees the same ranking: the result is sorted by descending ordinal and then
  by descending title, and holds exactly the recognized titles, each as often as it was listed.\<close>

theorem ranking_is_canonical:
  "image_mset rc_Title (mset (rankSameSlugCandidatesDescending titles)) = filter_mset (\<lambda>t. candidate t \<noteq> None) (mset titles) \<and>
   sorted_wrt (\<lambda>a b. rc_Ordinal b < rc_Ordinal a \<or> rc_Ordinal a = rc_Ordinal b \<and> rc_Title b \<le> rc_Title a)
     (rankSameSlugCandidatesDescending titles) \<and>
   (mset titles = mset titles' \<longrightarrow> rankSameSlugCandidatesDescending titles = rankSameSlugCandidatesDescending titles')"
proof (intro conjI)
  show "sorted_wrt (\<lambda>a b. rc_Ordinal b < rc_Ordinal a \<or> rc_Ordinal a = rc_Ordinal b \<and> rc_Title b \<le> rc_Title a)
     (rankSameSlugCandidatesDescending titles)"
    by (rule sorted_wrt_mono_rel [OF _ rank_sorted])
      (auto simp: less_eq_rankedCandidate_def less_rankedCandidate_def ranked_before_def)
qed (rule rank_titles, rule impI, rule rank_mset_cong)

theorem ranking_is_canonical_witness:
  "rankSameSlugCandidatesDescending [''a - 2026-05'', ''a - 2026-06''] = rankSameSlugCandidatesDescending [''a - 2026-06'', ''a - 2026-05'']"
  using ranking_is_canonical [of "[''a - 2026-05'', ''a - 2026-06'']" "[''a - 2026-06'', ''a - 2026-05'']"] by simp

end
