(* ===== verification/Supersede.thy ===== *)
theory Supersede
  imports PeriodToken Resolver RefCodec
begin

text \<open>
  What a freshly created task supersedes (\<open>pkg/command/task_create_task_executor.go\<close> and
  \<open>supersede_update_go.go\<close>): the older instances of its recurring schedule, the other open update tasks of its
  repository, and the build-fix tasks it names. Every hook is best effort: the failure of one file is logged
  and the loop goes on, so a hook returns only the new world. The text of an error, which the not-found check
  searches, is a parameter.
\<close>

section \<open>The command\<close>

record CreateCommand =
  cr_TaskIdentifier :: task_id
  cr_TargetVault :: string
  cr_Title :: string
  cr_Frontmatter :: fm
  cr_Body :: string

record create_lib =
  Error_text :: "go_error \<Rightarrow> string"
  id_Validate :: "task_id \<Rightarrow> go_error option"
  cmd_Validate :: "CreateCommand \<Rightarrow> go_error option"

text \<open>What the executor closes over: the git client, the task directory, the vault name and the look-back bound.\<close>

record createExecutor =
  cx_gitClient :: gitClient
  cx_taskDir :: string
  cx_vaultName :: string
  cx_k :: int

abbreviation lib_string0 :: "pure_lib \<Rightarrow> fm \<Rightarrow> string \<Rightarrow> string" where
  "lib_string0 L m k \<equiv> string_or_empty (lib_String L m k)"

section \<open>Reading and aborting a prior\<close>

definition isNotFoundReadError :: "create_lib \<Rightarrow> go_error \<Rightarrow> bool" where
  "isNotFoundReadError E e = Contains (Error_text E e) ''returned 404''"

definition readPriorForSupersede ::
  "'w world \<Rightarrow> create_lib \<Rightarrow> gitClient \<Rightarrow> path \<Rightarrow> 'w \<Rightarrow> bytes option res \<times> 'w" where
  "readPriorForSupersede W E a priorRelPath w =
     (case ReadFile W a priorRelPath w of
        (Inr b, w) \<Rightarrow> (Inr (Some b), w)
      | (Inl e, w) \<Rightarrow> (if isNotFoundReadError E e then (Inr None, w) else (Inl e, w)))"

definition priorIsInProgress :: "pure_lib \<Rightarrow> bytes \<Rightarrow> bool" where
  "priorIsInProgress L b =
     (case ExtractFrontmatter b of
        Inl _ \<Rightarrow> False
      | Inr s \<Rightarrow>
          (case parseTaskFrontmatter L s of
             Inl _ \<Rightarrow> False
           | Inr priorFm \<Rightarrow> lib_string0 L priorFm ''status'' = ''in_progress''))"

text \<open>The frozen transition fields; only the recurring hook claims the attribution.\<close>

definition superseded_fm :: "path \<Rightarrow> string \<Rightarrow> bool \<Rightarrow> fm \<Rightarrow> fm" where
  "superseded_fm newRelPath ts setCreatedBy m =
     (let m = fmupd ''status'' (VStr ''aborted'') m;
          m = fmupd ''phase'' (VStr ''done'') m;
          m = fmupd ''completed_date'' (VStr ts) m;
          m = fmupd ''superseded_by'' (VStr newRelPath) m
      in if setCreatedBy then fmupd ''created_by'' (VStr ''recurring-task-creator'') m else m)"

definition buildSupersedeModifyFn ::
  "pure_lib \<Rightarrow> path \<Rightarrow> string \<Rightarrow> bool \<Rightarrow> bytes \<Rightarrow> unit \<Rightarrow> bytes res \<times> unit" where
  "buildSupersedeModifyFn L newRelPath ts setCreatedBy current s =
     (case ExtractFrontmatter current of
        Inl e \<Rightarrow> (Inl (Wrapf e ''extract frontmatter'' []), s)
      | Inr fmStr \<Rightarrow>
     (case ExtractBody current of
        Inl e \<Rightarrow> (Inl (Wrapf e ''extract body'' []), s)
      | Inr body \<Rightarrow>
     (case parseTaskFrontmatter L fmStr of
        Inl e \<Rightarrow> (Inl (Wrapf e ''parse frontmatter'' []), s)
      | Inr m \<Rightarrow> (marshalFileContent L (superseded_fm newRelPath ts setCreatedBy m) body, s))))"

definition transitionPrior ::
  "'w world \<Rightarrow> pure_lib \<Rightarrow> gitClient \<Rightarrow> path \<Rightarrow> string \<Rightarrow> path \<Rightarrow> string \<Rightarrow> bool \<Rightarrow> 'w \<Rightarrow> 'w" where
  "transitionPrior W L a priorRelPath priorTitle newRelPath msgPrefix setCreatedBy w =
     (case clock_now W w of (now, w) \<Rightarrow>
        snd (snd (AtomicReadModifyWriteAndCommitPush W a (JoinPath (Path a) priorRelPath)
          (buildSupersedeModifyFn L newRelPath (RFC3339 now) setCreatedBy) (msgPrefix @ priorTitle) () w)))"

section \<open>Recurring tasks\<close>

definition isRecurringTaskCommand :: "pure_lib \<Rightarrow> CreateCommand \<Rightarrow> bool" where
  "isRecurringTaskCommand L cmd \<longleftrightarrow> lib_string0 L (cr_Frontmatter cmd) ''created_by'' = ''recurring-task-creator''"

definition isEligibleForSupersede :: "pure_lib \<Rightarrow> CreateCommand \<Rightarrow> bool" where
  "isEligibleForSupersede L cmd =
     (if lib_string0 L (cr_Frontmatter cmd) ''created_by'' \<noteq> ''recurring-task-creator'' then False
      else fm_get (cr_Frontmatter cmd) ''auto_abort_prior'' = Some (VBool True) \<or>
           fm_get (cr_Frontmatter cmd) ''auto_abort_prior'' = Some (VStr ''true''))"

text \<open>The loop both listings share: the titles of the listed paths that start with the prefix.\<close>

fun collect_titles :: "'w world \<Rightarrow> string \<Rightarrow> path list \<Rightarrow> 'w \<Rightarrow> string list res" where
  "collect_titles W pre [] w = Inr []"
| "collect_titles W pre (relPath # relPaths) w =
     (case ctx_err W w of
        Some e \<Rightarrow> Inl e
      | None \<Rightarrow>
          (let title = TrimSuffix (Base relPath) ''.md''
           in case collect_titles W pre relPaths w of
                Inl e \<Rightarrow> Inl e
              | Inr titles \<Rightarrow> Inr (if HasPrefix title pre then title # titles else titles)))"

definition glob_meta :: string where
  "glob_meta = ''*?[]'' @ [CHR 0x5C]"

definition path_separators :: string where
  "path_separators = [CHR ''/'', CHR 0x5C]"

definition listSameSlugCandidateTitles ::
  "'w world \<Rightarrow> gitClient \<Rightarrow> string \<Rightarrow> string \<Rightarrow> 'w \<Rightarrow> string list res \<times> 'w" where
  "listSameSlugCandidateTitles W a taskDir slug w =
     (let glob = (if ContainsAny slug glob_meta then JoinPath taskDir ''*.md''
                  else JoinPath taskDir (slug @ '' - *.md''))
      in case ListFiles W a glob w of
           (Inl e, w) \<Rightarrow> (Inl e, w)
         | (Inr relPaths, w) \<Rightarrow> (collect_titles W (slug @ '' - '') relPaths w, w))"

fun collapseCandidates ::
  "'w world \<Rightarrow> pure_lib \<Rightarrow> create_lib \<Rightarrow> createExecutor \<Rightarrow> rankedCandidate list \<Rightarrow> int \<Rightarrow> path \<Rightarrow> int \<Rightarrow> 'w \<Rightarrow> 'w" where
  "collapseCandidates W L E x [] newOrdinal newRelPath inspected w = w"
| "collapseCandidates W L E x (rc # ranked) newOrdinal newRelPath inspected w =
     (if ctx_err W w \<noteq> None then w
      else if cx_k x \<le> inspected then w
      else if newOrdinal < rc_Ordinal rc then collapseCandidates W L E x ranked newOrdinal newRelPath inspected w
      else
        (let go = collapseCandidates W L E x ranked newOrdinal newRelPath (inspected + 1);
             candidateRelPath = JoinPath (cx_taskDir x) (rc_Title rc @ ''.md'')
         in if ContainsAny (rc_Title rc) path_separators then go w
            else case readPriorForSupersede W E (cx_gitClient x) candidateRelPath w of
                   (Inl _, w) \<Rightarrow> go w
                 | (Inr None, w) \<Rightarrow> go w
                 | (Inr (Some b), w) \<Rightarrow>
                     (if \<not> priorIsInProgress L b then go w
                      else go (transitionPrior W L (cx_gitClient x) candidateRelPath (rc_Title rc) newRelPath
                                 ''[agent-task-controller] auto-supersede prior recurring task '' True w))))"

definition supersedePriorRecurringTask ::
  "'w world \<Rightarrow> pure_lib \<Rightarrow> create_lib \<Rightarrow> createExecutor \<Rightarrow> CreateCommand \<Rightarrow> path \<Rightarrow> 'w \<Rightarrow> 'w" where
  "supersedePriorRecurringTask W L E x cmd newRelPath w =
     (if \<not> isEligibleForSupersede L cmd then w
      else case splitTitleToken (cr_Title cmd) of
             None \<Rightarrow> w
           | Some (slug, newToken) \<Rightarrow>
               (case parsePeriodTokenOrdinal newToken of
                  Inl _ \<Rightarrow> w
                | Inr newOrdinal \<Rightarrow>
                    (case listSameSlugCandidateTitles W (cx_gitClient x) (cx_taskDir x) slug w of
                       (Inl _, w) \<Rightarrow> w
                     | (Inr titles, w) \<Rightarrow>
                         (if titles \<noteq> [] \<and> ctx_err W w \<noteq> None then w
                          else
                            (let kept = filter (\<lambda>t. t \<noteq> cr_Title cmd) titles;
                                 ranked = rankSameSlugCandidatesDescending kept
                             in collapseCandidates W L E x ranked newOrdinal newRelPath 0 w)))))"

section \<open>Update tasks of a repository\<close>

definition updateGoTaskType :: string where "updateGoTaskType = ''github-update-go''"
definition updateGoTitlePrefix :: string where "updateGoTitlePrefix = ''Update Go ''"

definition listUpdateGoCandidateTitles ::
  "'w world \<Rightarrow> gitClient \<Rightarrow> string \<Rightarrow> string \<Rightarrow> 'w \<Rightarrow> string list res \<times> 'w" where
  "listUpdateGoCandidateTitles W a taskDir repo w =
     (let pre = updateGoTitlePrefix @ ReplaceAll repo (CHR ''/'') ''-'' @ '' '';
          glob = (if ContainsAny pre glob_meta then JoinPath taskDir ''*.md'' else JoinPath taskDir (pre @ ''*.md''))
      in case ListFiles W a glob w of
           (Inl e, w) \<Rightarrow> (Inl e, w)
         | (Inr relPaths, w) \<Rightarrow> (collect_titles W pre relPaths w, w))"

definition isOpenUpdateGoTaskForRepo :: "pure_lib \<Rightarrow> bytes \<Rightarrow> string \<Rightarrow> bool" where
  "isOpenUpdateGoTaskForRepo L b repo =
     (case ExtractFrontmatter b of
        Inl _ \<Rightarrow> False
      | Inr s \<Rightarrow>
          (case parseTaskFrontmatter L s of
             Inl _ \<Rightarrow> False
           | Inr m \<Rightarrow>
               string_or_empty (as_string (fm_get m ''task_type'')) = updateGoTaskType \<and>
               string_or_empty (as_string (fm_get m ''repo'')) = repo \<and>
               string_or_empty (as_string (fm_get m ''status'')) = ''in_progress''))"

fun update_go_loop ::
  "'w world \<Rightarrow> pure_lib \<Rightarrow> create_lib \<Rightarrow> createExecutor \<Rightarrow> string \<Rightarrow> path \<Rightarrow> string list \<Rightarrow> int \<Rightarrow> 'w \<Rightarrow> 'w" where
  "update_go_loop W L E x repo newRelPath [] openFound w = w"
| "update_go_loop W L E x repo newRelPath (title # titles) openFound w =
     (let go = update_go_loop W L E x repo newRelPath titles;
          candidateRelPath = JoinPath (cx_taskDir x) (title @ ''.md'')
      in if ctx_err W w \<noteq> None then w
         else if cx_k x \<le> openFound then w
         else if ContainsAny title path_separators then go openFound w
         else if candidateRelPath = newRelPath then go openFound w
         else case readPriorForSupersede W E (cx_gitClient x) candidateRelPath w of
                (Inl _, w) \<Rightarrow> go openFound w
              | (Inr None, w) \<Rightarrow> go openFound w
              | (Inr (Some b), w) \<Rightarrow>
                  (if \<not> isOpenUpdateGoTaskForRepo L b repo then go openFound w
                   else go (openFound + 1)
                          (transitionPrior W L (cx_gitClient x) candidateRelPath title newRelPath
                             ''[agent-task-controller] auto-supersede prior update-go task '' False w)))"

definition supersedePriorUpdateGoTasks ::
  "'w world \<Rightarrow> pure_lib \<Rightarrow> create_lib \<Rightarrow> createExecutor \<Rightarrow> CreateCommand \<Rightarrow> path \<Rightarrow> 'w \<Rightarrow> 'w" where
  "supersedePriorUpdateGoTasks W L E x cmd newRelPath w =
     (if lib_string0 L (cr_Frontmatter cmd) ''task_type'' \<noteq> updateGoTaskType then w
      else let repo = lib_string0 L (cr_Frontmatter cmd) ''repo''
           in if repo = [] then w
              else case listUpdateGoCandidateTitles W (cx_gitClient x) (cx_taskDir x) repo w of
                     (Inl _, w) \<Rightarrow> w
                   | (Inr titles, w) \<Rightarrow> update_go_loop W L E x repo newRelPath titles 0 w)"

section \<open>Build-fix tasks\<close>

definition buildFixCandidateMatches :: "pure_lib \<Rightarrow> fm \<Rightarrow> string \<Rightarrow> string \<Rightarrow> bool" where
  "buildFixCandidateMatches L m supersedesTaskID supersedesBuildID \<longleftrightarrow>
     (supersedesTaskID \<noteq> [] \<and> lib_string0 L m ''task_identifier'' = supersedesTaskID) \<or>
     (supersedesBuildID \<noteq> [] \<and> lib_string0 L m ''build_id'' = supersedesBuildID)"

definition buildFixCandidateIsLive :: "pure_lib \<Rightarrow> fm \<Rightarrow> bool" where
  "buildFixCandidateIsLive L m =
     (let s = TrimSpace (lib_string0 L m ''status'')
      in if s = [] then False else s \<noteq> ''completed'' \<and> s \<noteq> ''aborted'')"

definition buildBuildFixRetireModifyFn ::
  "pure_lib \<Rightarrow> path \<Rightarrow> string \<Rightarrow> bytes \<Rightarrow> unit \<Rightarrow> bytes res \<times> unit" where
  "buildBuildFixRetireModifyFn L newRelPath ts current s =
     (case parseTaskFrontmatterAndBody L current of
        Inl e \<Rightarrow> (Inl e, s)
      | Inr (m, body) \<Rightarrow>
          (let m = fmupd ''status'' (VStr ''aborted'') m;
               m = fmupd ''phase'' (VStr ''done'') m;
               m = fmupd ''completed_date'' (VStr ts) m;
               m = fmupd ''superseded_by'' (VStr newRelPath) m
           in (marshalFileContent L m body, s)))"

definition retireSupersededBuildFixCandidate ::
  "'w world \<Rightarrow> pure_lib \<Rightarrow> gitClient \<Rightarrow> path \<Rightarrow> string \<Rightarrow> string \<Rightarrow> path \<Rightarrow> 'w \<Rightarrow> 'w" where
  "retireSupersededBuildFixCandidate W L a relPath supersedesTaskID supersedesBuildID newRelPath w =
     (case ReadFile W a relPath w of
        (Inl _, w) \<Rightarrow> w
      | (Inr b, w) \<Rightarrow>
          (case parseTaskFrontmatterAndBody L b of
             Inl _ \<Rightarrow> w
           | Inr (m, _) \<Rightarrow>
               (if \<not> buildFixCandidateMatches L m supersedesTaskID supersedesBuildID then w
                else if \<not> buildFixCandidateIsLive L m then w
                else case clock_now W w of (now, w) \<Rightarrow>
                       snd (snd (AtomicReadModifyWriteAndCommitPush W a (JoinPath (Path a) relPath)
                         (buildBuildFixRetireModifyFn L newRelPath (RFC3339 now))
                         (''[agent-task-controller] auto-supersede build-fix: '' @ relPath) () w)))))"

fun retire_loop ::
  "'w world \<Rightarrow> pure_lib \<Rightarrow> gitClient \<Rightarrow> string \<Rightarrow> string \<Rightarrow> path \<Rightarrow> path list \<Rightarrow> 'w \<Rightarrow> 'w" where
  "retire_loop W L a supersedesTaskID supersedesBuildID newRelPath [] w = w"
| "retire_loop W L a supersedesTaskID supersedesBuildID newRelPath (relPath # relPaths) w =
     (if ctx_err W w \<noteq> None then w
      else retire_loop W L a supersedesTaskID supersedesBuildID newRelPath relPaths
             (if relPath = newRelPath then w
              else retireSupersededBuildFixCandidate W L a relPath supersedesTaskID supersedesBuildID newRelPath w))"

definition retireSupersededBuildFixTasks ::
  "'w world \<Rightarrow> pure_lib \<Rightarrow> createExecutor \<Rightarrow> CreateCommand \<Rightarrow> path \<Rightarrow> 'w \<Rightarrow> 'w" where
  "retireSupersededBuildFixTasks W L x cmd newRelPath w =
     (let supersedesTaskID = lib_string0 L (cr_Frontmatter cmd) ''supersedes_task_id'';
          supersedesBuildID = lib_string0 L (cr_Frontmatter cmd) ''supersedes_build_id''
      in if supersedesTaskID = [] \<and> supersedesBuildID = [] then w
         else case ListFiles W (cx_gitClient x) (JoinPath (cx_taskDir x) ''*.md'') w of
                (Inl _, w) \<Rightarrow> w
              | (Inr relPaths, w) \<Rightarrow>
                  retire_loop W L (cx_gitClient x) supersedesTaskID supersedesBuildID newRelPath relPaths w)"

section \<open>The abort image\<close>

lemma superseded_fm_get:
  "fm_get (superseded_fm newRelPath ts c m) k =
     (if k = ''status'' then Some (VStr ''aborted'')
      else if k = ''phase'' then Some (VStr ''done'')
      else if k = ''completed_date'' then Some (VStr ts)
      else if k = ''superseded_by'' then Some (VStr newRelPath)
      else if c \<and> k = ''created_by'' then Some (VStr ''recurring-task-creator'')
      else fm_get m k)"
  by (simp add: superseded_fm_def Let_def)

lemma supersede_parsed:
  "parseTaskFrontmatterAndBody L b = Inr (m, body) \<Longrightarrow>
   buildSupersedeModifyFn L newRelPath ts c b s = (marshalFileContent L (superseded_fm newRelPath ts c m) body, s)"
  by (auto simp: buildSupersedeModifyFn_def parseTaskFrontmatter_def parse_parts)

lemma supersede_Inr:
  assumes "fst (buildSupersedeModifyFn L newRelPath ts c b s) = Inr b'"
  obtains m body where "parseTaskFrontmatterAndBody L b = Inr (m, body)"
    "marshalFileContent L (superseded_fm newRelPath ts c m) body = Inr b'"
  using assms by (auto simp: buildSupersedeModifyFn_def parseTaskFrontmatter_def parse_parts split: sum.splits)

lemma retire_is_supersede:
  "fst (buildBuildFixRetireModifyFn L newRelPath ts b s) = Inr b' \<longleftrightarrow>
   fst (buildSupersedeModifyFn L newRelPath ts False b s) = Inr b'"
  by (auto simp: buildBuildFixRetireModifyFn_def buildSupersedeModifyFn_def parseTaskFrontmatterAndBody_def
      parseTaskFrontmatter_def superseded_fm_def Let_def split: sum.splits)

text \<open>A file that carries the transition.\<close>

definition aborted_by :: "pure_lib \<Rightarrow> path \<Rightarrow> bytes \<Rightarrow> bool" where
  "aborted_by L newRelPath b \<longleftrightarrow>
     (\<exists>m body. parseTaskFrontmatterAndBody L b = Inr (m, body) \<and> fm_get m ''status'' = Some (VStr ''aborted'') \<and>
        fm_get m ''phase'' = Some (VStr ''done'') \<and> fm_get m ''superseded_by'' = Some (VStr newRelPath))"

lemma supersede_aborts:
  assumes "yaml_ok L" and "fst (buildSupersedeModifyFn L newRelPath ts c b s) = Inr b'"
  shows "aborted_by L newRelPath b'"
proof -
  obtain m body where "marshalFileContent L (superseded_fm newRelPath ts c m) body = Inr b'"
    using assms(2) by (rule supersede_Inr)
  then obtain m' where parse: "parseTaskFrontmatterAndBody L b' = Inr (m', body)"
      and rel: "fmrel same_value (superseded_fm newRelPath ts c m) m'"
    using marshalFileContent_read_back [OF assms(1)] by metis
  have "fm_get m' ''status'' = Some (VStr ''aborted'')" "fm_get m' ''phase'' = Some (VStr ''done'')"
      "fm_get m' ''superseded_by'' = Some (VStr newRelPath)"
    by (simp_all add: fmrel_same_value_VStr [OF rel] superseded_fm_get)
  with parse show ?thesis unfolding aborted_by_def by blast
qed

section \<open>What the hooks send\<close>

text \<open>Between two states of the traced world nothing was posted but outputs of the supersede closure.\<close>

definition aborts_only :: "pure_lib \<Rightarrow> path \<Rightarrow> 'w \<times> exchange list \<Rightarrow> 'w \<times> exchange list \<Rightarrow> bool" where
  "aborts_only L n x y \<longleftrightarrow>
     (\<exists>bs. posted (snd y) = posted (snd x) @ bs \<and>
        (\<forall>b \<in> set bs. \<exists>ts c current. fst (buildSupersedeModifyFn L n ts c current ()) = Inr b))"

lemma aborts_only_quiet: "posted (snd y) = posted (snd x) \<Longrightarrow> aborts_only L n x y"
  by (simp add: aborts_only_def)

lemma aborts_only_refl [simp]: "aborts_only L n x x"
  by (simp add: aborts_only_quiet)

lemma aborts_only_trans: "aborts_only L n x y \<Longrightarrow> aborts_only L n y z \<Longrightarrow> aborts_only L n x z"
  unfolding aborts_only_def by (elim exE conjE, rule exI, rule conjI, simp, auto)

lemma rmw_aborts_only:
  assumes "\<And>current b. fst (f current ()) = Inr b \<Longrightarrow> \<exists>ts c. fst (buildSupersedeModifyFn L n ts c current ()) = Inr b"
  shows "aborts_only L n x (snd (snd (AtomicReadModifyWriteAndCommitPush (traced W) a p f msg () x)))"
proof -
  obtain r s' x' where run: "AtomicReadModifyWriteAndCommitPush (traced W) a p f msg () x = (r, s', x')"
    by (cases "AtomicReadModifyWriteAndCommitPush (traced W) a p f msg () x")
  obtain bs where bs: "posted (snd x') = posted (snd x) @ bs"
      "\<forall>b \<in> set bs. \<exists>current. fst (f current ()) = Inr b \<and> b \<noteq> current"
    using rmw.rmw_sends [OF run] by blast
  have "\<exists>ts c current. fst (buildSupersedeModifyFn L n ts c current ()) = Inr b" if "b \<in> set bs" for b
    using bs(2) that assms by metis
  with bs(1) show ?thesis unfolding run aborts_only_def by auto
qed

lemma clock_then_rmw:
  assumes "\<And>now current b. fst (f now current ()) = Inr b \<Longrightarrow> \<exists>ts c. fst (buildSupersedeModifyFn L n ts c current ()) = Inr b"
  shows "aborts_only L n x (case clock_now (traced W) x of (now, y) \<Rightarrow>
           snd (snd (AtomicReadModifyWriteAndCommitPush (traced W) a p (f now) msg () y)))"
proof -
  obtain now y where y: "clock_now (traced W) x = (now, y)" by (cases "clock_now (traced W) x")
  then have "snd y = snd x" using traced_simps(3) [of W x] by simp
  then have "aborts_only L n x y" by (simp add: aborts_only_quiet)
  moreover have "aborts_only L n y (snd (snd (AtomicReadModifyWriteAndCommitPush (traced W) a p (f now) msg () y)))"
    using assms by (rule rmw_aborts_only)
  ultimately show ?thesis unfolding y prod.case by (rule aborts_only_trans)
qed

lemma transition_aborts_only: "aborts_only L n x (transitionPrior (traced W) L a p t n msg c x)"
  unfolding transitionPrior_def by (rule clock_then_rmw) blast

lemma candidate_aborts_only:
  "aborts_only L n x (retireSupersededBuildFixCandidate (traced W) L a p i j n x)"
proof -
  obtain r y where y: "ReadFile (traced W) a p x = (r, y)" by (cases "ReadFile (traced W) a p x")
  then have quiet: "aborts_only L n x y" using posted_ReadFile [of W a p x] by (simp add: aborts_only_quiet)
  have "aborts_only L n y (case clock_now (traced W) y of (now, z) \<Rightarrow>
      snd (snd (AtomicReadModifyWriteAndCommitPush (traced W) a (JoinPath (Path a) p) (buildBuildFixRetireModifyFn L n (RFC3339 now))
        (''[agent-task-controller] auto-supersede build-fix: '' @ p) () z)))"
    by (rule clock_then_rmw) (use retire_is_supersede in blast)
  from aborts_only_trans [OF quiet this] quiet show ?thesis
    by (auto simp: retireSupersededBuildFixCandidate_def y split: sum.split)
qed

lemma read_aborts_only: "readPriorForSupersede (traced W) E a p x = (r, y) \<Longrightarrow> aborts_only L n x y"
  using posted_ReadFile [of W a p x]
  by (cases "ReadFile (traced W) a p x") (auto simp: readPriorForSupersede_def intro!: aborts_only_quiet split: sum.splits if_splits)

lemma collapse_aborts_only: "aborts_only L n x (collapseCandidates (traced W) L E c rcs o' n i x)"
proof (induction rcs arbitrary: i x)
  case (Cons rc rcs)
  let ?p = "JoinPath (cx_taskDir c) (rc_Title rc @ ''.md'')"
  obtain r y where y: "readPriorForSupersede (traced W) E (cx_gitClient c) ?p x = (r, y)"
    by (cases "readPriorForSupersede (traced W) E (cx_gitClient c) ?p x")
  have xy: "aborts_only L n x y" by (rule read_aborts_only [OF y])
  have "aborts_only L n x (collapseCandidates (traced W) L E c rcs o' n j y)" for j
    using xy Cons.IH by (rule aborts_only_trans)
  moreover have "aborts_only L n x (collapseCandidates (traced W) L E c rcs o' n j
      (transitionPrior (traced W) L (cx_gitClient c) ?p (rc_Title rc) n msg b y))" for j msg b
    using aborts_only_trans [OF xy transition_aborts_only] Cons.IH by (rule aborts_only_trans)
  ultimately show ?case
    using Cons.IH by (simp add: y Let_def split: sum.split option.split)
qed simp

lemma update_go_aborts_only: "aborts_only L n x (update_go_loop (traced W) L E c repo n ts i x)"
proof (induction ts arbitrary: i x)
  case (Cons t ts)
  let ?p = "JoinPath (cx_taskDir c) (t @ ''.md'')"
  obtain r y where y: "readPriorForSupersede (traced W) E (cx_gitClient c) ?p x = (r, y)"
    by (cases "readPriorForSupersede (traced W) E (cx_gitClient c) ?p x")
  have xy: "aborts_only L n x y" by (rule read_aborts_only [OF y])
  have "aborts_only L n x (update_go_loop (traced W) L E c repo n ts j y)" for j
    using xy Cons.IH by (rule aborts_only_trans)
  moreover have "aborts_only L n x (update_go_loop (traced W) L E c repo n ts j
      (transitionPrior (traced W) L (cx_gitClient c) ?p t n msg b y))" for j msg b
    using aborts_only_trans [OF xy transition_aborts_only] Cons.IH by (rule aborts_only_trans)
  ultimately show ?case
    using Cons.IH by (simp add: y Let_def split: sum.split option.split)
qed simp

lemma retire_aborts_only: "aborts_only L n x (retire_loop (traced W) L a i j n ps x)"
proof (induction ps arbitrary: x)
  case (Cons p ps)
  have "aborts_only L n x (retire_loop (traced W) L a i j n ps (retireSupersededBuildFixCandidate (traced W) L a p i j n x))"
    using candidate_aborts_only Cons.IH by (rule aborts_only_trans)
  with Cons.IH show ?case by simp
qed simp

lemma list_aborts_only: "ListFiles (traced W) a glob x = (r, y) \<Longrightarrow> aborts_only L n x y"
  using posted_ListFiles [of W a glob x] by (simp add: aborts_only_quiet)

section \<open>The contract of a hook\<close>

text \<open>
  What the executor relies on of the three hooks it runs one after the other: a hook posts nothing but files that
  carry the transition and point back to the new task.
\<close>

locale supersede_hook =
  fixes L :: pure_lib and n :: path and hook :: "'w \<times> exchange list \<Rightarrow> 'w \<times> exchange list"
  assumes hook_aborts_only: "aborts_only L n x (hook x)"
begin

lemma hook_posts:
  assumes "yaml_ok L"
  shows "\<exists>bs. posted (snd (hook x)) = posted (snd x) @ bs \<and> list_all (aborted_by L n) bs"
proof -
  obtain bs where "posted (snd (hook x)) = posted (snd x) @ bs"
      "\<forall>b \<in> set bs. \<exists>ts c current. fst (buildSupersedeModifyFn L n ts c current ()) = Inr b"
    using hook_aborts_only [of x] unfolding aborts_only_def by blast
  then show ?thesis using supersede_aborts [OF assms] by (auto simp: list_all_iff)
qed

text \<open>Hooks with the same back-pointer compose.\<close>

lemma hook_then:
  assumes "supersede_hook L n hook'"
  shows "supersede_hook L n (\<lambda>x. hook' (hook x))"
proof
  fix x
  show "aborts_only L n x (hook' (hook x))"
    using hook_aborts_only supersede_hook.hook_aborts_only [OF assms] by (rule aborts_only_trans)
qed

end

interpretation build_fix: supersede_hook L n "retireSupersededBuildFixTasks (traced W) L x cmd n"
  for L n and W :: "'w world" and x cmd
proof
  fix y
  obtain r z where z: "ListFiles (traced W) (cx_gitClient x) (JoinPath (cx_taskDir x) ''*.md'') y = (r, z)"
    by (cases "ListFiles (traced W) (cx_gitClient x) (JoinPath (cx_taskDir x) ''*.md'') y")
  note yz = list_aborts_only [OF z, of L n]
  show "aborts_only L n y (retireSupersededBuildFixTasks (traced W) L x cmd n y)"
    using aborts_only_trans [OF yz retire_aborts_only] yz
    by (simp add: retireSupersededBuildFixTasks_def Let_def z split: sum.split)
qed

interpretation recurring: supersede_hook L n "supersedePriorRecurringTask (traced W) L E x cmd n"
  for L n and W :: "'w world" and E x cmd
proof
  fix y
  have list: "aborts_only L n y z" if "listSameSlugCandidateTitles (traced W) a d slug y = (r, z)" for a d slug r z
    using that by (auto simp: listSameSlugCandidateTitles_def Let_def intro: list_aborts_only split: prod.splits sum.splits)
  show "aborts_only L n y (supersedePriorRecurringTask (traced W) L E x cmd n y)"
    using aborts_only_trans [OF list collapse_aborts_only] list
    by (auto simp: supersedePriorRecurringTask_def Let_def split: option.split prod.split sum.split)
qed

interpretation update_go: supersede_hook L n "supersedePriorUpdateGoTasks (traced W) L E x cmd n"
  for L n and W :: "'w world" and E x cmd
proof
  fix y
  have list: "aborts_only L n y z" if "listUpdateGoCandidateTitles (traced W) a d repo y = (r, z)" for a d repo r z
    using that by (auto simp: listUpdateGoCandidateTitles_def Let_def intro: list_aborts_only split: prod.splits sum.splits)
  show "aborts_only L n y (supersedePriorUpdateGoTasks (traced W) L E x cmd n y)"
    using aborts_only_trans [OF list update_go_aborts_only] list
    by (auto simp: supersedePriorUpdateGoTasks_def Let_def split: prod.split sum.split)
qed

section \<open>The recurring hook on an available vault\<close>

definition rc_path :: "createExecutor \<Rightarrow> rankedCandidate \<Rightarrow> path" where
  "rc_path x rc = JoinPath (cx_taskDir x) (rc_Title rc @ ''.md'')"

text \<open>The candidates a run inspects: the most recent ones not newer than the new instance, within the look-back bound.\<close>

definition lookback_window :: "int \<Rightarrow> int \<Rightarrow> rankedCandidate list \<Rightarrow> rankedCandidate list" where
  "lookback_window k newOrdinal ranked = take (nat k) (filter (\<lambda>rc. rc_Ordinal rc \<le> newOrdinal) ranked)"

definition superseded :: "pure_lib \<Rightarrow> path \<Rightarrow> string \<Rightarrow> bytes \<Rightarrow> bytes" where
  "superseded L n ts b = (case fst (buildSupersedeModifyFn L n ts True b ()) of Inr b' \<Rightarrow> b' | Inl _ \<Rightarrow> b)"

definition collapsible :: "pure_lib \<Rightarrow> rankedCandidate \<Rightarrow> bytes \<Rightarrow> bool" where
  "collapsible L rc b \<longleftrightarrow> priorIsInProgress L b \<and> \<not> ContainsAny (rc_Title rc) path_separators"

text \<open>A candidate whose file is there, small enough to be read whole, and addressed by its own path.\<close>

definition candidate_ok :: "createExecutor \<Rightarrow> (path \<Rightarrow> bytes option) \<Rightarrow> rankedCandidate \<Rightarrow> bool" where
  "candidate_ok x f rc \<longleftrightarrow>
     (\<exists>b. f (rc_path x rc) = Some b \<and> length b \<le> maxBody) \<and>
     under_base (cx_gitClient x) (JoinPath (Path (cx_gitClient x)) (rc_path x rc)) = Inr (rc_path x rc)"

definition clock_observes :: "'w world \<Rightarrow> ('w \<Rightarrow> path \<Rightarrow> bytes option) \<Rightarrow> bool" where
  "clock_observes W files \<longleftrightarrow> (\<forall>w. files (snd (clock_now W w)) = files w)"

lemma transition_files:
  assumes "serves W (client (cx_gitClient x)) files" and "clock_observes W files" and "candidate_ok x (files w) rc"
    and "files w (rc_path x rc) = Some b"
  shows "\<exists>ts. files (transitionPrior W L (cx_gitClient x) (rc_path x rc) t n msg True w) =
    (files w)(rc_path x rc \<mapsto> superseded L n ts b)"
proof -
  let ?a = "cx_gitClient x" and ?p = "rc_path x rc"
  obtain now u where u: "clock_now W w = (now, u)" by (cases "clock_now W w")
  then have fu: "files u = files w" using assms(2) unfolding clock_observes_def by (metis snd_conv)
  have ub: "under_base ?a (JoinPath (Path ?a) ?p) = Inr ?p" and small: "length b \<le> maxBody"
    using assms(3,4) by (auto simp: candidate_ok_def)
  let ?f = "buildSupersedeModifyFn L n (RFC3339 now) True"
  have "files (snd (snd (AtomicReadModifyWriteAndCommitPush W ?a (JoinPath (Path ?a) ?p) ?f (msg @ t) () u))) =
      (files w)(?p \<mapsto> superseded L n (RFC3339 now) b)"
  proof (cases "fst (?f b ())")
    case (Inl e)
    obtain v where "Get W (client ?a) ?p u = (Inr b, v)" "files v = files u"
      using serves_Get [OF assms(1) _ small] assms(4) fu by metis
    then show ?thesis
      using Inl assms(4) fu
      by (cases "?f b ()") (auto simp: AtomicReadModifyWriteAndCommitPush_def ub superseded_def fun_upd_idem)
  next
    case (Inr b')
    then have "?f b () = (Inr b', ())" by (cases "?f b ()") simp
    from serves_rmw [OF assms(1) ub _ small, of u ?f "()" b' "()" "msg @ t"] this Inr assms(4) fu show ?thesis
      by (auto simp: superseded_def)
  qed
  then show ?thesis unfolding transitionPrior_def u prod.case by blast
qed

lemma lookback_window_simps:
  "lookback_window k o' [] = []"
  "k \<le> 0 \<Longrightarrow> lookback_window k o' rcs = []"
  "o' < rc_Ordinal rc \<Longrightarrow> lookback_window k o' (rc # rcs) = lookback_window k o' rcs"
  "\<not> o' < rc_Ordinal rc \<Longrightarrow> 0 < k \<Longrightarrow> lookback_window k o' (rc # rcs) = rc # lookback_window (k - 1) o' rcs"
  by (simp_all add: lookback_window_def take_Cons' nat_diff_distrib)

text \<open>What the loop leaves behind, path by path.\<close>

definition window_collapsed ::
  "pure_lib \<Rightarrow> createExecutor \<Rightarrow> path \<Rightarrow> rankedCandidate list \<Rightarrow> (path \<Rightarrow> bytes option) \<Rightarrow> (path \<Rightarrow> bytes option) \<Rightarrow> bool" where
  "window_collapsed L x n win f f' \<longleftrightarrow>
     (\<forall>p. p \<notin> rc_path x ` set win \<longrightarrow> f' p = f p) \<and>
     (\<forall>rc \<in> set win. \<forall>b. f (rc_path x rc) = Some b \<longrightarrow>
        (\<exists>ts. f' (rc_path x rc) = Some (if collapsible L rc b then superseded L n ts b else b)))"

lemma window_collapsed_Cons:
  assumes "window_collapsed L x n win g f'" and "rc_path x rc \<notin> rc_path x ` set win" and "f (rc_path x rc) = Some b"
    and "g = f(rc_path x rc \<mapsto> if collapsible L rc b then superseded L n ts b else b)"
  shows "window_collapsed L x n (rc # win) f f'"
  unfolding window_collapsed_def
proof (intro conjI allI ballI impI)
  fix p
  assume "p \<notin> rc_path x ` set (rc # win)"
  then show "f' p = f p" using assms(1,4) by (auto simp: window_collapsed_def)
next
  fix r c
  assume r: "r \<in> set (rc # win)" and c: "f (rc_path x r) = Some c"
  show "\<exists>ts. f' (rc_path x r) = Some (if collapsible L r c then superseded L n ts c else c)"
  proof (cases "rc_path x r = rc_path x rc")
    case True
    then have "r = rc" using r assms(2) by (auto simp: image_iff)
    then show ?thesis using assms c by (auto simp: window_collapsed_def)
  next
    case False
    then show ?thesis using r c assms(1,4) by (auto simp: window_collapsed_def)
  qed
qed

lemma collapse_files:
  assumes "serves W (client (cx_gitClient x)) files" and "clock_observes W files"
    and "distinct (map (rc_path x) (lookback_window (cx_k x - i) o' rcs))"
    and "\<forall>rc \<in> set (lookback_window (cx_k x - i) o' rcs). candidate_ok x (files w) rc"
  shows "window_collapsed L x n (lookback_window (cx_k x - i) o' rcs) (files w)
           (files (collapseCandidates W L E x rcs o' n i w))"
  using assms(3,4)
proof (induction rcs arbitrary: i w)
  case Nil
  then show ?case by (simp add: lookback_window_simps window_collapsed_def)
next
  case (Cons rc rcs)
  have ctx: "ctx_err W v = None" for v using assms(1) unfolding serves_def by blast
  consider "cx_k x \<le> i" | "i < cx_k x" "o' < rc_Ordinal rc" | "i < cx_k x" "\<not> o' < rc_Ordinal rc" by linarith
  then show ?case
  proof cases
    case 1
    then show ?thesis by (simp add: lookback_window_simps window_collapsed_def ctx)
  next
    case 2
    then show ?thesis using Cons by (simp add: lookback_window_simps ctx)
  next
    case 3
    let ?win = "lookback_window (cx_k x - (i + 1)) o' rcs"
    have win: "lookback_window (cx_k x - i) o' (rc # rcs) = rc # ?win"
      using 3 by (simp add: lookback_window_simps algebra_simps)
    have ok: "candidate_ok x (files w) rc" and fresh: "rc_path x rc \<notin> rc_path x ` set ?win"
      and rest: "distinct (map (rc_path x) ?win)" "\<forall>r \<in> set ?win. candidate_ok x (files w) r"
      using Cons.prems unfolding win by auto
    obtain b where b: "files w (rc_path x rc) = Some b" "length b \<le> maxBody" using ok by (auto simp: candidate_ok_def)
    have go: "window_collapsed L x n ?win (files v) (files (collapseCandidates W L E x rcs o' n (i + 1) v))"
      if "\<forall>r \<in> set ?win. files v (rc_path x r) = files w (rc_path x r)" for v
      using Cons.IH [of "i + 1" v] rest that by (simp add: candidate_ok_def)
    have head: "window_collapsed L x n (rc # ?win) (files w) (files (collapseCandidates W L E x rcs o' n (i + 1) v))"
      if v: "files v = (files w)(rc_path x rc \<mapsto> if collapsible L rc b then superseded L n ts b else b)" for v ts
    proof (rule window_collapsed_Cons [where f = "files w", OF _ fresh b(1) v])
      show "window_collapsed L x n ?win (files v) (files (collapseCandidates W L E x rcs o' n (i + 1) v))"
      proof (rule go)
        have "rc_path x r \<noteq> rc_path x rc" if "r \<in> set ?win" for r using fresh that by (metis imageI)
        then show "\<forall>r \<in> set ?win. files v (rc_path x r) = files w (rc_path x r)" by (simp add: v)
      qed
    qed
    obtain u where u: "readPriorForSupersede W E (cx_gitClient x) (rc_path x rc) w = (Inr (Some b), u)" and fu: "files u = files w"
      using serves_Get [OF assms(1) b] by (auto simp: readPriorForSupersede_def ReadFile_def wrap_res_def)
    have ok_u: "candidate_ok x (files u) rc" "files u (rc_path x rc) = Some b" using ok b fu by simp_all
    obtain ts where ts: "files (transitionPrior W L (cx_gitClient x) (rc_path x rc) (rc_Title rc) n
        ''[agent-task-controller] auto-supersede prior recurring task '' True u) = (files w)(rc_path x rc \<mapsto> superseded L n ts b)"
      using transition_files [OF assms(1,2) ok_u] fu by metis
    show ?thesis
    proof (cases "collapsible L rc b")
      case True
      have "window_collapsed L x n (rc # ?win) (files w) (files (collapseCandidates W L E x rcs o' n (i + 1)
          (transitionPrior W L (cx_gitClient x) (rc_path x rc) (rc_Title rc) n ''[agent-task-controller] auto-supersede prior recurring task '' True u)))"
        by (rule head) (use ts True fresh in auto)
      then show ?thesis
        using True 3 u unfolding win by (simp add: ctx Let_def rc_path_def [symmetric] collapsible_def)
    next
      case False
      have "window_collapsed L x n (rc # ?win) (files w) (files (collapseCandidates W L E x rcs o' n (i + 1) v))"
        if "files v = files w" for v
        by (rule head) (use False that b in \<open>auto simp: fun_upd_idem\<close>)
      then show ?thesis
        using False 3 u fu unfolding win by (simp add: ctx Let_def rc_path_def [symmetric] collapsible_def)
    qed
  qed
qed

lemma recurring_files:
  assumes "serves W (client (cx_gitClient x)) files" and "clock_observes W files"
    and "isEligibleForSupersede L cmd" and "splitTitleToken (cr_Title cmd) = Some (slug, token)"
    and "parsePeriodTokenOrdinal token = Inr o'"
    and "listSameSlugCandidateTitles W (cx_gitClient x) (cx_taskDir x) slug w = (Inr titles, w1)"
    and "win = lookback_window (cx_k x) o' (rankSameSlugCandidatesDescending (filter (\<lambda>t. t \<noteq> cr_Title cmd) titles))"
    and "distinct (map (rc_path x) win)" and "\<forall>rc \<in> set win. candidate_ok x (files w1) rc"
  shows "window_collapsed L x n win (files w1) (files (supersedePriorRecurringTask W L E x cmd n w))"
proof -
  have "ctx_err W v = None" for v using assms(1) unfolding serves_def by blast
  then show ?thesis
    using collapse_files [OF assms(1,2), of 0 o' "rankSameSlugCandidatesDescending (filter (\<lambda>t. t \<noteq> cr_Title cmd) titles)" w1 L n E]
      assms(3-9) by (simp add: supersedePriorRecurringTask_def)
qed

text \<open>Every file can be written back with the transition fields.\<close>

definition encodable :: "pure_lib \<Rightarrow> path \<Rightarrow> bytes \<Rightarrow> bool" where
  "encodable L n b \<longleftrightarrow> (\<forall>ts. \<exists>b'. fst (buildSupersedeModifyFn L n ts True b ()) = Inr b')"

lemma superseded_aborted: "yaml_ok L \<Longrightarrow> encodable L n b \<Longrightarrow> aborted_by L n (superseded L n ts b)"
  unfolding encodable_def superseded_def using supersede_aborts by (metis sum.simps(6))

section \<open>Properties\<close>

text \<open>Every candidate of the window has a listed title other than the command's, and different candidates different files.\<close>

lemma ranked_titles:
  "set (map rc_Title (rankSameSlugCandidatesDescending ts)) \<subseteq> set ts"
  "distinct ts \<Longrightarrow> distinct (map rc_Title (rankSameSlugCandidatesDescending ts))"
proof -
  have m: "mset (map rc_Title (rankSameSlugCandidatesDescending ts)) = filter_mset (\<lambda>t. candidate t \<noteq> None) (mset ts)"
    using rank_titles [of ts] by simp
  show "set (map rc_Title (rankSameSlugCandidatesDescending ts)) \<subseteq> set ts"
    using arg_cong [OF m, of set_mset] by auto
  show "distinct (map rc_Title (rankSameSlugCandidatesDescending ts))" if "distinct ts"
    using m that by (metis distinct_filter mset_eq_imp_distinct_iff mset_filter)
qed

lemma window_titles:
  assumes "win = lookback_window k o' (rankSameSlugCandidatesDescending (filter (\<lambda>t. t \<noteq> title) titles))"
  shows "rc_Title ` set win \<subseteq> set titles - {title}" and "distinct titles \<Longrightarrow> distinct (map rc_Title win)"
proof -
  let ?r = "rankSameSlugCandidatesDescending (filter (\<lambda>t. t \<noteq> title) titles)"
  have "set win \<subseteq> set ?r" unfolding assms lookback_window_def using set_take_subset by fastforce
  then show "rc_Title ` set win \<subseteq> set titles - {title}" using ranked_titles(1) [of "filter (\<lambda>t. t \<noteq> title) titles"] by auto
  have "map rc_Title win = take (nat k) (map rc_Title (filter (\<lambda>rc. rc_Ordinal rc \<le> o') ?r))"
    by (simp add: assms lookback_window_def take_map)
  then show "distinct (map rc_Title win)" if "distinct titles"
    using ranked_titles(2) [OF distinct_filter [OF that]] by (simp add: distinct_map_filter)
qed

lemma window_paths:
  assumes "win = lookback_window k o' (rankSameSlugCandidatesDescending (filter (\<lambda>t. t \<noteq> title) titles))"
    and "distinct titles" and "inj_on (\<lambda>t. JoinPath (cx_taskDir x) (t @ ''.md'')) (insert title (set titles))"
  shows "distinct (map (rc_path x) win)" and "JoinPath (cx_taskDir x) (title @ ''.md'') \<notin> rc_path x ` set win"
proof -
  let ?p = "\<lambda>t. JoinPath (cx_taskDir x) (t @ ''.md'')"
  note titles = window_titles(1) [OF assms(1)]
  have path: "rc_path x = ?p \<circ> rc_Title" by (simp add: rc_path_def fun_eq_iff)
  have "inj_on ?p (rc_Title ` set win)" by (rule inj_on_subset [OF assms(3)]) (use titles in auto)
  then have "distinct (map ?p (map rc_Title win))"
    using window_titles(2) [OF assms(1,2)] unfolding distinct_map by simp
  then show "distinct (map (rc_path x) win)" by (simp add: path)
  show "?p title \<notin> rc_path x ` set win"
  proof
    assume "?p title \<in> rc_path x ` set win"
    then obtain rc where "rc \<in> set win" "?p (rc_Title rc) = ?p title" by (auto simp: path)
    moreover from this titles have "rc_Title rc \<in> set titles" "rc_Title rc \<noteq> title" by auto
    ultimately show False using inj_onD [OF assms(3), of "rc_Title rc" title] by auto
  qed
qed

text \<open>C16: On an available vault, when the new instance has the title of the command and no candidate has its period, the
  recurring hook collapses exactly the look-back window. Of the same-slug titles other than the command's own, ranked most
  recent first, the first \<open>k\<close> that are strictly older than the new instance are looked at: those whose file is still in
  progress end up aborted with a back-pointer to the new task, the others stay as they were, and so do the new instance
  and every other file. C40 is about a new instance with another title, \<open>same_period_is_aborted\<close> about a candidate of the
  same period.\<close>

theorem recurring_hook_collapses_the_window:
  assumes "yaml_ok L" and "serves W (client (cx_gitClient x)) files" and "clock_observes W files"
    and "isEligibleForSupersede L cmd" and "splitTitleToken (cr_Title cmd) = Some (slug, token)"
    and "parsePeriodTokenOrdinal token = Inr o'"
    and "listSameSlugCandidateTitles W (cx_gitClient x) (cx_taskDir x) slug w = (Inr titles, w1)"
    and "win = lookback_window (cx_k x) o' (rankSameSlugCandidatesDescending (filter (\<lambda>t. t \<noteq> cr_Title cmd) titles))"
    and "n = JoinPath (cx_taskDir x) (cr_Title cmd @ ''.md'')" and "distinct titles"
    and "inj_on (\<lambda>t. JoinPath (cx_taskDir x) (t @ ''.md'')) (insert (cr_Title cmd) (set titles))"
    and "\<forall>rc \<in> set (rankSameSlugCandidatesDescending (filter (\<lambda>t. t \<noteq> cr_Title cmd) titles)). rc_Ordinal rc \<noteq> o'"
    and "\<forall>rc \<in> set win. candidate_ok x (files w1) rc"
    and "\<forall>rc \<in> set win. \<forall>b. files w1 (rc_path x rc) = Some b \<longrightarrow> encodable L n b"
    and "w' = supersedePriorRecurringTask W L E x cmd n w"
  shows "length win \<le> nat (cx_k x) \<and> (\<forall>rc \<in> set win. rc_Ordinal rc < o') \<and> n \<notin> rc_path x ` set win \<and>
         (\<forall>p. p \<notin> rc_path x ` set win \<longrightarrow> files w' p = files w1 p) \<and>
         (\<forall>rc \<in> set win. \<exists>b. files w1 (rc_path x rc) = Some b \<and>
            (if collapsible L rc b then \<exists>b'. files w' (rc_path x rc) = Some b' \<and> aborted_by L n b'
             else files w' (rc_path x rc) = Some b))"
proof (intro conjI ballI)
  note paths = window_paths [OF assms(8,10,11)]
  have win: "window_collapsed L x n win (files w1) (files w')"
    using recurring_files [OF assms(2-8) paths(1) assms(13)] assms(15) by simp
  then show "\<forall>p. p \<notin> rc_path x ` set win \<longrightarrow> files w' p = files w1 p" by (simp add: window_collapsed_def)
  show "n \<notin> rc_path x ` set win" using paths(2) assms(9) by simp
  show "length win \<le> nat (cx_k x)" by (simp add: assms(8) lookback_window_def)
  fix rc
  assume rc: "rc \<in> set win"
  then have "rc_Ordinal rc \<le> o'" "rc \<in> set (rankSameSlugCandidatesDescending (filter (\<lambda>t. t \<noteq> cr_Title cmd) titles))"
    by (auto simp: assms(8) lookback_window_def dest!: in_set_takeD)
  then show "rc_Ordinal rc < o'" using assms(12) by fastforce
  from rc obtain b where b: "files w1 (rc_path x rc) = Some b" using assms(13) by (auto simp: candidate_ok_def)
  then obtain ts where "files w' (rc_path x rc) = Some (if collapsible L rc b then superseded L n ts b else b)"
    using win rc unfolding window_collapsed_def by blast
  moreover have "aborted_by L n (superseded L n ts b)" using assms(14) rc b superseded_aborted [OF assms(1)] by blast
  ultimately show "\<exists>b. files w1 (rc_path x rc) = Some b \<and>
            (if collapsible L rc b then \<exists>b'. files w' (rc_path x rc) = Some b' \<and> aborted_by L n b'
             else files w' (rc_path x rc) = Some b)"
    using b by auto
qed

text \<open>A candidate of the same period is collapsed too, though the comments of the hook speak of strictly older ones: weekday
  tokens of one ISO week share an ordinal.\<close>

lemma same_period_is_aborted:
  assumes "yaml_ok L" and "serves W (client (cx_gitClient x)) files" and "clock_observes W files"
    and "isEligibleForSupersede L cmd" and "splitTitleToken (cr_Title cmd) = Some (slug, token)"
    and "parsePeriodTokenOrdinal token = Inr o'"
    and "listSameSlugCandidateTitles W (cx_gitClient x) (cx_taskDir x) slug w = (Inr titles, w1)"
    and "win = lookback_window (cx_k x) o' (rankSameSlugCandidatesDescending (filter (\<lambda>t. t \<noteq> cr_Title cmd) titles))"
    and "distinct (map (rc_path x) win)" and "\<forall>rc \<in> set win. candidate_ok x (files w1) rc"
    and "rc \<in> set win" and "rc_Ordinal rc = o'" and "files w1 (rc_path x rc) = Some b" and "collapsible L rc b" and "encodable L n b"
  shows "\<exists>b'. files (supersedePriorRecurringTask W L E x cmd n w) (rc_path x rc) = Some b' \<and> aborted_by L n b'"
  using recurring_files [OF assms(2-10), where n = n and E = E] assms(11,13,14) superseded_aborted [OF assms(1,15)]
  unfolding window_collapsed_def by metis

lemma weekdays_share_a_period: "parsePeriodTokenOrdinal ''2026W28-mon'' = parsePeriodTokenOrdinal ''2026W28-fri''"
  by code_simp

text \<open>C40: The recurring hook excludes the new instance by the title of the command, not by the path of the file. When
  the create landed under another title of the same slug (the title the identifier already had), that file is
  a candidate like any other: the hook aborts the task that was just created, with a back-pointer to itself.\<close>

theorem recurring_hook_can_abort_the_new_task:
  assumes "yaml_ok L" and "serves W (client (cx_gitClient x)) files" and "clock_observes W files"
    and "isEligibleForSupersede L cmd" and "splitTitleToken (cr_Title cmd) = Some (slug, token)"
    and "parsePeriodTokenOrdinal token = Inr o'"
    and "listSameSlugCandidateTitles W (cx_gitClient x) (cx_taskDir x) slug w = (Inr titles, w1)"
    and "win = lookback_window (cx_k x) o' (rankSameSlugCandidatesDescending (filter (\<lambda>t. t \<noteq> cr_Title cmd) titles))"
    and "distinct (map (rc_path x) win)" and "\<forall>rc \<in> set win. candidate_ok x (files w1) rc"
    and "rc \<in> set win" and "n = rc_path x rc" and "files w1 n = Some b" and "collapsible L rc b" and "encodable L n b"
  shows "\<exists>b'. files (supersedePriorRecurringTask W L E x cmd n w) n = Some b' \<and> aborted_by L n b'"
proof -
  have "window_collapsed L x n win (files w1) (files (supersedePriorRecurringTask W L E x cmd n w))"
    by (rule recurring_files [OF assms(2-10)])
  then obtain ts where "files (supersedePriorRecurringTask W L E x cmd n w) n = Some (superseded L n ts b)"
    using assms(11-14) unfolding window_collapsed_def by metis
  with superseded_aborted [OF assms(1,15)] show ?thesis by blast
qed

text \<open>Aborting a prior keeps its body and every field but the transition fields, and it does not look at the
  status it finds: the closure aborts whatever the file says when it is written, so a task that was
  completed after the hook read it loses its completion.\<close>

theorem supersede_write_is_unconditional:
  assumes "yaml_ok L" and "parseTaskFrontmatterAndBody L b = Inr (m, body)"
    and "fst (buildSupersedeModifyFn L n ts c b ()) = Inr b'"
  shows "\<exists>m'. parseTaskFrontmatterAndBody L b' = Inr (m', body) \<and> aborted_by L n b' \<and>
     (\<forall>k. k \<notin> {''status'', ''phase'', ''completed_date'', ''superseded_by'', ''created_by''} \<longrightarrow>
        rel_option same_value (fm_get m k) (fm_get m' k))"
proof -
  have "marshalFileContent L (superseded_fm n ts c m) body = Inr b'" using assms(2,3) by (simp add: supersede_parsed)
  then obtain m' where m': "parseTaskFrontmatterAndBody L b' = Inr (m', body)" "fmrel same_value (superseded_fm n ts c m) m'"
    using marshalFileContent_read_back [OF assms(1)] by metis
  have "rel_option same_value (fm_get m k) (fm_get m' k)"
    if "k \<notin> {''status'', ''phase'', ''completed_date'', ''superseded_by'', ''created_by''}" for k
    using m'(2) [unfolded fmrel_iff, rule_format, of k] that by (simp add: superseded_fm_get)
  with m'(1) supersede_aborts [OF assms(1,3)] show ?thesis by blast
qed

text \<open>C15: Whatever the server answers, the three hooks that run after a create post nothing but files that read back
  as aborted, done and superseded by the new task.\<close>

theorem hooks_post_only_aborts:
  assumes "yaml_ok L"
    and "y = supersedePriorUpdateGoTasks (traced W) L E x cmd n
           (supersedePriorRecurringTask (traced W) L E x cmd n (retireSupersededBuildFixTasks (traced W) L x cmd n z))"
  shows "\<exists>bs. posted (snd y) = posted (snd z) @ bs \<and> list_all (aborted_by L n) bs"
proof -
  have "supersede_hook L n (\<lambda>z. supersedePriorRecurringTask (traced W) L E x cmd n (retireSupersededBuildFixTasks (traced W) L x cmd n z))"
    by (rule build_fix.hook_then) (rule recurring.supersede_hook_axioms)
  then have "supersede_hook L n (\<lambda>z. supersedePriorUpdateGoTasks (traced W) L E x cmd n
      (supersedePriorRecurringTask (traced W) L E x cmd n (retireSupersededBuildFixTasks (traced W) L x cmd n z)))"
    by (rule supersede_hook.hook_then) (rule update_go.supersede_hook_axioms)
  from supersede_hook.hook_posts [OF this assms(1)] show ?thesis unfolding assms(2) .
qed

section \<open>Reference instances\<close>

text \<open>A schedule with one open prior instance, in the in-memory vault.\<close>

definition ref_executor :: createExecutor where
  "ref_executor =
     \<lparr>cx_gitClient = NewGitClient (NewGitRestClient ''h'' [] []) ''/v'', cx_taskDir = ''d'', cx_vaultName = ''v'', cx_k = 7\<rparr>"

definition ref_create_lib :: create_lib where
  "ref_create_lib = \<lparr>Error_text = (\<lambda>e. ''returned 404''), id_Validate = (\<lambda>_. None), cmd_Validate = (\<lambda>_. None)\<rparr>"

definition june_command :: CreateCommand where
  "june_command =
     \<lparr>cr_TaskIdentifier = ''u'', cr_TargetVault = ''v'', cr_Title = ''a - 2026-06'',
      cr_Frontmatter = fmupd ''created_by'' (VStr ''recurring-task-creator'') (fmupd ''auto_abort_prior'' (VBool True) fmempty),
      cr_Body = []\<rparr>"

definition open_fm :: fm where
  "open_fm = fmupd ''status'' (VStr ''in_progress'') fmempty"

definition may_file :: bytes where
  "may_file = codec_file open_fm ''x''"

definition may_vault :: mem where
  "may_vault = \<lparr>mem_files = [(''d/a - 2026-05.md'', may_file)], mem_clock = 0, mem_metrics = []\<rparr>"

definition may_candidate :: rankedCandidate where
  "may_candidate = rankedCandidate ''a - 2026-05'' 1777593600"

lemma open_fm_able: "codec_able open_fm" "codec_able (superseded_fm n ts c open_fm)"
  by (simp_all add: open_fm_def superseded_fm_def Let_def codec_able_upd codec_able_empty)

lemma may_file_parse: "parseTaskFrontmatterAndBody codec_lib may_file = Inr (open_fm, ''x'')"
  unfolding may_file_def by (rule codec_file_read [OF open_fm_able(1)])

lemma may_file_open: "priorIsInProgress codec_lib may_file"
  using codec_file_read(1) [OF open_fm_able(1), of "''x''"] codec_file_read(3) [OF open_fm_able(1)]
  by (simp add: may_file_def priorIsInProgress_def parseTaskFrontmatter_def) (simp add: codec_lib_def ref_lib_def open_fm_def)

lemma may_encodable: "encodable codec_lib n may_file"
  unfolding encodable_def
  by (simp add: supersede_parsed [OF may_file_parse] codec_file_written [OF open_fm_able(2)])

lemma may_small: "length may_file \<le> maxBody"
proof -
  have "length may_file < 1000" by code_simp
  then show ?thesis by (simp add: maxBody_def)
qed

lemma ref_executor_serves:
  "serves ref_world (client (cx_gitClient ref_executor)) (\<lambda>m. map_of (mem_files m))"
  "clock_observes ref_world (\<lambda>m. map_of (mem_files m))"
  by (simp add: ref_executor_def NewGitClient_def mem_serves) (simp add: clock_observes_def mem_world_def)

lemma may_listing:
  obtains w1 where "listSameSlugCandidateTitles ref_world (cx_gitClient ref_executor) (cx_taskDir ref_executor) ''a'' may_vault =
      (Inr [''a - 2026-05''], w1)" "mem_files w1 = mem_files may_vault"
proof -
  let ?glob = "if ContainsAny ''a'' glob_meta then JoinPath (cx_taskDir ref_executor) ''*.md''
      else JoinPath (cx_taskDir ref_executor) (''a'' @ '' - *.md'')"
  have "client (cx_gitClient ref_executor) = NewGitRestClient ''h'' [] []" by (simp add: ref_executor_def NewGitClient_def)
  moreover have "map fst (mem_files may_vault) = [''d/a - 2026-05.md'']" by (simp add: may_vault_def)
  ultimately obtain w1 where w1: "ListFiles ref_world (cx_gitClient ref_executor) ?glob may_vault = (Inr [''d/a - 2026-05.md''], w1)"
      "mem_files w1 = mem_files may_vault"
    using mem_ListFiles [of "cx_gitClient ref_executor" "NewGitRestClient ''h'' [] []" may_vault ?glob]
    by (auto simp: maxBody_def may_vault_def)
  have "TrimSuffix (Base ''d/a - 2026-05.md'') ''.md'' = ''a - 2026-05''" "HasPrefix ''a - 2026-05'' (''a'' @ '' - '')"
    by code_simp+
  then have "collect_titles ref_world (''a'' @ '' - '') [''d/a - 2026-05.md''] w1 = Inr [''a - 2026-05'']"
    by (simp add: mem_world_def)
  then show thesis
    using w1 by (intro that [of w1]) (simp_all only: listSameSlugCandidateTitles_def Let_def prod.case sum.case)
qed

lemma june_window:
  "isEligibleForSupersede codec_lib june_command" "splitTitleToken (cr_Title june_command) = Some (''a'', ''2026-06'')"
  "parsePeriodTokenOrdinal ''2026-06'' = Inr 1780272000"
  "lookback_window (cx_k ref_executor) 1780272000
     (rankSameSlugCandidatesDescending (filter (\<lambda>t. t \<noteq> cr_Title june_command) [''a - 2026-05''])) = [may_candidate]"
  "rc_path ref_executor may_candidate = ''d/a - 2026-05.md''"
  "under_base (cx_gitClient ref_executor) (JoinPath (Path (cx_gitClient ref_executor)) ''d/a - 2026-05.md'') = Inr ''d/a - 2026-05.md''"
proof -
  show "isEligibleForSupersede codec_lib june_command"
    by (simp add: isEligibleForSupersede_def june_command_def codec_lib_def ref_lib_def)
  show "splitTitleToken (cr_Title june_command) = Some (''a'', ''2026-06'')" by code_simp
  show "parsePeriodTokenOrdinal ''2026-06'' = Inr 1780272000" by code_simp
  show "lookback_window (cx_k ref_executor) 1780272000
     (rankSameSlugCandidatesDescending (filter (\<lambda>t. t \<noteq> cr_Title june_command) [''a - 2026-05''])) = [may_candidate]"
    by code_simp
  show "rc_path ref_executor may_candidate = ''d/a - 2026-05.md''" by code_simp
  show "under_base (cx_gitClient ref_executor) (JoinPath (Path (cx_gitClient ref_executor)) ''d/a - 2026-05.md'') = Inr ''d/a - 2026-05.md''"
    by code_simp
qed

lemma may_window:
  assumes "mem_files w1 = mem_files may_vault"
  shows "map_of (mem_files w1) ''d/a - 2026-05.md'' = Some may_file"
    and "distinct (map (rc_path ref_executor) [may_candidate])"
    and "\<forall>rc \<in> set [may_candidate]. candidate_ok ref_executor (map_of (mem_files w1)) rc"
    and "collapsible codec_lib may_candidate may_file"
proof -
  show b: "map_of (mem_files w1) ''d/a - 2026-05.md'' = Some may_file" using assms by (simp add: may_vault_def)
  show "distinct (map (rc_path ref_executor) [may_candidate])" by simp
  show "\<forall>rc \<in> set [may_candidate]. candidate_ok ref_executor (map_of (mem_files w1)) rc"
    using b may_small by (simp add: candidate_ok_def june_window(5,6))
  have "\<not> ContainsAny (rc_Title may_candidate) path_separators" by code_simp
  with may_file_open show "collapsible codec_lib may_candidate may_file" by (simp add: collapsible_def)
qed

theorem recurring_hook_collapses_the_window_witness:
  "\<exists>b'. map_of (mem_files (supersedePriorRecurringTask ref_world codec_lib ref_create_lib ref_executor june_command ''d/a - 2026-06.md'' may_vault))
          ''d/a - 2026-05.md'' = Some b' \<and> aborted_by codec_lib ''d/a - 2026-06.md'' b'"
proof -
  obtain w1 where list: "listSameSlugCandidateTitles ref_world (cx_gitClient ref_executor) (cx_taskDir ref_executor) ''a'' may_vault =
      (Inr [''a - 2026-05''], w1)" and files: "mem_files w1 = mem_files may_vault" by (rule may_listing)
  note win = may_window [OF files]
  have "\<forall>rc \<in> set [may_candidate]. \<forall>b. map_of (mem_files w1) (rc_path ref_executor rc) = Some b \<longrightarrow>
      encodable codec_lib ''d/a - 2026-06.md'' b"
    using win(1) may_encodable by (simp add: june_window(5))
  moreover have n: "''d/a - 2026-06.md'' = JoinPath (cx_taskDir ref_executor) (cr_Title june_command @ ''.md'')"
    and other: "JoinPath (cx_taskDir ref_executor) (''a - 2026-05'' @ ''.md'') \<noteq> JoinPath (cx_taskDir ref_executor) (cr_Title june_command @ ''.md'')"
    by code_simp+
  have "inj_on (\<lambda>t. JoinPath (cx_taskDir ref_executor) (t @ ''.md'')) (insert (cr_Title june_command) (set [''a - 2026-05'']))"
    using other by auto
  moreover have "rankSameSlugCandidatesDescending (filter (\<lambda>t. t \<noteq> cr_Title june_command) [''a - 2026-05'']) = [may_candidate]"
    by code_simp
  then have "\<forall>rc \<in> set (rankSameSlugCandidatesDescending (filter (\<lambda>t. t \<noteq> cr_Title june_command) [''a - 2026-05''])). rc_Ordinal rc \<noteq> 1780272000"
    by (simp add: may_candidate_def)
  ultimately show ?thesis
    using recurring_hook_collapses_the_window [OF yaml_ok_codec_lib ref_executor_serves june_window(1,2,3) list
      june_window(4) [symmetric] n _ _ _ win(3) _ refl, of ref_create_lib] win(1,4)
    by (auto simp: june_window(5))
qed

theorem recurring_hook_can_abort_the_new_task_witness:
  "\<exists>b'. map_of (mem_files (supersedePriorRecurringTask ref_world codec_lib ref_create_lib ref_executor june_command ''d/a - 2026-05.md'' may_vault))
          ''d/a - 2026-05.md'' = Some b' \<and> aborted_by codec_lib ''d/a - 2026-05.md'' b'"
proof -
  obtain w1 where list: "listSameSlugCandidateTitles ref_world (cx_gitClient ref_executor) (cx_taskDir ref_executor) ''a'' may_vault =
      (Inr [''a - 2026-05''], w1)" and files: "mem_files w1 = mem_files may_vault" by (rule may_listing)
  note win = may_window [OF files]
  have rc: "may_candidate \<in> set [may_candidate]" by simp
  show ?thesis
    by (rule recurring_hook_can_abort_the_new_task [where files = "\<lambda>m. map_of (mem_files m)", OF yaml_ok_codec_lib ref_executor_serves june_window(1,2,3) list
          june_window(4) [symmetric] win(2,3) rc june_window(5) [symmetric] win(1,4) may_encodable])
qed

theorem supersede_write_is_unconditional_witness:
  "\<exists>b'. fst (buildSupersedeModifyFn codec_lib ''n'' ''t'' True (codec_file (fmupd ''status'' (VStr ''completed'') fmempty) ''x'') ()) = Inr b' \<and>
     aborted_by codec_lib ''n'' b'"
proof -
  let ?m = "fmupd ''status'' (VStr ''completed'') fmempty"
  have able: "codec_able ?m" "codec_able (superseded_fm ''n'' ''t'' True ?m)"
    by (simp_all add: superseded_fm_def Let_def codec_able_upd codec_able_empty)
  have parse: "parseTaskFrontmatterAndBody codec_lib (codec_file ?m ''x'') = Inr (?m, ''x'')"
    by (rule codec_file_read [OF able(1)])
  have out: "fst (buildSupersedeModifyFn codec_lib ''n'' ''t'' True (codec_file ?m ''x'') ()) =
      Inr (codec_file (superseded_fm ''n'' ''t'' True ?m) ''x'')"
    by (simp add: supersede_parsed [OF parse] codec_file_written [OF able(2)])
  from supersede_write_is_unconditional [OF yaml_ok_codec_lib parse out] out show ?thesis by blast
qed

theorem hooks_post_only_aborts_witness:
  "\<exists>bs. posted (snd (supersedePriorUpdateGoTasks (traced ref_world) codec_lib ref_create_lib ref_executor june_command ''n''
      (supersedePriorRecurringTask (traced ref_world) codec_lib ref_create_lib ref_executor june_command ''n''
        (retireSupersededBuildFixTasks (traced ref_world) codec_lib ref_executor june_command ''n'' (may_vault, []))))) = bs \<and>
     list_all (aborted_by codec_lib ''n'') bs"
  using hooks_post_only_aborts [OF yaml_ok_codec_lib refl, of ref_world ref_create_lib ref_executor june_command "''n''" "(may_vault, [])"]
  by (simp add: posted_def)

end
