(* ===== verification/CreateTask.thy ===== *)
theory CreateTask
  imports Supersede VaultApi Routing
begin

text \<open>
  The create command (\<open>pkg/command/task_create_task_executor.go\<close>): the checks before the create, the choice of
  the title, the create through the typed API with its collision handling, the record in the identifier index
  and the three supersede hooks. The index is the resolver the executor holds, \<open>None\<close> when it holds none.
\<close>

section \<open>The title\<close>

definition validateCreateTaskFrontmatter :: "pure_lib \<Rightarrow> fm \<Rightarrow> unit res" where
  "validateCreateTaskFrontmatter L m =
     (if lib_string0 L m ''status'' = [] then Inl (Wrapf (Sentinel ErrValidation) ''frontmatter missing required field: status'' [])
      else Inr ())"

definition createTaskTitle :: "create_lib \<Rightarrow> CreateCommand \<Rightarrow> string" where
  "createTaskTitle E cmd =
     (if cmd_Validate E cmd \<noteq> None then cr_TaskIdentifier cmd
      else if ContainsAny (cr_Title cmd) path_separators then cr_TaskIdentifier cmd
      else cr_Title cmd)"

definition identifierPresence ::
  "'w world \<Rightarrow> pure_lib \<Rightarrow> create_lib \<Rightarrow> gitClient \<Rightarrow> path \<Rightarrow> task_id \<Rightarrow> 'w \<Rightarrow> bool res \<times> 'w" where
  "identifierPresence W L E a relPath tid w =
     (case ReadFile W a relPath w of
        (Inl e, w) \<Rightarrow>
          (if isNotFoundReadError E e then (Inr False, w)
           else (Inl (Wrapf e ''read resolved file %s for %s'' [relPath, tid]), w))
      | (Inr b, w) \<Rightarrow>
          (case ExtractFrontmatter b of
             Inl e \<Rightarrow> (Inl (Wrapf e ''extract frontmatter from resolved file %s for %s'' [relPath, tid]), w)
           | Inr s \<Rightarrow>
               (case parseTaskFrontmatter L s of
                  Inl e \<Rightarrow> (Inl (Wrapf e ''parse frontmatter of resolved file %s for %s'' [relPath, tid]), w)
                | Inr m \<Rightarrow> (Inr (lib_string0 L m ''task_identifier'' = tid), w))))"

definition fileCarriesIdentifier ::
  "'w world \<Rightarrow> pure_lib \<Rightarrow> create_lib \<Rightarrow> gitClient \<Rightarrow> path \<Rightarrow> task_id \<Rightarrow> 'w \<Rightarrow> bool \<times> 'w" where
  "fileCarriesIdentifier W L E a relPath tid w =
     (case identifierPresence W L E a relPath tid w of
        (Inl _, w) \<Rightarrow> (False, w)
      | (Inr present, w) \<Rightarrow> (present, w))"

definition reuseExistingIdentifierTitle ::
  "'w world \<Rightarrow> pure_lib \<Rightarrow> create_lib \<Rightarrow> gitClient \<Rightarrow> index option \<Rightarrow> task_id \<Rightarrow> string \<Rightarrow> 'w \<Rightarrow> string \<times> 'w" where
  "reuseExistingIdentifierTitle W L E a resolver tid fallbackTitle w =
     (case resolver of
        None \<Rightarrow> (fallbackTitle, w)
      | Some index \<Rightarrow>
          (case Resolve index tid of
             Inl _ \<Rightarrow> (fallbackTitle, w)
           | Inr None \<Rightarrow> (fallbackTitle, w)
           | Inr (Some relPath) \<Rightarrow>
               (let stem = TrimSuffix (Base relPath) ''.md''
                in if stem = [] \<or> stem = ''.'' \<or> stem = ''..'' then (fallbackTitle, w)
                   else case fileCarriesIdentifier W L E a relPath tid w of
                          (present, w) \<Rightarrow> (if present then stem else fallbackTitle, w))))"

section \<open>The create\<close>

definition postCreate ::
  "'w api \<Rightarrow> pure_lib \<Rightarrow> CreateCommand \<Rightarrow> string \<Rightarrow> string \<Rightarrow> 'w \<Rightarrow> bool res \<times> 'w" where
  "postCreate A L cmd title vaultName w =
     (let m = fmupd ''task_identifier'' (VStr (cr_TaskIdentifier cmd)) (cr_Frontmatter cmd);
          m = fmupd ''target_vault'' (VStr vaultName) m
      in case api_CreateTask A \<lparr>vt_ID = [], vt_Title = title, vt_Frontmatter = m, vt_Body = cr_Body cmd, vt_Reopened = False\<rparr>
                (\<not> isRecurringTaskCommand L cmd) w of
           (Inl e, w) \<Rightarrow> (Inl e, w)
         | (Inr created, w) \<Rightarrow> (Inr (vt_Reopened created), w))"

definition shortIdentifier :: "task_id \<Rightarrow> string" where
  "shortIdentifier tid = (if 8 < length tid then take 8 tid else tid)"

text \<open>\<open>errors.As\<close> for the conflict: the identifier and status of the occupant.\<close>

definition conflict_of :: "go_error \<Rightarrow> (string \<times> string) option" where
  "conflict_of e =
     (case err_root e of
        Sentinel (AlreadyExistsError code taskIdentifier status what) \<Rightarrow> Some (taskIdentifier, status)
      | _ \<Rightarrow> None)"

definition createThroughAPI ::
  "'w api \<Rightarrow> pure_lib \<Rightarrow> CreateCommand \<Rightarrow> string \<Rightarrow> string \<Rightarrow> 'w \<Rightarrow> (string \<times> bool) res \<times> 'w" where
  "createThroughAPI A L cmd title vaultName w =
     (case postCreate A L cmd title vaultName w of
        (Inr reopened, w) \<Rightarrow> (Inr (title, reopened), w)
      | (Inl e, w) \<Rightarrow>
          (case conflict_of e of
             None \<Rightarrow> (Inl e, w)
           | Some (occupant, status) \<Rightarrow>
               (if occupant = [] \<or> occupant = cr_TaskIdentifier cmd
                then (Inl (Wrapf (Sentinel ErrTaskAlreadyExists) ''title %q occupied for task %s'' [title, cr_TaskIdentifier cmd]), w)
                else if isRecurringTaskCommand L cmd \<and> IsTerminalStatus status
                then (Inl (Wrapf (Sentinel ErrTaskAlreadyExists) ''title %q held by terminal recurring task %s'' [title, occupant]), w)
                else
                  (let alt = title @ '' - '' @ shortIdentifier (cr_TaskIdentifier cmd)
                   in case postCreate A L cmd alt vaultName w of
                        (Inr reopened, w) \<Rightarrow> (Inr (alt, reopened), w)
                      | (Inl e, w) \<Rightarrow>
                          (if conflict_of e \<noteq> None
                           then (Inl (Wrapf (Sentinel ErrTaskAlreadyExists) ''title %q and %q both occupied for task %s''
                                  [title, alt, cr_TaskIdentifier cmd]), w)
                           else (Inl (Wrapf e ''disambiguated create at %q'' [alt]), w))))))"

definition recordCreatedTaskPath ::
  "'w world \<Rightarrow> pure_lib \<Rightarrow> create_lib \<Rightarrow> gitClient \<Rightarrow> index option \<Rightarrow> task_id \<Rightarrow> path \<Rightarrow> 'w \<Rightarrow> index option \<times> 'w" where
  "recordCreatedTaskPath W L E a resolver tid relPath w =
     (case resolver of
        None \<Rightarrow> (None, w)
      | Some index \<Rightarrow>
          (case Resolve index tid of
             Inl _ \<Rightarrow> (Some index, w)
           | Inr None \<Rightarrow> (Some (Record_path tid relPath index), w)
           | Inr (Some knownPath) \<Rightarrow>
               (if Clean knownPath = Clean relPath then (Some index, w)
                else case identifierPresence W L E a knownPath tid w of
                       (Inl _, w) \<Rightarrow> (Some index, w)
                     | (Inr True, w) \<Rightarrow> (Some (RecordDuplicate tid relPath index), w)
                     | (Inr False, w) \<Rightarrow> (Some (Record_path tid relPath index), w))))"

section \<open>The executor\<close>

definition NewCreateTaskExecutor ::
  "'w world \<Rightarrow> 'w api \<Rightarrow> pure_lib \<Rightarrow> create_lib \<Rightarrow> createExecutor \<Rightarrow> index option \<Rightarrow> string + CreateCommand \<Rightarrow> 'w
     \<Rightarrow> unit res \<times> index option \<times> 'w" where
  "NewCreateTaskExecutor W A L E x resolver data w =
     (case data of
        Inl e \<Rightarrow> (Inl (Wrapf (Sentinel ErrCommandObjectSkipped) ''malformed CreateTaskCommand: %v'' [e]), resolver, w)
      | Inr cmd \<Rightarrow>
          (case id_Validate E (cr_TaskIdentifier cmd) of
             Some e \<Rightarrow> (Inl (Wrapf e ''validate task_identifier'' []), resolver, w)
           | None \<Rightarrow>
               (if \<not> ShouldProcess (cr_TargetVault cmd) (cx_vaultName x)
                then (Inl (Wrapf (Sentinel ErrCommandObjectSkipped) ''cross-vault create for task %s'' [cr_TaskIdentifier cmd]), resolver, w)
                else
                  (case validateCreateTaskFrontmatter L (cr_Frontmatter cmd) of
                     Inl e \<Rightarrow> (Inl (Wrapf e ''validate frontmatter'' []), resolver, w)
                   | Inr _ \<Rightarrow>
                       (case reuseExistingIdentifierTitle W L E (cx_gitClient x) resolver (cr_TaskIdentifier cmd) (createTaskTitle E cmd) w of
                          (title, w) \<Rightarrow>
                            (case createThroughAPI A L cmd title (cx_vaultName x) w of
                               (Inl e, w) \<Rightarrow> (Inl e, resolver, w)
                             | (Inr (pathTitle, reopened), w) \<Rightarrow>
                                 (let relPath = JoinPath (cx_taskDir x) (pathTitle @ ''.md'');
                                      (resolver, w) = recordCreatedTaskPath W L E (cx_gitClient x) resolver (cr_TaskIdentifier cmd) relPath w;
                                      w = retireSupersededBuildFixTasks W L x cmd relPath w;
                                      w = supersedePriorRecurringTask W L E x cmd relPath w;
                                      w = supersedePriorUpdateGoTasks W L E x cmd relPath w
                                  in (Inr (), resolver, w))))))))"

section \<open>The contract of the create route\<close>

text \<open>
  What the comments on the create route promise, seen through the identifier and status of the task that holds a
  title: a free title is taken, a terminal occupant is replaced when the caller asks for it, and every other
  occupied title is refused with a conflict that names the occupant.
\<close>

definition create_key :: "VTask \<Rightarrow> string \<times> string" where
  "create_key t = (string_or_empty (as_string (fm_get (vt_Frontmatter t) ''task_identifier'')),
     string_or_empty (as_string (fm_get (vt_Frontmatter t) ''status'')))"

definition title_store :: "'w api \<Rightarrow> ('w \<Rightarrow> string \<Rightarrow> (string \<times> string) option) \<Rightarrow> bool" where
  "title_store A T \<longleftrightarrow>
     (\<forall>w t reopen.
        case T w (vt_Title t) of
          None \<Rightarrow> (\<exists>u w'. api_CreateTask A t reopen w = (Inr u, w') \<and> \<not> vt_Reopened u \<and> T w' = (T w)(vt_Title t \<mapsto> create_key t))
        | Some (i, s) \<Rightarrow>
            (if reopen \<and> IsTerminalStatus s
             then \<exists>u w'. api_CreateTask A t reopen w = (Inr u, w') \<and> vt_Reopened u \<and> T w' = (T w)(vt_Title t \<mapsto> create_key t)
             else \<exists>e w'. api_CreateTask A t reopen w = (Inl e, w') \<and> conflict_of e = Some (i, s) \<and> T w' = T w))"

lemma title_storeD:
  assumes "title_store A T"
  shows title_free: "T w (vt_Title t) = None \<Longrightarrow>
      \<exists>u w'. api_CreateTask A t reopen w = (Inr u, w') \<and> \<not> vt_Reopened u \<and> T w' = (T w)(vt_Title t \<mapsto> create_key t)"
    and title_reopen: "T w (vt_Title t) = Some (i, s) \<Longrightarrow> IsTerminalStatus s \<Longrightarrow>
      \<exists>u w'. api_CreateTask A t True w = (Inr u, w') \<and> vt_Reopened u \<and> T w' = (T w)(vt_Title t \<mapsto> create_key t)"
    and title_taken: "T w (vt_Title t) = Some (i, s) \<Longrightarrow> \<not> (reopen \<and> IsTerminalStatus s) \<Longrightarrow>
      \<exists>e w'. api_CreateTask A t reopen w = (Inl e, w') \<and> conflict_of e = Some (i, s) \<and> T w' = T w"
proof -
  note store = spec [OF spec [OF spec [OF assms [unfolded title_store_def], of w], of t]]
  show "T w (vt_Title t) = None \<Longrightarrow>
      \<exists>u w'. api_CreateTask A t reopen w = (Inr u, w') \<and> \<not> vt_Reopened u \<and> T w' = (T w)(vt_Title t \<mapsto> create_key t)"
    using store [of reopen] by simp
  show "T w (vt_Title t) = Some (i, s) \<Longrightarrow> IsTerminalStatus s \<Longrightarrow>
      \<exists>u w'. api_CreateTask A t True w = (Inr u, w') \<and> vt_Reopened u \<and> T w' = (T w)(vt_Title t \<mapsto> create_key t)"
    using store [of True] by simp
  show "T w (vt_Title t) = Some (i, s) \<Longrightarrow> \<not> (reopen \<and> IsTerminalStatus s) \<Longrightarrow>
      \<exists>e w'. api_CreateTask A t reopen w = (Inl e, w') \<and> conflict_of e = Some (i, s) \<and> T w' = T w"
    using store [of reopen] by (simp split: if_splits)
qed

text \<open>The title of a create decides its outcome.\<close>

definition cmd_key :: "CreateCommand \<Rightarrow> string \<times> string" where
  "cmd_key cmd = (cr_TaskIdentifier cmd, string_or_empty (as_string (fm_get (cr_Frontmatter cmd) ''status'')))"

definition replaceable :: "pure_lib \<Rightarrow> CreateCommand \<Rightarrow> (string \<times> string) option \<Rightarrow> bool" where
  "replaceable L cmd occ = (case occ of None \<Rightarrow> True | Some (i, s) \<Rightarrow> \<not> isRecurringTaskCommand L cmd \<and> IsTerminalStatus s)"

lemma postCreate_cases:
  assumes "title_store A T"
  shows "\<exists>r w'. postCreate A L cmd title vault w = (r, w') \<and>
     (if replaceable L cmd (T w title)
      then r = Inr (T w title \<noteq> None) \<and> T w' = (T w)(title \<mapsto> cmd_key cmd)
      else \<exists>e. r = Inl e \<and> conflict_of e = T w title \<and> T w' = T w)"
proof -
  define m where "m = fmupd ''target_vault'' (VStr vault) (fmupd ''task_identifier'' (VStr (cr_TaskIdentifier cmd)) (cr_Frontmatter cmd))"
  define t where "t = \<lparr>vt_ID = [], vt_Title = title, vt_Frontmatter = m, vt_Body = cr_Body cmd, vt_Reopened = False\<rparr>"
  have t: "vt_Title t = title" "create_key t = cmd_key cmd"
    by (simp_all add: t_def m_def create_key_def cmd_key_def)
  have run: "postCreate A L cmd title vault w = (case api_CreateTask A t (\<not> isRecurringTaskCommand L cmd) w of
      (Inl e, w) \<Rightarrow> (Inl e, w) | (Inr created, w) \<Rightarrow> (Inr (vt_Reopened created), w))"
    by (simp add: postCreate_def t_def m_def)
  show ?thesis
  proof (cases "T w title")
    case None
    then obtain u w' where "api_CreateTask A t (\<not> isRecurringTaskCommand L cmd) w = (Inr u, w')" "\<not> vt_Reopened u"
        "T w' = (T w)(title \<mapsto> cmd_key cmd)"
      using title_free [OF assms, of w t] t by metis
    then show ?thesis by (simp add: run replaceable_def None)
  next
    case (Some o')
    obtain i s where o': "T w title = Some (i, s)" using Some by (cases o') auto
    show ?thesis
    proof (cases "\<not> isRecurringTaskCommand L cmd \<and> IsTerminalStatus s")
      case True
      then obtain u w' where "api_CreateTask A t (\<not> isRecurringTaskCommand L cmd) w = (Inr u, w')" "vt_Reopened u"
          "T w' = (T w)(title \<mapsto> cmd_key cmd)"
        using title_reopen [OF assms, of w t i s] o' t by metis
      with True show ?thesis by (simp add: run replaceable_def o')
    next
      case False
      then obtain e w' where "api_CreateTask A t (\<not> isRecurringTaskCommand L cmd) w = (Inl e, w')" "conflict_of e = Some (i, s)"
          "T w' = T w"
        using title_taken [OF assms, of w t i s "\<not> isRecurringTaskCommand L cmd"] o' t by metis
      with False show ?thesis by (auto simp: run replaceable_def o')
    qed
  qed
qed

text \<open>The title of the second attempt.\<close>

definition alt_title :: "CreateCommand \<Rightarrow> string \<Rightarrow> string" where
  "alt_title cmd title = title @ '' - '' @ shortIdentifier (cr_TaskIdentifier cmd)"

text \<open>What holds the title speaks against a second file: the task itself, a file without identifier, or a finished
  instance of a recurring task.\<close>

definition settled :: "pure_lib \<Rightarrow> CreateCommand \<Rightarrow> (string \<times> string) option \<Rightarrow> bool" where
  "settled L cmd occ =
     (case occ of
        None \<Rightarrow> False
      | Some (i, s) \<Rightarrow> i = [] \<or> i = cr_TaskIdentifier cmd \<or> isRecurringTaskCommand L cmd \<and> IsTerminalStatus s)"

lemma err_is_AlreadyExists [simp]: "err_is (Wrapf (Sentinel x) f as) y \<longleftrightarrow> x = y"
  by (simp add: err_is_def)

lemma createThroughAPI_cases:
  assumes "title_store A T"
  shows "\<exists>r w'. createThroughAPI A L cmd title vault w = (r, w') \<and>
     (if replaceable L cmd (T w title)
      then r = Inr (title, T w title \<noteq> None) \<and> T w' = (T w)(title \<mapsto> cmd_key cmd)
      else if settled L cmd (T w title) \<or> \<not> replaceable L cmd (T w (alt_title cmd title))
      then (\<exists>e. r = Inl e \<and> err_is e ErrTaskAlreadyExists) \<and> T w' = T w
      else r = Inr (alt_title cmd title, T w (alt_title cmd title) \<noteq> None) \<and> T w' = (T w)(alt_title cmd title \<mapsto> cmd_key cmd))"
proof -
  obtain r w1 where one: "postCreate A L cmd title vault w = (r, w1)"
    and r: "if replaceable L cmd (T w title) then r = Inr (T w title \<noteq> None) \<and> T w1 = (T w)(title \<mapsto> cmd_key cmd)
      else \<exists>e. r = Inl e \<and> conflict_of e = T w title \<and> T w1 = T w"
    using postCreate_cases [OF assms, of L cmd title vault w] by (elim exE conjE)
  show ?thesis
  proof (cases "replaceable L cmd (T w title)")
    case True
    with r show ?thesis by (simp add: createThroughAPI_def one)
  next
    case False
    then obtain e where e: "r = Inl e" "conflict_of e = T w title" "T w1 = T w" using r by auto
    obtain i s where occ: "T w title = Some (i, s)" using False by (cases "T w title") (auto simp: replaceable_def)
    show ?thesis
    proof (cases "settled L cmd (T w title)")
      case True
      with False show ?thesis
        by (auto simp: createThroughAPI_def one e occ settled_def)
    next
      case new: False
      obtain r2 w2 where two: "postCreate A L cmd (alt_title cmd title) vault w1 = (r2, w2)"
        and r2: "if replaceable L cmd (T w (alt_title cmd title))
          then r2 = Inr (T w (alt_title cmd title) \<noteq> None) \<and> T w2 = (T w)(alt_title cmd title \<mapsto> cmd_key cmd)
          else \<exists>e. r2 = Inl e \<and> conflict_of e = T w (alt_title cmd title) \<and> T w2 = T w"
        using postCreate_cases [OF assms, of L cmd "alt_title cmd title" vault w1] unfolding e(3) by (elim exE conjE)
      have run: "createThroughAPI A L cmd title vault w =
          (case postCreate A L cmd (alt_title cmd title) vault w1 of
             (Inr reopened, w) \<Rightarrow> (Inr (alt_title cmd title, reopened), w)
           | (Inl e, w) \<Rightarrow>
               (if conflict_of e \<noteq> None
                then (Inl (Wrapf (Sentinel ErrTaskAlreadyExists) ''title %q and %q both occupied for task %s''
                       [title, alt_title cmd title, cr_TaskIdentifier cmd]), w)
                else (Inl (Wrapf e ''disambiguated create at %q'' [alt_title cmd title]), w)))"
        using new unfolding createThroughAPI_def Let_def alt_title_def [symmetric] settled_def occ by (auto simp: one e occ)
      show ?thesis
      proof (cases "replaceable L cmd (T w (alt_title cmd title))")
        case True
        with r2 new False show ?thesis by (simp add: run two)
      next
        case held: False
        then obtain e2 where "r2 = Inl e2" "conflict_of e2 = T w (alt_title cmd title)" "T w2 = T w" using r2 by auto
        moreover have "T w (alt_title cmd title) \<noteq> None" using held by (auto simp: replaceable_def split: option.splits)
        ultimately show ?thesis using False held by (simp add: run two)
      qed
    qed
  qed
qed

section \<open>Properties\<close>

text \<open>C14: A create never destroys a live task. Against a create route that keeps its documented promises, an occupied
  title changes only if its occupant is finished and the command is not a recurring one; on success exactly
  one title, the wanted one or the disambiguated one, carries the new task afterwards, and the reopened flag says
  whether it was occupied; the only failure is the benign already-exists, and it changes nothing.\<close>

theorem create_keeps_live_tasks:
  assumes "title_store A T" and "createThroughAPI A L cmd title vault w = (r, w')"
  shows "(\<forall>t i s. T w t = Some (i, s) \<and> (\<not> IsTerminalStatus s \<or> isRecurringTaskCommand L cmd) \<longrightarrow> T w' t = Some (i, s)) \<and>
     (case r of
        Inr (p, reopened) \<Rightarrow> p \<in> {title, alt_title cmd title} \<and> T w' = (T w)(p \<mapsto> cmd_key cmd) \<and> (reopened \<longleftrightarrow> T w p \<noteq> None)
      | Inl e \<Rightarrow> err_is e ErrTaskAlreadyExists \<and> T w' = T w)"
proof -
  note c = createThroughAPI_cases [OF assms(1), of L cmd title vault w, unfolded assms(2)]
  have keep: "((T w)(p \<mapsto> cmd_key cmd)) t = Some (i, s)"
    if "replaceable L cmd (T w p)" "T w t = Some (i, s)" "\<not> IsTerminalStatus s \<or> isRecurringTaskCommand L cmd" for p t i s
    using that by (auto simp: replaceable_def)
  from c show ?thesis using keep [of title] keep [of "alt_title cmd title"] by (auto split: if_splits)
qed

text \<open>A redelivered create is absorbed. Once a create has landed, sending the same command with the same title
  again fails with the benign already-exists and changes nothing, as long as the command's own status is not
  terminal or the command is a recurring one.\<close>

theorem redelivered_create_is_absorbed:
  assumes "title_store A T" and "createThroughAPI A L cmd title vault w = (Inr (p, reopened), w1)"
    and "\<not> IsTerminalStatus (snd (cmd_key cmd)) \<or> isRecurringTaskCommand L cmd"
    and "createThroughAPI A L cmd title vault w1 = (r, w2)"
  shows "T w2 = T w1 \<and> (\<exists>e. r = Inl e \<and> err_is e ErrTaskAlreadyExists)"
proof -
  note first = createThroughAPI_cases [OF assms(1), of L cmd title vault w, unfolded assms(2)]
  note second = createThroughAPI_cases [OF assms(1), of L cmd title vault w1, unfolded assms(4)]
  have mine: "\<not> replaceable L cmd (Some (cmd_key cmd))" "settled L cmd (Some (cmd_key cmd))"
    using assms(3) by (auto simp: replaceable_def settled_def cmd_key_def)
  show ?thesis
  proof (cases "p = title")
    case True
    then have "T w1 title = Some (cmd_key cmd)" using first by (auto simp: alt_title_def split: if_splits)
    with mine second show ?thesis by auto
  next
    case False
    then have "T w1 = (T w)(alt_title cmd title \<mapsto> cmd_key cmd)" "\<not> replaceable L cmd (T w title)"
      using first by (auto split: if_splits)
    moreover have "alt_title cmd title \<noteq> title" by (simp add: alt_title_def)
    ultimately have "\<not> replaceable L cmd (T w1 title)" "T w1 (alt_title cmd title) = Some (cmd_key cmd)" by auto
    with mine second show ?thesis by auto
  qed
qed

text \<open>C36: After the record of a create the index never resolves the identifier to a file that does not carry it. If
  the known file is there and still carries the identifier, the lookup reports the duplicate; if it does not,
  or none was known, it resolves to the new file; only when the question cannot be answered does the old
  entry stay. No other identifier is affected.\<close>

theorem created_path_is_recorded:
  assumes "tid \<noteq> []" and "relPath \<noteq> []"
    and "recordCreatedTaskPath W L E a (Some index) tid relPath w = (resolver', w')"
  shows "\<exists>index'. resolver' = Some index' \<and> (\<forall>t. t \<noteq> tid \<longrightarrow> Resolve index' t = Resolve index t) \<and>
     (case Resolve index tid of
        Inl _ \<Rightarrow> index' = index
      | Inr None \<Rightarrow> Resolve index' tid = Inr (Some relPath)
      | Inr (Some known) \<Rightarrow>
          (if Clean known = Clean relPath then index' = index
           else case fst (identifierPresence W L E a known tid w) of
                  Inl _ \<Rightarrow> index' = index
                | Inr True \<Rightarrow> \<exists>e. Resolve index' tid = Inl e
                | Inr False \<Rightarrow> Resolve index' tid = Inr (Some relPath)))"
proof -
  have other: "Resolve (Record_path tid relPath index) t = Resolve index t"
    "Resolve (RecordDuplicate tid relPath index) t = Resolve index t" if "t \<noteq> tid" for t
    using that by (simp_all add: Resolve_def Record_path_def RecordDuplicate_def index_paths_def)
  have single: "index_paths index tid = [p]" if "Resolve index tid = Inr (Some p)" for p
    using that by (auto simp: Resolve_def split: if_splits list.splits)
  have none: "index_paths index tid = []" if "Resolve index tid = Inr None"
    using that assms(1) by (auto simp: Resolve_def split: if_splits list.splits)
  have rec: "Resolve (Record_path tid relPath index) tid = Inr (Some relPath)" if "length (index_paths index tid) < 2"
    using that assms(1,2) by (simp add: Record_path_def Resolve_def index_paths_def)
  have dup: "\<exists>e. Resolve (RecordDuplicate tid relPath index) tid = Inl e"
    if "index_paths index tid = [p]" "Clean p \<noteq> Clean relPath" for p
  proof -
    have "relPath \<noteq> p" using that(2) by auto
    with that(1) assms(1,2) show ?thesis
      by (simp add: RecordDuplicate_def Resolve_def index_paths_def)
  qed
  show ?thesis
  proof (cases "Resolve index tid")
    case (Inl e)
    with assms(3) show ?thesis by (auto simp: recordCreatedTaskPath_def)
  next
    case (Inr known)
    show ?thesis
    proof (cases known)
      case None
      with Inr assms(3) rec none other show ?thesis by (auto simp: recordCreatedTaskPath_def)
    next
      case (Some p)
      note p = single [OF Inr [unfolded Some]]
      obtain q u where q: "identifierPresence W L E a p tid w = (q, u)" by (cases "identifierPresence W L E a p tid w")
      show ?thesis
        using Inr Some assms(3) p q rec dup [OF p] other
        by (auto simp: recordCreatedTaskPath_def split: sum.splits bool.splits if_splits)
    qed
  qed
qed

text \<open>A create command that is malformed, has an invalid identifier, is meant for another vault or lacks a status is
  refused before anything happens: no create, no index entry, no superseded task.\<close>

theorem refused_create_has_no_effect:
  assumes "case data of Inl e \<Rightarrow> True
     | Inr cmd \<Rightarrow> id_Validate E (cr_TaskIdentifier cmd) \<noteq> None \<or> \<not> ShouldProcess (cr_TargetVault cmd) (cx_vaultName x) \<or>
         lib_string0 L (cr_Frontmatter cmd) ''status'' = []"
  shows "\<exists>e. NewCreateTaskExecutor W A L E x resolver data w = (Inl e, resolver, w)"
  using assms by (auto simp: NewCreateTaskExecutor_def validateCreateTaskFrontmatter_def split: sum.splits option.split)

section \<open>Reference instances\<close>

text \<open>A create route over a table from titles to identifiers and states.\<close>

definition table_create :: "VTask \<Rightarrow> bool \<Rightarrow> (string \<Rightarrow> (string \<times> string) option) \<Rightarrow> VTask res \<times> (string \<Rightarrow> (string \<times> string) option)" where
  "table_create t reopen m =
     (case m (vt_Title t) of
        None \<Rightarrow> (Inr (t\<lparr>vt_ID := ''i'', vt_Reopened := False\<rparr>), m(vt_Title t \<mapsto> create_key t))
      | Some (i, s) \<Rightarrow>
          (if reopen \<and> IsTerminalStatus s
           then (Inr (t\<lparr>vt_ID := ''i'', vt_Reopened := True\<rparr>), m(vt_Title t \<mapsto> create_key t))
           else (Inl (Sentinel (AlreadyExistsError [] i s [])), m)))"

definition table_api :: "(string \<Rightarrow> (string \<times> string) option) api" where
  "table_api =
     \<lparr>api_ReadTask = (\<lambda>i m. (Inl (Sentinel ErrNotFound), m)), api_CreateTask = table_create,
      api_PatchTask = (\<lambda>i f m. (Inl (Sentinel ErrNotFound), m)), api_PutBody = (\<lambda>i b m. (Inl (Sentinel ErrNotFound), m)),
      api_ListTasks = (\<lambda>f m. (Inr [], m)), api_ReaddressTask = (\<lambda>i j m. (Inl (Sentinel ErrNotFound), m))\<rparr>"

lemma table_title_store: "title_store table_api (\<lambda>m. m)"
  by (auto simp: title_store_def table_api_def table_create_def conflict_of_def split: option.split)

definition new_command :: CreateCommand where
  "new_command =
     \<lparr>cr_TaskIdentifier = ''u2'', cr_TargetVault = ''v'', cr_Title = ''t'',
      cr_Frontmatter = fmupd ''status'' (VStr ''in_progress'') fmempty, cr_Body = []\<rparr>"

definition taken_table :: "string \<Rightarrow> (string \<times> string) option" where
  "taken_table = Map.empty(''t'' \<mapsto> (''u1'', ''in_progress''))"

lemma new_command_run:
  "createThroughAPI table_api codec_lib new_command ''t'' ''v'' taken_table =
     (Inr (alt_title new_command ''t'', False), taken_table(alt_title new_command ''t'' \<mapsto> cmd_key new_command))"
proof -
  have key: "\<not> IsTerminalStatus ''in_progress''" "\<not> isRecurringTaskCommand codec_lib new_command"
    by (simp_all add: IsTerminalStatus_def isRecurringTaskCommand_def new_command_def codec_lib_def ref_lib_def)
  have alt: "alt_title new_command ''t'' = ''t - u2''" by code_simp
  obtain r w' where run: "createThroughAPI table_api codec_lib new_command ''t'' ''v'' taken_table = (r, w')"
    and c: "if replaceable codec_lib new_command (taken_table ''t'')
      then r = Inr (''t'', taken_table ''t'' \<noteq> None) \<and> w' = taken_table(''t'' \<mapsto> cmd_key new_command)
      else if settled codec_lib new_command (taken_table ''t'') \<or> \<not> replaceable codec_lib new_command (taken_table (alt_title new_command ''t''))
      then (\<exists>e. r = Inl e \<and> err_is e ErrTaskAlreadyExists) \<and> w' = taken_table
      else r = Inr (alt_title new_command ''t'', taken_table (alt_title new_command ''t'') \<noteq> None) \<and>
        w' = taken_table(alt_title new_command ''t'' \<mapsto> cmd_key new_command)"
    using createThroughAPI_cases [OF table_title_store, of codec_lib new_command "''t''" "''v''" taken_table] by (elim exE conjE)
  have t: "taken_table ''t'' = Some (''u1'', ''in_progress'')" "taken_table ''t - u2'' = None"
    by (simp_all add: taken_table_def)
  have "r = Inr (''t - u2'', False) \<and> w' = taken_table(''t - u2'' \<mapsto> cmd_key new_command)"
    using c key unfolding alt t replaceable_def settled_def by (auto simp: new_command_def)
  with run alt show ?thesis by simp
qed

theorem create_keeps_live_tasks_witness:
  "snd (createThroughAPI table_api codec_lib new_command ''t'' ''v'' taken_table) ''t'' = Some (''u1'', ''in_progress'')"
proof -
  have "taken_table ''t'' = Some (''u1'', ''in_progress'')" "\<not> IsTerminalStatus ''in_progress''"
    by (simp_all add: taken_table_def IsTerminalStatus_def)
  with conjunct1 [OF create_keeps_live_tasks [OF table_title_store new_command_run]] show ?thesis
    unfolding new_command_run snd_conv by blast
qed

theorem redelivered_create_is_absorbed_witness:
  "let m = taken_table(alt_title new_command ''t'' \<mapsto> cmd_key new_command)
   in snd (createThroughAPI table_api codec_lib new_command ''t'' ''v'' m) = m"
proof -
  let ?m = "taken_table(alt_title new_command ''t'' \<mapsto> cmd_key new_command)"
  have "\<not> IsTerminalStatus (snd (cmd_key new_command))"
    by (simp add: cmd_key_def new_command_def IsTerminalStatus_def)
  then show ?thesis
    using redelivered_create_is_absorbed [OF table_title_store new_command_run _ prod.collapse [symmetric]] by (simp add: Let_def)
qed

theorem created_path_is_recorded_witness:
  "\<exists>index'. recordCreatedTaskPath ref_world codec_lib ref_create_lib (cx_gitClient ref_executor) (Some fmempty) ''u'' ''d/a.md'' may_vault =
      (Some index', may_vault) \<and> Resolve index' ''u'' = Inr (Some ''d/a.md'')"
proof -
  have none: "Resolve fmempty ''u'' = Inr None" by (simp add: Resolve_def index_paths_def)
  then have run: "recordCreatedTaskPath ref_world codec_lib ref_create_lib (cx_gitClient ref_executor) (Some fmempty) ''u'' ''d/a.md'' may_vault =
      (Some (Record_path ''u'' ''d/a.md'' fmempty), may_vault)"
    by (simp add: recordCreatedTaskPath_def)
  from created_path_is_recorded [OF _ _ this] none run show ?thesis by simp
qed

theorem refused_create_has_no_effect_witness:
  "\<exists>e. NewCreateTaskExecutor ref_world \<lparr>api_ReadTask = (\<lambda>i m. (Inl (Sentinel ErrNotFound), m)), api_CreateTask = (\<lambda>t r m. (Inr t, m)), api_PatchTask = (\<lambda>i f m. (Inl (Sentinel ErrNotFound), m)),
      api_PutBody = (\<lambda>i b m. (Inl (Sentinel ErrNotFound), m)), api_ListTasks = (\<lambda>f m. (Inr [], m)), api_ReaddressTask = (\<lambda>i j m. (Inl (Sentinel ErrNotFound), m))\<rparr>
      codec_lib ref_create_lib ref_executor None (Inr (june_command\<lparr>cr_TargetVault := ''other''\<rparr>)) may_vault =
      (Inl e, None, may_vault)"
  by (rule refused_create_has_no_effect) (simp add: ShouldProcess_def ref_executor_def)

end
