(* ===== verification/TaskResult.thy ===== *)
theory TaskResult
  imports PlanningRetry Routing
begin

text \<open>
  The executor of task results (\<open>pkg/command/task_result_executor.go\<close>), the command every agent answers with: it
  composes the routing of results, the planning retry gate and the result writer, which share one path resolver.
  Parameters: the decoded command (or the text of the decoder's error), the validation of a task, the identifier the
  gate mints and \<open>base.ParseEvent\<close>.
\<close>

section \<open>The executor\<close>

definition resultEvent :: "(Task \<Rightarrow> 'ev res) \<Rightarrow> Task \<Rightarrow> (task_id \<times> 'ev) res" where
  "resultEvent parse_event req =
     (case parse_event req of
        Inl e \<Rightarrow> Inl (Wrapf e ''parse result event for task %s'' [TaskIdentifier req])
      | Inr event \<Rightarrow> Inr (TaskIdentifier req, event))"

definition NewTaskResultExecutor ::
  "'w world \<Rightarrow> pure_lib \<Rightarrow> (Task \<Rightarrow> string option) \<Rightarrow> (Task \<Rightarrow> 'ev res) \<Rightarrow> 'w resultWriter \<Rightarrow> 'w planningRetryGate \<Rightarrow> string
     \<Rightarrow> instant \<Rightarrow> instant \<Rightarrow> string \<Rightarrow> string + Task \<Rightarrow> rw_state \<Rightarrow> 'w \<Rightarrow> (task_id \<times> 'ev) res \<times> rw_state \<times> 'w" where
  "NewTaskResultExecutor W L Validate parse_event writer gate vaultName now1 now2 newID data st w =
     (case data of
        Inl e \<Rightarrow> (Inl (Wrapf (Sentinel ErrCommandObjectSkipped) ''malformed Task command: %v'' [e]), st, w)
      | Inr req \<Rightarrow>
     (case Validate req of
        Some e \<Rightarrow>
          (Inl (Wrapf (Sentinel ErrCommandObjectSkipped) ''invalid Task (taskID=%s): %v'' [TaskIdentifier req, e]), st, w)
      | None \<Rightarrow>
          (if \<not> ShouldProcessResult L (Frontmatter req) vaultName
           then (Inl (Wrapf (Sentinel ErrCommandObjectSkipped) ''cross-vault result for task %s'' [TaskIdentifier req]), st, w)
           else case Handle W L gate newID req (rw_resolver st) w of
                  (Inl e, resolver, w) \<Rightarrow>
                    (Inl (Wrapf e ''planning retry gate for task %s'' [TaskIdentifier req]), st\<lparr>rw_resolver := resolver\<rparr>, w)
                | (Inr handled, resolver, w) \<Rightarrow>
                    (let st = st\<lparr>rw_resolver := resolver\<rparr>
                     in if handled then (resultEvent parse_event req, st, w)
                        else case WriteResult W L writer now1 now2 req st w of
                               (Inl e, st, w) \<Rightarrow> (Inl (Wrapf e ''write result for task %s'' [TaskIdentifier req]), st, w)
                             | (Inr _, st, w) \<Rightarrow> (resultEvent parse_event req, st, w)))))"

section \<open>What the gate sends\<close>

text \<open>The comment goes to GitHub, not to the vault.\<close>

definition quiet_gate :: "('w \<times> exchange list) planningRetryGate \<Rightarrow> bool" where
  "quiet_gate g \<longleftrightarrow> (\<forall>m c x. posted (snd (snd (pg_PostComment g m c x))) = posted (snd x))"

definition gate_bytes :: "pure_lib \<Rightarrow> 'w planningRetryGate \<Rightarrow> string \<Rightarrow> Task \<Rightarrow> bytes \<Rightarrow> bool" where
  "gate_bytes L g newID req b \<longleftrightarrow>
     (\<exists>current reason ts s. b \<noteq> current \<and>
        ((\<exists>count. fst (buildRetryModifyFn L g count reason ts newID current s) = Inr b) \<or>
         fst (buildEscalationModifyFn L g reason ts current s) = Inr b))"

lemma gate_bytesI:
  "fst (buildRetryModifyFn L g count reason ts newID current s) = Inr b \<Longrightarrow> b \<noteq> current \<Longrightarrow> gate_bytes L g newID req b"
  "fst (buildEscalationModifyFn L g reason ts current s) = Inr b \<Longrightarrow> b \<noteq> current \<Longrightarrow> gate_bytes L g newID req b"
  unfolding gate_bytes_def by blast+

lemma traced_retry_metric: "snd (PlanningRetryTotal (traced W) o' x) = snd x"
  by (simp add: PlanningRetryTotal_def)

lemma posted_escalate:
  assumes "quiet_gate g" and "escalate (traced W) L g req rel m x = (r, x')"
  shows "\<exists>k b. posted (snd x') = posted (snd x) @ replicate k b \<and> k \<le> 5 \<and> (0 < k \<longrightarrow> gate_bytes L g newID req b)"
proof -
  obtain now y where y: "clock_now (traced W) x = (now, y)" by (cases "clock_now (traced W) x")
  then have sy: "snd y = snd x" using traced_simps(3) [of W x] by simp
  let ?reason = "extractReason (Content req)"
  obtain q c z where z: "AtomicReadModifyWriteAndCommitPush (traced W) (pg_gitClient g) (JoinPath (Path (pg_gitClient g)) rel)
     (buildEscalationModifyFn L g ?reason (RFC3339 now)) (''[agent-task-controller] planning retry exhausted for task '' @ TaskIdentifier req) True y = (q, c, z)"
    by (metis surj_pair)
  have quiet: "posted (snd (snd (pg_PostComment g m c u))) = posted (snd u)" for m c u
    using assms(1) unfolding quiet_gate_def by blast
  have "posted (snd x') = posted (snd z)"
    using assms(2) [unfolded escalate_def y prod.case Let_def z]
    by (auto simp: quiet traced_retry_metric split: sum.splits if_splits)
  moreover obtain k b where "posted (snd z) = posted (snd y) @ replicate k b" "k \<le> 5"
      "0 < k \<longrightarrow> (\<exists>current. fst (buildEscalationModifyFn L g ?reason (RFC3339 now) current True) = Inr b \<and> b \<noteq> current)"
    using rmw_trace [OF z] by blast
  ultimately show ?thesis using sy by (intro exI [of _ k] exI [of _ b]) (auto intro: gate_bytesI)
qed

lemma posted_Handle:
  assumes "quiet_gate g" and "Handle (traced W) L g newID req res x = (r, res', x')"
  shows "\<exists>k b. posted (snd x') = posted (snd x) @ replicate k b \<and> k \<le> 5 \<and> (0 < k \<longrightarrow> gate_bytes L g newID req b \<and> r \<noteq> Inr False)"
proof -
  have none: ?thesis if "posted (snd x') = posted (snd x)" using that by (intro exI [of _ 0]) simp
  obtain f res1 y where y: "FindTaskFilePath (traced W) L (pg_gitClient g) (pg_taskDir g) (TaskIdentifier req) res x = (f, res1, y)"
    by (metis surj_pair)
  have py: "posted (snd y) = posted (snd x)"
    using posted_Find [of W L "pg_gitClient g" "pg_taskDir g" "TaskIdentifier req" res x] y by simp
  note run = assms(2) [unfolded Handle_def y prod.case]
  show ?thesis
  proof (cases "matchesRetryGate L g req \<and> (\<exists>rel m. f = Inr (rel, m) \<and> rel \<noteq> [] \<and> string_or_empty (lib_Phase L m) = ''planning'')")
    case False
    then show ?thesis using run py by (intro none) (auto split: if_splits sum.splits)
  next
    case True
    then obtain rel m where gate: "matchesRetryGate L g req" and f: "f = Inr (rel, m)" "rel \<noteq> []" "string_or_empty (lib_Phase L m) = ''planning''"
      by blast
    define count where "count = max 0 (int_or_zero (lib_Int L m ''planning_retry_count''))"
    note run1 = run [unfolded f(1) sum.case prod.case Let_def count_def [symmetric]]
    show ?thesis
    proof (cases "maxControllerPlanningRetries \<le> count")
      case True
      obtain q z where z: "escalate (traced W) L g req rel m y = (q, z)" by (metis surj_pair)
      then have "x' = z" "r = q" using run1 gate f(2,3) True by simp_all
      moreover have "q \<noteq> Inr False"
        using z by (auto simp: escalate_def Let_def split: prod.splits sum.splits if_splits)
      ultimately show ?thesis using posted_escalate [OF assms(1) z, of newID] py by auto
    next
      case False
      obtain now u where u: "clock_now (traced W) y = (now, u)" by (cases "clock_now (traced W) y")
      then have su: "snd u = snd y" using traced_simps(3) [of W y] by simp
      let ?reason = "extractReason (Content req)"
      obtain q c z where z: "AtomicReadModifyWriteAndCommitPush (traced W) (pg_gitClient g) (JoinPath (Path (pg_gitClient g)) rel)
         (buildRetryModifyFn L g count ?reason (RFC3339 now) newID)
         (''[agent-task-controller] planning retry '' @ Itoa (count + 1) @ ''/3 for task '' @ TaskIdentifier req) False u = (q, c, z)"
        by (metis surj_pair)
      have "posted (snd x') = posted (snd z)" and "r \<noteq> Inr False"
        using run1 [unfolded u prod.case z] gate f(2,3) False
        by (auto simp: traced_retry_metric split: sum.splits if_splits)
      moreover obtain k b where "posted (snd z) = posted (snd u) @ replicate k b" "k \<le> 5"
          "0 < k \<longrightarrow> (\<exists>current. fst (buildRetryModifyFn L g count ?reason (RFC3339 now) newID current False) = Inr b \<and> b \<noteq> current)"
        using rmw_trace [OF z] by blast
      ultimately show ?thesis using su py by (intro exI [of _ k] exI [of _ b]) (auto intro: gate_bytesI)
    qed
  qed
qed


section \<open>Properties\<close>

lemma executor_acknowledges:
  assumes "NewTaskResultExecutor W L V E writer g vaultName now1 now2 newID data st w = (Inr (tid, ev), st', w')"
  shows "\<exists>req handled resolver y. data = Inr req \<and> tid = TaskIdentifier req \<and>
     Handle W L g newID req (rw_resolver st) w = (Inr handled, resolver, y) \<and>
     (if handled then st' = st\<lparr>rw_resolver := resolver\<rparr> \<and> w' = y
      else WriteResult W L writer now1 now2 req (st\<lparr>rw_resolver := resolver\<rparr>) y = (Inr (), st', w'))"
proof -
  obtain req where req: "data = Inr req" using assms by (cases data) (simp_all add: NewTaskResultExecutor_def)
  obtain h resolver y where h: "Handle W L g newID req (rw_resolver st) w = (h, resolver, y)" by (metis surj_pair)
  obtain r1 st1 z where w: "WriteResult W L writer now1 now2 req (st\<lparr>rw_resolver := resolver\<rparr>) y = (r1, st1, z)" by (metis surj_pair)
  have "\<exists>handled. h = Inr handled \<and> tid = TaskIdentifier req \<and>
      (if handled then st' = st\<lparr>rw_resolver := resolver\<rparr> \<and> w' = y else r1 = Inr () \<and> st' = st1 \<and> w' = z)"
    using assms [unfolded NewTaskResultExecutor_def req sum.case h prod.case Let_def w]
    by (auto simp: resultEvent_def split: option.splits if_splits sum.splits)
  then obtain handled where hd: "h = Inr handled" "tid = TaskIdentifier req"
      "if handled then st' = st\<lparr>rw_resolver := resolver\<rparr> \<and> w' = y else r1 = Inr () \<and> st' = st1 \<and> w' = z" by blast
  have "if handled then st' = st\<lparr>rw_resolver := resolver\<rparr> \<and> w' = y
      else WriteResult W L writer now1 now2 req (st\<lparr>rw_resolver := resolver\<rparr>) y = (Inr (), st', w')"
    using hd(3) w by (cases handled) simp_all
  with req h hd(1,2) show ?thesis by blast
qed

lemma executor_skips:
  assumes "NewTaskResultExecutor W L V E writer g vaultName now1 now2 newID data st w = (res, st', w')"
    and "\<not> (\<exists>req. data = Inr req \<and> V req = None \<and> ShouldProcessResult L (Frontmatter req) vaultName)"
  shows "st' = st \<and> w' = w \<and> (\<exists>e. res = Inl e \<and> err_is e ErrCommandObjectSkipped)"
  using assms by (auto simp: NewTaskResultExecutor_def err_is_def split: sum.splits option.splits if_splits)

lemma executor_sends:
  assumes "quiet writer" and "quiet_gate g" and "V req = None" and "ShouldProcessResult L (Frontmatter req) vaultName"
    and "NewTaskResultExecutor (traced W) L V E writer g vaultName now1 now2 newID (Inr req) st x = (res, st', x')"
  shows "\<exists>k b. posted (snd x') = posted (snd x) @ replicate k b \<and> k \<le> 5 \<and>
     (0 < k \<longrightarrow> gate_bytes L g newID req b \<or>
        (\<exists>current s. fst (buildResultModifyFn L writer now1 now2 req current s) = Inr b \<and> b \<noteq> current))"
proof -
  obtain h resolver y where h: "Handle (traced W) L g newID req (rw_resolver st) x = (h, resolver, y)" by (metis surj_pair)
  obtain k b where gate: "posted (snd y) = posted (snd x) @ replicate k b" "k \<le> 5" "0 < k \<longrightarrow> gate_bytes L g newID req b \<and> h \<noteq> Inr False"
    using posted_Handle [OF assms(2) h] by blast
  note run = assms(5) [unfolded NewTaskResultExecutor_def sum.case option.case assms(3) h prod.case Let_def]
  show ?thesis
  proof (cases "h = Inr False")
    case False
    then have "x' = y" using run assms(4) by (auto split: sum.splits if_splits)
    then show ?thesis using gate by blast
  next
    case True
    obtain r1 st1 z where w: "WriteResult (traced W) L writer now1 now2 req (st\<lparr>rw_resolver := resolver\<rparr>) y = (r1, st1, z)"
      by (metis surj_pair)
    have "x' = z" using run assms(4) w True by (auto split: sum.splits)
    moreover have "posted (snd y) = posted (snd x)" using gate True by (cases k) auto
    ultimately show ?thesis using posted_WriteResult [OF assms(1) w] by metis
  qed
qed

text \<open>C11: One result command makes at most one change to the vault. Everything it sends is one content, sent at most five
  times: either the output of the gate for this result, or, when the gate did not take it, the merge of this result. A
  command that is malformed, invalid or meant for another vault is skipped with nothing sent and nothing read, and a
  command whose file could not be written is not acknowledged.\<close>

theorem result_command_makes_one_change:
  assumes "quiet writer" and "quiet_gate g"
    and "NewTaskResultExecutor (traced W) L V E writer g vaultName now1 now2 newID data st x = (res, st', x')"
  shows "(\<exists>k b. posted (snd x') = posted (snd x) @ replicate k b \<and> k \<le> 5 \<and>
           (0 < k \<longrightarrow> (\<exists>req. data = Inr req \<and> V req = None \<and> ShouldProcessResult L (Frontmatter req) vaultName \<and>
              (gate_bytes L g newID req b \<or>
               (\<exists>current s. fst (buildResultModifyFn L writer now1 now2 req current s) = Inr b \<and> b \<noteq> current))))) \<and>
         ((\<exists>e. data = Inl e) \<or> (\<exists>req. data = Inr req \<and> (V req \<noteq> None \<or> \<not> ShouldProcessResult L (Frontmatter req) vaultName)) \<longrightarrow>
            st' = st \<and> x' = x \<and> (\<exists>e. res = Inl e \<and> err_is e ErrCommandObjectSkipped)) \<and>
         (\<forall>tid ev. res = Inr (tid, ev) \<longrightarrow> (\<exists>req. data = Inr req \<and> tid = TaskIdentifier req \<and>
            (\<exists>handled resolver y. Handle (traced W) L g newID req (rw_resolver st) x = (Inr handled, resolver, y) \<and>
               (if handled then st' = st\<lparr>rw_resolver := resolver\<rparr> \<and> x' = y
                else WriteResult (traced W) L writer now1 now2 req (st\<lparr>rw_resolver := resolver\<rparr>) y = (Inr (), st', x')))))"
proof (intro conjI)
  show "\<exists>k b. posted (snd x') = posted (snd x) @ replicate k b \<and> k \<le> 5 \<and>
           (0 < k \<longrightarrow> (\<exists>req. data = Inr req \<and> V req = None \<and> ShouldProcessResult L (Frontmatter req) vaultName \<and>
              (gate_bytes L g newID req b \<or>
               (\<exists>current s. fst (buildResultModifyFn L writer now1 now2 req current s) = Inr b \<and> b \<noteq> current))))"
  proof (cases "\<exists>req. data = Inr req \<and> V req = None \<and> ShouldProcessResult L (Frontmatter req) vaultName")
    case True
    then show ?thesis using executor_sends [OF assms(1,2)] assms(3) by metis
  next
    case False
    from executor_skips [OF assms(3) this] show ?thesis by (intro exI [of _ 0]) simp
  qed
  show "(\<exists>e. data = Inl e) \<or> (\<exists>req. data = Inr req \<and> (V req \<noteq> None \<or> \<not> ShouldProcessResult L (Frontmatter req) vaultName)) \<longrightarrow>
            st' = st \<and> x' = x \<and> (\<exists>e. res = Inl e \<and> err_is e ErrCommandObjectSkipped)"
    using executor_skips [OF assms(3)] by auto
  show "\<forall>tid ev. res = Inr (tid, ev) \<longrightarrow> (\<exists>req. data = Inr req \<and> tid = TaskIdentifier req \<and>
            (\<exists>handled resolver y. Handle (traced W) L g newID req (rw_resolver st) x = (Inr handled, resolver, y) \<and>
               (if handled then st' = st\<lparr>rw_resolver := resolver\<rparr> \<and> x' = y
                else WriteResult (traced W) L writer now1 now2 req (st\<lparr>rw_resolver := resolver\<rparr>) y = (Inr (), st', x'))))"
    using executor_acknowledges assms(3) by metis
qed


section \<open>Reference instances\<close>

text \<open>The failed planning result over the reference server, and the same result for another vault.\<close>

definition traced_gate :: "(mem \<times> exchange list) planningRetryGate" where
  "traced_gate =
     \<lparr>pg_gitClient = NewGitClient (NewGitRestClient ''h'' [] []) ''/v'', pg_taskDir = ''d'', pg_vaultName = ''v'',
      pg_PostComment = (\<lambda>m c w. (None, w)), pg_humanAssignees = {||}, pg_TaskTypePRReview = ''pr-review''\<rparr>"

definition traced_writer :: "(mem \<times> exchange list) resultWriter" where
  "traced_writer =
     \<lparr>rw_git = NewGitClient (NewGitRestClient ''h'' [] []) ''/v'', rw_taskDir = ''d'', rw_vaultName = ''v'',
      rw_humans = {||}, notificationSender = None, keptStatePublisher = None\<rparr>"

definition run_result :: "string \<Rightarrow> (task_id \<times> string) res \<times> rw_state \<times> mem \<times> exchange list" where
  "run_result target =
     NewTaskResultExecutor (traced ref_world) codec_lib (\<lambda>t. None) (\<lambda>t. Inr (Content t)) traced_writer traced_gate ''v'' 0 0 ''n''
       (Inr (failed_task\<lparr>Frontmatter := fmupd ''target_vault'' (VStr target) (Frontmatter failed_task)\<rparr>))
       \<lparr>rw_resolver = Some planning_index, escalationPublishedAt = fmempty\<rparr> (planning_mem 0, [])"

theorem result_command_makes_one_change_witness:
  "(\<exists>k b. posted (snd (snd (snd (run_result ''v'')))) = replicate k b \<and> k \<le> 5) \<and>
   (\<exists>e st. run_result ''other'' = (Inl e, st, planning_mem 0, []) \<and> err_is e ErrCommandObjectSkipped)"
proof
  have quiet: "quiet traced_writer" "quiet_gate traced_gate"
    by (simp_all add: quiet_def quiet_gate_def traced_writer_def traced_gate_def)
  obtain res st x where run: "run_result ''v'' = (res, st, x)" by (metis surj_pair)
  from result_command_makes_one_change [OF quiet this [unfolded run_result_def]]
  obtain k b where "posted (snd x) = posted [] @ replicate k b" "k \<le> 5" by auto
  then show "\<exists>k b. posted (snd (snd (snd (run_result ''v'')))) = replicate k b \<and> k \<le> 5" by (auto simp: run posted_def)
  obtain res st x where run: "run_result ''other'' = (res, st, x)" by (metis surj_pair)
  have "\<not> ShouldProcessResult codec_lib (fmupd ''target_vault'' (VStr ''other'') (Frontmatter failed_task)) ''v''"
    by (simp add: ShouldProcessResult_def codec_lib_def ref_lib_def)
  then have "\<exists>req. (Inr (failed_task\<lparr>Frontmatter := fmupd ''target_vault'' (VStr ''other'') (Frontmatter failed_task)\<rparr>) :: string + Task) = Inr req \<and>
      ((None :: string option) \<noteq> None \<or> \<not> ShouldProcessResult codec_lib (Frontmatter req) ''v'')" by simp
  with result_command_makes_one_change [OF quiet run [unfolded run_result_def]]
  show "\<exists>e st. run_result ''other'' = (Inl e, st, planning_mem 0, []) \<and> err_is e ErrCommandObjectSkipped"
    unfolding run by auto
qed

end
