(* ===== verification/Publisher.thy ===== *)
theory Publisher
  imports ResultWriter WorldOrder
begin

text \<open>
  The task publisher (\<open>pkg/publisher/task_publisher.go\<close>): the events it builds and hands to the event sender.
  The event parser and the sender of the messaging library are parameters. What has been delivered is seen
  through a sink: the events of the calls the sender acknowledged, in order.
\<close>

section \<open>Events\<close>

record base_Object =
  obj_Identifier :: string
  obj_Created :: instant
  obj_Modified :: instant

record event_task =
  et_Object :: base_Object
  et_TaskIdentifier :: task_id
  et_Frontmatter :: fm
  et_Content :: string
  et_Vault :: string

record 'ev event_object =
  eo_Event :: "'ev option"
  eo_ID :: string
  eo_SchemaID :: string

record ('ev, 'w) event_lib =
  ParseEvent :: "event_task \<Rightarrow> 'ev res"
  SendUpdate :: "'ev event_object \<Rightarrow> 'w \<Rightarrow> go_error option \<times> 'w"
  SendDelete :: "'ev event_object \<Rightarrow> 'w \<Rightarrow> go_error option \<times> 'w"
  event_uuid :: "'w \<Rightarrow> string \<times> 'w"

section \<open>The publisher\<close>

record taskPublisher =
  tp_schemaID :: string
  tp_vaultName :: string

definition NewTaskPublisher :: "string \<Rightarrow> string \<Rightarrow> taskPublisher" where
  "NewTaskPublisher schemaID vaultName = \<lparr>tp_schemaID = schemaID, tp_vaultName = vaultName\<rparr>"

definition PublishChanged ::
  "'w world \<Rightarrow> ('ev, 'w) event_lib \<Rightarrow> taskPublisher \<Rightarrow> Task \<Rightarrow> 'w \<Rightarrow> go_error option \<times> 'w" where
  "PublishChanged W P p task w =
     (case clock_now W w of (now, w) \<Rightarrow>
      case event_uuid P w of (u, w) \<Rightarrow>
      (let stamped = \<lparr>et_Object = \<lparr>obj_Identifier = u, obj_Created = now, obj_Modified = now\<rparr>,
                      et_TaskIdentifier = TaskIdentifier task, et_Frontmatter = Frontmatter task,
                      et_Content = Content task, et_Vault = tp_vaultName p\<rparr>
       in case ParseEvent P stamped of
            Inl e \<Rightarrow> (Some (Wrapf e ''parse event for task %s failed'' [TaskIdentifier task]), w)
          | Inr event \<Rightarrow>
              (case SendUpdate P \<lparr>eo_Event = Some event, eo_ID = TaskIdentifier task, eo_SchemaID = tp_schemaID p\<rparr> w of
                 (Some e, w) \<Rightarrow> (Some (Wrapf e ''publish changed task %s failed'' [TaskIdentifier task]), w)
               | (None, w) \<Rightarrow> (None, w))))"

definition PublishDeleted ::
  "('ev, 'w) event_lib \<Rightarrow> taskPublisher \<Rightarrow> task_id \<Rightarrow> 'w \<Rightarrow> go_error option \<times> 'w" where
  "PublishDeleted P p tid w =
     (case SendDelete P \<lparr>eo_Event = None, eo_ID = tid, eo_SchemaID = tp_schemaID p\<rparr> w of
        (Some e, w) \<Rightarrow> (Some (Wrapf e ''publish deleted task %s failed'' [tid]), w)
      | (None, w) \<Rightarrow> (None, w))"

section \<open>What was delivered\<close>

datatype 'ev event = UpdateEvent "'ev event_object" | DeleteEvent "'ev event_object"

text \<open>A publisher seen through a sink: nothing but the sender adds to it, and the sender adds exactly what it
  acknowledges.\<close>

locale event_sink = forward_world W "\<lambda>u v. acked u = acked v"
  for W :: "'w world" and acked :: "'w \<Rightarrow> 'ev event list" +
  fixes P :: "('ev, 'w) event_lib"
  assumes send_update: "SendUpdate P x w = (r, w') \<Longrightarrow> acked w' = acked w @ (if r = None then [UpdateEvent x] else [])"
    and send_delete: "SendDelete P x w = (r, w') \<Longrightarrow> acked w' = acked w @ (if r = None then [DeleteEvent x] else [])"
    and uuid_quiet: "acked (snd (event_uuid P w)) = acked w"
begin

lemma clock_quiet: "clock_now W w = (now, w') \<Longrightarrow> acked w' = acked w"
  using clock_R [of w] by simp

text \<open>A changed task reaches the sink with its identifier and the vault of the publisher, or not at all.\<close>

lemma publish_changed:
  assumes "PublishChanged W P p task w = (r, w')"
  shows "(r = None \<longrightarrow> (\<exists>ob ev. ParseEvent P \<lparr>et_Object = ob, et_TaskIdentifier = TaskIdentifier task,
             et_Frontmatter = Frontmatter task, et_Content = Content task, et_Vault = tp_vaultName p\<rparr> = Inr ev \<and>
           acked w' = acked w @ [UpdateEvent \<lparr>eo_Event = Some ev, eo_ID = TaskIdentifier task, eo_SchemaID = tp_schemaID p\<rparr>])) \<and>
         (r \<noteq> None \<longrightarrow> acked w' = acked w)"
proof -
  obtain now w1 where clock: "clock_now W w = (now, w1)" by (meson surj_pair)
  obtain u w2 where uuid: "event_uuid P w1 = (u, w2)" by (meson surj_pair)
  have "acked w2 = acked w" using clock_quiet [OF clock] uuid_quiet [of w1] uuid by simp
  then show ?thesis
    using assms by (auto simp: PublishChanged_def clock uuid Let_def dest!: send_update split: sum.splits prod.splits option.splits)
qed

lemma publish_deleted:
  assumes "PublishDeleted P p tid w = (r, w')"
  shows "acked w' = acked w @ (if r = None then [DeleteEvent \<lparr>eo_Event = None, eo_ID = tid, eo_SchemaID = tp_schemaID p\<rparr>] else [])"
  using assms by (auto simp: PublishDeleted_def dest!: send_delete split: prod.splits option.splits)

end

section \<open>Recording\<close>

text \<open>Any world and any sender, with the acknowledged events recorded beside the state.\<close>

definition recorded_world :: "'w world \<Rightarrow> ('w \<times> 'l list) world" where
  "recorded_world W =
     \<lparr>http_do = (\<lambda>q (w, t). case http_do W q w of (r, w) \<Rightarrow> (r, (w, t))),
      new_request_error = new_request_error W,
      ctx_err = (\<lambda>(w, t). ctx_err W w),
      wait_for = (\<lambda>d (w, t). case wait_for W d w of (r, w) \<Rightarrow> (r, (w, t))),
      clock_now = (\<lambda>(w, t). case clock_now W w of (r, w) \<Rightarrow> (r, (w, t))),
      inc_metric = (\<lambda>n ls (w, t). (inc_metric W n ls w, t)),
      json_paths = json_paths W\<rparr>"

definition recording :: "('ev event_object \<Rightarrow> 'ev event) \<Rightarrow> ('ev event_object \<Rightarrow> 'w \<Rightarrow> go_error option \<times> 'w) \<Rightarrow>
  'ev event_object \<Rightarrow> 'w \<times> 'ev event list \<Rightarrow> go_error option \<times> ('w \<times> 'ev event list)" where
  "recording kind send x = (\<lambda>(w, t). case send x w of (r, w) \<Rightarrow> (r, (w, if r = None then t @ [kind x] else t)))"

definition recorded_lib :: "('ev, 'w) event_lib \<Rightarrow> ('ev, 'w \<times> 'ev event list) event_lib" where
  "recorded_lib P =
     \<lparr>ParseEvent = ParseEvent P,
      SendUpdate = recording UpdateEvent (SendUpdate P),
      SendDelete = recording DeleteEvent (SendDelete P),
      event_uuid = (\<lambda>(w, t). case event_uuid P w of (u, w) \<Rightarrow> (u, (w, t)))\<rparr>"

interpretation sink: event_sink "recorded_world W" snd "recorded_lib P" for W :: "'w world" and P
  by unfold_locales
    (auto simp: recorded_world_def recorded_lib_def recording_def split: prod.splits)

definition event_id :: "'ev event \<Rightarrow> task_id" where
  "event_id v = (case v of UpdateEvent x \<Rightarrow> eo_ID x | DeleteEvent x \<Rightarrow> eo_ID x)"

lemma event_id_simps [simp]: "event_id (UpdateEvent x) = eo_ID x" "event_id (DeleteEvent x) = eo_ID x"
  by (simp_all add: event_id_def)

text \<open>An update event of one vault: its identifier is that of the stamped task it was parsed from.\<close>

definition stamped_update :: "('ev, 'w) event_lib \<Rightarrow> taskPublisher \<Rightarrow> Task \<Rightarrow> 'ev event \<Rightarrow> bool" where
  "stamped_update P p task v \<longleftrightarrow>
     (\<exists>ob ev. ParseEvent P \<lparr>et_Object = ob, et_TaskIdentifier = TaskIdentifier task,
        et_Frontmatter = Frontmatter task, et_Content = Content task, et_Vault = tp_vaultName p\<rparr> = Inr ev \<and>
      v = UpdateEvent \<lparr>eo_Event = Some ev, eo_ID = TaskIdentifier task, eo_SchemaID = tp_schemaID p\<rparr>)"

lemma stamped_update_id: "stamped_update P p task v \<Longrightarrow> event_id v = TaskIdentifier task"
  by (auto simp: stamped_update_def)

lemma ParseEvent_recorded [simp]: "ParseEvent (recorded_lib P) = ParseEvent P"
  by (simp add: recorded_lib_def)

lemma recorded_changed:
  assumes "PublishChanged (recorded_world W) (recorded_lib P) p task x = (r, x')"
  shows "(r = None \<and> (\<exists>v. stamped_update P p task v \<and> snd x' = snd x @ [v])) \<or> (r \<noteq> None \<and> snd x' = snd x)"
  using sink.publish_changed [OF assms] by (cases r) (auto simp: stamped_update_def)

lemma recorded_deleted:
  assumes "PublishDeleted (recorded_lib P) p tid x = (r, x')"
  shows "snd x' = snd x @ (if r = None then [DeleteEvent \<lparr>eo_Event = None, eo_ID = tid, eo_SchemaID = tp_schemaID p\<rparr>] else [])"
  by (rule sink.publish_deleted [OF assms])

lemma recorded_metric [simp]: "snd (inc_metric (recorded_world W) n ls x) = snd x"
  by (simp add: recorded_world_def split_def)

lemma recorded_clock: "clock_now (recorded_world W) x = (now, x') \<Longrightarrow> snd x' = snd x"
  by (auto simp: recorded_world_def split: prod.splits)

section \<open>Calls through the recorder\<close>

lemma recorded_simps [simp]:
  "http_do (recorded_world W) q (w, t) = (fst (http_do W q w), (snd (http_do W q w), t))"
  "clock_now (recorded_world W) (w, t) = (fst (clock_now W w), (snd (clock_now W w), t))"
  "inc_metric (recorded_world W) n ls (w, t) = (inc_metric W n ls w, t)"
  "new_request_error (recorded_world W) = new_request_error W"
  "json_paths (recorded_world W) = json_paths W"
  "ctx_err (recorded_world W) (w, t) = ctx_err W w"
  by (simp_all add: recorded_world_def split_def)

lemma recorded_calls [simp]: "GitRestCallsTotal (recorded_world W) op out (w, t) = (GitRestCallsTotal W op out w, t)"
  by (simp add: GitRestCallsTotal_def)

lemma recorded_Get: "Get (recorded_world W) g q (w, t) = (fst (Get W g q w), (snd (Get W g q w), t))"
proof (cases "new_request_error W ''GET'' (fileURL g q)")
  case None
  obtain r w1 where http: "http_do W \<lparr>req_method = ''GET'', req_url = fileURL g q, req_headers = setAuthHeaders g [],
      req_body = [], req_timeout = clientTimeout\<rparr> w = (r, w1)" by (meson surj_pair)
  show ?thesis by (simp add: Get_def Let_def None http split: sum.split)
qed (simp add: Get_def Let_def)

lemma recorded_List: "ListFiles (recorded_world W) a q (w, t) = (fst (ListFiles W a q w), (snd (ListFiles W a q w), t))"
proof (cases "new_request_error W ''GET'' (baseURL (client a) @ ''/api/v1/files/'')")
  case None
  obtain r w1 where http: "http_do W \<lparr>req_method = ''GET'', req_url = (baseURL (client a) @ ''/api/v1/files/'') @ ''?glob='' @ QueryEscape q,
      req_headers = setAuthHeaders (client a) [], req_body = [], req_timeout = clientTimeout\<rparr> w = (r, w1)" by (meson surj_pair)
  show ?thesis by (simp add: ListFiles_def List_files_def Let_def None http [simplified] split: sum.split)
qed (simp add: ListFiles_def List_files_def Let_def)

text \<open>A broker that accepts every event and does not touch the vault.\<close>

definition broker_accepts :: "'w world \<Rightarrow> ('ev, 'w) event_lib \<Rightarrow> ('w \<Rightarrow> path \<Rightarrow> bytes option) \<Rightarrow> bool" where
  "broker_accepts W P files \<longleftrightarrow>
     (\<forall>t. \<exists>ev. ParseEvent P t = Inr ev) \<and>
     (\<forall>x w. \<exists>w'. SendUpdate P x w = (None, w') \<and> files w' = files w) \<and>
     (\<forall>w. files (snd (event_uuid P w)) = files w) \<and> (\<forall>w. files (snd (clock_now W w)) = files w)"

lemma broker_publishes:
  assumes "broker_accepts W P files"
  shows "\<exists>w' v. PublishChanged (recorded_world W) (recorded_lib P) p task (w, t) = (None, (w', t @ [v])) \<and>
     stamped_update P p task v \<and> files w' = files w"
proof -
  obtain r w' t' where run: "PublishChanged (recorded_world W) (recorded_lib P) p task (w, t) = (r, (w', t'))"
    by (metis surj_pair)
  obtain now w1 where clock: "clock_now W w = (now, w1)" by (meson surj_pair)
  obtain u w2 where uuid: "event_uuid P w1 = (u, w2)" by (meson surj_pair)
  have f: "files w2 = files w" using assms clock uuid unfolding broker_accepts_def by (metis snd_conv)
  obtain ev where ev: "ParseEvent P \<lparr>et_Object = \<lparr>obj_Identifier = u, obj_Created = now, obj_Modified = now\<rparr>,
      et_TaskIdentifier = TaskIdentifier task, et_Frontmatter = Frontmatter task, et_Content = Content task,
      et_Vault = tp_vaultName p\<rparr> = Inr ev"
    using assms unfolding broker_accepts_def by blast
  let ?x = "\<lparr>eo_Event = Some ev, eo_ID = TaskIdentifier task, eo_SchemaID = tp_schemaID p\<rparr>"
  obtain w3 where send: "SendUpdate P ?x w2 = (None, w3)" "files w3 = files w2"
    using assms unfolding broker_accepts_def by blast
  have "PublishChanged (recorded_world W) (recorded_lib P) p task (w, t) = (None, (w3, t @ [UpdateEvent ?x]))"
    using uuid ev send by (simp add: PublishChanged_def clock recorded_lib_def recording_def)
  moreover have "stamped_update P p task (UpdateEvent ?x)" using ev unfolding stamped_update_def by blast
  ultimately show ?thesis using send(2) f by auto
qed

text \<open>A broker that takes every event and keeps nothing, over the reference server.\<close>

definition ref_broker :: "(event_task, mem) event_lib" where
  "ref_broker = \<lparr>ParseEvent = Inr, SendUpdate = (\<lambda>x m. (None, m)), SendDelete = (\<lambda>x m. (None, m)), event_uuid = (\<lambda>m. (''e'', m))\<rparr>"

end
