(* ===== verification/Redrive.thy ===== *)
theory Redrive
  imports Publisher Scanner RefCodec
begin

text \<open>
  The re-drive sweep (\<open>pkg/redrive/redrive_sweep.go\<close>): a periodic pass that publishes every eligible task that has
  never spawned a job again, at most once per interval. The task publisher is the function the struct holds; the
  map of the last publications is passed through.
\<close>

section \<open>The sweep\<close>

definition redriveTriggerPhases :: "string list" where
  "redriveTriggerPhases = [''planning'', ''execution'', ''ai_review'']"

record 'w redriveSweep =
  rs_gitClient :: gitClient
  rs_publish :: "Task \<Rightarrow> 'w \<Rightarrow> go_error option \<times> 'w"
  rs_taskDir :: string
  rs_branch :: string
  rs_interval :: duration
  rs_backoff :: duration

type_synonym publications = "(task_id, instant) fmap"

definition NewRedriveSweep ::
  "gitClient \<Rightarrow> (Task \<Rightarrow> 'w \<Rightarrow> go_error option \<times> 'w) \<Rightarrow> string \<Rightarrow> string \<Rightarrow> duration \<Rightarrow> 'w redriveSweep \<times> publications" where
  "NewRedriveSweep a publish taskDir branch interval =
     (\<lparr>rs_gitClient = a, rs_publish = publish, rs_taskDir = taskDir, rs_branch = branch, rs_interval = interval,
       rs_backoff = interval\<rparr>, fmempty)"

definition eligible :: "pure_lib \<Rightarrow> 'w redriveSweep \<Rightarrow> Task \<Rightarrow> bool" where
  "eligible L r task =
     (if lib_Status L (Frontmatter task) \<noteq> ''in_progress'' then False
      else case lib_Phase L (Frontmatter task) of
             None \<Rightarrow> False
           | Some phase \<Rightarrow>
               (if phase \<notin> set redriveTriggerPhases then False
                else if lib_Assignee L (Frontmatter task) = [] then False
                else if lib_Stage L (Frontmatter task) \<noteq> rs_branch r then False
                else if lib_CurrentJob L (Frontmatter task) \<noteq> [] then False
                else True))"

definition suppressed :: "'w redriveSweep \<Rightarrow> instant \<Rightarrow> publications \<Rightarrow> task_id \<Rightarrow> bool" where
  "suppressed r now published tid =
     (case fmlookup published tid of Some prior \<Rightarrow> now - prior < rs_backoff r | None \<Rightarrow> False)"

definition prune :: "'w redriveSweep \<Rightarrow> instant \<Rightarrow> publications \<Rightarrow> publications" where
  "prune r now published =
     fmfilter (\<lambda>tid. case fmlookup published tid of Some prior \<Rightarrow> \<not> rs_backoff r \<le> now - prior | None \<Rightarrow> True) published"

fun sweep_loop ::
  "'w world \<Rightarrow> pure_lib \<Rightarrow> yaml_nodes \<Rightarrow> 'w redriveSweep \<Rightarrow> instant \<Rightarrow> path list \<Rightarrow> publications \<Rightarrow> 'w \<Rightarrow> publications \<times> 'w" where
  "sweep_loop W L Y r now [] published w = (published, w)"
| "sweep_loop W L Y r now (relPath # paths) published w =
     (let continue = sweep_loop W L Y r now paths
      in case ReadFile W (rs_gitClient r) relPath w of
           (Inl _, w) \<Rightarrow> continue published w
         | (Inr file, w) \<Rightarrow>
             (case ParseTask L Y file of
                None \<Rightarrow> continue published w
              | Some task \<Rightarrow>
                  (if \<not> eligible L r task then continue published w
                   else if suppressed r now published (TaskIdentifier task) then continue published w
                   else case rs_publish r task w of
                          (Some _, w) \<Rightarrow> continue published w
                        | (None, w) \<Rightarrow>
                            continue (fmupd (TaskIdentifier task) now published) (TasksPublishedTotal W ''redrive'' w))))"

text \<open>The part of a sweep under the lock: pruning, then the files.\<close>

definition sweep_files ::
  "'w world \<Rightarrow> pure_lib \<Rightarrow> yaml_nodes \<Rightarrow> 'w redriveSweep \<Rightarrow> instant \<Rightarrow> path list \<Rightarrow> publications \<Rightarrow> 'w \<Rightarrow> publications \<times> 'w" where
  "sweep_files W L Y r now paths published w = sweep_loop W L Y r now paths (prune r now published) w"

definition SweepOnce ::
  "'w world \<Rightarrow> pure_lib \<Rightarrow> yaml_nodes \<Rightarrow> 'w redriveSweep \<Rightarrow> publications \<Rightarrow> 'w \<Rightarrow> go_error option \<times> publications \<times> 'w" where
  "SweepOnce W L Y r published w =
     (let w = ScanCyclesTotal W ''redrive'' w
      in case Pull W (rs_gitClient r) w of
           (Inl e, w) \<Rightarrow> (Some (Wrapf e ''redrive sweep git pull'' []), published, w)
         | (Inr _, w) \<Rightarrow>
             (case ListFiles W (rs_gitClient r) (rs_taskDir r @ ''/*.md'') w of
                (Inl e, w) \<Rightarrow> (Some (Wrapf e ''redrive sweep list tasks'' []), published, w)
              | (Inr paths, w) \<Rightarrow>
                  (case clock_now W w of (now, w) \<Rightarrow> (None, sweep_files W L Y r now paths published w))))"

section \<open>One sweep\<close>

lemma prune_get: "fmlookup (prune r now published) tid =
   (case fmlookup published tid of Some prior \<Rightarrow> if rs_backoff r \<le> now - prior then None else Some prior | None \<Rightarrow> None)"
  by (auto simp: prune_def split: option.split)

lemma suppressed_prune: "suppressed r now (prune r now published) tid = suppressed r now published tid"
  by (auto simp: suppressed_def prune_get split: option.split)

text \<open>The sweep of a publisher that sends through the recorded sink.\<close>

definition recorded_sweep ::
  "'w world \<Rightarrow> ('ev, 'w) event_lib \<Rightarrow> taskPublisher \<Rightarrow> gitClient \<Rightarrow> string \<Rightarrow> string \<Rightarrow> duration \<Rightarrow> ('w \<times> 'ev event list) redriveSweep" where
  "recorded_sweep W P p a taskDir branch interval =
     fst (NewRedriveSweep a (PublishChanged (recorded_world W) (recorded_lib P) p) taskDir branch interval)"

lemma recorded_sweep_simps [simp]:
  "rs_gitClient (recorded_sweep W P p a d b n) = a" "rs_backoff (recorded_sweep W P p a d b n) = n"
  "rs_publish (recorded_sweep W P p a d b n) = PublishChanged (recorded_world W) (recorded_lib P) p"
  "rs_taskDir (recorded_sweep W P p a d b n) = d" "rs_branch (recorded_sweep W P p a d b n) = b"
  by (simp_all add: recorded_sweep_def NewRedriveSweep_def)

lemma recorded_ReadFile: "snd (snd (ReadFile (recorded_world W) a q x)) = snd (x :: 'w \<times> 'ev event list)"
  by (rule sink.ReadFile_R [symmetric])

definition swept ::
  "pure_lib \<Rightarrow> ('ev, 'w) event_lib \<Rightarrow> taskPublisher \<Rightarrow> ('w \<times> 'ev event list) redriveSweep \<Rightarrow> instant \<Rightarrow> publications \<Rightarrow> 'ev event list
     \<Rightarrow> publications \<Rightarrow> bool" where
  "swept L P p r now published evs published' \<longleftrightarrow>
     distinct (map event_id evs) \<and>
     (\<forall>v \<in> set evs. (\<exists>task. eligible L r task \<and> stamped_update P p task v) \<and> \<not> suppressed r now published (event_id v)) \<and>
     (\<forall>i. fmlookup published' i = (if i \<in> event_id ` set evs then Some now else fmlookup published i))"

lemma swept_nil: "swept L P p r now published [] published"
  by (simp add: swept_def)

lemma swept_cons:
  assumes "eligible L r task" and "stamped_update P p task v" and "\<not> suppressed r now published (TaskIdentifier task)"
    and "0 < rs_backoff r" and "swept L P p r now (fmupd (TaskIdentifier task) now published) evs published'"
  shows "swept L P p r now published (v # evs) published'"
proof -
  have v: "event_id v = TaskIdentifier task" using assms(2) by (rule stamped_update_id)
  have "suppressed r now (fmupd (TaskIdentifier task) now published) (TaskIdentifier task)"
    using assms(4) by (simp add: suppressed_def)
  then have fresh: "event_id v \<notin> event_id ` set evs" using assms(5) v by (auto simp: swept_def)
  then have "\<not> suppressed r now published (event_id u)" if "u \<in> set evs" for u
  proof -
    have "event_id u \<noteq> TaskIdentifier task" using fresh that v by (metis imageI)
    moreover have "\<not> suppressed r now (fmupd (TaskIdentifier task) now published) (event_id u)"
      using assms(5) that by (simp add: swept_def)
    ultimately show ?thesis by (simp add: suppressed_def)
  qed
  then show ?thesis using assms fresh v by (auto simp: swept_def)
qed

lemma sweep_loop_recorded:
  assumes "r = recorded_sweep W P p a d b n" and "0 < n"
    and "sweep_loop (recorded_world W) L Y r now paths published x = (published', x')"
  shows "\<exists>evs. snd x' = snd x @ evs \<and> swept L P p r now published evs published'"
  using assms(3)
proof (induction paths arbitrary: published x)
  case Nil
  then show ?case using swept_nil by fastforce
next
  case (Cons q paths)
  obtain res x1 where read: "ReadFile (recorded_world W) (rs_gitClient r) q x = (res, x1)" by (meson surj_pair)
  have same: "snd x1 = snd x" using recorded_ReadFile [of W "rs_gitClient r" q x] read by simp
  note step = Cons.prems [unfolded sweep_loop.simps Let_def read prod.case]
  show ?case
  proof (cases "\<exists>f task. res = Inr f \<and> ParseTask L Y f = Some task \<and> eligible L r task \<and>
      \<not> suppressed r now published (TaskIdentifier task)")
    case False
    then have "sweep_loop (recorded_world W) L Y r now paths published x1 = (published', x')"
      using step by (auto split: sum.splits option.splits if_splits)
    from Cons.IH [OF this] show ?thesis unfolding same .
  next
    case True
    then obtain f task where t: "res = Inr f" "ParseTask L Y f = Some task" "eligible L r task"
      "\<not> suppressed r now published (TaskIdentifier task)" by blast
    obtain e x2 where pub: "rs_publish r task x1 = (e, x2)" by (meson surj_pair)
    have pub': "PublishChanged (recorded_world W) (recorded_lib P) p task x1 = (e, x2)" using pub assms(1) by simp
    from recorded_changed [OF pub'] show ?thesis
    proof (elim disjE conjE exE)
      fix v assume v: "e = None" "stamped_update P p task v" "snd x2 = snd x1 @ [v]"
      have "sweep_loop (recorded_world W) L Y r now paths (fmupd (TaskIdentifier task) now published)
          (TasksPublishedTotal (recorded_world W) ''redrive'' x2) = (published', x')"
        using step t pub v(1) by simp
      from Cons.IH [OF this] obtain evs where evs: "snd x' = snd x2 @ evs"
        "swept L P p r now (fmupd (TaskIdentifier task) now published) evs published'"
        by (auto simp: TasksPublishedTotal_def)
      have "swept L P p r now published (v # evs) published'"
        by (rule swept_cons [OF t(3) v(2) t(4) _ evs(2)]) (simp add: assms)
      then show ?thesis using evs(1) v(3) same by auto
    next
      assume "e \<noteq> None" "snd x2 = snd x1"
      moreover from this have "sweep_loop (recorded_world W) L Y r now paths published x2 = (published', x')"
        using step t pub by auto
      ultimately show ?thesis using Cons.IH [of published x2] same by simp
    qed
  qed
qed

lemma sweep_files_recorded:
  assumes "r = recorded_sweep W P p a d b n" and "0 < n"
    and "sweep_files (recorded_world W) L Y r now paths published x = (published', x')"
  shows "\<exists>evs. snd x' = snd x @ evs \<and> swept L P p r now (prune r now published) evs published'"
  by (rule sweep_loop_recorded [OF assms(1,2) assms(3) [unfolded sweep_files_def]])

section \<open>Runs\<close>

text \<open>The clock reading a sweep decides by.\<close>

definition sweep_clock :: "'w world \<Rightarrow> 'w redriveSweep \<Rightarrow> 'w \<Rightarrow> instant" where
  "sweep_clock W r w =
     fst (clock_now W (snd (ListFiles W (rs_gitClient r) (rs_taskDir r @ ''/*.md'')
       (snd (Pull W (rs_gitClient r) (ScanCyclesTotal W ''redrive'' w))))))"

lemma recorded_ListFiles: "snd (snd (ListFiles (recorded_world W) a g x)) = snd (x :: 'w \<times> 'ev event list)"
  unfolding ListFiles_def by (rule sink.List_files_R [symmetric])

lemma Pull_ok [simp]: "Pull W a w = (Inr (), w)"
  by (simp add: Pull_def)

lemma SweepOnce_recorded:
  assumes "r = recorded_sweep W P p a d b n" and "0 < n"
    and "SweepOnce (recorded_world W) L Y r published x = (e, published', x')"
  shows "(published' = published \<and> snd x' = snd x) \<or>
     (\<exists>evs. snd x' = snd x @ evs \<and>
        swept L P p r (sweep_clock (recorded_world W) r x) (prune r (sweep_clock (recorded_world W) r x) published) evs published')"
proof -
  let ?W = "recorded_world W"
  let ?x = "ScanCyclesTotal ?W ''redrive'' x"
  obtain res x1 where list: "ListFiles ?W (rs_gitClient r) (rs_taskDir r @ ''/*.md'') ?x = (res, x1)" by (meson surj_pair)
  obtain now x2 where clock: "clock_now ?W x1 = (now, x2)" by (meson surj_pair)
  have "snd x1 = snd ?x" using recorded_ListFiles [of W "rs_gitClient r" "rs_taskDir r @ ''/*.md''" ?x] list by simp
  then have same: "snd x1 = snd x" "snd x2 = snd x"
    using recorded_clock [OF clock] by (simp_all add: ScanCyclesTotal_def)
  have now: "sweep_clock ?W r x = now" by (simp add: sweep_clock_def list clock)
  show ?thesis
  proof (cases res)
    case (Inl e1)
    then show ?thesis using assms(3) same by (auto simp: SweepOnce_def Let_def list)
  next
    case (Inr paths)
    then have "sweep_files ?W L Y r now paths published x2 = (published', x')"
      using assms(3) by (auto simp: SweepOnce_def Let_def list clock)
    from sweep_files_recorded [OF assms(1,2) this] show ?thesis using same now by simp
  qed
qed

text \<open>A run of sweeps: the log of acknowledged publications with the clock reading of their sweep. Between two
  sweeps the world may change in any way; the clock does not go back.\<close>

inductive redrive_run ::
  "'w world \<Rightarrow> pure_lib \<Rightarrow> yaml_nodes \<Rightarrow> ('w \<times> 'ev event list) redriveSweep \<Rightarrow> (instant \<times> task_id) list \<Rightarrow> publications \<Rightarrow> instant \<Rightarrow> bool"
  for W L Y r where
  start: "redrive_run W L Y r [] fmempty now"
| sweep: "redrive_run W L Y r log published now \<Longrightarrow>
    sweep_clock (recorded_world W) r (w, t) = now' \<Longrightarrow> now \<le> now' \<Longrightarrow>
    SweepOnce (recorded_world W) L Y r published (w, t) = (e, published', (w', t @ evs)) \<Longrightarrow>
    redrive_run W L Y r (log @ map (\<lambda>v. (now', event_id v)) evs) published' now'"

definition paced :: "duration \<Rightarrow> instant \<times> task_id \<Rightarrow> instant \<times> task_id \<Rightarrow> bool" where
  "paced n x y \<longleftrightarrow> (snd x = snd y \<longrightarrow> n \<le> fst y - fst x)"

text \<open>What the map knows of the log: a publication is remembered, or its backoff is over.\<close>

definition recalls :: "duration \<Rightarrow> publications \<Rightarrow> instant \<Rightarrow> instant \<times> task_id \<Rightarrow> bool" where
  "recalls n published now x \<longleftrightarrow>
     fst x \<le> now \<and> (case fmlookup published (snd x) of Some prior \<Rightarrow> fst x \<le> prior | None \<Rightarrow> n \<le> now - fst x)"

lemma recalls_prune:
  assumes "recalls (rs_backoff r) published now x" and "now \<le> now'"
  shows "recalls (rs_backoff r) (prune r now' published) now' x"
  using assms by (auto simp: recalls_def prune_get split: option.splits)

lemma recalls_unsuppressed:
  assumes "recalls (rs_backoff r) (prune r now published) now x" and "\<not> suppressed r now (prune r now published) (snd x)"
  shows "rs_backoff r \<le> now - fst x"
  using assms by (auto simp: recalls_def suppressed_def split: option.splits)

lemma redrive_run_inv:
  assumes "redrive_run W L Y r log published now" and "r = recorded_sweep W P p a d b n" and "0 < n"
  shows "sorted_wrt (paced n) log \<and> (\<forall>x \<in> set log. recalls n published now x)"
  using assms(1)
proof induction
  case (sweep log published now w t now' e published' w' evs)
  have n: "n = rs_backoff r" using assms(2) by simp
  let ?pub = "prune r now' published"
  show ?case
  proof (cases "published' = published \<and> evs = []")
    case True
    then show ?thesis using sweep.IH sweep.hyps(3) by (auto simp: recalls_def split: option.splits)
  next
    case False
    have sw: "swept L P p r now' ?pub evs published'"
      using SweepOnce_recorded [OF assms(2,3) sweep.hyps(4)] sweep.hyps(2) False by auto
    then have ids: "distinct (map event_id evs)" "\<And>v. v \<in> set evs \<Longrightarrow> \<not> suppressed r now' ?pub (event_id v)"
      and get: "\<And>i. fmlookup published' i = (if i \<in> event_id ` set evs then Some now' else fmlookup ?pub i)"
      by (auto simp: swept_def)
    have old: "recalls n ?pub now' x" if "x \<in> set log" for x
      using recalls_prune [of r published now x now'] sweep.IH sweep.hyps(3) that unfolding n by simp
    have far: "paced n x (now', event_id v)" if "x \<in> set log" "v \<in> set evs" for x v
      using recalls_unsuppressed [of r now' published x] old [OF that(1)] ids(2) [OF that(2)] n by (auto simp: paced_def)
    have block: "sorted_wrt (paced n) (map (\<lambda>v. (now', event_id v)) evs)"
      using ids(1) by (induction evs) (auto simp: paced_def)
    have "sorted_wrt (paced n) (log @ map (\<lambda>v. (now', event_id v)) evs)"
      using sweep.IH block far by (auto simp: sorted_wrt_append)
    moreover have "recalls n published' now' x" if "x \<in> set log" for x
      using old [OF that] by (cases x) (simp add: recalls_def get)
    moreover have "recalls n published' now' (now', event_id v)" if "v \<in> set evs" for v
      using that by (simp add: recalls_def get)
    ultimately show ?thesis by auto
  qed
qed simp

section \<open>An available server\<close>

definition due_task ::
  "pure_lib \<Rightarrow> yaml_nodes \<Rightarrow> 'w redriveSweep \<Rightarrow> instant \<Rightarrow> publications \<Rightarrow> (path \<Rightarrow> bytes option) \<Rightarrow> path \<Rightarrow> task_id \<Rightarrow> bool" where
  "due_task L Y r now published fs q tid \<longleftrightarrow>
     (\<exists>b task. fs q = Some b \<and> ParseTask L Y b = Some task \<and> eligible L r task \<and> TaskIdentifier task = tid \<and>
        \<not> suppressed r now published tid)"

lemma due_after:
  assumes "0 < rs_backoff r"
  shows "due_task L Y r now (fmupd i now published) fs q tid \<longleftrightarrow> due_task L Y r now published fs q tid \<and> tid \<noteq> i"
  using assms by (auto simp: due_task_def suppressed_def)

lemma sweep_loop_due:
  assumes "serves W (client a) files" and "broker_accepts W P files"
    and "r = recorded_sweep W P p a d b n" and "0 < n"
    and "\<forall>q \<in> set paths. \<exists>b. files w q = Some b \<and> length b \<le> maxBody"
  shows "\<exists>published' w' evs. sweep_loop (recorded_world W) L Y r now paths published (w, t) = (published', (w', t @ evs)) \<and>
     files w' = files w \<and>
     event_id ` set evs = {tid. \<exists>q \<in> set paths. due_task L Y r now published (files w) q tid}"
  using assms(5)
proof (induction paths arbitrary: published w t)
  case (Cons q paths)
  obtain b where b: "files w q = Some b" "length b \<le> maxBody" using Cons.prems by auto
  obtain w1 where w1: "Get W (client a) q w = (Inr b, w1)" "files w1 = files w"
    using serves_Get [OF assms(1) b] by blast
  have read: "ReadFile (recorded_world W) (rs_gitClient r) q (w, t) = (Inr b, (w1, t))"
    using w1 assms(3) by (simp add: ReadFile_def recorded_Get wrap_res_def)
  have rest: "\<forall>q \<in> set paths. \<exists>b. files w' q = Some b \<and> length b \<le> maxBody" if "files w' = files w" for w'
    using Cons.prems that by simp
  show ?case
  proof (cases "\<exists>tid. due_task L Y r now published (files w) q tid")
    case False
    then have skip: "sweep_loop (recorded_world W) L Y r now (q # paths) published (w, t) =
        sweep_loop (recorded_world W) L Y r now paths published (w1, t)"
      using b by (auto simp: read due_task_def Let_def split: option.splits)
    from Cons.IH [OF rest [OF w1(2)], of published t] False show ?thesis
      unfolding skip by (auto simp: w1(2))
  next
    case True
    then obtain task where task: "ParseTask L Y b = Some task" "eligible L r task"
      "\<not> suppressed r now published (TaskIdentifier task)" using b by (auto simp: due_task_def)
    obtain w2 v where pub: "PublishChanged (recorded_world W) (recorded_lib P) p task (w1, t) = (None, (w2, t @ [v]))"
      and v: "stamped_update P p task v" "files w2 = files w1" using broker_publishes [OF assms(2)] by blast
    let ?w3 = "inc_metric W ''agent_controller_tasks_published_total'' [''redrive''] w2"
    have w3: "files ?w3 = files w" using assms(1) v(2) w1(2) unfolding serves_def by metis
    have step: "sweep_loop (recorded_world W) L Y r now (q # paths) published (w, t) =
        sweep_loop (recorded_world W) L Y r now paths (fmupd (TaskIdentifier task) now published) (?w3, t @ [v])"
      using task pub assms(3) by (simp add: read [simplified assms(3) recorded_sweep_simps] Let_def TasksPublishedTotal_def)
    have here: "due_task L Y r now published (files w) q tid \<longleftrightarrow> tid = event_id v" for tid
      using b task stamped_update_id [OF v(1)] by (auto simp: due_task_def)
    have "0 < rs_backoff r" using assms(3,4) by simp
    note after = due_after [OF this]
    obtain published' w' evs where IH: "sweep_loop (recorded_world W) L Y r now paths (fmupd (TaskIdentifier task) now published)
        (?w3, t @ [v]) = (published', (w', (t @ [v]) @ evs))" "files w' = files ?w3"
      "event_id ` set evs = {tid. \<exists>q \<in> set paths. due_task L Y r now (fmupd (TaskIdentifier task) now published) (files ?w3) q tid}"
      using Cons.IH [OF rest [OF w3]] by blast
    have "event_id ` set (v # evs) = {tid. \<exists>q' \<in> set (q # paths). due_task L Y r now published (files w) q' tid}"
      using IH(3) here stamped_update_id [OF v(1)] by (auto simp: w3 after)
    moreover have "sweep_loop (recorded_world W) L Y r now (q # paths) published (w, t) = (published', (w', t @ (v # evs)))"
      using IH(1) step by simp
    ultimately show ?thesis using IH(2) w3 by metis
  qed
qed simp

lemma sweep_reaches:
  assumes "serves W (client a) files" and "broker_accepts W P files" and "0 < n" and "r = recorded_sweep W P p a d b n"
    and "ListFiles W a (d @ ''/*.md'') (ScanCyclesTotal W ''redrive'' w) = (Inr paths, w1)"
    and "\<forall>q \<in> set paths. \<exists>b. files w1 q = Some b \<and> length b \<le> maxBody"
    and "now = sweep_clock (recorded_world W) r (w, t)"
  shows "\<exists>published' w' evs. SweepOnce (recorded_world W) L Y r published (w, t) = (None, published', (w', t @ evs)) \<and>
     files w' = files w1 \<and> distinct (map event_id evs) \<and>
     event_id ` set evs = {tid. \<exists>q \<in> set paths. due_task L Y r now published (files w1) q tid}"
proof -
  obtain c w2 where clock: "clock_now W w1 = (c, w2)" by (meson surj_pair)
  have same: "files w2 = files w1" using assms(2) clock unfolding broker_accepts_def by (metis snd_conv)
  have count: "ScanCyclesTotal (recorded_world W) ''redrive'' (w, t) = (ScanCyclesTotal W ''redrive'' w, t)"
    by (simp add: ScanCyclesTotal_def)
  have list: "ListFiles (recorded_world W) a (d @ ''/*.md'') (ScanCyclesTotal (recorded_world W) ''redrive'' (w, t)) = (Inr paths, (w1, t))"
    unfolding count recorded_List assms(5) by simp
  have now: "now = c" using assms(4,7) list clock by (simp add: sweep_clock_def)
  have "\<forall>q \<in> set paths. \<exists>b. files w2 q = Some b \<and> length b \<le> maxBody" using assms(6) same by simp
  from sweep_loop_due [OF assms(1,2,4,3) this, of L Y now "prune r now published" t]
  obtain published' w' evs where loop: "sweep_loop (recorded_world W) L Y r now paths (prune r now published) (w2, t) = (published', (w', t @ evs))"
    "files w' = files w2" "event_id ` set evs = {tid. \<exists>q \<in> set paths. due_task L Y r now (prune r now published) (files w2) q tid}"
    by blast
  have "sweep_files (recorded_world W) L Y r now paths published (w2, t) = (published', (w', t @ evs))"
    using loop(1) by (simp add: sweep_files_def)
  from sweep_files_recorded [OF assms(4,3) this] have "distinct (map event_id evs)" by (auto simp: swept_def)
  moreover have "SweepOnce (recorded_world W) L Y r published (w, t) = (None, published', (w', t @ evs))"
    using loop(1) assms(4) list clock by (simp add: SweepOnce_def Let_def sweep_files_def now)
  moreover have "due_task L Y r now (prune r now published) (files w2) q tid \<longleftrightarrow> due_task L Y r now published (files w1) q tid" for q tid
    by (simp add: due_task_def suppressed_prune same)
  ultimately show ?thesis using loop(2,3) same by auto
qed

section \<open>Properties\<close>

text \<open>C20: A task is re-published at most once per interval: in every run of sweeps, whatever the vault and the
  broker do between and during them, two acknowledged publications of the same task are at least the interval
  apart, as long as the clock does not go back. In one sweep a task is published at most once, even when two
  files carry its identifier.\<close>

theorem redrive_is_paced:
  assumes "0 < n" and "redrive_run W L Y (recorded_sweep W P p a d b n) log published now"
  shows "sorted_wrt (\<lambda>(t, i) (u, j). i = j \<longrightarrow> n \<le> u - t) log"
  using conjunct1 [OF redrive_run_inv [OF assms(2) refl assms(1)]]
  by (rule sorted_wrt_mono_rel [rotated]) (auto simp: paced_def)

text \<open>C21: While the vault is reachable and the broker accepts, a sweep publishes exactly the due tasks: those of the
  listed files that parse, are in progress in a trigger phase with an assignee, of the stage of this controller
  and without a job, and were not published within the backoff; each once, and no file changes.\<close>

theorem sweep_publishes_exactly_the_due_tasks:
  assumes "serves W (client a) files" and "broker_accepts W P files" and "0 < n" and "r = recorded_sweep W P p a d b n"
    and "ListFiles W a (d @ ''/*.md'') (ScanCyclesTotal W ''redrive'' w) = (Inr paths, w1)"
    and "\<forall>q \<in> set paths. \<exists>b. files w1 q = Some b \<and> length b \<le> maxBody"
    and "now = sweep_clock (recorded_world W) r (w, t)"
  shows "\<exists>published' w' evs. SweepOnce (recorded_world W) L Y r published (w, t) = (None, published', (w', t @ evs)) \<and>
     files w' = files w1 \<and> distinct (map event_id evs) \<and>
     event_id ` set evs =
       {TaskIdentifier task | q b task. q \<in> set paths \<and> files w1 q = Some b \<and> ParseTask L Y b = Some task \<and>
          lib_Status L (Frontmatter task) = ''in_progress'' \<and>
          (\<exists>phase \<in> {''planning'', ''execution'', ''ai_review''}. lib_Phase L (Frontmatter task) = Some phase) \<and>
          lib_Assignee L (Frontmatter task) \<noteq> [] \<and> lib_Stage L (Frontmatter task) = rs_branch r \<and>
          lib_CurrentJob L (Frontmatter task) = [] \<and>
          (\<forall>prior. fmlookup published (TaskIdentifier task) = Some prior \<longrightarrow> n \<le> now - prior)}"
proof -
  have eligible: "eligible L r task \<longleftrightarrow>
      lib_Status L (Frontmatter task) = ''in_progress'' \<and>
      (\<exists>phase \<in> {''planning'', ''execution'', ''ai_review''}. lib_Phase L (Frontmatter task) = Some phase) \<and>
      lib_Assignee L (Frontmatter task) \<noteq> [] \<and> lib_Stage L (Frontmatter task) = rs_branch r \<and>
      lib_CurrentJob L (Frontmatter task) = []" for task
    by (auto simp: eligible_def redriveTriggerPhases_def split: option.split)
  have free: "\<not> suppressed r now published i \<longleftrightarrow> (\<forall>prior. fmlookup published i = Some prior \<longrightarrow> n \<le> now - prior)" for i
    using assms(4) by (auto simp: suppressed_def split: option.split)
  have "{tid. \<exists>q \<in> set paths. due_task L Y r now published (files w1) q tid} =
      {TaskIdentifier task | q b task. q \<in> set paths \<and> files w1 q = Some b \<and> ParseTask L Y b = Some task \<and>
         eligible L r task \<and> \<not> suppressed r now published (TaskIdentifier task)}"
    by (auto simp: due_task_def)
  with sweep_reaches [OF assms, of L Y published] show ?thesis by (simp only: eligible free conj_assoc)
qed

section \<open>Reference instances\<close>

text \<open>A vault with one task that never spawned.\<close>

definition idle_fm :: fm where
  "idle_fm = fmupd ''status'' (VStr ''in_progress'') (fmupd ''phase'' (VStr ''planning'') (fmupd ''assignee'' (VStr ''agent'')
     (fmupd ''stage'' (VStr ''prod'') (fmupd ''task_identifier'' (VStr ''u'') fmempty))))"

definition idle_vault :: mem where
  "idle_vault = \<lparr>mem_files = [(''d/a.md'', codec_file idle_fm [])], mem_clock = 0, mem_metrics = []\<rparr>"

abbreviation ref_git :: gitClient where
  "ref_git \<equiv> NewGitClient (NewGitRestClient ''h'' [] []) ''/v''"

abbreviation ref_sweep :: "(mem \<times> event_task event list) redriveSweep" where
  "ref_sweep \<equiv> recorded_sweep ref_world ref_broker (NewTaskPublisher ''schema'' ''v'') ref_git ''d'' ''prod'' 900"

lemma idle_able: "codec_able idle_fm"
  by (simp add: idle_fm_def codec_able_upd codec_able_empty)

lemma idle_small: "length (codec_file idle_fm []) \<le> maxBody"
proof -
  have "length (codec_file idle_fm []) < 1000" by code_simp
  then show ?thesis by (simp add: maxBody_def)
qed

lemma idle_parsed:
  "\<exists>task. ParseTask codec_lib plain_nodes (codec_file idle_fm []) = Some task \<and> Frontmatter task = idle_fm \<and> TaskIdentifier task = ''u''"
proof -
  have "fm_get idle_fm ''task_identifier'' = Some (VStr ''u'')" by (simp add: idle_fm_def)
  then show ?thesis
    using codec_file_read(1,3) [OF idle_able]
    by (simp add: ParseTask_def parseFrontmatterMap_def scanner_extractFrontmatter_eq DeduplicateFrontmatter_def plain_nodes_def
        as_string_def string_or_empty_def)
qed

lemma ref_broker_accepts: "broker_accepts ref_world ref_broker (\<lambda>m. map_of (mem_files m))"
  by (simp add: broker_accepts_def ref_broker_def mem_world_def)

lemma ref_git_serves: "serves ref_world (client ref_git) (\<lambda>m. map_of (mem_files m))"
  by (simp add: NewGitClient_def mem_serves)

lemma idle_listed:
  obtains w1 where "ListFiles ref_world ref_git (''d'' @ ''/*.md'') (ScanCyclesTotal ref_world ''redrive'' idle_vault) = (Inr [''d/a.md''], w1)"
    "mem_files w1 = mem_files idle_vault"
proof -
  let ?m = "ScanCyclesTotal ref_world ''redrive'' idle_vault"
  have m: "mem_files ?m = mem_files idle_vault" by (simp add: ScanCyclesTotal_def mem_world_def)
  have "\<exists>m'. ListFiles ref_world ref_git (''d'' @ ''/*.md'') ?m = (Inr (map fst (mem_files ?m)), m') \<and> mem_files m' = mem_files ?m"
    by (rule mem_ListFiles) (simp_all only: NewGitClient_def m, simp_all add: idle_vault_def maxBody_def)
  then show thesis using that unfolding m by (auto simp: idle_vault_def)
qed

lemma idle_due:
  "due_task codec_lib plain_nodes ref_sweep now fmempty (map_of (mem_files idle_vault)) ''d/a.md'' tid \<longleftrightarrow> tid = ''u''"
proof -
  obtain task where task: "ParseTask codec_lib plain_nodes (codec_file idle_fm []) = Some task" "Frontmatter task = idle_fm"
    "TaskIdentifier task = ''u''" using idle_parsed by blast
  have "eligible codec_lib ref_sweep task"
    using task(2) by (simp add: eligible_def redriveTriggerPhases_def codec_lib_def ref_lib_def idle_fm_def as_string_def string_or_empty_def)
  then show ?thesis using task by (auto simp: due_task_def idle_vault_def suppressed_def)
qed

lemma idle_reached:
  assumes "now = sweep_clock (recorded_world ref_world) ref_sweep (idle_vault, [])"
  obtains published w' v where
    "SweepOnce (recorded_world ref_world) codec_lib plain_nodes ref_sweep fmempty (idle_vault, []) = (None, published, (w', [v]))"
    "event_id v = ''u''"
proof -
  obtain w1 where list: "ListFiles ref_world ref_git (''d'' @ ''/*.md'') (ScanCyclesTotal ref_world ''redrive'' idle_vault) = (Inr [''d/a.md''], w1)"
    and files: "mem_files w1 = mem_files idle_vault" by (rule idle_listed)
  have small: "\<forall>q \<in> set [''d/a.md'']. \<exists>b. map_of (mem_files w1) q = Some b \<and> length b \<le> maxBody"
    using idle_small by (simp add: files idle_vault_def)
  from sweep_reaches [OF ref_git_serves ref_broker_accepts _ refl list small assms, of codec_lib plain_nodes fmempty]
  obtain published w' evs where run: "SweepOnce (recorded_world ref_world) codec_lib plain_nodes ref_sweep fmempty (idle_vault, []) =
      (None, published, (w', evs))" and evs: "distinct (map event_id evs)" "event_id ` set evs = {''u''}"
    unfolding files by (auto simp: idle_due)
  then have "length (map event_id evs) = 1" by (metis distinct_card card_1_singleton_iff One_nat_def list.set_map)
  then obtain v where "evs = [v]" by (auto simp: length_Suc_conv)
  then show thesis using that run evs by auto
qed

theorem redrive_is_paced_witness:
  "\<exists>log published now. redrive_run ref_world codec_lib plain_nodes ref_sweep log published now \<and> map snd log = [''u''] \<and>
     sorted_wrt (\<lambda>(t, i) (u, j). i = j \<longrightarrow> 900 \<le> u - t) log"
proof -
  let ?now = "sweep_clock (recorded_world ref_world) ref_sweep (idle_vault, [])"
  obtain published w' v where run: "SweepOnce (recorded_world ref_world) codec_lib plain_nodes ref_sweep fmempty (idle_vault, []) =
      (None, published, (w', [v]))" "event_id v = ''u''" by (rule idle_reached [OF refl])
  have "redrive_run ref_world codec_lib plain_nodes ref_sweep ([] @ map (\<lambda>v. (?now, event_id v)) [v]) published ?now"
    by (rule redrive_run.sweep [OF redrive_run.start refl order_refl]) (use run in simp)
  moreover from redrive_is_paced [OF _ this]
  have "sorted_wrt (\<lambda>(t, i) (u, j). i = j \<longrightarrow> 900 \<le> u - t) ([] @ map (\<lambda>v. (?now, event_id v)) [v])" by simp
  ultimately show ?thesis using run(2) by (intro exI conjI) (assumption | simp)+
qed

theorem sweep_publishes_exactly_the_due_tasks_witness:
  "\<exists>published w' evs. SweepOnce (recorded_world ref_world) codec_lib plain_nodes ref_sweep fmempty (idle_vault, []) = (None, published, (w', evs)) \<and>
     ''u'' \<in> event_id ` set evs"
proof -
  obtain w1 where list: "ListFiles ref_world ref_git (''d'' @ ''/*.md'') (ScanCyclesTotal ref_world ''redrive'' idle_vault) = (Inr [''d/a.md''], w1)"
    and files: "mem_files w1 = mem_files idle_vault" by (rule idle_listed)
  have small: "\<forall>q \<in> set [''d/a.md'']. \<exists>b. map_of (mem_files w1) q = Some b \<and> length b \<le> maxBody"
    using idle_small by (simp add: files idle_vault_def)
  obtain task where task: "ParseTask codec_lib plain_nodes (codec_file idle_fm []) = Some task" "Frontmatter task = idle_fm"
    "TaskIdentifier task = ''u''" using idle_parsed by blast
  have reads: "lib_Status codec_lib idle_fm = ''in_progress''" "lib_Phase codec_lib idle_fm = Some ''planning''"
    "lib_Assignee codec_lib idle_fm \<noteq> []" "lib_Stage codec_lib idle_fm = rs_branch ref_sweep" "lib_CurrentJob codec_lib idle_fm = []"
    by (simp_all add: codec_lib_def ref_lib_def idle_fm_def as_string_def string_or_empty_def)
  obtain published w' evs where run: "SweepOnce (recorded_world ref_world) codec_lib plain_nodes ref_sweep fmempty (idle_vault, []) =
      (None, published, (w', [] @ evs))" and ids: "event_id ` set evs =
       {TaskIdentifier task | q b task. q \<in> set [''d/a.md''] \<and> map_of (mem_files w1) q = Some b \<and> ParseTask codec_lib plain_nodes b = Some task \<and>
          lib_Status codec_lib (Frontmatter task) = ''in_progress'' \<and>
          (\<exists>phase \<in> {''planning'', ''execution'', ''ai_review''}. lib_Phase codec_lib (Frontmatter task) = Some phase) \<and>
          lib_Assignee codec_lib (Frontmatter task) \<noteq> [] \<and> lib_Stage codec_lib (Frontmatter task) = rs_branch ref_sweep \<and>
          lib_CurrentJob codec_lib (Frontmatter task) = [] \<and>
          (\<forall>prior. fmlookup fmempty (TaskIdentifier task) = Some prior \<longrightarrow>
             900 \<le> sweep_clock (recorded_world ref_world) ref_sweep (idle_vault, []) - prior)}"
    using sweep_publishes_exactly_the_due_tasks [OF ref_git_serves ref_broker_accepts _ refl list small refl,
        where L = codec_lib and Y = plain_nodes and published = fmempty and n = 900 and b = "''prod''"
          and p = "NewTaskPublisher ''schema'' ''v''" and t = "[]"]
    by (elim impE exE conjE meta_impE) (simp, iprover)
  have "map_of (mem_files w1) ''d/a.md'' = Some (codec_file idle_fm [])" by (simp add: files idle_vault_def)
  then have "TaskIdentifier task \<in> event_id ` set evs"
    unfolding ids mem_Collect_eq
    by (intro exI [of _ "''d/a.md''"] exI [of _ "codec_file idle_fm []"] exI [of _ task])
      (simp add: task(1) task(2) reads)
  then show ?thesis using run task(3) by auto
qed

end
