(* ===== verification/MetricsPass.thy ===== *)
theory MetricsPass
  imports ScannerRepair PeriodToken RefCodec
begin

text \<open>
  The periodic gauges of the scanner (\<open>pkg/scanner/task_age.go\<close>, \<open>open_task_census.go\<close>, \<open>metrics_pass.go\<close>): the
  age of the open tasks, the census of open tasks by phase and type, and the single pass that publishes both.
  Deleting a series of the gauge vector and the order in which Go walks the set of pairs are parameters.
\<close>

record 'w metrics_lib = "'w scan_lib" +
  delete_series :: "string \<Rightarrow> string list \<Rightarrow> 'w \<Rightarrow> 'w"
  pair_order :: "(string \<times> string) fset \<Rightarrow> (string \<times> string) list"

section \<open>Counting\<close>

text \<open>\<open>counts[key]++\<close> on a map.\<close>

definition count_inc :: "'k \<Rightarrow> ('k, int) fmap \<Rightarrow> ('k, int) fmap" where
  "count_inc k counts = fmupd k (case fmlookup counts k of Some n \<Rightarrow> n + 1 | None \<Rightarrow> 1) counts"

definition count_of :: "('k, int) fmap \<Rightarrow> 'k \<Rightarrow> int" where
  "count_of counts k = (case fmlookup counts k of Some n \<Rightarrow> n | None \<Rightarrow> 0)"

section \<open>The age of a task\<close>

datatype TaskAgeBucket = TaskAgeBucketLt1d | TaskAgeBucket1d7d | TaskAgeBucketGt7d | TaskAgeBucketUndated

fun bucket_label :: "TaskAgeBucket \<Rightarrow> string" where
  "bucket_label TaskAgeBucketLt1d = ''lt_1d''"
| "bucket_label TaskAgeBucket1d7d = ''1d_7d''"
| "bucket_label TaskAgeBucketGt7d = ''gt_7d''"
| "bucket_label TaskAgeBucketUndated = ''undated''"

definition AvailableTaskAgeBuckets :: "TaskAgeBucket list" where
  "AvailableTaskAgeBuckets = [TaskAgeBucketLt1d, TaskAgeBucket1d7d, TaskAgeBucketGt7d, TaskAgeBucketUndated]"

datatype taskAgeState = taskAgeTerminal | taskAgeUndated | taskAgeDated duration | taskAgeSkipped

definition taskAgeOneDay :: duration where "taskAgeOneDay = 24 * Hour"
definition taskAgeSevenDays :: duration where "taskAgeSevenDays = 7 * 24 * Hour"

definition taskAgeTimestampFields :: "string list" where
  "taskAgeTimestampFields = [''created'', ''created_date'', ''queued_at'', ''job_started_at'']"

text \<open>\<open>Time.Sub\<close> saturates at the range of a duration; \<open>Truncate\<close> rounds toward zero.\<close>

definition Sub :: "instant \<Rightarrow> instant \<Rightarrow> duration" where
  "Sub t u = max (- (2 ^ 63)) (min (2 ^ 63 - 1) (t - u))"

definition Truncate :: "duration \<Rightarrow> duration \<Rightarrow> duration" where
  "Truncate d m = (if 0 \<le> d then d - d mod m else - (- d - (- d) mod m))"

text \<open>\<open>time.Parse\<close> with the layout of a date.\<close>

definition parse_date :: "string \<Rightarrow> instant option" where
  "parse_date s =
     (case FindStringSubmatch dailyRe s of
        None \<Rightarrow> None
      | Some m \<Rightarrow>
          (if date_ok (group_int m 0) (group_int m 1) (group_int m 2)
           then Some (Date_unix (group_int m 0) (group_int m 1) (group_int m 2) 0 * Second) else None))"

definition parseTaskAgeTimestamp :: "('w, 'x) scan_lib_scheme \<Rightarrow> string \<Rightarrow> instant option" where
  "parseTaskAgeTimestamp X s =
     (if s = [] then None
      else case parse_RFC3339 X s of
             Some t \<Rightarrow> Some t
           | None \<Rightarrow> parse_date s)"

definition taskAgeTimestampOf :: "('w, 'x) scan_lib_scheme \<Rightarrow> fm \<Rightarrow> string \<Rightarrow> instant option" where
  "taskAgeTimestampOf X m key =
     (case fm_get m key of
        Some (VStr s) \<Rightarrow> parseTaskAgeTimestamp X s
      | Some (VTime t) \<Rightarrow> Some t
      | _ \<Rightarrow> None)"

fun first_dated :: "('w, 'x) scan_lib_scheme \<Rightarrow> fm \<Rightarrow> instant \<Rightarrow> string list \<Rightarrow> taskAgeState" where
  "first_dated X m now [] = taskAgeUndated"
| "first_dated X m now (k # ks) =
     (case taskAgeTimestampOf X m k of
        None \<Rightarrow> first_dated X m now ks
      | Some parsed \<Rightarrow>
          (let age = Truncate (Sub now parsed) Second in taskAgeDated (if age < 0 then 0 else age)))"

definition taskAgeFromMap :: "('w, 'x) scan_lib_scheme \<Rightarrow> fm \<Rightarrow> instant \<Rightarrow> taskAgeState" where
  "taskAgeFromMap X m now =
     (let s = stringField m ''status''
      in if s = ''completed'' \<or> s = ''aborted'' then taskAgeTerminal else first_dated X m now taskAgeTimestampFields)"

definition taskAgeBucketOf :: "duration \<Rightarrow> TaskAgeBucket" where
  "taskAgeBucketOf age =
     (if age < taskAgeOneDay then TaskAgeBucketLt1d
      else if age \<le> taskAgeSevenDays then TaskAgeBucket1d7d
      else TaskAgeBucketGt7d)"

definition taskAgeFromFile ::
  "pure_lib \<Rightarrow> yaml_nodes \<Rightarrow> ('w, 'x) scan_lib_scheme \<Rightarrow> 'w vaultScanner \<Rightarrow> path \<Rightarrow> instant \<Rightarrow> 'w \<Rightarrow> taskAgeState \<times> 'w" where
  "taskAgeFromFile L Y X v relPath now w =
     (case readFile (sc_ops v) relPath w of
        (Inl _, w) \<Rightarrow> (taskAgeSkipped, w)
      | (Inr f, w) \<Rightarrow>
          (case parseFrontmatterMap L Y f of
             None \<Rightarrow> (taskAgeSkipped, w)
           | Some m \<Rightarrow> (taskAgeFromMap X m now, w)))"

text \<open>What one classified file adds to the counts and to the oldest age.\<close>

type_synonym ages = "(TaskAgeBucket, int) fmap \<times> duration"

definition age_step :: "taskAgeState \<Rightarrow> ages \<Rightarrow> ages" where
  "age_step s = (\<lambda>(counts, oldest).
     (case s of
        taskAgeTerminal \<Rightarrow> (counts, oldest)
      | taskAgeSkipped \<Rightarrow> (counts, oldest)
      | taskAgeUndated \<Rightarrow> (count_inc TaskAgeBucketUndated counts, oldest)
      | taskAgeDated age \<Rightarrow> (count_inc (taskAgeBucketOf age) counts, if oldest < age then age else oldest)))"

fun age_loop ::
  "'w world \<Rightarrow> pure_lib \<Rightarrow> yaml_nodes \<Rightarrow> ('w, 'x) scan_lib_scheme \<Rightarrow> 'w vaultScanner \<Rightarrow> instant \<Rightarrow> path list \<Rightarrow> ages \<Rightarrow> 'w
     \<Rightarrow> ages option \<times> 'w" where
  "age_loop W L Y X v now [] acc w = (Some acc, w)"
| "age_loop W L Y X v now (relPath # paths) acc w =
     (if ctx_err W w \<noteq> None then (None, w)
      else case taskAgeFromFile L Y X v relPath now w of (s, w) \<Rightarrow> age_loop W L Y X v now paths (age_step s acc) w)"

definition publishTaskAgeCounts :: "('w, 'x) scan_lib_scheme \<Rightarrow> ages \<Rightarrow> string \<Rightarrow> 'w \<Rightarrow> 'w" where
  "publishTaskAgeCounts X acc vaultName w =
     (let w = set_gauge X ''agent_controller_task_oldest_age_seconds'' [vaultName] (snd acc div Second) w
      in fold (\<lambda>b. set_gauge X ''agent_controller_task_age_bucket_tasks'' [vaultName, bucket_label b] (count_of (fst acc) b))
           AvailableTaskAgeBuckets w)"

definition publishTaskAgeMetrics ::
  "'w world \<Rightarrow> pure_lib \<Rightarrow> yaml_nodes \<Rightarrow> ('w, 'x) scan_lib_scheme \<Rightarrow> 'w vaultScanner \<Rightarrow> path list \<Rightarrow> instant \<Rightarrow> string \<Rightarrow> 'w \<Rightarrow> 'w" where
  "publishTaskAgeMetrics W L Y X v paths now vaultName w =
     (case age_loop W L Y X v now paths (fmempty, 0) w of
        (None, w) \<Rightarrow> w
      | (Some acc, w) \<Rightarrow> publishTaskAgeCounts X acc vaultName w)"

definition recomputeTaskAgeMetrics ::
  "'w world \<Rightarrow> pure_lib \<Rightarrow> yaml_nodes \<Rightarrow> ('w, 'x) scan_lib_scheme \<Rightarrow> 'w vaultScanner \<Rightarrow> 'w \<Rightarrow> 'w" where
  "recomputeTaskAgeMetrics W L Y X v w =
     (case clock_now W w of (now, w) \<Rightarrow>
        (case listFiles (sc_ops v) (sc_taskDir v @ ''/*.md'') w of
           (Inl _, w) \<Rightarrow> w
         | (Inr paths, w) \<Rightarrow> publishTaskAgeMetrics W L Y X v paths now (sc_vaultName v) w))"

section \<open>The census of open tasks\<close>

type_synonym openTaskPair = "string \<times> string"
type_synonym census = "(openTaskPair, int) fmap"

definition openTaskPairFromMap :: "fm \<Rightarrow> openTaskPair option" where
  "openTaskPairFromMap m =
     (let s = stringField m ''status''
      in if s = ''completed'' \<or> s = ''aborted'' then None
         else Some (stringField m ''phase'', stringField m ''task_type''))"

definition openTaskPairFromFile ::
  "pure_lib \<Rightarrow> yaml_nodes \<Rightarrow> 'w vaultScanner \<Rightarrow> path \<Rightarrow> 'w \<Rightarrow> openTaskPair option \<times> 'w" where
  "openTaskPairFromFile L Y v relPath w =
     (case readFile (sc_ops v) relPath w of
        (Inl _, w) \<Rightarrow> (None, w)
      | (Inr f, w) \<Rightarrow>
          (case parseFrontmatterMap L Y f of
             None \<Rightarrow> (None, w)
           | Some m \<Rightarrow> (openTaskPairFromMap m, w)))"

definition census_step :: "openTaskPair option \<Rightarrow> census \<Rightarrow> census" where
  "census_step pair counts = (case pair of None \<Rightarrow> counts | Some p \<Rightarrow> count_inc p counts)"

fun census_loop ::
  "'w world \<Rightarrow> pure_lib \<Rightarrow> yaml_nodes \<Rightarrow> 'w vaultScanner \<Rightarrow> path list \<Rightarrow> census \<Rightarrow> 'w \<Rightarrow> census option \<times> 'w" where
  "census_loop W L Y v [] counts w = (Some counts, w)"
| "census_loop W L Y v (relPath # paths) counts w =
     (if ctx_err W w \<noteq> None then (None, w)
      else case openTaskPairFromFile L Y v relPath w of (pair, w) \<Rightarrow> census_loop W L Y v paths (census_step pair counts) w)"

definition publishCensusCounts ::
  "'w metrics_lib \<Rightarrow> string \<Rightarrow> census \<Rightarrow> openTaskPair fset \<Rightarrow> 'w \<Rightarrow> openTaskPair fset \<times> 'w" where
  "publishCensusCounts X vaultName counts openTaskPairs w =
     (let w = fold (\<lambda>p. set_gauge X ''agent_controller_open_tasks'' [vaultName, fst p, snd p] (count_of counts p)) (pair_order X (fmdom counts)) w;
          w = fold (\<lambda>p w. if p |\<in>| fmdom counts then w else delete_series X ''agent_controller_open_tasks'' [vaultName, fst p, snd p] w)
                (pair_order X openTaskPairs) w
      in (fmdom counts, w))"

definition publishOpenTaskCensus ::
  "'w world \<Rightarrow> pure_lib \<Rightarrow> yaml_nodes \<Rightarrow> 'w metrics_lib \<Rightarrow> 'w vaultScanner \<Rightarrow> path list \<Rightarrow> openTaskPair fset \<Rightarrow> 'w
     \<Rightarrow> openTaskPair fset \<times> 'w" where
  "publishOpenTaskCensus W L Y X v paths openTaskPairs w =
     (case census_loop W L Y v paths fmempty w of
        (None, w) \<Rightarrow> (openTaskPairs, w)
      | (Some counts, w) \<Rightarrow> publishCensusCounts X (sc_vaultName v) counts openTaskPairs w)"

definition recomputeOpenTaskCensus ::
  "'w world \<Rightarrow> pure_lib \<Rightarrow> yaml_nodes \<Rightarrow> 'w metrics_lib \<Rightarrow> 'w vaultScanner \<Rightarrow> openTaskPair fset \<Rightarrow> 'w
     \<Rightarrow> openTaskPair fset \<times> 'w" where
  "recomputeOpenTaskCensus W L Y X v openTaskPairs w =
     (case listFiles (sc_ops v) (sc_taskDir v @ ''/*.md'') w of
        (Inl _, w) \<Rightarrow> (openTaskPairs, w)
      | (Inr paths, w) \<Rightarrow> publishOpenTaskCensus W L Y X v paths openTaskPairs w)"

section \<open>One pass for both\<close>

fun vault_loop ::
  "'w world \<Rightarrow> pure_lib \<Rightarrow> yaml_nodes \<Rightarrow> ('w, 'x) scan_lib_scheme \<Rightarrow> 'w vaultScanner \<Rightarrow> instant \<Rightarrow> path list \<Rightarrow> ages \<Rightarrow> census \<Rightarrow> 'w
     \<Rightarrow> (ages \<times> census) option \<times> 'w" where
  "vault_loop W L Y X v now [] acc counts w = (Some (acc, counts), w)"
| "vault_loop W L Y X v now (relPath # paths) acc counts w =
     (if ctx_err W w \<noteq> None then (None, w)
      else case readFile (sc_ops v) relPath w of
             (Inl _, w) \<Rightarrow> vault_loop W L Y X v now paths acc counts w
           | (Inr f, w) \<Rightarrow>
               (case parseFrontmatterMap L Y f of
                  None \<Rightarrow> vault_loop W L Y X v now paths acc counts w
                | Some m \<Rightarrow>
                    vault_loop W L Y X v now paths (age_step (taskAgeFromMap X m now) acc)
                      (census_step (openTaskPairFromMap m) counts) w))"

definition recomputeVaultMetrics ::
  "'w world \<Rightarrow> pure_lib \<Rightarrow> yaml_nodes \<Rightarrow> 'w metrics_lib \<Rightarrow> 'w vaultScanner \<Rightarrow> openTaskPair fset \<Rightarrow> 'w
     \<Rightarrow> openTaskPair fset \<times> 'w" where
  "recomputeVaultMetrics W L Y X v openTaskPairs w =
     (case clock_now W w of (now, w) \<Rightarrow>
        (case listFiles (sc_ops v) (sc_taskDir v @ ''/*.md'') w of
           (Inl _, w) \<Rightarrow> (openTaskPairs, w)
         | (Inr paths, w) \<Rightarrow>
             (case vault_loop W L Y X v now paths (fmempty, 0) fmempty w of
                (None, w) \<Rightarrow> (openTaskPairs, w)
              | (Some (acc, counts), w) \<Rightarrow>
                  publishCensusCounts X (sc_vaultName v) counts openTaskPairs
                    (publishTaskAgeCounts X acc (sc_vaultName v) w))))"

section \<open>What a scrape sees\<close>

type_synonym gauges = "string \<times> string list \<Rightarrow> int option"

text \<open>
  A reachable vault and the gauges of the process: \<open>V\<close> is what the vault holds and lists, \<open>G\<close> what a scrape reads.
  Reading does not change either, and only the two gauge calls change a series, the one they name.
\<close>

definition gauge_store ::
  "'w world \<Rightarrow> 'w metrics_lib \<Rightarrow> 'w vaultScanner \<Rightarrow> ('w \<Rightarrow> (path \<Rightarrow> bytes option) \<times> path list) \<Rightarrow> ('w \<Rightarrow> gauges) \<Rightarrow> bool" where
  "gauge_store W X v V G \<longleftrightarrow>
     (\<forall>w. ctx_err W w = None) \<and>
     (\<forall>w. V (snd (clock_now W w)) = V w \<and> G (snd (clock_now W w)) = G w) \<and>
     (\<forall>w. \<exists>w'. listFiles (sc_ops v) (sc_taskDir v @ ''/*.md'') w = (Inr (snd (V w)), w') \<and> V w' = V w \<and> G w' = G w) \<and>
     (\<forall>p w. \<exists>r w'. readFile (sc_ops v) p w = (r, w') \<and> V w' = V w \<and> G w' = G w \<and>
        (case fst (V w) p of Some b \<Rightarrow> r = Inr b | None \<Rightarrow> \<exists>e. r = Inl e)) \<and>
     (\<forall>n ls i w. V (set_gauge X n ls i w) = V w \<and> G (set_gauge X n ls i w) = (G w)((n, ls) \<mapsto> i)) \<and>
     (\<forall>n ls w. V (delete_series X n ls w) = V w \<and> G (delete_series X n ls w) = (G w)((n, ls) := None)) \<and>
     (\<forall>F. set (pair_order X F) = fset F)"

lemma gauge_storeD:
  assumes "gauge_store W X v V G"
  shows gs_ctx: "ctx_err W w = None"
    and gs_clock: "clock_now W w = (now, w') \<Longrightarrow> V w' = V w \<and> G w' = G w"
    and gs_list: "\<exists>w'. listFiles (sc_ops v) (sc_taskDir v @ ''/*.md'') w = (Inr (snd (V w)), w') \<and> V w' = V w \<and> G w' = G w"
    and gs_read: "\<exists>r w'. readFile (sc_ops v) p w = (r, w') \<and> V w' = V w \<and> G w' = G w \<and>
        (case fst (V w) p of Some b \<Rightarrow> r = Inr b | None \<Rightarrow> \<exists>e. r = Inl e)"
    and gs_set: "V (set_gauge X n ls i w) = V w \<and> G (set_gauge X n ls i w) = (G w)((n, ls) \<mapsto> i)"
    and gs_delete: "V (delete_series X n ls w) = V w \<and> G (delete_series X n ls w) = (G w)((n, ls) := None)"
    and gs_order: "set (pair_order X F) = fset F"
  using assms unfolding gauge_store_def by (metis snd_conv)+

text \<open>The parsed files of a listing, in its order.\<close>

definition facts :: "pure_lib \<Rightarrow> yaml_nodes \<Rightarrow> (path \<Rightarrow> bytes option) \<Rightarrow> path list \<Rightarrow> fm list" where
  "facts L Y S paths = List.map_filter (\<lambda>p. Option.bind (S p) (parseFrontmatterMap L Y)) paths"

lemma facts_simps [simp]:
  "facts L Y S [] = []"
  "facts L Y S (p # ps) = (case Option.bind (S p) (parseFrontmatterMap L Y) of None \<Rightarrow> [] | Some m \<Rightarrow> [m]) @ facts L Y S ps"
  by (simp_all add: facts_def List.map_filter_simps split: option.split)

abbreviation age_facts :: "('w, 'x) scan_lib_scheme \<Rightarrow> instant \<Rightarrow> fm list \<Rightarrow> ages \<Rightarrow> ages" where
  "age_facts X now \<equiv> fold (\<lambda>m. age_step (taskAgeFromMap X m now))"

abbreviation census_facts :: "fm list \<Rightarrow> census \<Rightarrow> census" where
  "census_facts \<equiv> fold (\<lambda>m. census_step (openTaskPairFromMap m))"

lemma age_step_skipped [simp]: "age_step taskAgeSkipped acc = acc"
  by (cases acc) (simp add: age_step_def)

lemma census_step_None [simp]: "census_step None counts = counts"
  by (simp add: census_step_def)

lemma vault_loop_view:
  assumes "gauge_store W X v V G"
  shows "\<exists>w'. vault_loop W L Y X v now paths acc counts w =
      (Some (age_facts X now (facts L Y (fst (V w)) paths) acc, census_facts (facts L Y (fst (V w)) paths) counts), w') \<and>
    V w' = V w \<and> G w' = G w"
proof (induction paths arbitrary: acc counts w)
  case (Cons p paths)
  obtain r w1 where read: "readFile (sc_ops v) p w = (r, w1)" "V w1 = V w" "G w1 = G w"
    "case fst (V w) p of Some b \<Rightarrow> r = Inr b | None \<Rightarrow> \<exists>e. r = Inl e" using gs_read [OF assms] by blast
  show ?case
    using read Cons.IH [of acc counts w1] Cons.IH [of _ _ w1]
    by (cases acc) (auto simp: gs_ctx [OF assms] split: option.splits)
qed simp

lemma age_loop_view:
  assumes "gauge_store W X v V G"
  shows "\<exists>w'. age_loop W L Y X v now paths acc w = (Some (age_facts X now (facts L Y (fst (V w)) paths) acc), w') \<and>
    V w' = V w \<and> G w' = G w"
proof (induction paths arbitrary: acc w)
  case (Cons p paths)
  obtain r w1 where read: "readFile (sc_ops v) p w = (r, w1)" "V w1 = V w" "G w1 = G w"
    "case fst (V w) p of Some b \<Rightarrow> r = Inr b | None \<Rightarrow> \<exists>e. r = Inl e" using gs_read [OF assms] by blast
  show ?case
    using read Cons.IH [of acc w1] Cons.IH [of _ w1]
    by (cases acc) (auto simp: gs_ctx [OF assms] taskAgeFromFile_def split: option.splits)
qed simp

lemma census_loop_view:
  assumes "gauge_store W X v V G"
  shows "\<exists>w'. census_loop W L Y v paths counts w = (Some (census_facts (facts L Y (fst (V w)) paths) counts), w') \<and>
    V w' = V w \<and> G w' = G w"
proof (induction paths arbitrary: counts w)
  case (Cons p paths)
  obtain r w1 where read: "readFile (sc_ops v) p w = (r, w1)" "V w1 = V w" "G w1 = G w"
    "case fst (V w) p of Some b \<Rightarrow> r = Inr b | None \<Rightarrow> \<exists>e. r = Inl e" using gs_read [OF assms] by blast
  show ?case
    using read Cons.IH [of _ w1]
    by (auto simp: gs_ctx [OF assms] openTaskPairFromFile_def split: option.splits)
qed simp

section \<open>Publishing\<close>

lemma fold_view:
  assumes "\<And>x w. V (f x w) = V w \<and> G (f x w) = h x (G w)"
  shows "V (fold f xs w) = V w \<and> G (fold f xs w) = fold h xs (G w)"
  by (induction xs arbitrary: w) (simp_all add: assms)

definition age_gauges :: "string \<Rightarrow> ages \<Rightarrow> gauges \<Rightarrow> gauges" where
  "age_gauges vault acc g =
     fold (\<lambda>b g. g((''agent_controller_task_age_bucket_tasks'', [vault, bucket_label b]) \<mapsto> count_of (fst acc) b)) AvailableTaskAgeBuckets
       (g((''agent_controller_task_oldest_age_seconds'', [vault]) \<mapsto> snd acc div Second))"

definition census_gauges :: "string \<Rightarrow> census \<Rightarrow> openTaskPair fset \<Rightarrow> gauges \<Rightarrow> gauges" where
  "census_gauges vault counts pairs g =
     (\<lambda>(n, ls). case ls of
        [u, ph, ty] \<Rightarrow>
          (if n = ''agent_controller_open_tasks'' \<and> u = vault
           then (if (ph, ty) |\<in>| fmdom counts then Some (count_of counts (ph, ty))
                 else if (ph, ty) |\<in>| pairs then None else g (n, ls))
           else g (n, ls))
      | _ \<Rightarrow> g (n, ls))"

lemma publish_ages_view:
  assumes "gauge_store W X v V G"
  shows "V (publishTaskAgeCounts X acc vault w) = V w \<and> G (publishTaskAgeCounts X acc vault w) = age_gauges vault acc (G w)"
  using fold_view [of V "\<lambda>b. set_gauge X ''agent_controller_task_age_bucket_tasks'' [vault, bucket_label b] (count_of (fst acc) b)" G
      "\<lambda>b g. g((''agent_controller_task_age_bucket_tasks'', [vault, bucket_label b]) \<mapsto> count_of (fst acc) b)"]
  by (simp add: publishTaskAgeCounts_def Let_def gs_set [OF assms] age_gauges_def)

lemma fold_upd:
  "fold (\<lambda>p g. g((n, [u, fst p, snd p]) := c p)) ps g (m, ls) =
     (case ls of [x, ph, ty] \<Rightarrow> if m = n \<and> x = u \<and> (ph, ty) \<in> set ps then c (ph, ty) else g (m, ls) | _ \<Rightarrow> g (m, ls))"
proof (induction ps arbitrary: g)
  case Nil
  then show ?case by (auto split: list.split)
next
  case (Cons p ps)
  then show ?case by (cases p) (auto split: list.splits)
qed

lemma fold_upd_if:
  "fold (\<lambda>p g. if P p then g else g((n, [u, fst p, snd p]) := None)) ps g (m, ls) =
     (case ls of [x, ph, ty] \<Rightarrow> if m = n \<and> x = u \<and> (ph, ty) \<in> set ps \<and> \<not> P (ph, ty) then None else g (m, ls) | _ \<Rightarrow> g (m, ls))"
proof (induction ps arbitrary: g)
  case Nil
  then show ?case by (auto split: list.split)
next
  case (Cons p ps)
  then show ?case by (cases p) (auto split: list.splits)
qed

lemma publish_census_view:
  assumes "gauge_store W X v V G" and "publishCensusCounts X vault counts pairs w = (pairs', w')"
  shows "pairs' = fmdom counts \<and> V w' = V w \<and> G w' = census_gauges vault counts pairs (G w)"
proof -
  let ?set = "\<lambda>p. set_gauge X ''agent_controller_open_tasks'' [vault, fst p, snd p] (count_of counts p)"
  let ?del = "\<lambda>p w. if p |\<in>| fmdom counts then w else delete_series X ''agent_controller_open_tasks'' [vault, fst p, snd p] w"
  let ?w1 = "fold ?set (pair_order X (fmdom counts)) w"
  have w1: "V ?w1 = V w" "G ?w1 = fold (\<lambda>p g. g((''agent_controller_open_tasks'', [vault, fst p, snd p]) := Some (count_of counts p))) (pair_order X (fmdom counts)) (G w)"
    using fold_view [of V ?set G "\<lambda>p g. g((''agent_controller_open_tasks'', [vault, fst p, snd p]) := Some (count_of counts p))"]
    by (simp_all add: gs_set [OF assms(1)])
  have "V (fold ?del (pair_order X pairs) ?w1) = V ?w1 \<and> G (fold ?del (pair_order X pairs) ?w1) =
      fold (\<lambda>p g. if p |\<in>| fmdom counts then g else g((''agent_controller_open_tasks'', [vault, fst p, snd p]) := None)) (pair_order X pairs) (G ?w1)"
    by (rule fold_view) (simp add: gs_delete [OF assms(1)])
  moreover have "pairs' = fmdom counts" "w' = fold ?del (pair_order X pairs) ?w1"
    using assms(2) by (auto simp: publishCensusCounts_def Let_def)
  ultimately have "pairs' = fmdom counts" "V w' = V w" and G: "G w' =
      fold (\<lambda>p g. if p |\<in>| fmdom counts then g else g((''agent_controller_open_tasks'', [vault, fst p, snd p]) := None)) (pair_order X pairs)
        (fold (\<lambda>p g. g((''agent_controller_open_tasks'', [vault, fst p, snd p]) := Some (count_of counts p))) (pair_order X (fmdom counts)) (G w))"
    using w1 by simp_all
  moreover have "G w' (n, ls) = census_gauges vault counts pairs (G w) (n, ls)" for n ls
    unfolding G fold_upd_if fold_upd gs_order [OF assms(1)] census_gauges_def by (auto split: list.splits)
  ultimately show ?thesis by auto
qed

text \<open>The single pass, as one function of what the vault holds and of the gauges before.\<close>

lemma recompute_view:
  assumes "gauge_store W X v V G" and "recomputeVaultMetrics W L Y X v pairs w = (pairs', w')"
  shows "pairs' = fmdom (census_facts (facts L Y (fst (V w)) (snd (V w))) fmempty) \<and>
     G w' = census_gauges (sc_vaultName v) (census_facts (facts L Y (fst (V w)) (snd (V w))) fmempty) pairs
       (age_gauges (sc_vaultName v) (age_facts X (fst (clock_now W w)) (facts L Y (fst (V w)) (snd (V w))) (fmempty, 0)) (G w))"
proof -
  obtain now w1 where clock: "clock_now W w = (now, w1)" by (meson surj_pair)
  have same1: "V w1 = V w" "G w1 = G w" using gs_clock [OF assms(1) clock] by simp_all
  obtain w2 where list: "listFiles (sc_ops v) (sc_taskDir v @ ''/*.md'') w1 = (Inr (snd (V w)), w2)" "V w2 = V w" "G w2 = G w"
    using gs_list [OF assms(1), of w1] same1 by auto
  let ?ms = "facts L Y (fst (V w)) (snd (V w))"
  obtain w3 where loop: "vault_loop W L Y X v now (snd (V w)) (fmempty, 0) fmempty w2 =
      (Some (age_facts X now ?ms (fmempty, 0), census_facts ?ms fmempty), w3)" "V w3 = V w" "G w3 = G w"
    using vault_loop_view [OF assms(1), of L Y now "snd (V w)" "(fmempty, 0)" fmempty w2] list(2,3) by auto
  have "publishCensusCounts X (sc_vaultName v) (census_facts ?ms fmempty) pairs
      (publishTaskAgeCounts X (age_facts X now ?ms (fmempty, 0)) (sc_vaultName v) w3) = (pairs', w')"
    using assms(2) by (simp add: recomputeVaultMetrics_def clock list loop(1))
  from publish_census_view [OF assms(1) this] publish_ages_view [OF assms(1)] loop clock show ?thesis by simp
qed

lemma separate_view:
  assumes "gauge_store W X v V G" and "recomputeOpenTaskCensus W L Y X v pairs (recomputeTaskAgeMetrics W L Y X v w) = (pairs', w')"
  shows "pairs' = fmdom (census_facts (facts L Y (fst (V w)) (snd (V w))) fmempty) \<and>
     G w' = census_gauges (sc_vaultName v) (census_facts (facts L Y (fst (V w)) (snd (V w))) fmempty) pairs
       (age_gauges (sc_vaultName v) (age_facts X (fst (clock_now W w)) (facts L Y (fst (V w)) (snd (V w))) (fmempty, 0)) (G w))"
proof -
  obtain now w1 where clock: "clock_now W w = (now, w1)" by (meson surj_pair)
  have same1: "V w1 = V w" "G w1 = G w" using gs_clock [OF assms(1) clock] by simp_all
  obtain w2 where list: "listFiles (sc_ops v) (sc_taskDir v @ ''/*.md'') w1 = (Inr (snd (V w)), w2)" "V w2 = V w" "G w2 = G w"
    using gs_list [OF assms(1), of w1] same1 by auto
  let ?ms = "facts L Y (fst (V w)) (snd (V w))"
  obtain w3 where loop: "age_loop W L Y X v now (snd (V w)) (fmempty, 0) w2 = (Some (age_facts X now ?ms (fmempty, 0)), w3)"
      "V w3 = V w" "G w3 = G w"
    using age_loop_view [OF assms(1), of L Y now "snd (V w)" "(fmempty, 0)" w2] list(2,3) by auto
  let ?w4 = "publishTaskAgeCounts X (age_facts X now ?ms (fmempty, 0)) (sc_vaultName v) w3"
  have age: "recomputeTaskAgeMetrics W L Y X v w = ?w4"
    by (simp add: recomputeTaskAgeMetrics_def publishTaskAgeMetrics_def clock list loop(1))
  have w4: "V ?w4 = V w" "G ?w4 = age_gauges (sc_vaultName v) (age_facts X now ?ms (fmempty, 0)) (G w)"
    using publish_ages_view [OF assms(1)] loop by simp_all
  obtain w5 where list5: "listFiles (sc_ops v) (sc_taskDir v @ ''/*.md'') ?w4 = (Inr (snd (V w)), w5)" "V w5 = V w" "G w5 = G ?w4"
    using gs_list [OF assms(1), of ?w4] w4(1) by auto
  obtain w6 where loop6: "census_loop W L Y v (snd (V w)) fmempty w5 = (Some (census_facts ?ms fmempty), w6)"
      "V w6 = V w" "G w6 = G ?w4"
    using census_loop_view [OF assms(1), of L Y "snd (V w)" fmempty w5] list5(2,3) by auto
  have "publishCensusCounts X (sc_vaultName v) (census_facts ?ms fmempty) pairs w6 = (pairs', w')"
    using assms(2) unfolding age by (simp add: recomputeOpenTaskCensus_def publishOpenTaskCensus_def list5(1) loop6(1))
  from publish_census_view [OF assms(1) this] loop6(3) w4(2) clock show ?thesis by simp
qed

section \<open>Counts\<close>

lemma count_inc_get: "fmlookup (count_inc k counts) j = (if j = k then Some (count_of counts k + 1) else fmlookup counts j)"
  by (simp add: count_inc_def count_of_def split: option.split)

lemma count_of_inc [simp]: "count_of (count_inc k counts) j = count_of counts j + (if j = k then 1 else 0)"
  by (simp add: count_inc_get count_of_def)

lemma count_inc_dom [simp]: "fmdom (count_inc k counts) = finsert k (fmdom counts)"
  by (simp add: count_inc_def)

lemma census_facts_count:
  "count_of (census_facts ms counts) p = count_of counts p + int (length (filter (\<lambda>m. openTaskPairFromMap m = Some p) ms))"
  by (induction ms arbitrary: counts) (auto simp: census_step_def split: option.split)

lemma census_facts_dom:
  "p |\<in>| fmdom (census_facts ms counts) \<longleftrightarrow> p |\<in>| fmdom counts \<or> (\<exists>m \<in> set ms. openTaskPairFromMap m = Some p)"
  by (induction ms arbitrary: counts) (auto simp: census_step_def split: option.splits)

definition total_age :: "ages \<Rightarrow> int" where
  "total_age acc = (\<Sum>b \<leftarrow> AvailableTaskAgeBuckets. count_of (fst acc) b)"

lemma age_step_total: "total_age (age_step s acc) = total_age acc + (if s = taskAgeTerminal \<or> s = taskAgeSkipped then 0 else 1)"
  by (cases acc; cases s) (auto simp: age_step_def total_age_def AvailableTaskAgeBuckets_def taskAgeBucketOf_def)

lemma first_dated_open: "first_dated X m now ks \<noteq> taskAgeTerminal \<and> first_dated X m now ks \<noteq> taskAgeSkipped"
  by (induction ks) (simp_all add: Let_def split: option.split)

lemma taskAge_open: "(taskAgeFromMap X m now = taskAgeTerminal \<longleftrightarrow> openTaskPairFromMap m = None) \<and> taskAgeFromMap X m now \<noteq> taskAgeSkipped"
  using first_dated_open [of X m now taskAgeTimestampFields] by (simp add: taskAgeFromMap_def openTaskPairFromMap_def Let_def)

lemma age_facts_total:
  "total_age (age_facts X now ms acc) = total_age acc + int (length (filter (\<lambda>m. openTaskPairFromMap m \<noteq> None) ms))"
  by (induction ms arbitrary: acc) (auto simp: age_step_total taskAge_open)

lemma age_step_oldest: "snd (age_step s acc) = (case s of taskAgeDated a \<Rightarrow> max (snd acc) a | _ \<Rightarrow> snd acc)"
  by (cases acc) (simp add: age_step_def split: taskAgeState.split)

lemma age_facts_oldest:
  "snd (age_facts X now ms acc) = fold max (List.map_filter (\<lambda>m. case taskAgeFromMap X m now of taskAgeDated a \<Rightarrow> Some a | _ \<Rightarrow> None) ms) (snd acc)"
  by (induction ms arbitrary: acc) (simp_all add: List.map_filter_simps age_step_oldest max.commute split: taskAgeState.split)

lemma age_gauges_get:
  "age_gauges vault acc g (''agent_controller_task_oldest_age_seconds'', [vault]) = Some (snd acc div Second)"
  "age_gauges vault acc g (''agent_controller_task_age_bucket_tasks'', [vault, bucket_label b]) = Some (count_of (fst acc) b)"
  "n \<noteq> ''agent_controller_task_oldest_age_seconds'' \<Longrightarrow> n \<noteq> ''agent_controller_task_age_bucket_tasks'' \<Longrightarrow> age_gauges vault acc g (n, ls) = g (n, ls)"
  by (cases b; simp add: age_gauges_def AvailableTaskAgeBuckets_def)+

lemma age_step_nonneg: "\<forall>b. 0 \<le> count_of (fst acc) b \<Longrightarrow> \<forall>b. 0 \<le> count_of (fst (age_step s acc)) b"
  by (cases acc) (auto simp: age_step_def split: taskAgeState.split)

lemma age_facts_nonneg: "\<forall>b. 0 \<le> count_of (fst acc) b \<Longrightarrow> \<forall>b. 0 \<le> count_of (fst (age_facts X now ms acc)) b"
  by (induction ms arbitrary: acc) (simp_all add: age_step_nonneg)

lemma sum_count_inc:
  "(\<Sum>p \<in> fset (fmdom (count_inc k c)). count_of (count_inc k c) p) = (\<Sum>p \<in> fset (fmdom c). count_of c p) + 1"
proof -
  have "(\<Sum>p \<in> insert k (fset (fmdom c)). count_of c p) = (\<Sum>p \<in> fset (fmdom c). count_of c p)"
    by (rule sum.mono_neutral_right) (auto simp: count_of_def fmdom_notD)
  then show ?thesis by (simp add: sum.distrib)
qed

lemma census_facts_sum:
  "(\<Sum>p \<in> fset (fmdom (census_facts ms c)). count_of (census_facts ms c) p) =
     (\<Sum>p \<in> fset (fmdom c). count_of c p) + int (length (filter (\<lambda>m. openTaskPairFromMap m \<noteq> None) ms))"
proof (induction ms arbitrary: c)
  case (Cons m ms)
  then show ?case
    using Cons.IH sum_count_inc by (cases "openTaskPairFromMap m") (simp_all add: census_step_def del: count_inc_dom count_of_inc)
qed simp

lemma if_not: "(if n \<noteq> 0 then x else y) = (if n = 0 then y else x)"
  by simp

lemma fold_max_Max: "fold max xs x = Max (insert x (set xs))" for x :: int
  using Max.set_eq_fold [of x xs] by simp

lemma set_map_filter: "set (List.map_filter f xs) = {y. \<exists>x \<in> set xs. f x = Some y}"
  by (induction xs) (auto simp: List.map_filter_simps split: option.splits)

lemma census_gauges_other:
  "n \<noteq> ''agent_controller_open_tasks'' \<or> take 1 ls \<noteq> [vault] \<Longrightarrow> census_gauges vault counts pairs g (n, ls) = g (n, ls)"
  by (cases ls) (auto simp: census_gauges_def split: list.split)

section \<open>Properties\<close>

text \<open>C28: The single pass publishes what the two passes it replaced published: over a reachable vault, every series
  a scrape can read and the remembered pairs are the same as after a pass of the ages followed by a pass of the
  census, with half of the listings and reads.\<close>

theorem single_pass_equals_both_passes:
  assumes "gauge_store W X v V G"
    and "recomputeVaultMetrics W L Y X v pairs w = (pairs1, w1)"
    and "recomputeOpenTaskCensus W L Y X v pairs (recomputeTaskAgeMetrics W L Y X v w) = (pairs2, w2)"
  shows "pairs1 = pairs2 \<and> G w1 = G w2"
  using recompute_view [OF assms(1,2)] separate_view [OF assms(1,3)] by simp

text \<open>C27: After a pass the census is the board: the series of a pair of this vault reads how many of the listed
  files parse and are open with that phase and type, and a pair without such a file has no series, provided the
  series there before are the remembered ones, which holds again afterwards. No series of another vault and
  none of another gauge but the two of the ages changes.\<close>

theorem census_is_the_board:
  assumes "gauge_store W X v V G" and "recomputeVaultMetrics W L Y X v pairs w = (pairs', w')"
    and "vault = sc_vaultName v" and "\<forall>ph ty. G w (''agent_controller_open_tasks'', [vault, ph, ty]) \<noteq> None \<longrightarrow> (ph, ty) |\<in>| pairs"
  shows "(\<forall>ph ty. G w' (''agent_controller_open_tasks'', [vault, ph, ty]) =
            (let n = length (filter (\<lambda>m. openTaskPairFromMap m = Some (ph, ty)) (facts L Y (fst (V w)) (snd (V w))))
             in if n = 0 then None else Some (int n))) \<and>
         (\<forall>ph ty. G w' (''agent_controller_open_tasks'', [vault, ph, ty]) \<noteq> None \<longleftrightarrow> (ph, ty) |\<in>| pairs') \<and>
         (\<forall>n ls. n \<notin> {''agent_controller_task_oldest_age_seconds'', ''agent_controller_task_age_bucket_tasks''} \<and> (n \<noteq> ''agent_controller_open_tasks'' \<or> take 1 ls \<noteq> [vault]) \<longrightarrow>
            G w' (n, ls) = G w (n, ls))"
proof -
  let ?ms = "facts L Y (fst (V w)) (snd (V w))"
  let ?c = "census_facts ?ms fmempty"
  let ?acc = "age_facts X (fst (clock_now W w)) ?ms (fmempty, 0)"
  have view: "pairs' = fmdom ?c" "G w' = census_gauges vault ?c pairs (age_gauges vault ?acc (G w))"
    using recompute_view [OF assms(1,2)] assms(3) by simp_all
  have dom: "(ph, ty) |\<in>| fmdom ?c \<longleftrightarrow> length (filter (\<lambda>m. openTaskPairFromMap m = Some (ph, ty)) ?ms) \<noteq> 0" for ph ty
    by (auto simp: census_facts_dom filter_empty_conv)
  have count: "count_of ?c p = int (length (filter (\<lambda>m. openTaskPairFromMap m = Some p) ?ms))" for p
    by (simp add: census_facts_count count_of_def [of fmempty])
  have old: "age_gauges vault ?acc (G w) (''agent_controller_open_tasks'', ls) = G w (''agent_controller_open_tasks'', ls)" for ls
    by (rule age_gauges_get(3)) simp_all
  have own: "G w' (''agent_controller_open_tasks'', [vault, ph, ty]) = (if (ph, ty) |\<in>| fmdom ?c then Some (count_of ?c (ph, ty)) else None)" for ph ty
    using assms(4) [rule_format, of ph ty]
    by (cases "G w (''agent_controller_open_tasks'', [vault, ph, ty])") (auto simp: view(2) census_gauges_def old)
  have other: "G w' (n, ls) = G w (n, ls)"
    if "n \<notin> {''agent_controller_task_oldest_age_seconds'', ''agent_controller_task_age_bucket_tasks''}" "n \<noteq> ''agent_controller_open_tasks'' \<or> take 1 ls \<noteq> [vault]" for n ls
  proof -
    have "age_gauges vault ?acc (G w) (n, ls) = G w (n, ls)" using that(1) by (intro age_gauges_get(3)) auto
    then show ?thesis unfolding view(2) census_gauges_other [OF that(2)] .
  qed
  show ?thesis
  proof (intro conjI allI impI)
    fix ph ty
    show "G w' (''agent_controller_open_tasks'', [vault, ph, ty]) = (let n = length (filter (\<lambda>m. openTaskPairFromMap m = Some (ph, ty)) ?ms)
        in if n = 0 then None else Some (int n))"
      unfolding own dom count Let_def by (rule if_not)
    show "G w' (''agent_controller_open_tasks'', [vault, ph, ty]) \<noteq> None \<longleftrightarrow> (ph, ty) |\<in>| pairs'" by (simp add: own view(1))
  qed (elim conjE, rule other)
qed

text \<open>The age buckets partition the board: after a pass each of the four bucket series is there, none is
  negative, they add up to the number of open tasks, which is also what the census of the vault adds up to, and
  the oldest age is that of the oldest dated open task, or zero.\<close>

theorem age_buckets_partition_the_board:
  assumes "gauge_store W X v V G" and "recomputeVaultMetrics W L Y X v pairs w = (pairs', w')"
    and "vault = sc_vaultName v" and "ms = facts L Y (fst (V w)) (snd (V w))"
  shows "(\<exists>c. (\<forall>b. G w' (''agent_controller_task_age_bucket_tasks'', [vault, bucket_label b]) = Some (c b) \<and> 0 \<le> c b) \<and>
            (\<Sum>b \<leftarrow> AvailableTaskAgeBuckets. c b) = int (length (filter (\<lambda>m. openTaskPairFromMap m \<noteq> None) ms))) \<and>
         (\<Sum>p \<in> fset pairs'. the (G w' (''agent_controller_open_tasks'', [vault, fst p, snd p]))) = int (length (filter (\<lambda>m. openTaskPairFromMap m \<noteq> None) ms)) \<and>
         (\<exists>oldest. G w' (''agent_controller_task_oldest_age_seconds'', [vault]) = Some (oldest div Second) \<and>
            oldest = Max (insert 0 {a. \<exists>m \<in> set ms. taskAgeFromMap X m (fst (clock_now W w)) = taskAgeDated a}))"
proof -
  let ?now = "fst (clock_now W w)"
  let ?c = "census_facts ms fmempty"
  let ?acc = "age_facts X ?now ms (fmempty, 0)"
  have view: "pairs' = fmdom ?c" "G w' = census_gauges vault ?c pairs (age_gauges vault ?acc (G w))"
    using recompute_view [OF assms(1,2)] assms(3,4) by simp_all
  have age: "G w' (n, ls) = age_gauges vault ?acc (G w) (n, ls)" if "n \<noteq> ''agent_controller_open_tasks''" for n ls
    using that by (auto simp: view(2) census_gauges_def split: list.split)
  have buckets: "G w' (''agent_controller_task_age_bucket_tasks'', [vault, bucket_label b]) = Some (count_of (fst ?acc) b)" for b
    by (simp add: age age_gauges_get)
  have nonneg: "0 \<le> count_of (fst ?acc) b" for b
    using age_facts_nonneg [of "(fmempty, 0)" X ?now ms] by (simp add: count_of_def)
  have total: "(\<Sum>b \<leftarrow> AvailableTaskAgeBuckets. count_of (fst ?acc) b) = int (length (filter (\<lambda>m. openTaskPairFromMap m \<noteq> None) ms))"
    using age_facts_total [of X ?now ms "(fmempty, 0)"] by (simp add: total_age_def AvailableTaskAgeBuckets_def count_of_def [of fmempty])
  have "the (G w' (''agent_controller_open_tasks'', [vault, fst p, snd p])) = count_of ?c p" if "p \<in> fset pairs'" for p
    using that by (simp add: view census_gauges_def)
  then have sum: "(\<Sum>p \<in> fset pairs'. the (G w' (''agent_controller_open_tasks'', [vault, fst p, snd p]))) = int (length (filter (\<lambda>m. openTaskPairFromMap m \<noteq> None) ms))"
    using census_facts_sum [of ms fmempty] by (simp add: view(1))
  have "{y. \<exists>m \<in> set ms. (case taskAgeFromMap X m ?now of taskAgeDated a \<Rightarrow> Some a | _ \<Rightarrow> None) = Some y} =
      {a. \<exists>m \<in> set ms. taskAgeFromMap X m ?now = taskAgeDated a}"
    by (intro Collect_cong bex_cong refl) (simp split: taskAgeState.split)
  then have "snd ?acc = Max (insert 0 {a. \<exists>m \<in> set ms. taskAgeFromMap X m ?now = taskAgeDated a})"
    unfolding age_facts_oldest fold_max_Max set_map_filter by simp
  moreover have "G w' (''agent_controller_task_oldest_age_seconds'', [vault]) = Some (snd ?acc div Second)" by (simp add: age age_gauges_get)
  ultimately show ?thesis using buckets nonneg total sum by blast
qed

section \<open>Reference instances\<close>

text \<open>A vault with one open task without a date, and a registry that is the state itself.\<close>

definition ref_registry :: "gauges metrics_lib" where
  "ref_registry =
     \<lparr>sha256 = (\<lambda>b. b), new_uuid = (\<lambda>g. (''u'', g)), map_order = (\<lambda>s. sorted_list_of_fset s),
      parse_RFC3339 = (\<lambda>_. None), set_gauge = (\<lambda>n ls i g. g((n, ls) \<mapsto> i)),
      delete_series = (\<lambda>n ls g. g((n, ls) := None)),
      pair_order = (\<lambda>F. filter (\<lambda>p. p |\<in>| F) (List.product (sorted_list_of_fset (fst |`| F)) (sorted_list_of_fset (snd |`| F))))\<rparr>"

definition board_fm :: fm where
  "board_fm = fmupd ''status'' (VStr ''in_progress'') (fmupd ''phase'' (VStr ''planning'') fmempty)"

definition board_file :: "path \<Rightarrow> bytes option" where
  "board_file = [''d/a.md'' \<mapsto> codec_file board_fm []]"

definition board_scanner :: "gauges vaultScanner" where
  "board_scanner = scanner_of
     \<lparr>listFiles = (\<lambda>_ g. (Inr [''d/a.md''], g)),
      readFile = (\<lambda>p g. (case board_file p of Some b \<Rightarrow> Inr b | None \<Rightarrow> Inl (Errorf ''missing'' []), g)),
      writeFile = (\<lambda>p b g. (Inr (), g))\<rparr>"

abbreviation board_view :: "gauges \<Rightarrow> (path \<Rightarrow> bytes option) \<times> path list" where
  "board_view \<equiv> \<lambda>_. (board_file, [''d/a.md''])"

lemma board_store: "gauge_store quiet_world ref_registry board_scanner board_view (\<lambda>g. g)"
proof -
  have "set (pair_order ref_registry F) = fset F" for F
    by (force simp: ref_registry_def)
  then show ?thesis
    by (auto simp: gauge_store_def quiet_world_def board_scanner_def scanner_of_def ref_registry_def split: option.split)
qed

lemma board_facts: "facts codec_lib plain_nodes board_file [''d/a.md''] = [board_fm]"
proof -
  have "codec_able board_fm" by (simp add: board_fm_def codec_able_upd codec_able_empty)
  from codec_file_read(1) [OF this, of "[]"] codec_file_read(3) [OF this] show ?thesis
    by (simp add: board_file_def parseFrontmatterMap_def scanner_extractFrontmatter_eq DeduplicateFrontmatter_def plain_nodes_def)
qed

lemma board_pair: "openTaskPairFromMap board_fm = Some (''planning'', [])"
  by (simp add: openTaskPairFromMap_def board_fm_def stringField_def as_string_def string_or_empty_def)

abbreviation board_pass :: "openTaskPair fset \<times> gauges" where
  "board_pass \<equiv> recomputeVaultMetrics quiet_world codec_lib plain_nodes ref_registry board_scanner {||} Map.empty"

theorem single_pass_equals_both_passes_witness:
  "board_pass = recomputeOpenTaskCensus quiet_world codec_lib plain_nodes ref_registry board_scanner {||}
     (recomputeTaskAgeMetrics quiet_world codec_lib plain_nodes ref_registry board_scanner Map.empty)"
  using single_pass_equals_both_passes [OF board_store surjective_pairing surjective_pairing]
  by (auto simp: prod_eq_iff)

theorem census_is_the_board_witness:
  "snd board_pass (''agent_controller_open_tasks'', [''openclaw'', ''planning'', []]) = Some 1 \<and>
   snd board_pass (''agent_controller_open_tasks'', [''openclaw'', ''done'', []]) = None"
proof -
  have vault: "sc_vaultName board_scanner = ''openclaw''" by (simp add: board_scanner_def scanner_of_def)
  show ?thesis
    using census_is_the_board [OF board_store surjective_pairing vault [symmetric], where L = codec_lib and Y = plain_nodes and pairs = "{||}" and w = Map.empty]
    by (simp add: board_facts board_pair Let_def del: facts_simps)
qed

theorem age_buckets_partition_the_board_witness:
  "\<exists>c. (\<forall>b. snd board_pass (''agent_controller_task_age_bucket_tasks'', [''openclaw'', bucket_label b]) = Some (c b) \<and> 0 \<le> c b) \<and>
     (\<Sum>b \<leftarrow> AvailableTaskAgeBuckets. c b) = 1"
proof -
  have vault: "''openclaw'' = sc_vaultName board_scanner" by (simp add: board_scanner_def scanner_of_def)
  show ?thesis
    using conjunct1 [OF age_buckets_partition_the_board [OF board_store surjective_pairing vault refl, where L = codec_lib and Y = plain_nodes and pairs = "{||}" and w = Map.empty]]
    by (simp add: board_facts board_pair del: facts_simps)
qed

end
