(* ===== verification/ScanDiff.thy ===== *)
theory ScanDiff
  imports ScannerRepair RefCodec
begin

text \<open>
  What one cycle of \<open>pkg/scanner/vault_scanner.go\<close> reports on a vault of well-formed task files: the difference
  between the vault and the bookkeeping, written as a function of the two without the loop, and the bookkeeping after
  it, for which the same vault has no difference.
\<close>

section \<open>The difference\<close>

definition task_id_of :: "fm \<Rightarrow> string" where
  "task_id_of m = string_or_empty (as_string (fm_get m ''task_identifier''))"

definition unchanged :: "'w scan_lib \<Rightarrow> (path, fileEntry) fmap \<Rightarrow> path \<Rightarrow> bytes \<Rightarrow> bool" where
  "unchanged X h p b \<longleftrightarrow> map_option fe_hash (fmlookup h p) = Some (sha256 X b)"

definition last_phase :: "(path, fileEntry) fmap \<Rightarrow> path \<Rightarrow> string" where
  "last_phase h p = (case fmlookup h p of Some e \<Rightarrow> fe_phase e | None \<Rightarrow> [])"

text \<open>A file is reported when its bytes changed, it has a status, and it is assigned or moved to another phase.\<close>

definition reported ::
  "pure_lib \<Rightarrow> yaml_nodes \<Rightarrow> 'w scan_lib \<Rightarrow> (path, fileEntry) fmap \<Rightarrow> (path \<Rightarrow> bytes) \<Rightarrow> path \<Rightarrow> Task option" where
  "reported L Y X h F p =
     (case ParseTask L Y (F p) of
        None \<Rightarrow> None
      | Some task \<Rightarrow>
          (let m = Frontmatter task
           in if unchanged X h p (F p) \<or> lib_Status L m = [] \<or>
                 (lib_Assignee L m = [] \<and> (last_phase h p = [] \<or> last_phase h p = phaseString L m))
              then None else Some task))"

definition gone_ids :: "'w scan_lib \<Rightarrow> (path, fileEntry) fmap \<Rightarrow> path list \<Rightarrow> task_id list" where
  "gone_ids X h paths =
     List.map_filter (\<lambda>p. case fmlookup h p of
         Some e \<Rightarrow> if p \<in> set paths \<or> fe_taskIdentifier e = [] then None else Some (fe_taskIdentifier e)
       | None \<Rightarrow> None) (map_order X (fmdom h))"

section \<open>Calm vaults\<close>

text \<open>A vault that answers every listing and every read, and that reading does not change.\<close>

definition still_vault ::
  "'w world \<Rightarrow> 'w scan_lib \<Rightarrow> 'w vaultScanner \<Rightarrow> ('w \<Rightarrow> path \<Rightarrow> bytes option) \<Rightarrow> path list \<Rightarrow> (path \<Rightarrow> bytes) \<Rightarrow> bool" where
  "still_vault W X v files paths F \<longleftrightarrow>
     (\<forall>w. ctx_err W w = None) \<and>
     (\<forall>w. (\<forall>p \<in> set paths. files w p = Some (F p)) \<longrightarrow>
        (\<exists>w'. listFiles (sc_ops v) (sc_taskDir v @ ''/*.md'') w = (Inr paths, w') \<and> files w' = files w) \<and>
        (\<forall>p \<in> set paths. \<exists>w'. readFile (sc_ops v) p w = (Inr (F p), w') \<and> files w' = files w)) \<and>
     (\<forall>w. files (snd (clock_now W w)) = files w) \<and> (\<forall>n ls i w. files (set_gauge X n ls i w) = files w) \<and>
     (\<forall>n ls w. files (inc_metric W n ls w) = files w)"

text \<open>Every file parses, carries a valid identifier of its own and is not capped.\<close>

definition well_formed :: "pure_lib \<Rightarrow> yaml_nodes \<Rightarrow> path list \<Rightarrow> (path \<Rightarrow> bytes) \<Rightarrow> (path \<Rightarrow> fm) \<Rightarrow> bool" where
  "well_formed L Y paths F M \<longleftrightarrow>
     distinct paths \<and> inj_on (\<lambda>p. task_id_of (M p)) (set paths) \<and>
     (\<forall>p \<in> set paths. parseFrontmatterMap L Y (F p) = Some (M p) \<and> task_id_of (M p) \<noteq> [] \<and>
        isValidUUID L (task_id_of (M p)) \<and> \<not> isCappedIdle L (M p))"

text \<open>The bookkeeping knows no identifier of the vault under another path, has no capped task to rescue, and no file was
  assigned since it was seen without an assignee.\<close>

definition consistent :: "pure_lib \<Rightarrow> (path, fileEntry) fmap \<Rightarrow> path list \<Rightarrow> (path \<Rightarrow> fm) \<Rightarrow> bool" where
  "consistent L h paths M \<longleftrightarrow>
     (\<forall>q e. fmlookup h q = Some e \<longrightarrow>
        \<not> (fe_capped e \<and> fe_assignee e \<noteq> []) \<and>
        (\<forall>p \<in> set paths. p \<noteq> q \<longrightarrow> fe_taskIdentifier e \<noteq> task_id_of (M p)) \<and>
        (q \<in> set paths \<longrightarrow> fe_taskIdentifier e \<noteq> [] \<longrightarrow> fe_assignee e = [] \<longrightarrow> lib_Assignee L (M q) = []))"

definition entry_of :: "pure_lib \<Rightarrow> 'w scan_lib \<Rightarrow> bytes \<Rightarrow> fm \<Rightarrow> fileEntry" where
  "entry_of L X b m =
     \<lparr>fe_hash = sha256 X b, fe_taskIdentifier = task_id_of m, fe_assignee = lib_Assignee L m, fe_capped = isCappedIdle L m,
      fe_phase = phaseString L m\<rparr>"

lemma map_filter_cong: "(\<And>x. x \<in> set xs \<Longrightarrow> f x = g x) \<Longrightarrow> List.map_filter f xs = List.map_filter g xs"
  by (induction xs) (simp_all add: map_filter_simps cong: option.case_cong)

lemma map_filter_none: "List.map_filter (\<lambda>x. None) xs = []"
  by (induction xs) (simp_all add: map_filter_simps)

section \<open>One file\<close>

lemma still_vaultD:
  assumes "still_vault W X v files paths F"
  shows still_ctx: "ctx_err W w = None"
    and still_list: "\<forall>p \<in> set paths. files w p = Some (F p) \<Longrightarrow>
      \<exists>w'. listFiles (sc_ops v) (sc_taskDir v @ ''/*.md'') w = (Inr paths, w') \<and> files w' = files w"
    and still_read: "\<forall>p \<in> set paths. files w p = Some (F p) \<Longrightarrow> p \<in> set paths \<Longrightarrow>
      \<exists>w'. readFile (sc_ops v) p w = (Inr (F p), w') \<and> files w' = files w"
    and still_clock: "files (snd (clock_now W w)) = files w"
    and still_gauge: "files (set_gauge X n ls i w) = files w"
    and still_skip: "files (SkippedFilesTotal W r w) = files w"
  using assms by (simp_all add: still_vault_def SkippedFilesTotal_def)

lemma well_formedD:
  assumes "well_formed L Y paths F M" and "p \<in> set paths"
  shows "parseFrontmatterMap L Y (F p) = Some (M p)" "task_id_of (M p) \<noteq> []" "isValidUUID L (task_id_of (M p))"
    "\<not> isCappedIdle L (M p)" "\<And>q. q \<in> set paths \<Longrightarrow> task_id_of (M q) = task_id_of (M p) \<Longrightarrow> q = p"
  using assms unfolding well_formed_def inj_on_def by blast+

text \<open>A file that parses with a valid, unused identifier reaches the last part of \<open>processFile\<close>.\<close>

lemma processFile_valid:
  assumes "readFile (sc_ops v) p w = (Inr b, w1)" and "\<not> unchanged X (hashes st) p b"
    and "parseFrontmatterMap L Y b = Some m" and "task_id_of m \<noteq> []" and "isValidUUID L (task_id_of m)"
    and "isIdentifierUnique (hashes st) (task_id_of m) p"
  shows "processFile W L Y X v p st w = process_valid W L v p b (sha256 X b) m (task_id_of m) st w1"
proof -
  obtain t d d' where parse: "scanner_extractFrontmatter b = Inr t" "DeduplicateFrontmatter Y t = Inr (d, d')"
    "yaml_Unmarshal L d = Inr m"
    using assms(3) by (auto simp: parseFrontmatterMap_def split: sum.splits prod.splits)
  obtain s where s: "as_string (fm_get m ''task_identifier'') = Some s" "task_id_of m = s"
    using assms(4) by (auto simp: task_id_of_def string_or_empty_def split: option.splits)
  then obtain y where raw: "fm_get m ''task_identifier'' = Some y" by (auto simp: as_string_def split: option.splits)
  show ?thesis
    unfolding processFile_def assms(1) prod.case sum.case Let_def parse if_not_P [OF assms(2) [unfolded unchanged_def]]
    using s assms(5,6) unfolding raw by (simp add: string_or_empty_def)
qed

lemma consistent_unique:
  "consistent L h paths M \<Longrightarrow> p \<in> set paths \<Longrightarrow> isIdentifierUnique h (task_id_of (M p)) p"
  by (auto simp: consistent_def isIdentifierUnique_def)

lemma ParseTask_well_formed:
  "well_formed L Y paths F M \<Longrightarrow> p \<in> set paths \<Longrightarrow>
   ParseTask L Y (F p) = Some \<lparr>Object = [], TaskIdentifier = task_id_of (M p), Frontmatter = M p, Content = scanner_extractBody (F p)\<rparr>"
  by (frule (1) well_formedD(1), drule (1) well_formedD(2)) (simp add: ParseTask_def task_id_of_def Let_def)

lemma processFile_calm:
  assumes still: "still_vault W X v files paths F" and wf: "well_formed L Y paths F M"
    and cons: "consistent L (hashes st) paths M" and F: "\<forall>p \<in> set paths. files w p = Some (F p)" and p: "p \<in> set paths"
  shows "\<exists>w'. processFile W L Y X v p st w = ((reported L Y X (hashes st) F p, [], False),
           (if unchanged X (hashes st) p (F p) then st else remember p (entry_of L X (F p) (M p)) st), w') \<and> files w' = files w"
proof -
  obtain w1 where read: "readFile (sc_ops v) p w = (Inr (F p), w1)" and w1: "files w1 = files w"
    using still_read [OF still F p] by blast
  show ?thesis
  proof (cases "unchanged X (hashes st) p (F p)")
    case True
    then show ?thesis
      using read w1 by (auto simp: processFile_def Let_def unchanged_def reported_def split: option.split)
  next
    case False
    note run = processFile_valid [where W = W, OF read False well_formedD(1-3) [OF wf p] consistent_unique [OF cons p]]
    have noreset: "\<not> (lib_Assignee L (M p) \<noteq> [] \<and> fe_taskIdentifier e \<noteq> [] \<and> fe_assignee e = [])"
      if "fmlookup (hashes st) p = Some e" for e
      using cons p that unfolding consistent_def by blast
    have "\<exists>w'. process_valid W L v p (F p) (sha256 X (F p)) (M p) (task_id_of (M p)) st w1 =
        ((reported L Y X (hashes st) F p, [], False), remember p (entry_of L X (F p) (M p)) st, w') \<and> files w' = files w1"
      using noreset False
      by (cases "fmlookup (hashes st) p")
        (auto simp: process_valid_def Let_def reported_def ParseTask_well_formed [OF wf p] last_phase_def entry_of_def
          still_skip [OF still])
    then show ?thesis using run False w1 by simp
  qed
qed

section \<open>The loop over the files\<close>

definition scanned ::
  "pure_lib \<Rightarrow> 'w scan_lib \<Rightarrow> (path \<Rightarrow> bytes) \<Rightarrow> (path \<Rightarrow> fm) \<Rightarrow> path list \<Rightarrow> (path, fileEntry) fmap \<Rightarrow> (path, fileEntry) fmap" where
  "scanned L X F M =
     fold (\<lambda>p h. if unchanged X h p (F p) then h else fmupd p (entry_of L X (F p) (M p)) h)"

lemma consistent_upd:
  assumes "well_formed L Y paths F M" and "consistent L h paths M" and "p \<in> set paths"
  shows "consistent L (fmupd p (entry_of L X (F p) (M p)) h) paths M"
  using assms(2) well_formedD(4,5) [OF assms(1,3)] by (auto simp: consistent_def entry_of_def)

lemma scanned_consistent:
  "well_formed L Y paths F M \<Longrightarrow> set ps \<subseteq> set paths \<Longrightarrow> consistent L h paths M \<Longrightarrow> consistent L (scanned L X F M ps h) paths M"
  by (induction ps arbitrary: h) (simp_all add: scanned_def consistent_upd)

lemma scanned_lookup:
  "distinct ps \<Longrightarrow> fmlookup (scanned L X F M ps h) q =
     (if q \<in> set ps \<and> \<not> unchanged X h q (F q) then Some (entry_of L X (F q) (M q)) else fmlookup h q)"
proof (induction ps arbitrary: h)
  case (Cons p ps)
  have "unchanged X (fmupd p e h) q b = unchanged X h q b" if "q \<noteq> p" for e b using that by (simp add: unchanged_def)
  then show ?case using Cons by (auto simp: scanned_def)
qed (simp add: scanned_def)

lemma reported_upd: "q \<noteq> p \<Longrightarrow> reported L Y X (fmupd p e h) F q = reported L Y X h F q"
  by (simp add: reported_def unchanged_def last_phase_def cong: option.case_cong if_cong)

lemma process_loop_calm:
  assumes still: "still_vault W X v files paths F" and wf: "well_formed L Y paths F M"
    and "consistent L (hashes st) paths M" and "\<forall>p \<in> set paths. files w p = Some (F p)" and "set ps \<subseteq> set paths" and "distinct ps"
  shows "\<exists>w'. process_loop W L Y X v ps c wr e st w =
     (Some (c @ List.map_filter (reported L Y X (hashes st) F) ps, wr, e), st\<lparr>hashes := scanned L X F M ps (hashes st)\<rparr>, w') \<and>
     files w' = files w"
  using assms(3-)
proof (induction ps arbitrary: c st w)
  case Nil
  then show ?case by (simp add: scanned_def map_filter_def)
next
  case (Cons p ps)
  define st1 where "st1 = (if unchanged X (hashes st) p (F p) then st else remember p (entry_of L X (F p) (M p)) st)"
  have p: "p \<in> set paths" using Cons.prems by simp
  obtain w1 where run: "processFile W L Y X v p st w = ((reported L Y X (hashes st) F p, [], False), st1, w1)" and w1: "files w1 = files w"
    using processFile_calm [OF still wf Cons.prems(1,2) p] unfolding st1_def by blast
  have cons: "consistent L (hashes st1) paths M"
    using consistent_upd [OF wf Cons.prems(1) p, where X = X] Cons.prems(1) by (simp add: st1_def remember_def)
  have rep: "List.map_filter (reported L Y X (hashes st1) F) ps = List.map_filter (reported L Y X (hashes st) F) ps"
    by (rule map_filter_cong) (use Cons.prems(4) in \<open>simp add: st1_def remember_def, metis reported_upd\<close>)
  have hs: "st1\<lparr>hashes := scanned L X F M ps (hashes st1)\<rparr> = st\<lparr>hashes := scanned L X F M (p # ps) (hashes st)\<rparr>"
    by (simp add: st1_def remember_def scanned_def)
  show ?case
    using Cons.IH [OF cons, of w1 "case reported L Y X (hashes st) F p of Some t \<Rightarrow> c @ [t] | None \<Rightarrow> c"] Cons.prems w1
    unfolding rep hs by (auto simp: run still_ctx [OF still] map_filter_simps split: option.split)
qed

section \<open>One cycle\<close>

lemma collect_loop_calm:
  assumes "\<And>w. ctx_err W w = None" and "distinct ps"
  shows "\<exists>h'. collect_loop W seen ps d h w =
     (d @ List.map_filter (\<lambda>p. case fmlookup h p of
         Some e \<Rightarrow> if p \<in> seen \<or> fe_taskIdentifier e = [] then None else Some (fe_taskIdentifier e) | None \<Rightarrow> None) ps, h') \<and>
     (\<forall>q. fmlookup h' q = (if q \<in> set ps \<and> q \<notin> seen then None else fmlookup h q))"
  using assms(2)
proof (induction ps arbitrary: d h)
  case Nil
  then show ?case by (simp add: map_filter_def)
next
  case (Cons p ps)
  have cong: "List.map_filter (\<lambda>q. case fmlookup (fmdrop p h) q of
         Some e \<Rightarrow> if q \<in> seen \<or> fe_taskIdentifier e = [] then None else Some (fe_taskIdentifier e) | None \<Rightarrow> None) ps =
      List.map_filter (\<lambda>q. case fmlookup h q of
         Some e \<Rightarrow> if q \<in> seen \<or> fe_taskIdentifier e = [] then None else Some (fe_taskIdentifier e) | None \<Rightarrow> None) ps"
    by (rule map_filter_cong) (use Cons.prems in auto)
  show ?case
  proof (cases "p \<in> seen")
    case True
    then show ?thesis
      using Cons.IH [of d h] Cons.prems by (auto simp: assms(1) map_filter_simps split: option.split)
  next
    case False
    define d1 where "d1 = (let tid = (case fmlookup h p of Some e \<Rightarrow> fe_taskIdentifier e | None \<Rightarrow> []) in if tid = [] then d else d @ [tid])"
    obtain h' where "collect_loop W seen ps d1 (fmdrop p h) w = (d1 @ List.map_filter (\<lambda>q. case fmlookup h q of
         Some e \<Rightarrow> if q \<in> seen \<or> fe_taskIdentifier e = [] then None else Some (fe_taskIdentifier e) | None \<Rightarrow> None) ps, h')"
      "\<forall>q. fmlookup h' q = (if q \<in> set ps \<and> q \<notin> seen then None else fmlookup (fmdrop p h) q)"
      using Cons.IH [of d1 "fmdrop p h"] Cons.prems unfolding cong by auto
    then show ?thesis
      using False Cons.prems
      by (intro exI [of _ h']) (auto simp: assms(1) d1_def map_filter_simps Let_def split: option.split)
  qed
qed


lemma countStuck_calm:
  assumes "still_vault W X v files paths F" and "\<forall>p \<in> set paths. files w p = Some (F p)" and "set ps \<subseteq> set paths"
  shows "files (snd (countStuckPlanningTasks W L Y X v ps now k w)) = files w"
  using assms(2,3)
proof (induction ps arbitrary: k w)
  case (Cons p ps)
  obtain w1 where read: "readFile (sc_ops v) p w = (Inr (F p), w1)" and w1: "files w1 = files w"
    using still_read [OF assms(1) Cons.prems(1), of p] Cons.prems(2) by auto
  obtain b where "isStuckPlanningTask W L Y X v p now w = (b, w1)" by (simp add: isStuckPlanningTask_def read)
  then show ?case using Cons.IH [of w1] Cons.IH [of w] Cons.prems w1 by simp
qed simp

definition after_scan ::
  "pure_lib \<Rightarrow> 'w scan_lib \<Rightarrow> (path \<Rightarrow> bytes) \<Rightarrow> (path \<Rightarrow> fm) \<Rightarrow> path list \<Rightarrow> (path, fileEntry) fmap \<Rightarrow> (path, fileEntry) fmap \<Rightarrow> bool" where
  "after_scan L X F M paths h h' \<longleftrightarrow>
     (\<forall>q. fmlookup h' q =
        (if q \<notin> set paths then None
         else if unchanged X h q (F q) then fmlookup h q else Some (entry_of L X (F q) (M q))))"

lemma cycle_calm:
  assumes order: "order_ok X" and still: "still_vault W X v files paths F" and wf: "well_formed L Y paths F M"
    and cons: "consistent L (hashes st) paths M" and F: "\<forall>p \<in> set paths. files w p = Some (F p)"
  shows "\<exists>st' w'. RunCycle W L Y X v st w =
      (Some \<lparr>Changed = List.map_filter (reported L Y X (hashes st) F) paths, Deleted = gone_ids X (hashes st) paths\<rparr>, st', w') \<and>
      files w' = files w \<and> after_scan L X F M paths (hashes st) (hashes st') \<and> consistent L (hashes st') paths M"
proof -
  obtain w1 where list: "listFiles (sc_ops v) (sc_taskDir v @ ''/*.md'') w = (Inr paths, w1)" and w1: "files w1 = files w"
    using still_list [OF still F] by blast
  have "distinct (map_order X (fmdom (hashes st)))" "set (map_order X (fmdom (hashes st))) = fmdom' (hashes st)"
    using order by (simp_all add: order_ok_def fmdom'_alt_def)
  then obtain h where col: "collectDeleted W X (set paths) (hashes st) w1 = (gone_ids X (hashes st) paths, h)"
    and h: "\<And>q. fmlookup h q = (if q \<in> set paths then fmlookup (hashes st) q else None)"
    using collect_loop_calm [where W = W, OF still_ctx [OF still],
        of "map_order X (fmdom (hashes st))" "set paths" "[]" "hashes st" w1]
    by (auto simp: collectDeleted_def gone_ids_def fmdom'_notD)
  have h_eq: "reported L Y X h F p = reported L Y X (hashes st) F p" "unchanged X h p b = unchanged X (hashes st) p b"
    if "p \<in> set paths" for p b
    using that h by (simp_all add: reported_def unchanged_def last_phase_def cong: option.case_cong if_cong)
  have cons_h: "consistent L h paths M" using cons h by (auto simp: consistent_def split: if_splits)
  have F1: "\<forall>p \<in> set paths. files w1 p = Some (F p)" using F w1 by simp
  have distinct: "distinct paths" using wf by (simp add: well_formed_def)
  define st2 where "st2 = st\<lparr>hashes := scanned L X F M paths h\<rparr>"
  have "consistent L (hashes (st\<lparr>hashes := h\<rparr>)) paths M" using cons_h by simp
  from process_loop_calm [OF still wf this F1 order_refl distinct, of "[]" "[]" False]
  obtain w2 where loop: "process_loop W L Y X v paths [] [] False (st\<lparr>hashes := h\<rparr>) w1 =
      (Some (List.map_filter (reported L Y X (hashes st) F) paths, [], False), st2, w2)" and w2: "files w2 = files w1"
    unfolding st2_def by (auto simp: map_filter_cong [OF h_eq(1)])
  have cons2: "consistent L (hashes st2) paths M"
    using scanned_consistent [OF wf order_refl cons_h] by (simp add: st2_def)
  then have "filter (\<lambda>p. case fmlookup (hashes st2) p of Some entry \<Rightarrow> fe_capped entry \<and> fe_assignee entry \<noteq> [] | None \<Rightarrow> False)
      (map_order X (fmdom (hashes st2))) = []"
    by (auto simp: consistent_def filter_empty_conv split: option.split)
  then have esc: "escalateCappedIdleTasks W L X v st2 w2 = ((0, False), st2, w2)"
    unfolding escalateCappedIdleTasks_def Let_def by simp
  obtain now w3 where clock: "clock_now W w2 = (now, w3)" by (meson surj_pair)
  have w3: "files w3 = files w2" using still_clock [OF still, of w2] clock by simp
  obtain k w4 where stuck: "countStuckPlanningTasks W L Y X v paths now 0 w3 = (k, w4)" by (meson surj_pair)
  have "files w4 = files w3"
    using countStuck_calm [OF still _ order_refl, of w3 L Y now 0] F w1 w2 w3 stuck by simp
  moreover have "after_scan L X F M paths (hashes st) (hashes (publishIndex X st2))"
    unfolding after_scan_def
  proof
    fix q
    show "fmlookup (hashes (publishIndex X st2)) q = (if q \<notin> set paths then None
         else if unchanged X (hashes st) q (F q) then fmlookup (hashes st) q else Some (entry_of L X (F q) (M q)))"
      using h [of q] h_eq(2) [of q "F q"] scanned_lookup [OF distinct, of L X F M h q]
      by (cases "q \<in> set paths") (simp_all add: st2_def publishIndex_def)
  qed
  moreover have "consistent L (hashes (publishIndex X st2)) paths M" using cons2 by (simp add: publishIndex_def)
  ultimately show ?thesis
    using w1 w2 w3
    by (simp add: RunCycle_def Pull_def scanFiles_def list col loop esc clock stuck still_gauge [OF still])
qed

definition settled :: "'w scan_lib \<Rightarrow> (path \<Rightarrow> bytes) \<Rightarrow> path list \<Rightarrow> (path, fileEntry) fmap \<Rightarrow> bool" where
  "settled X F paths h \<longleftrightarrow> (\<forall>p \<in> set paths. unchanged X h p (F p)) \<and> (\<forall>q. q \<notin> set paths \<longrightarrow> fmlookup h q = None)"

lemma settled_after: "after_scan L X F M paths h h' \<Longrightarrow> settled X F paths h'"
  by (simp add: after_scan_def settled_def unchanged_def entry_of_def)

lemma settled_diff:
  assumes "settled X F paths h"
  shows "List.map_filter (reported L Y X h F) paths = []" "gone_ids X h paths = []" "after_scan L X F M paths h h' \<Longrightarrow> h' = h"
proof -
  have "List.map_filter (reported L Y X h F) paths = List.map_filter (\<lambda>p. None) paths"
    by (rule map_filter_cong) (use assms in \<open>simp add: settled_def reported_def Let_def split: option.split\<close>)
  then show "List.map_filter (reported L Y X h F) paths = []" by (simp add: map_filter_none)
  have "gone_ids X h paths = List.map_filter (\<lambda>p. None) (map_order X (fmdom h))"
    unfolding gone_ids_def by (rule map_filter_cong) (use assms in \<open>auto simp: settled_def split: option.splits\<close>)
  then show "gone_ids X h paths = []" by (simp add: map_filter_none)
  assume after: "after_scan L X F M paths h h'"
  show "h' = h" by (rule fmap_ext) (use after assms in \<open>simp add: after_scan_def settled_def\<close>)
qed

lemma settled_cycle:
  assumes "order_ok X" and "still_vault W X v files paths F" and "well_formed L Y paths F M"
    and "consistent L (hashes st) paths M" and "\<forall>p \<in> set paths. files w p = Some (F p)" and "settled X F paths (hashes st)"
  shows "\<exists>st' w'. RunCycle W L Y X v st w = (Some \<lparr>Changed = [], Deleted = []\<rparr>, st', w') \<and> files w' = files w \<and> hashes st' = hashes st"
  using cycle_calm [OF assms(1-5)] settled_diff [OF assms(6)] by metis

text \<open>C8: A cycle over a vault of well-formed task files reports exactly the difference to the bookkeeping: as changed, in
  the order of the listing, the tasks whose bytes differ from the recorded hash, that have a status, and that are
  assigned or moved to another phase; as deleted, the identifiers of the recorded files that are gone. It writes
  nothing, and records the vault it saw: the next cycle over the same vault reports nothing.\<close>

theorem cycle_reports_exactly_the_changes:
  assumes "order_ok X" and "still_vault W X v files paths F" and "well_formed L Y paths F M"
    and "consistent L (hashes st) paths M" and "\<forall>p \<in> set paths. files w p = Some (F p)"
  shows "\<exists>st' w'. RunCycle W L Y X v st w =
      (Some \<lparr>Changed = List.map_filter (reported L Y X (hashes st) F) paths, Deleted = gone_ids X (hashes st) paths\<rparr>, st', w') \<and>
      files w' = files w \<and>
      (\<exists>st'' w''. RunCycle W L Y X v st' w' = (Some \<lparr>Changed = [], Deleted = []\<rparr>, st'', w'') \<and>
         files w'' = files w \<and> hashes st'' = hashes st')"
proof -
  obtain st1 w1 where one: "RunCycle W L Y X v st w =
      (Some \<lparr>Changed = List.map_filter (reported L Y X (hashes st) F) paths, Deleted = gone_ids X (hashes st) paths\<rparr>, st1, w1)"
      "files w1 = files w" "after_scan L X F M paths (hashes st) (hashes st1)" "consistent L (hashes st1) paths M"
    using cycle_calm [OF assms] by blast
  then have "\<forall>p \<in> set paths. files w1 p = Some (F p)" using assms(5) by simp
  from settled_cycle [OF assms(1-3) one(4) this settled_after [OF one(3)]] one(1,2) show ?thesis by simp
qed

section \<open>Reference instances\<close>

text \<open>A vault with two tasks, one of them edited since the last cycle, and a third that is gone.\<close>

definition diff_fm :: "string \<Rightarrow> fm" where
  "diff_fm tid = fmupd ''status'' (VStr ''in_progress'') (fmupd ''phase'' (VStr ''planning'')
     (fmupd ''assignee'' (VStr ''agent'') (fmupd ''task_identifier'' (VStr tid) fmempty)))"

definition diff_M :: "path \<Rightarrow> fm" where
  "diff_M p = diff_fm (replicate 36 (if p = ''d/a.md'' then CHR ''u'' else CHR ''v''))"

definition diff_F :: "path \<Rightarrow> bytes" where
  "diff_F p = codec_file (diff_M p) []"

definition diff_vault :: mem where
  "diff_vault = \<lparr>mem_files = [(''d/a.md'', diff_F ''d/a.md''), (''d/b.md'', diff_F ''d/b.md'')], mem_clock = 0, mem_metrics = []\<rparr>"

definition diff_hashes :: "(path, fileEntry) fmap" where
  "diff_hashes = fmap_of_list
     [(''d/a.md'', \<lparr>fe_hash = ''old'', fe_taskIdentifier = replicate 36 (CHR ''u''), fe_assignee = ''agent'', fe_capped = False, fe_phase = ''planning''\<rparr>),
      (''d/b.md'', \<lparr>fe_hash = diff_F ''d/b.md'', fe_taskIdentifier = replicate 36 (CHR ''v''), fe_assignee = ''agent'', fe_capped = False, fe_phase = ''planning''\<rparr>),
      (''d/c.md'', \<lparr>fe_hash = ''x'', fe_taskIdentifier = ''w'', fe_assignee = [], fe_capped = False, fe_phase = []\<rparr>)]"

abbreviation diff_lib :: "mem scan_lib" where
  "diff_lib \<equiv> scan_lib_of (\<lambda>m. (''n'', m))"

abbreviation diff_scanner :: "mem vaultScanner" where
  "diff_scanner \<equiv> fst (NewGitRestVaultScanner ref_world (NewGitClient (NewGitRestClient ''h'' [] []) ''/v'') ''d'' True ''vault'')"

lemma diff_able: "codec_able (diff_fm tid)"
  by (simp add: diff_fm_def codec_able_upd codec_able_empty)


definition diff_files :: "mem \<Rightarrow> path \<Rightarrow> bytes option" where
  "diff_files m p = (if mem_files m = mem_files diff_vault then map_of (mem_files m) p else None)"

abbreviation diff_paths :: "path list" where
  "diff_paths \<equiv> [''d/a.md'', ''d/b.md'']"

lemma diff_small: "p \<in> set diff_paths \<Longrightarrow> length (diff_F p) \<le> maxBody"
proof -
  have "length (diff_F ''d/a.md'') < 1000" "length (diff_F ''d/b.md'') < 1000" by code_simp+
  then show "p \<in> set diff_paths \<Longrightarrow> length (diff_F p) \<le> maxBody" by (auto simp: maxBody_def)
qed

lemma diff_snapshot:
  "snapshot ref_world (NewGitClient (NewGitRestClient ''h'' [] []) ''/v'') glob (\<lambda>m. mem_files m = mem_files diff_vault)
     (mem_read (mem_files diff_vault)) diff_paths"
proof -
  have "map fst (mem_files diff_vault) = diff_paths" by (simp add: diff_vault_def)
  moreover have "\<forall>(p, b) \<in> set (mem_files diff_vault). p \<noteq> [] \<and> nl \<notin> set p \<and> length b \<le> maxBody"
    using diff_small by (simp add: diff_vault_def)
  ultimately show ?thesis
    using mem_snapshot [of "mem_files diff_vault" "NewGitRestClient ''h'' [] []" "''/v''" glob]
    by (simp add: maxBody_def diff_vault_def)
qed

lemma diff_read: "p \<in> set diff_paths \<Longrightarrow> mem_read (mem_files diff_vault) p = Inr (diff_F p)"
  by (auto simp: mem_read_def diff_vault_def wrap_res_def)

lemma diff_still: "still_vault ref_world diff_lib diff_scanner diff_files diff_paths diff_F"
proof -
  have seen: "mem_files m = mem_files diff_vault" if "\<forall>p \<in> set diff_paths. diff_files m p = Some (diff_F p)" for m
    using that by (auto simp: diff_files_def split: if_splits)
  have list: "\<exists>m'. listFiles (sc_ops diff_scanner) (sc_taskDir diff_scanner @ ''/*.md'') m = (Inr diff_paths, m') \<and> diff_files m' = diff_files m"
    if "mem_files m = mem_files diff_vault" for m
    using diff_snapshot that unfolding snapshot_def
    by (intro exI [of _ "snd (listFiles (sc_ops diff_scanner) (sc_taskDir diff_scanner @ ''/*.md'') m)"])
      (simp add: NewGitRestVaultScanner_def diff_files_def fun_eq_iff prod_eq_iff)
  have read: "\<exists>m'. readFile (sc_ops diff_scanner) p m = (Inr (diff_F p), m') \<and> diff_files m' = diff_files m"
    if "mem_files m = mem_files diff_vault" "p \<in> set diff_paths" for m p
    using diff_snapshot that(1) diff_read [OF that(2)] unfolding snapshot_def
    by (intro exI [of _ "snd (readFile (sc_ops diff_scanner) p m)"])
      (simp add: NewGitRestVaultScanner_def diff_files_def fun_eq_iff prod_eq_iff)
  have rest: "ctx_err ref_world m = None" "mem_files (snd (clock_now ref_world m)) = mem_files m"
    "mem_files (set_gauge diff_lib n ls i m) = mem_files m" "mem_files (inc_metric ref_world n ls m) = mem_files m" for n ls i m
    by (simp_all add: mem_world_def scan_lib_of_def)
  have kept: "diff_files m' = diff_files m" if "mem_files m' = mem_files m" for m m'
    using that by (simp add: diff_files_def fun_eq_iff)
  show ?thesis
    unfolding still_vault_def
    by (intro conjI allI impI ballI)
      (rule rest, erule list [OF seen], erule (1) read [OF seen], rule kept [OF rest(2)], rule kept [OF rest(3)], rule kept [OF rest(4)])
qed

lemma diff_task_id: "task_id_of (diff_M p) = replicate 36 (if p = ''d/a.md'' then CHR ''u'' else CHR ''v'')"
  by (simp add: task_id_of_def diff_M_def diff_fm_def string_or_empty_def as_string_def)

lemma diff_well_formed: "well_formed codec_lib plain_nodes diff_paths diff_F diff_M"
proof -
  have "parseFrontmatterMap codec_lib plain_nodes (diff_F p) = Some (diff_M p)" for p
    using codec_file_read(1,3) [OF diff_able]
    by (simp add: diff_F_def diff_M_def parseFrontmatterMap_def scanner_extractFrontmatter_eq DeduplicateFrontmatter_def plain_nodes_def)
  moreover have "\<not> isCappedIdle codec_lib (diff_M p)" for p
    by (simp add: isCappedIdle_def codec_lib_def ref_lib_def ref_count_def diff_M_def diff_fm_def TriggerCapEngaged_def)
  ultimately show ?thesis
    by (simp add: well_formed_def isValidUUID_def codec_lib_def ref_lib_def diff_task_id)
qed

lemma diff_consistent: "consistent codec_lib diff_hashes diff_paths diff_M"
proof -
  have "lib_Assignee codec_lib (diff_M p) = ''agent''" for p
    by (simp add: codec_lib_def ref_lib_def diff_M_def diff_fm_def string_or_empty_def as_string_def)
  moreover have "\<forall>(q, e) \<in> set [(''d/a.md'', e1), (''d/b.md'', e2), (''d/c.md'', e3)]. P q e \<Longrightarrow>
      \<forall>q e. fmlookup (fmap_of_list [(''d/a.md'', e1), (''d/b.md'', e2), (''d/c.md'', e3)]) q = Some e \<longrightarrow> P q e" for e1 e2 e3 P
    by (auto simp: fmlookup_of_list split: if_splits)
  moreover have "''w'' \<noteq> replicate 36 c" for c :: char
    by (rule notI, drule arg_cong [where f = length]) simp
  ultimately show ?thesis
    unfolding consistent_def diff_hashes_def by (simp add: diff_task_id fmlookup_of_list)
qed

lemma diff_changes:
  "\<exists>t. List.map_filter (reported codec_lib plain_nodes diff_lib diff_hashes diff_F) diff_paths = [t] \<and>
     TaskIdentifier t = replicate 36 (CHR ''u'')"
  "gone_ids diff_lib diff_hashes diff_paths = [''w'']"
proof -
  have fields: "lib_Status codec_lib (diff_M p) = ''in_progress''" "lib_Assignee codec_lib (diff_M p) = ''agent''" for p
    by (simp_all add: codec_lib_def ref_lib_def diff_M_def diff_fm_def string_or_empty_def as_string_def)
  have "''old'' \<noteq> diff_F ''d/a.md''" by code_simp
  then have "unchanged diff_lib diff_hashes ''d/a.md'' (diff_F ''d/a.md'') = False" "unchanged diff_lib diff_hashes ''d/b.md'' (diff_F ''d/b.md'')"
    by (simp_all add: unchanged_def diff_hashes_def fmlookup_of_list scan_lib_of_def)
  then show "\<exists>t. List.map_filter (reported codec_lib plain_nodes diff_lib diff_hashes diff_F) diff_paths = [t] \<and>
      TaskIdentifier t = replicate 36 (CHR ''u'')"
    by (simp add: map_filter_simps reported_def ParseTask_well_formed [OF diff_well_formed] fields diff_task_id)
  have "map_order diff_lib (fmdom diff_hashes) = [''d/a.md'', ''d/b.md'', ''d/c.md'']" by code_simp
  then show "gone_ids diff_lib diff_hashes diff_paths = [''w'']"
    by (simp add: gone_ids_def diff_hashes_def map_filter_simps fmlookup_of_list)
qed

lemma diff_present: "\<forall>p \<in> set diff_paths. diff_files diff_vault p = Some (diff_F p)"
  by (simp add: diff_files_def) (simp add: diff_vault_def)

theorem cycle_reports_exactly_the_changes_witness:
  "\<exists>t st w. RunCycle ref_world codec_lib plain_nodes diff_lib diff_scanner \<lparr>hashes = diff_hashes, scan_index = fmempty\<rparr> diff_vault =
     (Some \<lparr>Changed = [t], Deleted = [''w'']\<rparr>, st, w) \<and> TaskIdentifier t = replicate 36 (CHR ''u'')"
  using cycle_reports_exactly_the_changes [OF order_ok_scan_lib_of diff_still diff_well_formed _ diff_present,
      where st = "\<lparr>hashes = diff_hashes, scan_index = fmempty\<rparr>"] diff_consistent diff_changes by auto

end
