(* ===== verification/SyncLoop.thy ===== *)
theory SyncLoop
  imports Publisher MetricsPass ScanDiff
begin

text \<open>
  The loops that connect the scanner to the publisher: the select loop of the scanner (\<open>Run\<close> of
  \<open>pkg/scanner/vault_scanner.go\<close>) and the sync loop (\<open>pkg/sync/sync_loop.go\<close>). They share a channel that holds one
  scan result; a trigger is a channel that holds one request. Their interleavings are the runs of a step relation,
  with the result the sync loop has received and not yet published as part of the state.
\<close>

section \<open>Publishing a result\<close>

record 'w syncLoop =
  sl_PublishChanged :: "Task \<Rightarrow> 'w \<Rightarrow> go_error option \<times> 'w"
  sl_PublishDeleted :: "task_id \<Rightarrow> 'w \<Rightarrow> go_error option \<times> 'w"

fun changed_loop :: "'w world \<Rightarrow> 'w syncLoop \<Rightarrow> Task list \<Rightarrow> 'w \<Rightarrow> go_error option \<times> 'w" where
  "changed_loop W s [] w = (None, w)"
| "changed_loop W s (task # tasks) w =
     (case sl_PublishChanged s task w of
        (Some e, w) \<Rightarrow> (Some (Wrapf e ''publish changed task %s'' [TaskIdentifier task]), w)
      | (None, w) \<Rightarrow> changed_loop W s tasks (TasksPublishedTotal W ''changed'' w))"

fun deleted_loop :: "'w world \<Rightarrow> 'w syncLoop \<Rightarrow> task_id list \<Rightarrow> 'w \<Rightarrow> go_error option \<times> 'w" where
  "deleted_loop W s [] w = (None, w)"
| "deleted_loop W s (tid # tids) w =
     (case sl_PublishDeleted s tid w of
        (Some e, w) \<Rightarrow> (Some (Wrapf e ''publish deleted task %s'' [tid]), w)
      | (None, w) \<Rightarrow> deleted_loop W s tids (TasksPublishedTotal W ''deleted'' w))"

definition processResult :: "'w world \<Rightarrow> 'w syncLoop \<Rightarrow> ScanResult \<Rightarrow> 'w \<Rightarrow> go_error option \<times> 'w" where
  "processResult W s result w =
     (let w = (if Changed result \<noteq> [] \<or> Deleted result \<noteq> [] then ScanCyclesTotal W ''changes'' w
               else ScanCyclesTotal W ''no_changes'' w)
      in case changed_loop W s (Changed result) w of
           (Some e, w) \<Rightarrow> (Some e, w)
         | (None, w) \<Rightarrow> deleted_loop W s (Deleted result) w)"

section \<open>The loops\<close>

record loop_state =
  ls_scan :: scan_state
  ls_pairs :: "openTaskPair fset"
  ls_trigger :: bool
  ls_results :: "ScanResult option"
  ls_received :: "ScanResult option"
  ls_failed :: "go_error option"

record loop_config =
  lc_pollInterval :: duration
  lc_metricsInterval :: duration

definition Trigger :: "loop_state \<Rightarrow> loop_state" where
  "Trigger s = (if ls_trigger s then s else s\<lparr>ls_trigger := True\<rparr>)"

text \<open>The send that ends a cycle: it succeeds when the channel is empty and is skipped otherwise.\<close>

definition offer :: "ScanResult option \<Rightarrow> loop_state \<Rightarrow> loop_state" where
  "offer result s =
     (case result of
        None \<Rightarrow> s
      | Some r \<Rightarrow> (case ls_results s of None \<Rightarrow> s\<lparr>ls_results := Some r\<rparr> | Some _ \<Rightarrow> s))"

definition run_cycle ::
  "'w world \<Rightarrow> pure_lib \<Rightarrow> yaml_nodes \<Rightarrow> 'w metrics_lib \<Rightarrow> 'w vaultScanner \<Rightarrow> loop_state \<Rightarrow> 'w \<Rightarrow> loop_state \<times> 'w" where
  "run_cycle W L Y X v s w =
     (case RunCycle W L Y (scan_lib.truncate X) v (ls_scan s) w of
        (result, st, w) \<Rightarrow> (offer result (s\<lparr>ls_scan := st\<rparr>), w))"

definition metrics_pass ::
  "'w world \<Rightarrow> pure_lib \<Rightarrow> yaml_nodes \<Rightarrow> 'w metrics_lib \<Rightarrow> 'w vaultScanner \<Rightarrow> loop_state \<Rightarrow> 'w \<Rightarrow> loop_state \<times> 'w" where
  "metrics_pass W L Y X v s w =
     (case recomputeVaultMetrics W L Y X v (ls_pairs s) w of (pairs, w) \<Rightarrow> (s\<lparr>ls_pairs := pairs\<rparr>, w))"

text \<open>What \<open>Run\<close> does before its loop.\<close>

definition run_start ::
  "'w world \<Rightarrow> pure_lib \<Rightarrow> yaml_nodes \<Rightarrow> 'w metrics_lib \<Rightarrow> 'w vaultScanner \<Rightarrow> loop_config \<Rightarrow> loop_state \<Rightarrow> 'w \<Rightarrow> loop_state \<times> 'w" where
  "run_start W L Y X v c s w =
     (let (s, w) = (if 0 < lc_pollInterval c then (s, w)
                    else case buildIndex W L v (ls_scan s) w of (st, w) \<Rightarrow> (s\<lparr>ls_scan := st\<rparr>, w))
      in if 0 < lc_metricsInterval c then metrics_pass W L Y X v s w else (s, w))"

text \<open>One step of the two loops or of an HTTP request that triggers a scan. A ticker exists only for a positive
  interval. A failed publish ends the sync loop: its result stays received, and only the scanner may still take steps
  before it notices the cancellation.\<close>

inductive sync_step ::
  "'w world \<Rightarrow> pure_lib \<Rightarrow> yaml_nodes \<Rightarrow> 'w metrics_lib \<Rightarrow> 'w vaultScanner \<Rightarrow> loop_config \<Rightarrow> 'w syncLoop
     \<Rightarrow> loop_state \<times> 'w \<Rightarrow> loop_state \<times> 'w \<Rightarrow> bool"
  for W L Y X v c p where
  tick: "0 < lc_pollInterval c \<Longrightarrow> run_cycle W L Y X v s w = (s', w') \<Longrightarrow> sync_step W L Y X v c p (s, w) (s', w')"
| triggered: "ls_trigger s \<Longrightarrow> run_cycle W L Y X v (s\<lparr>ls_trigger := False\<rparr>) w = (s', w') \<Longrightarrow>
    sync_step W L Y X v c p (s, w) (s', w')"
| metrics: "0 < lc_metricsInterval c \<Longrightarrow> metrics_pass W L Y X v s w = (s', w') \<Longrightarrow> sync_step W L Y X v c p (s, w) (s', w')"
| receive: "ls_received s = None \<Longrightarrow> ls_results s = Some r \<Longrightarrow>
    sync_step W L Y X v c p (s, w) (s\<lparr>ls_results := None, ls_received := Some r\<rparr>, w)"
| publish: "ls_failed s = None \<Longrightarrow> ls_received s = Some r \<Longrightarrow> processResult W p r w = (None, w') \<Longrightarrow>
    sync_step W L Y X v c p (s, w) (s\<lparr>ls_received := None\<rparr>, w')"
| fail: "ls_failed s = None \<Longrightarrow> ls_received s = Some r \<Longrightarrow> processResult W p r w = (Some e, w') \<Longrightarrow>
    sync_step W L Y X v c p (s, w) (s\<lparr>ls_failed := Some (Wrapf e ''process scan result'' [])\<rparr>, w')"
| request: "sync_step W L Y X v c p (s, w) (Trigger s, w)"

inductive_cases sync_stepE: "sync_step W L Y X v c p (s, w) (s', w')"

section \<open>Cycles move the world forward\<close>

context scanner_world
begin

lemma process_loop_R: "R w (snd (snd (process_loop W L Y X v ps c wr e st w)))"
proof (induction ps arbitrary: c wr e st w)
  case Nil
  then show ?case by (simp add: R_refl)
next
  case (Cons p ps)
  obtain t wrote werr st1 w1 where run: "processFile W L Y X v p st w = ((t, wrote, werr), st1, w1)" by (metis surj_pair)
  have "R w w1" using processFile_R [of w L Y p st] run by simp
  then have "R w (snd (snd (process_loop W L Y X v ps c wr e st1 w1)))" for c wr e by (rule R_trans) (rule Cons.IH)
  then show ?case by (simp add: run R_refl)
qed

lemma scanFiles_R: "R w (snd (snd (scanFiles W L Y X v st w)))"
proof -
  obtain r w1 where list: "listFiles (sc_ops v) (sc_taskDir v @ ''/*.md'') w = (r, w1)" by (meson surj_pair)
  have w1: "R w w1" using list_R [of w "sc_taskDir v @ ''/*.md''"] list by simp
  show ?thesis
  proof (cases r)
    case (Inr paths)
    obtain d h where col: "collectDeleted W X (set paths) (hashes st) w1 = (d, h)" by (meson surj_pair)
    obtain out st2 w2 where loop: "process_loop W L Y X v paths [] [] False (st\<lparr>hashes := h\<rparr>) w1 = (out, st2, w2)" by (metis surj_pair)
    have w2: "R w w2" using process_loop_R [of w1 L Y paths "[]" "[]" False "st\<lparr>hashes := h\<rparr>"] loop R_trans [OF w1] by simp
    obtain n e st3 w3 where esc: "escalateCappedIdleTasks W L X v st2 w2 = ((n, e), st3, w3)" by (metis surj_pair)
    have w3: "R w w3" using escalateCappedIdleTasks_R [of w2 L st2] esc R_trans [OF w2] by simp
    obtain now w4 where clock: "clock_now W w3 = (now, w4)" by (meson surj_pair)
    have w4: "R w w4" using clock_R [of w3] clock R_trans [OF w3] by simp
    obtain k w5 where stuck: "countStuckPlanningTasks W L Y X v paths now 0 w4 = (k, w5)" by (meson surj_pair)
    have w5: "R w w5" using countStuck_R [of w4 L Y paths now 0] stuck R_trans [OF w4] by simp
    show ?thesis
      using w2 R_trans [OF w5 gauge_R]
      by (cases out) (simp_all add: scanFiles_def list Inr col loop esc clock stuck split: prod.split)
  qed (simp add: scanFiles_def list w1)
qed

lemma RunCycle_R: "R w (snd (snd (RunCycle W L Y X v st w)))"
proof -
  obtain c d wr e st1 w1 where scan: "scanFiles W L Y X v st w = ((c, d, wr, e), st1, w1)" by (metis surj_pair)
  have "R w w1" using scanFiles_R [of w L Y st] scan by simp
  then show ?thesis by (simp add: RunCycle_def Pull_def CommitAndPush_def scan Let_def)
qed

lemma buildIndex_R: "R w (snd (buildIndex W L v st w))"
proof -
  have loop: "R w (snd (build_loop W L v ps i c w))" for ps i c w
  proof (induction ps arbitrary: i c w)
    case Nil
    then show ?case by (simp add: R_refl)
  next
    case (Cons p ps)
    obtain r w1 where read: "readFile (sc_ops v) p w = (r, w1)" by (meson surj_pair)
    have "R w w1" using read_R [of w p] read by simp
    then have "R w (snd (build_loop W L v ps i c w1))" for i c by (rule R_trans) (rule Cons.IH)
    then show ?case by (simp add: read R_refl Let_def split: sum.split)
  qed
  obtain r w1 where list: "listFiles (sc_ops v) (sc_taskDir v @ ''/*.md'') w = (r, w1)" by (meson surj_pair)
  have w1: "R w w1" using list_R [of w "sc_taskDir v @ ''/*.md''"] list by simp
  show ?thesis
  proof (cases r)
    case (Inr paths)
    obtain out w2 where run: "build_loop W L v paths fmempty [] w1 = (out, w2)" by (meson surj_pair)
    have w2: "R w w2" using loop [of w1 paths fmempty "[]"] run R_trans [OF w1] by simp
    have "R w (snd (snd (escalateCappedPaths W L v ps 0 False st w2)))" for ps st
      by (rule R_trans [OF w2 escalateCappedPaths_R])
    then show ?thesis
      using w2 by (auto simp: buildIndex_def list Inr run split: option.split prod.split) (metis snd_conv)
  qed (simp add: buildIndex_def list w1)
qed

end

locale metrics_world = scanner_world W R "scan_lib.truncate M" v
  for W :: "'w world" and R and M :: "'w metrics_lib" and v +
  assumes delete_R: "R w (delete_series M n ls w)"
begin

lemma set_R: "R w (set_gauge M n ls i w)"
  using gauge_R [of w n ls i] by (simp add: scan_lib.truncate_def)

lemma fold_R:
  assumes "\<And>x w. R w (f x w)"
  shows "R w (fold f xs w)"
proof (induction xs arbitrary: w)
  case (Cons x xs)
  show ?case unfolding fold.simps comp_apply by (rule R_trans [OF assms Cons.IH])
qed (simp add: R_refl)

lemma publish_ages_R: "R w (publishTaskAgeCounts M acc vault w)"
  unfolding publishTaskAgeCounts_def Let_def by (rule R_trans [OF set_R]) (rule fold_R, rule set_R)

lemma publish_census_R: "R w (snd (publishCensusCounts M vault counts pairs w))"
proof -
  have "R w (if p |\<in>| F then w else delete_series M n ls w)" for p F n ls w
    by (simp add: R_refl delete_R)
  then show ?thesis
    unfolding publishCensusCounts_def Let_def snd_conv
    by (intro R_trans [OF fold_R [OF set_R] fold_R])
qed

lemma vault_loop_R: "R w (snd (vault_loop W L Y M v now ps acc counts w))"
proof (induction ps arbitrary: acc counts w)
  case Nil
  then show ?case by (simp add: R_refl)
next
  case (Cons p ps)
  obtain r w1 where read: "readFile (sc_ops v) p w = (r, w1)" by (meson surj_pair)
  have "R w w1" using read_R [of w p] read by simp
  then have "R w (snd (vault_loop W L Y M v now ps acc counts w1))" for acc counts by (rule R_trans) (rule Cons.IH)
  then show ?case by (simp add: read R_refl split: sum.split option.split)
qed

lemma recompute_R: "R w (snd (recomputeVaultMetrics W L Y M v pairs w))"
proof -
  obtain now w1 where clock: "clock_now W w = (now, w1)" by (meson surj_pair)
  have w1: "R w w1" using clock_R [of w] clock by simp
  obtain r w2 where list: "listFiles (sc_ops v) (sc_taskDir v @ ''/*.md'') w1 = (r, w2)" by (meson surj_pair)
  have w2: "R w w2" using list_R [of w1 "sc_taskDir v @ ''/*.md''"] list R_trans [OF w1] by simp
  show ?thesis
  proof (cases r)
    case (Inr paths)
    obtain out w3 where loop: "vault_loop W L Y M v now paths (fmempty, 0) fmempty w2 = (out, w3)" by (meson surj_pair)
    have w3: "R w w3" using vault_loop_R [of w2 L Y now paths "(fmempty, 0)" fmempty] loop R_trans [OF w2] by simp
    have "R w (snd (publishCensusCounts M vault counts pairs (publishTaskAgeCounts M acc vault w3)))" for vault counts acc
      by (rule R_trans [OF R_trans [OF w3 publish_ages_R] publish_census_R])
    then show ?thesis
      using w3 by (cases out) (simp_all add: recomputeVaultMetrics_def clock list Inr loop split: prod.split)
  qed (simp add: recomputeVaultMetrics_def clock list w2)
qed

lemma run_cycle_R: "run_cycle W L Y M v s w = (s', w') \<Longrightarrow> R w w'"
  using RunCycle_R [of w L Y "ls_scan s"] by (auto simp: run_cycle_def split: prod.splits)

lemma metrics_pass_R: "metrics_pass W L Y M v s w = (s', w') \<Longrightarrow> R w w'"
  using recompute_R [of w L Y "ls_pairs s"] by (auto simp: metrics_pass_def split: prod.splits)

lemma run_start_R: "run_start W L Y M v c s w = (s', w') \<Longrightarrow> R w w'"
  using buildIndex_R [of w L "ls_scan s"] metrics_pass_R R_trans R_refl
  by (auto simp: run_start_def split: prod.splits if_splits)

end

text \<open>The loops over git-rest do not touch the recorded events.\<close>

definition recorded_metrics :: "'w metrics_lib \<Rightarrow> ('w \<times> 'l list) metrics_lib" where
  "recorded_metrics M =
     \<lparr>sha256 = sha256 M, new_uuid = (\<lambda>(w, t). case new_uuid M w of (u, w) \<Rightarrow> (u, (w, t))), map_order = map_order M,
      parse_RFC3339 = parse_RFC3339 M, set_gauge = (\<lambda>n ls i (w, t). (set_gauge M n ls i w, t)),
      delete_series = (\<lambda>n ls (w, t). (delete_series M n ls w, t)), pair_order = pair_order M\<rparr>"

abbreviation recorded_scanner :: "'w world \<Rightarrow> gitClient \<Rightarrow> string \<Rightarrow> bool \<Rightarrow> string \<Rightarrow> ('w \<times> 'l list) vaultScanner" where
  "recorded_scanner W git taskDir autoInject vaultName \<equiv>
     fst (NewGitRestVaultScanner (recorded_world W) git taskDir autoInject vaultName)"

interpretation sink_loops: metrics_world "recorded_world W" "\<lambda>u v. snd u = (snd v :: 'ev event list)" "recorded_metrics M"
  "recorded_scanner W git taskDir autoInject vaultName"
  for W :: "'w world" and M git taskDir autoInject vaultName
proof (unfold_locales, goal_cases)
  case (1 w g)
  then show ?case using sink.List_files_R by (simp add: NewGitRestVaultScanner_def ListFiles_def)
next
  case (2 w p)
  then show ?case using sink.ReadFile_R by (simp add: NewGitRestVaultScanner_def)
next
  case (3 w p b)
  then show ?case using sink.WriteFile_R by (simp add: NewGitRestVaultScanner_def)
qed (simp_all add: recorded_metrics_def scan_lib.truncate_def split_def)

section \<open>One result\<close>

definition recorded_loop :: "'w world \<Rightarrow> ('ev, 'w) event_lib \<Rightarrow> taskPublisher \<Rightarrow> ('w \<times> 'ev event list) syncLoop" where
  "recorded_loop W P p =
     \<lparr>sl_PublishChanged = PublishChanged (recorded_world W) (recorded_lib P) p,
      sl_PublishDeleted = PublishDeleted (recorded_lib P) p\<rparr>"

definition delete_of :: "taskPublisher \<Rightarrow> task_id \<Rightarrow> 'ev event" where
  "delete_of p tid = DeleteEvent \<lparr>eo_Event = None, eo_ID = tid, eo_SchemaID = tp_schemaID p\<rparr>"

lemma changed_loop_recorded:
  assumes "changed_loop (recorded_world W) (recorded_loop W P p) ts x = (e, x')"
  shows "\<exists>us n. snd x' = snd x @ us \<and> list_all2 (stamped_update P p) (take n ts) us \<and>
     (if e = None then n = length ts else n < length ts)"
  using assms
proof (induction ts arbitrary: x)
  case Nil
  then show ?case by simp
next
  case (Cons t ts)
  obtain e1 x1 where pub: "PublishChanged (recorded_world W) (recorded_lib P) p t x = (e1, x1)" by (meson surj_pair)
  show ?case
  proof (cases e1)
    case (Some e2)
    then have "e \<noteq> None" "snd x' = snd x"
      using Cons.prems pub recorded_changed [OF pub] by (auto simp: recorded_loop_def)
    then show ?thesis by (intro exI [of _ "[]"] exI [of _ 0]) auto
  next
    case None
    then obtain v where v: "stamped_update P p t v" "snd x1 = snd x @ [v]" using recorded_changed [OF pub] by auto
    have "changed_loop (recorded_world W) (recorded_loop W P p) ts (TasksPublishedTotal (recorded_world W) ''changed'' x1) = (e, x')"
      using Cons.prems pub None by (simp add: recorded_loop_def)
    from Cons.IH [OF this] obtain us n where IH: "snd x' = snd x1 @ us" "list_all2 (stamped_update P p) (take n ts) us"
      "if e = None then n = length ts else n < length ts" by (auto simp: TasksPublishedTotal_def)
    have "snd x' = snd x @ v # us" "list_all2 (stamped_update P p) (take (Suc n) (t # ts)) (v # us)" using IH v by simp_all
    moreover have "if e = None then Suc n = length (t # ts) else Suc n < length (t # ts)" using IH(3) by (auto split: if_splits)
    ultimately show ?thesis by blast
  qed
qed

lemma deleted_loop_recorded:
  assumes "deleted_loop (recorded_world W) (recorded_loop W P p) tids x = (e, x')"
  shows "\<exists>n. snd x' = snd x @ map (delete_of p) (take n tids) \<and> (if e = None then n = length tids else n < length tids)"
  using assms
proof (induction tids arbitrary: x)
  case Nil
  then show ?case by simp
next
  case (Cons i tids)
  obtain e1 x1 where pub: "PublishDeleted (recorded_lib P) p i x = (e1, x1)" by (meson surj_pair)
  show ?case
  proof (cases e1)
    case (Some e2)
    then have "e \<noteq> None" "snd x' = snd x"
      using Cons.prems pub recorded_deleted [OF pub] by (auto simp: recorded_loop_def)
    then show ?thesis by (intro exI [of _ 0]) auto
  next
    case None
    then have v: "snd x1 = snd x @ [delete_of p i]" using recorded_deleted [OF pub] by (simp add: delete_of_def)
    have "deleted_loop (recorded_world W) (recorded_loop W P p) tids (TasksPublishedTotal (recorded_world W) ''deleted'' x1) = (e, x')"
      using Cons.prems pub None by (simp add: recorded_loop_def)
    from Cons.IH [OF this] obtain n where IH: "snd x' = snd x1 @ map (delete_of p) (take n tids)"
      "if e = None then n = length tids else n < length tids" by (auto simp: TasksPublishedTotal_def)
    have "snd x' = snd x @ map (delete_of p) (take (Suc n) (i # tids))" using IH v by simp
    moreover have "if e = None then Suc n = length (i # tids) else Suc n < length (i # tids)" using IH(2) by (auto split: if_splits)
    ultimately show ?thesis by blast
  qed
qed

text \<open>The events of a result: its changed tasks in order, stamped, then its deleted identifiers.\<close>

definition result_events :: "('ev, 'w) event_lib \<Rightarrow> taskPublisher \<Rightarrow> nat \<Rightarrow> nat \<Rightarrow> ScanResult \<Rightarrow> 'ev event list \<Rightarrow> bool" where
  "result_events P p m n r evs \<longleftrightarrow>
     (\<exists>us. evs = us @ map (delete_of p) (take n (Deleted r)) \<and> list_all2 (stamped_update P p) (take m (Changed r)) us)"

abbreviation all_events :: "('ev, 'w) event_lib \<Rightarrow> taskPublisher \<Rightarrow> ScanResult \<Rightarrow> 'ev event list \<Rightarrow> bool" where
  "all_events P p r \<equiv> result_events P p (length (Changed r)) (length (Deleted r)) r"

lemma processResult_recorded:
  assumes "processResult (recorded_world W) (recorded_loop W P p) r x = (e, x')"
  shows "\<exists>m n evs. snd x' = snd x @ evs \<and> result_events P p m n r evs \<and>
     (case e of None \<Rightarrow> m = length (Changed r) \<and> n = length (Deleted r)
      | Some _ \<Rightarrow> (m < length (Changed r) \<and> n = 0) \<or> (m = length (Changed r) \<and> n < length (Deleted r)))"
proof -
  define x0 where "x0 = (if Changed r \<noteq> [] \<or> Deleted r \<noteq> [] then ScanCyclesTotal (recorded_world W) ''changes'' x
      else ScanCyclesTotal (recorded_world W) ''no_changes'' x)"
  have x0: "snd x0 = snd x" by (simp add: x0_def ScanCyclesTotal_def)
  have run: "(case changed_loop (recorded_world W) (recorded_loop W P p) (Changed r) x0 of
           (Some e, w) \<Rightarrow> (Some e, w) | (None, w) \<Rightarrow> deleted_loop (recorded_world W) (recorded_loop W P p) (Deleted r) w) = (e, x')"
    using assms unfolding processResult_def Let_def x0_def .
  obtain e1 x1 where ch: "changed_loop (recorded_world W) (recorded_loop W P p) (Changed r) x0 = (e1, x1)" by (meson surj_pair)
  obtain us m where us: "snd x1 = snd x @ us" "list_all2 (stamped_update P p) (take m (Changed r)) us"
    "if e1 = None then m = length (Changed r) else m < length (Changed r)" using changed_loop_recorded [OF ch] x0 by auto
  show ?thesis
  proof (cases e1)
    case (Some e2)
    then have "e = e1" "x' = x1" using run ch by simp_all
    then show ?thesis using us Some by (intro exI [of _ m] exI [of _ 0] exI [of _ us]) (simp add: result_events_def)
  next
    case None
    then have "deleted_loop (recorded_world W) (recorded_loop W P p) (Deleted r) x1 = (e, x')" using run ch by simp
    from deleted_loop_recorded [OF this] obtain n where n: "snd x' = snd x1 @ map (delete_of p) (take n (Deleted r))"
      "if e = None then n = length (Deleted r) else n < length (Deleted r)" by blast
    have "result_events P p m n r (us @ map (delete_of p) (take n (Deleted r)))" using us(2) by (auto simp: result_events_def)
    then show ?thesis using us n None
      by (intro exI [of _ m] exI [of _ n] exI [of _ "us @ map (delete_of p) (take n (Deleted r))"]) (cases e; simp)
  qed
qed

section \<open>Runs\<close>

text \<open>The results that made it into the channel, in order.\<close>

definition accepted :: "loop_state \<Rightarrow> loop_state \<Rightarrow> ScanResult list" where
  "accepted s s' = (case (ls_results s, ls_results s') of (None, Some r) \<Rightarrow> [r] | _ \<Rightarrow> [])"

definition in_flight :: "loop_state \<Rightarrow> ScanResult list" where
  "in_flight s = (case ls_received s of None \<Rightarrow> [] | Some r \<Rightarrow> [r]) @ (case ls_results s of None \<Rightarrow> [] | Some r \<Rightarrow> [r])"

inductive sync_run ::
  "'w world \<Rightarrow> pure_lib \<Rightarrow> yaml_nodes \<Rightarrow> 'w metrics_lib \<Rightarrow> 'w vaultScanner \<Rightarrow> loop_config \<Rightarrow> 'w syncLoop \<Rightarrow> 'w
     \<Rightarrow> ScanResult list \<Rightarrow> loop_state \<times> 'w \<Rightarrow> bool"
  for W L Y X v c p w0 where
  start: "run_start W L Y X v c \<lparr>ls_scan = \<lparr>hashes = fmempty, scan_index = fmempty\<rparr>, ls_pairs = {||}, ls_trigger = False,
      ls_results = None, ls_received = None, ls_failed = None\<rparr> w0 = x \<Longrightarrow> sync_run W L Y X v c p w0 [] x"
| step: "sync_run W L Y X v c p w0 rs x \<Longrightarrow> sync_step W L Y X v c p x x' \<Longrightarrow>
    sync_run W L Y X v c p w0 (rs @ accepted (fst x) (fst x')) x'"

lemma offer_in_flight: "in_flight (offer r s) = in_flight s @ accepted s (offer r s)"
  by (simp add: offer_def accepted_def in_flight_def split: option.split)

lemma offer_other: "ls_received (offer r s) = ls_received s" "ls_failed (offer r s) = ls_failed s"
  by (simp_all add: offer_def split: option.split)

lemma run_cycle_channels:
  assumes "run_cycle W L Y X v s w = (s', w')"
  shows "in_flight s' = in_flight s @ accepted s s'" "ls_received s' = ls_received s" "ls_failed s' = ls_failed s"
proof -
  obtain r st w1 where "RunCycle W L Y (scan_lib.truncate X) v (ls_scan s) w = (r, st, w1)" by (metis surj_pair)
  then have s': "s' = offer r (s\<lparr>ls_scan := st\<rparr>)" using assms by (simp add: run_cycle_def)
  have "in_flight (s\<lparr>ls_scan := st\<rparr>) = in_flight s" "accepted (s\<lparr>ls_scan := st\<rparr>) = accepted s"
    by (simp_all add: in_flight_def accepted_def fun_eq_iff)
  then show "in_flight s' = in_flight s @ accepted s s'" using s' offer_in_flight by metis
  show "ls_received s' = ls_received s" "ls_failed s' = ls_failed s" by (simp_all add: s' offer_other)
qed

lemma metrics_pass_channels:
  "metrics_pass W L Y X v s w = (s', w') \<Longrightarrow>
     ls_results s' = ls_results s \<and> ls_received s' = ls_received s \<and> ls_failed s' = ls_failed s"
  by (auto simp: metrics_pass_def split: prod.splits)

lemma run_start_channels:
  "run_start W L Y X v c s w = (s', w') \<Longrightarrow>
     ls_results s' = ls_results s \<and> ls_received s' = ls_received s \<and> ls_failed s' = ls_failed s"
  by (auto simp: run_start_def split: prod.splits if_splits dest!: metrics_pass_channels)

text \<open>The log of a run: the events of every published result, then what a failed publish got through.\<close>

definition log_ok :: "('ev, 'w) event_lib \<Rightarrow> taskPublisher \<Rightarrow> ScanResult list \<Rightarrow> loop_state \<Rightarrow> 'ev event list \<Rightarrow> bool" where
  "log_ok P p rs s evs \<longleftrightarrow>
     (\<exists>ds evss part. rs = ds @ in_flight s \<and> evs = concat evss @ part \<and> list_all2 (all_events P p) ds evss \<and>
        (case ls_failed s of None \<Rightarrow> part = []
         | Some _ \<Rightarrow> (\<exists>r m n. ls_received s = Some r \<and> result_events P p m n r part \<and>
                        m + n < length (Changed r) + length (Deleted r))))"

lemma log_ok_frame:
  assumes "log_ok P p rs s evs" and "in_flight s' = in_flight s @ rs'" and "ls_received s' = ls_received s"
    and "ls_failed s' = ls_failed s"
  shows "log_ok P p (rs @ rs') s' evs"
proof -
  have "rs @ rs' = ds @ in_flight s'" if "rs = ds @ in_flight s" for ds using that assms(2) by simp
  then show ?thesis using assms(1) unfolding log_ok_def assms(3,4) by blast
qed

lemma log_ok_running:
  "ls_failed s = None \<Longrightarrow> log_ok P p rs s evs \<longleftrightarrow>
     (\<exists>ds evss. rs = ds @ in_flight s \<and> evs = concat evss \<and> list_all2 (all_events P p) ds evss)"
  by (simp add: log_ok_def)

lemma sync_run_inv:
  assumes "sync_run (recorded_world W) L Y (recorded_metrics M) (recorded_scanner W git taskDir autoInject vault) c (recorded_loop W P p) (w0, []) rs x"
  shows "log_ok P p rs (fst x) (snd (snd x))"
  using assms
proof induction
  case (start x)
  obtain s w where x: "x = (s, w)" by (cases x)
  have "snd w = []" using sink_loops.run_start_R [OF start.hyps [unfolded x]] by simp
  then show ?case using run_start_channels [OF start.hyps [unfolded x]] by (simp add: log_ok_def in_flight_def x)
next
  case (step rs x x')
  note IH = step.IH
  from step.hyps(2) show ?case
  proof cases
    case (tick s w s' w')
    then show ?thesis
      using log_ok_frame [OF _ run_cycle_channels [OF tick(4)]] IH sink_loops.run_cycle_R [OF tick(4)] by simp
  next
    case (triggered s w s' w')
    have "in_flight s' = in_flight s @ accepted s s'" "ls_received s' = ls_received s" "ls_failed s' = ls_failed s"
      using run_cycle_channels [OF triggered(4)] by (simp_all add: in_flight_def accepted_def)
    from log_ok_frame [OF _ this] show ?thesis
      using IH triggered(1,2) sink_loops.run_cycle_R [OF triggered(4)] by simp
  next
    case (metrics s w s' w')
    have "in_flight s' = in_flight s @ accepted s s'" "ls_received s' = ls_received s" "ls_failed s' = ls_failed s"
      using metrics_pass_channels [OF metrics(4)] by (simp_all add: in_flight_def accepted_def split: option.split)
    from log_ok_frame [OF _ this] show ?thesis
      using IH metrics(1,2) sink_loops.metrics_pass_R [OF metrics(4)] by simp
  next
    case (receive s r w)
    have "in_flight (fst x') = in_flight s" "accepted s (fst x') = []" using receive by (simp_all add: in_flight_def accepted_def)
    moreover have "ls_failed s = None"
      using IH receive by (auto simp: log_ok_def split: option.splits)
    ultimately show ?thesis using IH receive by (simp add: log_ok_running)
  next
    case (publish s r w w')
    obtain evs where evs: "snd w' = snd w @ evs" "all_events P p r evs"
      using processResult_recorded [OF publish(5)] by auto
    obtain ds evss where IH': "rs = ds @ in_flight s" "snd w = concat evss" "list_all2 (all_events P p) ds evss"
      using IH publish(1,3) by (auto simp: log_ok_running)
    have "snd w' = concat (evss @ [evs])" "list_all2 (all_events P p) (ds @ [r]) (evss @ [evs])"
      using IH' evs by (simp_all add: list_all2_appendI)
    moreover have "rs @ accepted s (fst x') = (ds @ [r]) @ in_flight (fst x')"
      using IH'(1) publish by (simp add: in_flight_def accepted_def split: option.split)
    moreover have running: "ls_failed (fst x') = None" using publish by simp
    ultimately have "log_ok P p (rs @ accepted s (fst x')) (fst x') (snd w')" unfolding log_ok_running [OF running] by blast
    then show ?thesis using publish by simp
  next
    case (fail s r w e w')
    obtain m n part where part: "snd w' = snd w @ part" "result_events P p m n r part"
      "m + n < length (Changed r) + length (Deleted r)"
      using processResult_recorded [OF fail(5)] by fastforce
    obtain ds evss where IH': "rs = ds @ in_flight s" "snd w = concat evss" "list_all2 (all_events P p) ds evss"
      using IH fail(1,3) by (auto simp: log_ok_running)
    have "rs @ accepted s (fst x') = ds @ in_flight (fst x')"
      using IH'(1) fail by (simp add: in_flight_def accepted_def split: option.split)
    then show ?thesis using IH' part fail by (simp add: log_ok_def) blast
  next
    case (request s w)
    have "in_flight (fst x') = in_flight s @ accepted s (fst x')" "ls_received (fst x') = ls_received s" "ls_failed (fst x') = ls_failed s"
      using request by (simp_all add: Trigger_def in_flight_def accepted_def split: option.split)
    from log_ok_frame [OF _ this] show ?thesis using IH request by simp
  qed
qed


section \<open>From an edit to the broker\<close>

abbreviation git_scanner :: "'w world \<Rightarrow> gitClient \<Rightarrow> string \<Rightarrow> bool \<Rightarrow> string \<Rightarrow> 'w vaultScanner" where
  "git_scanner W git taskDir autoInject vaultName \<equiv> fst (NewGitRestVaultScanner W git taskDir autoInject vaultName)"

lemma recorded_still:
  assumes "still_vault W (scan_lib.truncate M) (git_scanner W git taskDir autoInject vaultName) files paths F"
  shows "still_vault (recorded_world W) (scan_lib.truncate (recorded_metrics M)) (recorded_scanner W git taskDir autoInject vaultName)
    (files \<circ> fst) paths F"
proof -
  have read: "\<exists>w'. (\<exists>t'. ReadFile (recorded_world W) git p (w, t) = (Inr (F p), w', t')) \<and> files w' = files w"
    if "\<forall>p \<in> set paths. files w p = Some (F p)" "p \<in> set paths" for p w t
    using still_read [OF assms that] by (auto simp: NewGitRestVaultScanner_def ReadFile_def recorded_Get split: prod.splits)
  have list: "\<exists>w'. (\<exists>t'. ListFiles (recorded_world W) git (taskDir @ ''/*.md'') (w, t) = (Inr paths, w', t')) \<and> files w' = files w"
    if "\<forall>p \<in> set paths. files w p = Some (F p)" for w t
    using still_list [OF assms that] by (auto simp: NewGitRestVaultScanner_def recorded_List)
  have rest: "ctx_err W w = None" "files (snd (clock_now W w)) = files w" "files (set_gauge M n ls i w) = files w"
    "files (inc_metric W n ls w) = files w" for w n ls i
    using assms by (simp_all add: still_vault_def scan_lib.truncate_def)
  show ?thesis
    unfolding still_vault_def
    by (intro conjI allI impI ballI; (elim conjE)?)
      (simp_all add: split_paired_all NewGitRestVaultScanner_def read list rest recorded_metrics_def scan_lib.truncate_def)
qed

text \<open>A broker that also accepts every deletion, and counters that do not touch the vault.\<close>

definition sink_accepts :: "'w world \<Rightarrow> ('ev, 'w) event_lib \<Rightarrow> ('w \<Rightarrow> path \<Rightarrow> bytes option) \<Rightarrow> bool" where
  "sink_accepts W P files \<longleftrightarrow>
     broker_accepts W P files \<and> (\<forall>x w. \<exists>w'. SendDelete P x w = (None, w') \<and> files w' = files w) \<and>
     (\<forall>n ls w. files (inc_metric W n ls w) = files w)"

lemma sink_accepts_broker: "sink_accepts W P files \<Longrightarrow> broker_accepts W P files"
  by (simp add: sink_accepts_def)

lemma changed_loop_accepts:
  assumes "sink_accepts W P files"
  shows "\<exists>w' t'. changed_loop (recorded_world W) (recorded_loop W P p) ts (w, t) = (None, (w', t')) \<and> files w' = files w"
proof (induction ts arbitrary: w t)
  case (Cons task ts)
  obtain w1 v where "PublishChanged (recorded_world W) (recorded_lib P) p task (w, t) = (None, (w1, t @ [v]))" "files w1 = files w"
    using broker_publishes [OF sink_accepts_broker [OF assms]] by blast
  then show ?case
    using Cons.IH [of "inc_metric W ''agent_controller_tasks_published_total'' [''changed''] w1" "t @ [v]"] assms
    by (auto simp: recorded_loop_def TasksPublishedTotal_def sink_accepts_def)
qed simp

lemma deleted_loop_accepts:
  assumes "sink_accepts W P files"
  shows "\<exists>w' t'. deleted_loop (recorded_world W) (recorded_loop W P p) gone (w, t) = (None, (w', t')) \<and> files w' = files w"
proof (induction gone arbitrary: w t)
  case (Cons i gone)
  obtain w1 where send: "SendDelete P \<lparr>eo_Event = None, eo_ID = i, eo_SchemaID = tp_schemaID p\<rparr> w = (None, w1)" "files w1 = files w"
    using assms unfolding sink_accepts_def by blast
  then obtain t1 where "PublishDeleted (recorded_lib P) p i (w, t) = (None, (w1, t1))"
    by (simp add: PublishDeleted_def recorded_lib_def recording_def)
  then show ?case
    using Cons.IH [of "inc_metric W ''agent_controller_tasks_published_total'' [''deleted''] w1" t1] assms send(2)
    by (auto simp: recorded_loop_def TasksPublishedTotal_def sink_accepts_def)
qed simp

lemma processResult_accepts:
  assumes "sink_accepts W P files"
  shows "\<exists>w' t'. processResult (recorded_world W) (recorded_loop W P p) r (w, t) = (None, (w', t')) \<and> files w' = files w"
proof -
  have m: "files (inc_metric W n ls w) = files w" for n ls w using assms by (simp add: sink_accepts_def)
  have "\<exists>w' t'. (case changed_loop (recorded_world W) (recorded_loop W P p) (Changed r) (w, t) of
         (Some e, w) \<Rightarrow> (Some e, w) | (None, w) \<Rightarrow> deleted_loop (recorded_world W) (recorded_loop W P p) (Deleted r) w) =
       (None, (w', t')) \<and> files w' = files w" for w
    using changed_loop_accepts [OF assms, of p "Changed r" w t] deleted_loop_accepts [OF assms, of p "Deleted r"] by fastforce
  from this [of "inc_metric W ''agent_controller_scan_cycles_total'' [''changes''] w"] this [of "inc_metric W ''agent_controller_scan_cycles_total'' [''no_changes''] w"]
  show ?thesis by (simp add: processResult_def ScanCyclesTotal_def Let_def m)
qed

lemma recorded_lib_parts:
  "map_order (scan_lib.truncate (recorded_metrics M)) = map_order (scan_lib.truncate M)"
  "sha256 (scan_lib.truncate (recorded_metrics M)) = sha256 (scan_lib.truncate M)"
  by (simp_all add: scan_lib.truncate_def recorded_metrics_def)

lemma recorded_diff:
  "unchanged (scan_lib.truncate (recorded_metrics M)) = unchanged (scan_lib.truncate M)"
  "reported L Y (scan_lib.truncate (recorded_metrics M)) h F = reported L Y (scan_lib.truncate M) h F"
  "gone_ids (scan_lib.truncate (recorded_metrics M)) h paths = gone_ids (scan_lib.truncate M) h paths"
proof -
  show "unchanged (scan_lib.truncate (recorded_metrics M)) = unchanged (scan_lib.truncate M)"
    by (simp add: fun_eq_iff unchanged_def recorded_lib_parts)
  show "reported L Y (scan_lib.truncate (recorded_metrics M)) h F = reported L Y (scan_lib.truncate M) h F"
    by (intro ext) (simp add: reported_def unchanged_def recorded_lib_parts cong: option.case_cong if_cong)
  show "gone_ids (scan_lib.truncate (recorded_metrics M)) h paths = gone_ids (scan_lib.truncate M) h paths"
    by (simp only: gone_ids_def recorded_lib_parts)
qed

text \<open>A tick, the receive and the publish that follow an edit.\<close>

lemma edit_published:
  assumes "order_ok (scan_lib.truncate M)"
    and "still_vault W (scan_lib.truncate M) (git_scanner W git taskDir autoInject vaultName) files paths F"
    and "well_formed L Y paths F N" and "consistent L (hashes (ls_scan s)) paths N" and "\<forall>p \<in> set paths. files w p = Some (F p)"
    and "sink_accepts W P files" and "0 < lc_pollInterval c"
    and "ls_results s = None" and "ls_received s = None" and "ls_failed s = None"
    and r: "r = \<lparr>Changed = List.map_filter (reported L Y (scan_lib.truncate M) (hashes (ls_scan s)) F) paths,
                  Deleted = gone_ids (scan_lib.truncate M) (hashes (ls_scan s)) paths\<rparr>"
    and step: "step = sync_step (recorded_world W) L Y (recorded_metrics M) (recorded_scanner W git taskDir autoInject vaultName) c
                  (recorded_loop W P p)"
  shows "\<exists>s1 x1 s2 s3 w3 evs. step (s, (w, t)) (s1, x1) \<and> step (s1, x1) (s2, x1) \<and> step (s2, x1) (s3, (w3, t @ evs)) \<and>
     accepted s s1 = [r] \<and> accepted s1 s2 = [] \<and> accepted s2 s3 = [] \<and>
     all_events P p r evs \<and> files w3 = files w \<and> ls_results s3 = None \<and> ls_received s3 = None \<and> ls_failed s3 = None"
proof -
  have "order_ok (scan_lib.truncate (recorded_metrics M))" using assms(1) by (simp add: order_ok_def recorded_lib_parts)
  from cycle_calm [OF this recorded_still [OF assms(2)] assms(3,4), of "(w, t)"] assms(5)
  obtain st' w1 t1 where cycle: "RunCycle (recorded_world W) L Y (scan_lib.truncate (recorded_metrics M))
       (recorded_scanner W git taskDir autoInject vaultName) (ls_scan s) (w, t) = (Some r, st', (w1, t1))" "files w1 = files w"
    unfolding recorded_diff r by auto
  let ?s1 = "s\<lparr>ls_scan := st', ls_results := Some r\<rparr>"
  have tick: "run_cycle (recorded_world W) L Y (recorded_metrics M) (recorded_scanner W git taskDir autoInject vaultName) s (w, t) =
      (?s1, (w1, t1))"
    using cycle assms(8) by (simp add: run_cycle_def offer_def)
  from sink_loops.run_cycle_R [OF tick] have t1: "t1 = t" by simp
  let ?s2 = "?s1\<lparr>ls_results := None, ls_received := Some r\<rparr>"
  obtain w3 t3 where pub: "processResult (recorded_world W) (recorded_loop W P p) r (w1, t1) = (None, (w3, t3))" "files w3 = files w1"
    using processResult_accepts [OF assms(6)] by blast
  obtain evs where evs: "t3 = t @ evs" "all_events P p r evs" using processResult_recorded [OF pub(1)] t1 by auto
  have "step (s, (w, t)) (?s1, (w1, t1))" unfolding step by (rule sync_step.tick [OF assms(7) tick])
  moreover have "step (?s1, (w1, t1)) (?s2, (w1, t1))" unfolding step by (rule sync_step.receive) (use assms(9) in simp_all)
  moreover have "step (?s2, (w1, t1)) (?s2\<lparr>ls_received := None\<rparr>, (w3, t3))"
    unfolding step by (rule sync_step.publish [OF _ _ pub(1)]) (use assms(10) in simp_all)
  ultimately show ?thesis
    using evs pub(2) cycle(2) assms(8-10) unfolding evs(1)
    by (intro exI conjI) (assumption | simp add: accepted_def)+
qed


text \<open>C10: An edit reaches the broker. When the loops are idle, the vault is well formed and the broker accepts, a tick of
  the poll interval, the receive and the publish that follow are possible and deliver one update for every reported
  task in the order of the listing, stamped with the vault, and then one deletion for every file that is gone. The vault
  is not touched and the loops are idle again.\<close>

theorem edit_reaches_the_broker:
  assumes "order_ok (scan_lib.truncate M)"
    and "still_vault W (scan_lib.truncate M) (git_scanner W git taskDir autoInject vaultName) files paths F"
    and "well_formed L Y paths F N" and "consistent L (hashes (ls_scan s)) paths N" and "\<forall>p \<in> set paths. files w p = Some (F p)"
    and "sink_accepts W P files" and "0 < lc_pollInterval c"
    and "ls_results s = None" and "ls_received s = None" and "ls_failed s = None"
    and "step = sync_step (recorded_world W) L Y (recorded_metrics M) (recorded_scanner W git taskDir autoInject vaultName) c
                  (recorded_loop W P p)"
  shows "\<exists>x1 x2 s3 w3 us. step (s, (w, t)) x1 \<and> step x1 x2 \<and>
     step x2 (s3, (w3, t @ us @ map (delete_of p) (gone_ids (scan_lib.truncate M) (hashes (ls_scan s)) paths))) \<and>
     list_all2 (stamped_update P p) (List.map_filter (reported L Y (scan_lib.truncate M) (hashes (ls_scan s)) F) paths) us \<and>
     files w3 = files w \<and> ls_results s3 = None \<and> ls_received s3 = None \<and> ls_failed s3 = None"
  using edit_published [OF assms(1-10) refl assms(11), of t] by (fastforce simp: result_events_def)

text \<open>C9: Whatever the interleaving of ticks, triggers, metrics passes, requests and publishing, the events the broker
  acknowledged are those of the scan results that entered the channel, in that order, each published once, except the at
  most two results still in flight. A failed publish stops the loop after a proper part of the events of its result.\<close>

theorem run_publishes_in_order:
  assumes "sync_run (recorded_world W) L Y (recorded_metrics M) (recorded_scanner W git taskDir autoInject vaultName) c
             (recorded_loop W P p) (w0, []) rs (s, (w, evs))"
  shows "\<exists>ds evss part. rs = ds @ in_flight s \<and> evs = concat evss @ part \<and> list_all2 (all_events P p) ds evss \<and>
     (case ls_failed s of None \<Rightarrow> part = []
      | Some _ \<Rightarrow> (\<exists>r m n. ls_received s = Some r \<and> result_events P p m n r part \<and>
                     m + n < length (Changed r) + length (Deleted r)))"
  using sync_run_inv [OF assms] by (simp add: log_ok_def)

section \<open>A full channel\<close>

fun cycle_results ::
  "'w world \<Rightarrow> pure_lib \<Rightarrow> yaml_nodes \<Rightarrow> 'w scan_lib \<Rightarrow> 'w vaultScanner \<Rightarrow> nat \<Rightarrow> scan_state \<Rightarrow> 'w \<Rightarrow> ScanResult option list" where
  "cycle_results W L Y X v 0 st w = []"
| "cycle_results W L Y X v (Suc n) st w = (case RunCycle W L Y X v st w of (r, st, w) \<Rightarrow> r # cycle_results W L Y X v n st w)"

lemma settled_results:
  assumes "order_ok X" and "still_vault W X v files paths F" and "well_formed L Y paths F M"
  shows "consistent L (hashes st) paths M \<Longrightarrow> \<forall>p \<in> set paths. files w p = Some (F p) \<Longrightarrow> settled X F paths (hashes st) \<Longrightarrow>
    cycle_results W L Y X v n st w = replicate n (Some \<lparr>Changed = [], Deleted = []\<rparr>)"
proof (induction n arbitrary: st w)
  case (Suc n)
  obtain st' w' where "RunCycle W L Y X v st w = (Some \<lparr>Changed = [], Deleted = []\<rparr>, st', w')" "files w' = files w" "hashes st' = hashes st"
    using settled_cycle [OF assms Suc.prems] by blast
  then show ?case using Suc.IH [of st' w'] Suc.prems by simp
qed simp

text \<open>C31: The changes of a cycle that ends while the channel is full are lost. The result is dropped, the one in the channel
  stays, and the bookkeeping already holds the new hashes: however many cycles follow over the same vault, none
  reports the changed or deleted tasks again.\<close>

theorem full_channel_loses_the_changes:
  assumes "order_ok (scan_lib.truncate M)" and "still_vault W (scan_lib.truncate M) v files paths F" and "well_formed L Y paths F N"
    and "consistent L (hashes (ls_scan s)) paths N" and "\<forall>p \<in> set paths. files w p = Some (F p)" and "ls_results s = Some old"
  shows "\<exists>st w'. RunCycle W L Y (scan_lib.truncate M) v (ls_scan s) w =
       (Some \<lparr>Changed = List.map_filter (reported L Y (scan_lib.truncate M) (hashes (ls_scan s)) F) paths,
              Deleted = gone_ids (scan_lib.truncate M) (hashes (ls_scan s)) paths\<rparr>, st, w') \<and>
     run_cycle W L Y M v s w = (s\<lparr>ls_scan := st\<rparr>, w') \<and> files w' = files w \<and>
     (\<forall>n. cycle_results W L Y (scan_lib.truncate M) v n st w' = replicate n (Some \<lparr>Changed = [], Deleted = []\<rparr>))"
proof -
  obtain st w' where cycle: "RunCycle W L Y (scan_lib.truncate M) v (ls_scan s) w =
       (Some \<lparr>Changed = List.map_filter (reported L Y (scan_lib.truncate M) (hashes (ls_scan s)) F) paths,
              Deleted = gone_ids (scan_lib.truncate M) (hashes (ls_scan s)) paths\<rparr>, st, w')"
      "files w' = files w" "after_scan L (scan_lib.truncate M) F N paths (hashes (ls_scan s)) (hashes st)" "consistent L (hashes st) paths N"
    using cycle_calm [OF assms(1-5)] by blast
  have "run_cycle W L Y M v s w = (s\<lparr>ls_scan := st\<rparr>, w')" using cycle(1) assms(6) by (simp add: run_cycle_def offer_def)
  moreover have "cycle_results W L Y (scan_lib.truncate M) v n st w' = replicate n (Some \<lparr>Changed = [], Deleted = []\<rparr>)" for n
    by (rule settled_results [OF assms(1-3) cycle(4) _ settled_after [OF cycle(3)]]) (use assms(5) cycle(2) in simp)
  ultimately show ?thesis using cycle(1,2) by blast
qed


section \<open>Reference instances\<close>

text \<open>The vault of two tasks seen by a fresh scanner, polled, with a broker that accepts.\<close>

definition diff_metrics :: "mem metrics_lib" where
  "diff_metrics =
     \<lparr>sha256 = (\<lambda>b. b), new_uuid = (\<lambda>m. (''n'', m)), map_order = (\<lambda>s. sorted_list_of_set (fset s)),
      parse_RFC3339 = (\<lambda>_. None), set_gauge = (\<lambda>n ls i m. m), delete_series = (\<lambda>n ls m. m),
      pair_order = (\<lambda>F. filter (\<lambda>p. p |\<in>| F) (List.product (sorted_list_of_fset (fst |`| F)) (sorted_list_of_fset (snd |`| F))))\<rparr>"

lemma diff_metrics_lib: "scan_lib.truncate diff_metrics = diff_lib"
  by (simp add: scan_lib.truncate_def diff_metrics_def scan_lib_of_def)

definition polled :: loop_config where
  "polled = \<lparr>lc_pollInterval = 60, lc_metricsInterval = 0\<rparr>"

definition idle_loops :: "(path, fileEntry) fmap \<Rightarrow> loop_state" where
  "idle_loops h = \<lparr>ls_scan = \<lparr>hashes = h, scan_index = fmempty\<rparr>, ls_pairs = {||}, ls_trigger = False, ls_results = None,
     ls_received = None, ls_failed = None\<rparr>"

abbreviation diff_git :: gitClient where
  "diff_git \<equiv> NewGitClient (NewGitRestClient ''h'' [] []) ''/v''"

lemma ref_sink_accepts: "sink_accepts ref_world ref_broker diff_files"
  by (simp add: sink_accepts_def broker_accepts_def ref_broker_def mem_world_def diff_files_def fun_eq_iff)

lemma idle_simps [simp]:
  "hashes (ls_scan (idle_loops h)) = h" "ls_results (idle_loops h) = None" "ls_received (idle_loops h) = None"
  "ls_failed (idle_loops h) = None"
  by (simp_all add: idle_loops_def)

lemma fresh_reported:
  "\<exists>ta tb. List.map_filter (reported codec_lib plain_nodes diff_lib fmempty diff_F) diff_paths = [ta, tb] \<and>
     TaskIdentifier ta = replicate 36 (CHR ''u'') \<and> TaskIdentifier tb = replicate 36 (CHR ''v'')"
proof -
  have "lib_Status codec_lib (diff_M p) = ''in_progress''" "lib_Assignee codec_lib (diff_M p) = ''agent''" for p
    by (simp_all add: codec_lib_def ref_lib_def diff_M_def diff_fm_def string_or_empty_def as_string_def)
  then show ?thesis
    by (simp add: map_filter_simps reported_def ParseTask_well_formed [OF diff_well_formed] diff_task_id unchanged_def)
qed

lemma fresh_gone: "gone_ids diff_lib fmempty diff_paths = []"
  by (simp add: gone_ids_def map_filter_none)

theorem edit_reaches_the_broker_witness:
  "\<exists>x1 x2 s3 w3 us step. step = sync_step (recorded_world ref_world) codec_lib plain_nodes (recorded_metrics diff_metrics)
       (recorded_scanner ref_world diff_git ''d'' True ''vault'') polled (recorded_loop ref_world ref_broker (NewTaskPublisher ''schema'' ''v'')) \<and>
     step (idle_loops fmempty, (diff_vault, [])) x1 \<and> step x1 x2 \<and> step x2 (s3, (w3, us)) \<and>
     map event_id us = [replicate 36 (CHR ''u''), replicate 36 (CHR ''v'')]"
proof -
  obtain ta tb where rep: "List.map_filter (reported codec_lib plain_nodes diff_lib fmempty diff_F) diff_paths = [ta, tb]"
     "TaskIdentifier ta = replicate 36 (CHR ''u'')" "TaskIdentifier tb = replicate 36 (CHR ''v'')" using fresh_reported by blast
  have lib: "order_ok (scan_lib.truncate diff_metrics)" "still_vault ref_world (scan_lib.truncate diff_metrics) diff_scanner diff_files diff_paths diff_F"
    unfolding diff_metrics_lib by (rule order_ok_scan_lib_of, rule diff_still)
  let ?p = "NewTaskPublisher ''schema'' ''v''"
  let ?step = "sync_step (recorded_world ref_world) codec_lib plain_nodes (recorded_metrics diff_metrics)
       (recorded_scanner ref_world diff_git ''d'' True ''vault'') polled (recorded_loop ref_world ref_broker ?p)"
  have cons: "consistent codec_lib (hashes (ls_scan (idle_loops fmempty))) diff_paths diff_M" by (simp add: consistent_def)
  have poll: "0 < lc_pollInterval polled" by (simp add: polled_def)
  note run = edit_reaches_the_broker [OF lib diff_well_formed cons diff_present ref_sink_accepts poll idle_simps(2-4) refl,
      where p = ?p and t = "[]", unfolded diff_metrics_lib idle_simps fresh_gone rep(1) list.map append_Nil append_Nil2]
  obtain x1 x2 s3 w3 us where *: "?step (idle_loops fmempty, (diff_vault, [])) x1" "?step x1 x2" "?step x2 (s3, (w3, us))"
     "list_all2 (stamped_update ref_broker ?p) [ta, tb] us"
    using run by iprover
  have "map event_id us = [replicate 36 (CHR ''u''), replicate 36 (CHR ''v'')]"
    using *(4) rep by (auto simp: list_all2_Cons1 dest!: stamped_update_id)
  then show ?thesis using *(1-3) by iprover
qed

theorem full_channel_loses_the_changes_witness:
  "\<exists>t st w. RunCycle ref_world codec_lib plain_nodes diff_lib diff_scanner \<lparr>hashes = diff_hashes, scan_index = fmempty\<rparr> diff_vault =
       (Some \<lparr>Changed = [t], Deleted = [''w'']\<rparr>, st, w) \<and>
     cycle_results ref_world codec_lib plain_nodes diff_lib diff_scanner 3 st w = replicate 3 (Some \<lparr>Changed = [], Deleted = []\<rparr>)"
proof -
  let ?s = "(idle_loops diff_hashes)\<lparr>ls_results := Some \<lparr>Changed = [], Deleted = []\<rparr>\<rparr>"
  have lib: "order_ok (scan_lib.truncate diff_metrics)" "still_vault ref_world (scan_lib.truncate diff_metrics) diff_scanner diff_files diff_paths diff_F"
    unfolding diff_metrics_lib by (rule order_ok_scan_lib_of, rule diff_still)
  have cons: "consistent codec_lib (hashes (ls_scan ?s)) diff_paths diff_M" by (simp add: diff_consistent)
  have "ls_results ?s = Some \<lparr>Changed = [], Deleted = []\<rparr>" by simp
  from full_channel_loses_the_changes [OF lib diff_well_formed cons diff_present this]
  show ?thesis using diff_changes by (auto simp: diff_metrics_lib idle_loops_def)
qed

theorem run_publishes_in_order_witness:
  "\<exists>r s w evs. sync_run (recorded_world ref_world) codec_lib plain_nodes (recorded_metrics diff_metrics)
       (recorded_scanner ref_world diff_git ''d'' True ''vault'') polled (recorded_loop ref_world ref_broker (NewTaskPublisher ''schema'' ''v''))
       (diff_vault, []) [r] (s, (w, evs)) \<and>
     map event_id evs = [replicate 36 (CHR ''u''), replicate 36 (CHR ''v'')]"
proof -
  obtain ta tb where rep: "List.map_filter (reported codec_lib plain_nodes diff_lib fmempty diff_F) diff_paths = [ta, tb]"
     "TaskIdentifier ta = replicate 36 (CHR ''u'')" "TaskIdentifier tb = replicate 36 (CHR ''v'')" using fresh_reported by blast
  let ?p = "NewTaskPublisher ''schema'' ''v''" and ?s = "idle_loops fmempty" and ?r = "\<lparr>Changed = [ta, tb], Deleted = []\<rparr>"
  let ?run = "sync_run (recorded_world ref_world) codec_lib plain_nodes (recorded_metrics diff_metrics)
       (recorded_scanner ref_world diff_git ''d'' True ''vault'') polled (recorded_loop ref_world ref_broker ?p) (diff_vault, [])"
  have lib: "order_ok (scan_lib.truncate diff_metrics)" "still_vault ref_world (scan_lib.truncate diff_metrics) diff_scanner diff_files diff_paths diff_F"
    unfolding diff_metrics_lib by (rule order_ok_scan_lib_of, rule diff_still)
  have cons: "consistent codec_lib (hashes (ls_scan ?s)) diff_paths diff_M" by (simp add: consistent_def)
  have r: "?r = \<lparr>Changed = List.map_filter (reported codec_lib plain_nodes (scan_lib.truncate diff_metrics) (hashes (ls_scan ?s)) diff_F) diff_paths,
                  Deleted = gone_ids (scan_lib.truncate diff_metrics) (hashes (ls_scan ?s)) diff_paths\<rparr>"
    unfolding diff_metrics_lib idle_simps fresh_gone rep(1) ..
  obtain s1 x1 s2 s3 w3 evs where steps:
      "sync_step (recorded_world ref_world) codec_lib plain_nodes (recorded_metrics diff_metrics)
         (recorded_scanner ref_world diff_git ''d'' True ''vault'') polled (recorded_loop ref_world ref_broker ?p) (?s, (diff_vault, [])) (s1, x1)"
      "sync_step (recorded_world ref_world) codec_lib plain_nodes (recorded_metrics diff_metrics)
         (recorded_scanner ref_world diff_git ''d'' True ''vault'') polled (recorded_loop ref_world ref_broker ?p) (s1, x1) (s2, x1)"
      "sync_step (recorded_world ref_world) codec_lib plain_nodes (recorded_metrics diff_metrics)
         (recorded_scanner ref_world diff_git ''d'' True ''vault'') polled (recorded_loop ref_world ref_broker ?p) (s2, x1) (s3, (w3, [] @ evs))"
    and acc: "accepted ?s s1 = [?r]" "accepted s1 s2 = []" "accepted s2 s3 = []" and fin: "ls_results s3 = None" "ls_received s3 = None" "ls_failed s3 = None"
    using edit_published [OF lib diff_well_formed cons diff_present ref_sink_accepts _ _ _ _ r refl,
        where c = polled and p = ?p and t = "[]"] by (auto simp: polled_def)
  have "?run [] (?s, (diff_vault, []))"
    by (rule sync_run.start) (simp add: run_start_def polled_def idle_loops_def)
  from sync_run.step [OF sync_run.step [OF sync_run.step [OF this steps(1)] steps(2)] steps(3)]
  have run: "?run [?r] (s3, (w3, evs))" by (simp add: acc)
  from run_publishes_in_order [OF run] fin
  have "all_events ref_broker ?p ?r evs"
    by (auto simp: in_flight_def list_all2_Cons1)
  then have "map event_id evs = [replicate 36 (CHR ''u''), replicate 36 (CHR ''v'')]"
    using rep(2,3) by (auto simp: result_events_def list_all2_Cons1 dest!: stamped_update_id)
  with run show ?thesis by (intro exI conjI)
qed

end
