(* ===== verification/Metered.thy ===== *)
theory Metered
  imports SyncLoop
begin

text \<open>
  The series that the running loops count in (\<open>pkg/metrics/metrics.go\<close>): over a world that records every counter
  increment, whatever the scanner, its repairs and escalations, the git-rest client, the metrics pass and the
  publisher do, they only pick series that exist from the start.
\<close>

section \<open>Loops over a preorder\<close>

locale loops_world = metrics_world W R M v
  for W :: "'w world" and R and M :: "'w metrics_lib" and v +
  fixes p :: "'w syncLoop"
  assumes changed_R: "R w (snd (sl_PublishChanged p task w))"
    and deleted_R: "R w (snd (sl_PublishDeleted p tid w))"
begin

lemma published_R: "k \<in> {''changed'', ''deleted'', ''redrive''} \<Longrightarrow> R w (TasksPublishedTotal W k w)"
  unfolding TasksPublishedTotal_def by (rule metric_R) simp

lemma changed_loop_R: "R w (snd (changed_loop W p ts w))"
proof (induction ts arbitrary: w)
  case (Cons t ts)
  obtain e w1 where pub: "sl_PublishChanged p t w = (e, w1)" by (meson surj_pair)
  have w1: "R w w1" using changed_R [of w t] pub by simp
  have "R w (snd (changed_loop W p ts (TasksPublishedTotal W ''changed'' w1)))"
    by (rule R_trans [OF R_trans [OF w1 published_R] Cons.IH]) simp
  then show ?case using w1 by (simp add: pub split: option.split)
qed (simp add: R_refl)

lemma deleted_loop_R: "R w (snd (deleted_loop W p is w))"
proof (induction "is" arbitrary: w)
  case (Cons i "is")
  obtain e w1 where pub: "sl_PublishDeleted p i w = (e, w1)" by (meson surj_pair)
  have w1: "R w w1" using deleted_R [of w i] pub by simp
  have "R w (snd (deleted_loop W p is (TasksPublishedTotal W ''deleted'' w1)))"
    by (rule R_trans [OF R_trans [OF w1 published_R] Cons.IH]) simp
  then show ?case using w1 by (simp add: pub split: option.split)
qed (simp add: R_refl)

lemma processResult_R: "R w (snd (processResult W p r w))"
proof -
  have cycles: "R w (ScanCyclesTotal W k w)" if "k \<in> {''changes'', ''no_changes''}" for k
    unfolding ScanCyclesTotal_def by (rule metric_R) (use that in auto)
  have "R w (snd (case changed_loop W p (Changed r) u of (Some e, w) \<Rightarrow> (Some e, w) | (None, w) \<Rightarrow> deleted_loop W p (Deleted r) w))"
    if "R w u" for u
  proof -
    obtain e v where ch: "changed_loop W p (Changed r) u = (e, v)" by (meson surj_pair)
    have "R w v" using R_trans [OF that changed_loop_R [of u "Changed r"]] ch by simp
    then show ?thesis using R_trans [OF _ deleted_loop_R] by (simp add: ch split: option.split)
  qed
  then show ?thesis using cycles by (simp add: processResult_def Let_def)
qed

lemma sync_step_R: "sync_step W L Y M v c p (s, w) (s', w') \<Longrightarrow> R w w'"
proof (erule sync_stepE, goal_cases)
  case (5 r)
  then show ?case using processResult_R [of w r] by simp
next
  case (6 r e)
  then show ?case using processResult_R [of w r] by simp
qed (simp_all add: R_refl run_cycle_R metrics_pass_R)

lemma sync_run_R: "sync_run W L Y M v c p w0 rs x \<Longrightarrow> R w0 (snd x)"
proof (induction rule: sync_run.induct)
  case (start x)
  then show ?case using run_start_R by (metis prod.collapse)
next
  case (step rs x x')
  then show ?case using sync_step_R R_trans by (metis prod.collapse)
qed

end

section \<open>Recording the counters\<close>

type_synonym series = "string \<times> string list"

definition metered_world :: "'w world \<Rightarrow> ('w \<times> series list) world" where
  "metered_world W = (recorded_world W)\<lparr>inc_metric := (\<lambda>n ls (w, t). (inc_metric W n ls w, t @ [(n, ls)]))\<rparr>"

definition metered_lib :: "('ev, 'w) event_lib \<Rightarrow> ('ev, 'w \<times> series list) event_lib" where
  "metered_lib P =
     \<lparr>ParseEvent = ParseEvent P,
      SendUpdate = (\<lambda>x (w, t). case SendUpdate P x w of (r, w) \<Rightarrow> (r, (w, t))),
      SendDelete = (\<lambda>x (w, t). case SendDelete P x w of (r, w) \<Rightarrow> (r, (w, t))),
      event_uuid = (\<lambda>(w, t). case event_uuid P w of (u, w) \<Rightarrow> (u, (w, t)))\<rparr>"

definition metered_loop :: "'w world \<Rightarrow> ('ev, 'w) event_lib \<Rightarrow> taskPublisher \<Rightarrow> ('w \<times> series list) syncLoop" where
  "metered_loop W P p =
     \<lparr>sl_PublishChanged = PublishChanged (metered_world W) (metered_lib P) p,
      sl_PublishDeleted = PublishDeleted (metered_lib P) p\<rparr>"

definition counted_in :: "'w \<times> series list \<Rightarrow> 'w \<times> series list \<Rightarrow> bool" where
  "counted_in x y \<longleftrightarrow> (\<exists>l. snd y = snd x @ l \<and> list_all exposed l)"

lemma counted_same: "snd y = snd x \<Longrightarrow> counted_in x y"
  by (simp add: counted_in_def)

lemma counted_forward: "forward_world (metered_world W) counted_in"
proof (unfold_locales, goal_cases)
  case (2 u v w)
  then show ?case by (fastforce simp: counted_in_def)
next
  case (6 m ls w)
  then show ?case by (auto simp: counted_in_def metered_world_def split_def)
qed (simp_all add: counted_in_def metered_world_def recorded_world_def split_def)

interpretation counted: forward_world "metered_world W" counted_in for W :: "'w world"
  by (rule counted_forward)

interpretation metered: loops_world "metered_world W" counted_in "recorded_metrics M"
  "git_scanner (metered_world W) git taskDir autoInject vaultName" "metered_loop W P p"
  for W :: "'w world" and M git taskDir autoInject vaultName P p
proof (unfold_locales, goal_cases)
  case (1 w g)
  then show ?case using counted.List_files_R by (simp add: NewGitRestVaultScanner_def ListFiles_def)
next
  case (2 w p)
  then show ?case using counted.ReadFile_R by (simp add: NewGitRestVaultScanner_def)
next
  case (3 w p b)
  then show ?case using counted.WriteFile_R by (simp add: NewGitRestVaultScanner_def)
next
  case (7 w task)
  show ?case
    by (rule counted_same)
      (auto simp: metered_loop_def PublishChanged_def metered_lib_def metered_world_def recorded_world_def Let_def
        split: prod.split sum.split option.split)
next
  case (8 w tid)
  show ?case
    by (rule counted_same) (auto simp: metered_loop_def PublishDeleted_def metered_lib_def split: prod.split option.split)
qed (simp_all add: counted_same recorded_metrics_def scan_lib.truncate_def split_def)

text \<open>C32: Every counter series the running loops ever increment has as many label values as its vector has labels, so
  picking it cannot panic, and exists from the start with the value 0 (or is a plain counter): no rate over it starts from
  no data. This covers every reason for skipping a file and every outcome of a call to git-rest.\<close>

theorem counters_are_typed_and_initialised:
  assumes "sync_run (metered_world W) L Y (recorded_metrics M) (git_scanner (metered_world W) git taskDir autoInject vaultName) c
             (metered_loop W P p) (w0, []) rs (s, (w, counted))"
  shows "list_all (\<lambda>(name, labels). exposed (name, labels) \<and> WithLabelValues name labels = Some (name, labels)) counted"
proof -
  have "list_all exposed counted" using metered.sync_run_R [OF assms] by (simp add: counted_in_def)
  then show ?thesis using exposed_typed by (auto simp: list_all_iff)
qed

text \<open>\<open>ConflictResolutionsTotal\<close> is the one counter method that panics whenever it is called: its vector has a label and
  the method passes no value. Every series initialised at start is well typed.\<close>

theorem conflict_counter_panics:
  "ConflictResolutionsTotal = None \<and> list_all (\<lambda>(name, labels). WithLabelValues name labels = Some (name, labels)) init_series"
proof
  show "ConflictResolutionsTotal = None" by code_simp
  show "list_all (\<lambda>(name, labels). WithLabelValues name labels = Some (name, labels)) init_series"
    using exposed_typed by (fastforce simp: list_all_iff exposed_def)
qed


section \<open>Reference instances\<close>

theorem counters_are_typed_and_initialised_witness:
  "\<exists>rs s w counted. sync_run (metered_world ref_world) codec_lib plain_nodes (recorded_metrics diff_metrics)
       (git_scanner (metered_world ref_world) diff_git ''d'' True ''vault'') polled
       (metered_loop ref_world ref_broker (NewTaskPublisher ''schema'' ''v'')) (diff_vault, []) (rs @ accepted (idle_loops fmempty) s) (s, (w, counted)) \<and>
     list_all exposed counted"
proof -
  let ?v = "git_scanner (metered_world ref_world) diff_git ''d'' True ''vault''"
  let ?run = "sync_run (metered_world ref_world) codec_lib plain_nodes (recorded_metrics diff_metrics) ?v polled
       (metered_loop ref_world ref_broker (NewTaskPublisher ''schema'' ''v'')) (diff_vault, [])"
  obtain s w t where tick: "run_cycle (metered_world ref_world) codec_lib plain_nodes (recorded_metrics diff_metrics) ?v
      (idle_loops fmempty) (diff_vault, []) = (s, (w, t))" by (metis surj_pair)
  have "?run [] (idle_loops fmempty, (diff_vault, []))"
    by (rule sync_run.start) (simp add: run_start_def polled_def idle_loops_def)
  from sync_run.step [OF this sync_step.tick [OF _ tick]]
  have run: "?run ([] @ accepted (idle_loops fmempty) s) (s, (w, t))" by (simp add: polled_def)
  from counters_are_typed_and_initialised [OF run] have "list_all exposed t" by (auto simp: list_all_iff)
  with run show ?thesis by (intro exI conjI)
qed

end
