(* ===== verification/CommandExpiry.thy ===== *)
theory CommandExpiry
  imports Metrics
begin

text \<open>
  What stands between the command topic and the executors: the filter of expired commands
  (\<open>pkg/command/command_expiry_filter.go\<close>), the batch handler that reports what it drops
  (\<open>command_expiry_observer.go\<close>) and the loop that restarts the consumer (\<open>pkg/factory/consumer_retry.go\<close>).
  Parameters: \<open>json.Unmarshal\<close> into a command, which leaves the zero command or a part of it on an error, and the
  batch handler and the consumer that are wrapped.
\<close>

section \<open>The filter\<close>

record kafka_message =
  msg_Value :: bytes
  msg_Topic :: string
  msg_Partition :: int
  msg_Offset :: int

record base_command =
  cmd_RequestID :: string
  cmd_Operation :: string
  cmd_RequestTime :: instant

type_synonym command_decoder = "bytes \<Rightarrow> go_error option \<times> base_command"

definition commandExpireDuration :: duration where
  "commandExpireDuration = 60 * Minute"

definition NewExpiredCommandSkip :: "'w world \<Rightarrow> command_decoder \<Rightarrow> duration \<Rightarrow> kafka_message \<Rightarrow> 'w \<Rightarrow> bool \<times> 'w" where
  "NewExpiredCommandSkip W decode expire msg w =
     (case decode (msg_Value msg) of
        (Some _, _) \<Rightarrow> (False, w)
      | (None, command) \<Rightarrow>
          (case clock_now W w of (now, w) \<Rightarrow>
             (let expireTime = cmd_RequestTime command + expire
              in if \<not> expireTime < now then (False, w) else (True, w))))"

section \<open>The batch handler\<close>

definition decodeDroppedCommand :: "command_decoder \<Rightarrow> kafka_message \<Rightarrow> base_command" where
  "decodeDroppedCommand decode msg = snd (decode (msg_Value msg))"

definition ObserveExpired :: "'w world \<Rightarrow> base_command \<Rightarrow> kafka_message \<Rightarrow> 'w \<Rightarrow> 'w" where
  "ObserveExpired W command msg w = CommandExpiredTotal W (cmd_Operation command) w"

fun filter_batch ::
  "'w world \<Rightarrow> command_decoder \<Rightarrow> (kafka_message \<Rightarrow> 'w \<Rightarrow> bool \<times> 'w) \<Rightarrow> (base_command \<Rightarrow> kafka_message \<Rightarrow> 'w \<Rightarrow> 'w)
     \<Rightarrow> kafka_message list \<Rightarrow> kafka_message list \<Rightarrow> 'w \<Rightarrow> kafka_message list res \<times> 'w" where
  "filter_batch W decode skip observe [] kept w = (Inr kept, w)"
| "filter_batch W decode skip observe (msg # msgs) kept w =
     (case ctx_err W w of
        Some e \<Rightarrow> (Inl e, w)
      | None \<Rightarrow>
          (case skip msg w of (drop_it, w) \<Rightarrow>
             (if \<not> drop_it then filter_batch W decode skip observe msgs (kept @ [msg]) w
              else filter_batch W decode skip observe msgs kept (observe (decodeDroppedCommand decode msg) msg w))))"

definition NewExpiredCommandBatchHandler ::
  "'w world \<Rightarrow> command_decoder \<Rightarrow> (kafka_message \<Rightarrow> 'w \<Rightarrow> bool \<times> 'w) \<Rightarrow> (base_command \<Rightarrow> kafka_message \<Rightarrow> 'w \<Rightarrow> 'w)
     \<Rightarrow> (kafka_message list \<Rightarrow> 'w \<Rightarrow> go_error option \<times> 'w) \<Rightarrow> kafka_message list \<Rightarrow> 'w \<Rightarrow> go_error option \<times> 'w" where
  "NewExpiredCommandBatchHandler W decode skip observe handler messages w =
     (case filter_batch W decode skip observe messages [] w of
        (Inl e, w) \<Rightarrow> (Some e, w)
      | (Inr kept, w) \<Rightarrow> (if kept = [] then (None, w) else handler kept w))"

text \<open>The handler as it is wired: the real clock, the window of the factory and the counting observer.\<close>

definition newCommandHandler ::
  "'w world \<Rightarrow> command_decoder \<Rightarrow> (kafka_message list \<Rightarrow> 'w \<Rightarrow> go_error option \<times> 'w) \<Rightarrow> kafka_message list \<Rightarrow> 'w
     \<Rightarrow> go_error option \<times> 'w" where
  "newCommandHandler W decode handler =
     NewExpiredCommandBatchHandler W decode (NewExpiredCommandSkip W decode commandExpireDuration) (ObserveExpired W) handler"

section \<open>Restarting the consumer\<close>

definition retryConsumerDelay :: duration where
  "retryConsumerDelay = 5 * Second"

partial_function (option) RetryConsumer ::
  "'w world \<Rightarrow> ('w \<Rightarrow> go_error option \<times> 'w) \<Rightarrow> duration \<Rightarrow> 'w \<Rightarrow> (go_error option \<times> 'w) option" where
  "RetryConsumer W consumer delay w =
     (case consumer w of
        (None, w) \<Rightarrow> Some (None, w)
      | (Some e, w) \<Rightarrow>
          (if ctx_err W w \<noteq> None then Some (None, w)
           else case wait_for W delay w of
                  (Some _, w) \<Rightarrow> Some (None, w)
                | (None, w) \<Rightarrow> RetryConsumer W consumer delay w))"

section \<open>Dropping\<close>

text \<open>A context that stays alive, and a clock that does not run backwards and that counters do not turn.\<close>

definition ticking :: "'w world \<Rightarrow> ('w \<Rightarrow> instant) \<Rightarrow> bool" where
  "ticking W T \<longleftrightarrow>
     (\<forall>w. ctx_err W w = None) \<and> (\<forall>w. T w \<le> T (snd (clock_now W w)) \<and> fst (clock_now W w) = T (snd (clock_now W w))) \<and>
     (\<forall>n ls w. T (inc_metric W n ls w) = T w)"

definition expired_at :: "command_decoder \<Rightarrow> duration \<Rightarrow> instant \<Rightarrow> kafka_message \<Rightarrow> bool" where
  "expired_at decode expire now msg \<longleftrightarrow>
     fst (decode (msg_Value msg)) = None \<and> cmd_RequestTime (snd (decode (msg_Value msg))) + expire < now"

text \<open>The operations counted as expired, in order: only that counter adds to them.\<close>

definition counts_expired :: "'w world \<Rightarrow> ('w \<Rightarrow> string list) \<Rightarrow> bool" where
  "counts_expired W ops \<longleftrightarrow>
     (\<forall>w. ops (snd (clock_now W w)) = ops w) \<and>
     (\<forall>n ls w. ops (inc_metric W n ls w) = ops w @ (if n = ''agent_controller_commands_expired_total'' then ls else []))"

definition operation_of :: "command_decoder \<Rightarrow> kafka_message \<Rightarrow> string" where
  "operation_of decode msg = cmd_Operation (snd (decode (msg_Value msg)))"

text \<open>The messages of a batch with the decision taken on each.\<close>

definition dropped_of :: "kafka_message list \<Rightarrow> bool list \<Rightarrow> kafka_message list" where
  "dropped_of msgs flags = map fst (filter snd (zip msgs flags))"

definition kept_of :: "kafka_message list \<Rightarrow> bool list \<Rightarrow> kafka_message list" where
  "kept_of msgs flags = map fst (filter (\<lambda>(m, d). \<not> d) (zip msgs flags))"

lemma skip_decides:
  assumes "ticking W T" and "NewExpiredCommandSkip W decode expire msg w = (d, w')"
  shows "T w \<le> T w'" "d \<Longrightarrow> expired_at decode expire (T w') msg" "\<not> d \<Longrightarrow> \<not> expired_at decode expire (T w) msg"
proof -
  obtain now u where clock: "clock_now W w = (now, u)" by (meson surj_pair)
  then have t: "T w \<le> T u" "now = T u" using assms(1) unfolding ticking_def by (metis fst_conv snd_conv)+
  obtain e c where dec: "decode (msg_Value msg) = (e, c)" by (meson surj_pair)
  show "T w \<le> T w'" "d \<Longrightarrow> expired_at decode expire (T w') msg" "\<not> d \<Longrightarrow> \<not> expired_at decode expire (T w) msg"
    using assms(2) t by (auto simp: NewExpiredCommandSkip_def dec clock Let_def expired_at_def split: option.splits if_splits)
qed

lemma expired_mono: "expired_at decode expire t msg \<Longrightarrow> t \<le> u \<Longrightarrow> expired_at decode expire u msg"
  by (auto simp: expired_at_def)

text \<open>A message is counted exactly when it is not handed on.\<close>

lemma filter_batch_parts:
  assumes "ticking W T" and "counts_expired W ops"
    and "filter_batch W decode (NewExpiredCommandSkip W decode expire) (ObserveExpired W) msgs kept w = (r, w')"
  shows "\<exists>flags. length flags = length msgs \<and> r = Inr (kept @ kept_of msgs flags) \<and> T w \<le> T w' \<and>
     ops w' = ops w @ map (operation_of decode) (dropped_of msgs flags) \<and>
     (\<forall>(m, d) \<in> set (zip msgs flags). (d \<longrightarrow> expired_at decode expire (T w') m) \<and> (\<not> d \<longrightarrow> \<not> expired_at decode expire (T w) m))"
  using assms(3)
proof (induction msgs arbitrary: kept w)
  case Nil
  then show ?case by (simp add: kept_of_def dropped_of_def)
next
  case (Cons msg msgs)
  obtain d u where skip: "NewExpiredCommandSkip W decode expire msg w = (d, u)" by (meson surj_pair)
  note dec = skip_decides [OF assms(1) skip]
  define k1 where "k1 = (if d then kept else kept @ [msg])"
  define u1 where "u1 = (if d then ObserveExpired W (decodeDroppedCommand decode msg) msg u else u)"
  have ctx: "ctx_err W w = None" using assms(1) by (simp add: ticking_def)
  have "filter_batch W decode (NewExpiredCommandSkip W decode expire) (ObserveExpired W) msgs k1 u1 = (r, w')"
    using Cons.prems by (simp add: ctx skip k1_def u1_def split: if_splits)
  from Cons.IH [OF this] obtain flags where IH: "length flags = length msgs" "r = Inr (k1 @ kept_of msgs flags)" "T u1 \<le> T w'"
    "ops w' = ops u1 @ map (operation_of decode) (dropped_of msgs flags)"
    "\<forall>(m, d) \<in> set (zip msgs flags). (d \<longrightarrow> expired_at decode expire (T w') m) \<and> (\<not> d \<longrightarrow> \<not> expired_at decode expire (T u1) m)"
    by blast
  have T: "T u1 = T u" using assms(1) by (simp add: u1_def ticking_def ObserveExpired_def CommandExpiredTotal_def)
  have "ops u = ops w" using skip assms(2)
    by (auto simp: NewExpiredCommandSkip_def counts_expired_def Let_def split: prod.splits option.splits if_splits) (metis snd_conv)+
  then have ops: "ops u1 = ops w @ (if d then [operation_of decode msg] else [])"
    using assms(2) by (simp add: u1_def counts_expired_def ObserveExpired_def CommandExpiredTotal_def operation_of_def decodeDroppedCommand_def)
  show ?case
  proof (intro exI [of _ "d # flags"] conjI)
    show "r = Inr (kept @ kept_of (msg # msgs) (d # flags))" by (simp add: IH(2) k1_def kept_of_def)
    show "ops w' = ops w @ map (operation_of decode) (dropped_of (msg # msgs) (d # flags))" by (simp add: IH(4) ops dropped_of_def)
    show "\<forall>(m, d') \<in> set (zip (msg # msgs) (d # flags)).
        (d' \<longrightarrow> expired_at decode expire (T w') m) \<and> (\<not> d' \<longrightarrow> \<not> expired_at decode expire (T w) m)"
      using IH(3,5) dec T expired_mono by (fastforce simp: case_prod_beta)
  qed (use IH(1,3) dec(1) T in simp_all)
qed

text \<open>C29: While the context stays alive and the clock does not run backwards, every message of a batch is either handed to the executors, in the order of the batch, or counted once as expired
  under its operation; nothing is lost or done twice. A command older than the window when the batch starts is dropped, one
  not older than the window when the batch has been filtered is kept, and a message that does not decode is kept. The
  executors are not called for an empty rest.\<close>

theorem batch_is_partitioned:
  assumes "ticking W T" and "counts_expired W ops" and "newCommandHandler W decode handler msgs w = (e, w')"
  shows "\<exists>flags w1. length flags = length msgs \<and> T w \<le> T w1 \<and>
     (\<forall>(m, d) \<in> set (zip msgs flags). (expired_at decode commandExpireDuration (T w) m \<longrightarrow> d) \<and>
        (d \<longrightarrow> expired_at decode commandExpireDuration (T w1) m)) \<and>
     ops w1 = ops w @ map (operation_of decode) (dropped_of msgs flags) \<and>
     (e, w') = (if kept_of msgs flags = [] then (None, w1) else handler (kept_of msgs flags) w1)"
proof -
  obtain r w1 where run: "filter_batch W decode (NewExpiredCommandSkip W decode commandExpireDuration) (ObserveExpired W) msgs [] w = (r, w1)"
    by (meson surj_pair)
  from filter_batch_parts [OF assms(1,2) this] obtain flags where parts: "length flags = length msgs" "r = Inr (kept_of msgs flags)" "T w \<le> T w1"
     "ops w1 = ops w @ map (operation_of decode) (dropped_of msgs flags)"
     "\<forall>(m, d) \<in> set (zip msgs flags). (d \<longrightarrow> expired_at decode commandExpireDuration (T w1) m) \<and>
        (\<not> d \<longrightarrow> \<not> expired_at decode commandExpireDuration (T w) m)" by auto
  have "(e, w') = (if kept_of msgs flags = [] then (None, w1) else handler (kept_of msgs flags) w1)"
    using assms(3) parts(2) run by (simp add: newCommandHandler_def NewExpiredCommandBatchHandler_def)
  then show ?thesis using parts by (intro exI [of _ flags] exI [of _ w1]) auto
qed

section \<open>Returning\<close>

text \<open>The state before the attempt that follows \<open>n\<close> failed ones.\<close>

fun after_failures :: "'w world \<Rightarrow> ('w \<Rightarrow> go_error option \<times> 'w) \<Rightarrow> duration \<Rightarrow> nat \<Rightarrow> 'w \<Rightarrow> 'w option" where
  "after_failures W consumer delay 0 w = Some w"
| "after_failures W consumer delay (Suc n) w =
     (case consumer w of
        (None, _) \<Rightarrow> None
      | (Some _, w) \<Rightarrow>
          (if ctx_err W w \<noteq> None then None
           else case wait_for W delay w of (Some _, _) \<Rightarrow> None | (None, w) \<Rightarrow> after_failures W consumer delay n w))"

definition last_attempt :: "'w world \<Rightarrow> ('w \<Rightarrow> go_error option \<times> 'w) \<Rightarrow> duration \<Rightarrow> 'w \<Rightarrow> bool" where
  "last_attempt W consumer delay w \<longleftrightarrow>
     (case consumer w of
        (None, _) \<Rightarrow> True
      | (Some _, w) \<Rightarrow> ctx_err W w \<noteq> None \<or> fst (wait_for W delay w) \<noteq> None)"

lemma retry_returns:
  "after_failures W consumer delay n w = Some w1 \<Longrightarrow> last_attempt W consumer delay w1 \<Longrightarrow>
   \<exists>w2. RetryConsumer W consumer delay w = Some (None, w2)"
proof (induction n arbitrary: w)
  case 0
  then show ?case
    by (subst RetryConsumer.simps) (auto simp: last_attempt_def split: prod.splits option.splits)
next
  case (Suc n)
  obtain e u v where step: "consumer w = (Some e, u)" "ctx_err W u = None" "wait_for W delay u = (None, v)"
    "after_failures W consumer delay n v = Some w1"
    using Suc.prems(1) by (auto split: prod.splits option.splits if_splits)
  have "RetryConsumer W consumer delay w = RetryConsumer W consumer delay v"
    by (subst RetryConsumer.simps) (simp add: step)
  then show ?case using Suc.IH [OF step(4) Suc.prems(2)] by simp
qed

definition ended :: "'w world \<Rightarrow> ('w \<Rightarrow> go_error option \<times> 'w) \<Rightarrow> duration \<Rightarrow> 'w \<Rightarrow> go_error option \<times> 'w \<Rightarrow> bool" where
  "ended W consumer delay w y \<longleftrightarrow>
     fst y = None \<and> (\<exists>n w1. after_failures W consumer delay n w = Some w1 \<and> last_attempt W consumer delay w1)"

lemma ended_now: "last_attempt W consumer delay w \<Longrightarrow> ended W consumer delay w (None, u)"
  unfolding ended_def by (intro conjI exI [of _ 0] exI [of _ w]) simp_all

lemma ended_later:
  assumes "consumer w = (Some e, u)" and "ctx_err W u = None" and "wait_for W delay u = (None, v)" and "ended W consumer delay v y"
  shows "ended W consumer delay w y"
proof -
  obtain n w1 where "after_failures W consumer delay n v = Some w1" "last_attempt W consumer delay w1" "fst y = None"
    using assms(4) unfolding ended_def by blast
  then show ?thesis unfolding ended_def using assms(1-3) by (intro conjI exI [of _ "Suc n"] exI [of _ w1]) simp_all
qed

lemma retry_ended:
  assumes "RetryConsumer W consumer delay w = Some y"
  shows "ended W consumer delay w y"
proof (rule RetryConsumer.raw_induct [OF _ assms])
  fix rec :: "'w world \<Rightarrow> ('w \<Rightarrow> go_error option \<times> 'w) \<Rightarrow> duration \<Rightarrow> 'w \<Rightarrow> (go_error option \<times> 'w) option"
    and W :: "'w world" and consumer delay w y
  assume IH: "\<And>W consumer delay w y. rec W consumer delay w = Some y \<Longrightarrow> ended W consumer delay w y"
    and body: "(case consumer w of (None, w) \<Rightarrow> Some (None, w)
      | (Some e, w) \<Rightarrow>
          (if ctx_err W w \<noteq> None then Some (None, w)
           else case wait_for W delay w of
                  (Some _, w) \<Rightarrow> Some (None, w)
                | (None, w) \<Rightarrow> rec W consumer delay w)) = Some y"
  obtain r u where run: "consumer w = (r, u)" by (meson surj_pair)
  obtain c v where wait: "wait_for W delay u = (c, v)" by (meson surj_pair)
  show "ended W consumer delay w y"
  proof (cases "r = None \<or> ctx_err W u \<noteq> None \<or> c \<noteq> None")
    case True
    then have "last_attempt W consumer delay w" by (cases r) (auto simp: last_attempt_def run wait)
    moreover have "fst y = None" using body True by (auto simp: run wait split: option.splits if_splits)
    ultimately show ?thesis by (cases y) (simp add: ended_now)
  next
    case False
    then obtain e where "r = Some e" by auto
    with False have "rec W consumer delay v = Some y" using body by (simp add: run wait)
    from ended_later [OF _ _ _ IH [OF this]] show ?thesis using \<open>r = Some e\<close> False run wait by simp
  qed
qed

text \<open>The context ends in an attempt or in the pause after it.\<close>

definition context_ends :: "'w world \<Rightarrow> ('w \<Rightarrow> go_error option \<times> 'w) \<Rightarrow> duration \<Rightarrow> 'w \<Rightarrow> bool" where
  "context_ends W consumer delay w \<longleftrightarrow>
     (case consumer w of (_, w) \<Rightarrow> ctx_err W w \<noteq> None \<or> fst (wait_for W delay w) \<noteq> None)"

lemma last_attempt_error:
  "fst (consumer w) \<noteq> None \<Longrightarrow> last_attempt W consumer delay w \<longleftrightarrow> context_ends W consumer delay w"
  by (auto simp: last_attempt_def context_ends_def split: prod.splits option.splits)

text \<open>A return without an error, which the comment on \<open>RetryConsumer\<close> does not expect, ends the loop although the context
  lives on.\<close>

lemma clean_return_ends_the_loop: "consumer w = (None, w1) \<Longrightarrow> RetryConsumer W consumer delay w = Some (None, w1)"
  by (subst RetryConsumer.simps) simp

text \<open>C30: A consumer whose every return is an interruption is restarted until the context ends: the loop returns exactly
  when the context has ended after finitely many failed attempts, each followed by the pause, and then without an error;
  while the context lives on it does not return.\<close>

theorem consumer_loop_returns_only_when_done:
  assumes "\<forall>w. fst (consumer w) \<noteq> None"
  shows "((\<exists>y. RetryConsumer W consumer delay w = Some y) \<longleftrightarrow>
     (\<exists>n w1. after_failures W consumer delay n w = Some w1 \<and> context_ends W consumer delay w1)) \<and>
   (\<forall>y. RetryConsumer W consumer delay w = Some y \<longrightarrow> fst y = None)"
proof
  have last: "last_attempt W consumer delay v = context_ends W consumer delay v" for v
    by (rule last_attempt_error) (use assms in blast)
  show "(\<exists>y. RetryConsumer W consumer delay w = Some y) \<longleftrightarrow>
     (\<exists>n w1. after_failures W consumer delay n w = Some w1 \<and> context_ends W consumer delay w1)"
    using retry_returns [of W consumer delay] retry_ended [of W consumer delay w]
    unfolding ended_def last by blast
  show "\<forall>y. RetryConsumer W consumer delay w = Some y \<longrightarrow> fst y = None"
    using retry_ended [of W consumer delay w] by (auto simp: ended_def)
qed

section \<open>Reference instances\<close>

text \<open>A batch of an old command and a message that is no command, at the reference server.\<close>

definition ref_decoder :: command_decoder where
  "ref_decoder b =
     (if b = [] then (Some (Errorf ''json'' []), \<lparr>cmd_RequestID = [], cmd_Operation = [], cmd_RequestTime = 0\<rparr>)
      else (None, \<lparr>cmd_RequestID = ''r'', cmd_Operation = b, cmd_RequestTime = 0\<rparr>))"

definition ref_message :: "bytes \<Rightarrow> kafka_message" where
  "ref_message b = \<lparr>msg_Value = b, msg_Topic = ''t'', msg_Partition = 0, msg_Offset = 0\<rparr>"

definition late_mem :: mem where
  "late_mem = \<lparr>mem_files = [], mem_clock = commandExpireDuration + 1, mem_metrics = []\<rparr>"

definition expired_ops :: "mem \<Rightarrow> string list" where
  "expired_ops m = concat (map (\<lambda>(n, ls). if n = ''agent_controller_commands_expired_total'' then ls else []) (mem_metrics m))"

theorem batch_is_partitioned_witness:
  "\<exists>m. newCommandHandler ref_world ref_decoder (\<lambda>ms m. (Some (Errorf ''handled %d'' [Itoa (int (length ms))]), m))
       [ref_message ''update'', ref_message []] late_mem = (Some (Errorf ''handled %d'' [''1'']), m) \<and> expired_ops m = [''update'']"
proof -
  let ?h = "\<lambda>ms m. (Some (Errorf ''handled %d'' [Itoa (int (length ms))]), m) :: go_error option \<times> mem"
    and ?ms = "[ref_message ''update'', ref_message []]"
  have tick: "ticking ref_world mem_clock" by (simp add: ticking_def mem_world_def)
  have count: "counts_expired ref_world expired_ops" by (simp add: counts_expired_def mem_world_def expired_ops_def)
  obtain e m where run: "newCommandHandler ref_world ref_decoder ?h ?ms late_mem = (e, m)" by (meson surj_pair)
  from batch_is_partitioned [OF tick count run] obtain flags w1 where flags: "length flags = length ?ms"
    "\<forall>(m, d) \<in> set (zip ?ms flags). (expired_at ref_decoder commandExpireDuration (mem_clock late_mem) m \<longrightarrow> d) \<and>
        (d \<longrightarrow> expired_at ref_decoder commandExpireDuration (mem_clock w1) m)"
    "expired_ops w1 = expired_ops late_mem @ map (operation_of ref_decoder) (dropped_of ?ms flags)"
    "(e, m) = (if kept_of ?ms flags = [] then (None, w1) else ?h (kept_of ?ms flags) w1)" by blast
  then obtain d1 d2 where d: "flags = [d1, d2]" by (auto simp: length_Suc_conv)
  have "d1" "\<not> d2" using flags(2) by (auto simp: d expired_at_def ref_decoder_def ref_message_def late_mem_def)
  moreover have "Itoa 1 = ''1''" by code_simp
  ultimately show ?thesis
    using flags(3,4) unfolding run
    by (simp add: d dropped_of_def kept_of_def expired_ops_def late_mem_def operation_of_def ref_decoder_def ref_message_def)
qed

text \<open>A consumer that fails every time, in a process that is stopped after the third attempt.\<close>

definition stopped_world :: "nat world" where
  "stopped_world =
     \<lparr>http_do = (\<lambda>q n. (Inl (Errorf ''offline'' []), n)), new_request_error = (\<lambda>_ _. None),
      ctx_err = (\<lambda>n. if n < 3 then None else Some (Errorf ''context canceled'' [])),
      wait_for = (\<lambda>d n. (None, n)), clock_now = (\<lambda>n. (0, n)), inc_metric = (\<lambda>_ ls n. n), json_paths = (\<lambda>b. Inr [])\<rparr>"

definition failing_consumer :: "nat \<Rightarrow> go_error option \<times> nat" where
  "failing_consumer n = (Some (Errorf ''EOF'' []), Suc n)"

theorem consumer_loop_returns_only_when_done_witness:
  "\<exists>y. RetryConsumer stopped_world failing_consumer retryConsumerDelay 0 = Some y \<and> fst y = None"
proof -
  have fails: "\<forall>n. fst (failing_consumer n) \<noteq> None" by (simp add: failing_consumer_def)
  have "after_failures stopped_world failing_consumer retryConsumerDelay 2 0 = Some 2" "context_ends stopped_world failing_consumer retryConsumerDelay 2"
    by (simp_all add: numeral_2_eq_2 stopped_world_def failing_consumer_def context_ends_def)
  with consumer_loop_returns_only_when_done [OF fails, of stopped_world retryConsumerDelay 0] show ?thesis by blast
qed

end
