(* ===== verification/PrComment.thy ===== *)
theory PrComment
  imports Frontmatter Metrics
begin

text \<open>
  The pull-request commenter (\<open>pkg/prcomment/pr_commenter.go\<close>): the pull request a task names, and the one request
  that posts a comment on it. The two regular expressions are written as functions; \<open>[^/]\<close> matches every character but
  the slash, and \<open>\<backslash>d\<close> the ASCII digits. Parameter: \<open>json.Marshal\<close> of the review.
\<close>

section \<open>The pull request of a task\<close>

record prCommenter =
  pc_baseURL :: string
  pc_token :: string
  pc_timeout :: duration

definition NewPRCommenter :: "duration \<Rightarrow> string \<Rightarrow> string \<Rightarrow> prCommenter" where
  "NewPRCommenter timeout url token = \<lparr>pc_baseURL = url, pc_token = token, pc_timeout = timeout\<rparr>"

definition github_prefix :: string where
  "github_prefix = ''https://github.com/''"

definition prURLRE :: "string \<Rightarrow> (string \<times> string \<times> string) option" where
  "prURLRE s =
     (if HasPrefix s github_prefix
      then (case Split (CHR ''/'') (drop (length github_prefix) s) of
              [owner, repo, pull, number] \<Rightarrow>
                (if owner \<noteq> [] \<and> repo \<noteq> [] \<and> pull = ''pull'' \<and> number \<noteq> [] \<and> list_all is_digit number
                 then Some (owner, repo, number) else None)
            | _ \<Rightarrow> None)
      else None)"

definition slug_name_char :: "char \<Rightarrow> bool" where
  "slug_name_char c \<longleftrightarrow>
     is_digit c \<or> c \<in> set ''abcdefghijklmnopqrstuvwxyzABCDEFGHIJKLMNOPQRSTUVWXYZ'' \<or> c \<in> set ''_.-''"

definition repoSlugRE :: "string \<Rightarrow> bool" where
  "repoSlugRE s =
     (case Split (CHR ''/'') s of
        [owner, repo] \<Rightarrow> owner \<noteq> [] \<and> repo \<noteq> [] \<and> list_all slug_name_char owner \<and> list_all slug_name_char repo
      | _ \<Rightarrow> False)"

text \<open>\<open>strconv.Atoi\<close> of digits fails above the largest 64-bit integer.\<close>

definition Atoi_digits :: "string \<Rightarrow> int option" where
  "Atoi_digits s = (if digits_val s < 2 ^ 63 then Some (digits_val s) else None)"

definition resolvePR :: "pure_lib \<Rightarrow> fm \<Rightarrow> (string \<times> string \<times> int) res" where
  "resolvePR L frontmatter =
     (let repoSlug = string_or_empty (lib_String L frontmatter ''repository'');
          fallback =
            (case lib_Int L frontmatter ''pull_request_number'' of
               None \<Rightarrow> Inl (Errorf ''planning-retry: cannot resolve PR from task: no pr_url or repository/pull_request_number in frontmatter'' [])
             | Some rawNumber \<Rightarrow>
                 (if repoSlug = [] then Inl (Errorf ''planning-retry: cannot resolve PR from task: no pr_url or repository/pull_request_number in frontmatter'' [])
                  else if \<not> repoSlugRE repoSlug then Inl (Errorf ''planning-retry: cannot resolve PR from task: invalid repository slug'' [])
                  else if rawNumber \<le> 0 then Inl (Errorf ''planning-retry: cannot resolve PR from task: invalid pull_request_number'' [])
                  else let parts = Split (CHR ''/'') repoSlug in Inr (parts ! 0, parts ! 1, rawNumber)))
      in case lib_String L frontmatter ''pr_url'' of
           None \<Rightarrow> fallback
         | Some prURL \<Rightarrow>
             (case prURLRE prURL of
                None \<Rightarrow> fallback
              | Some (owner, repo, number) \<Rightarrow>
                  (case Atoi_digits number of
                     None \<Rightarrow> Inl (Errorf ''planning-retry: cannot resolve PR from task: invalid pr_url number'' [])
                   | Some n \<Rightarrow> Inr (owner, repo, n))))"

section \<open>Posting\<close>

definition review_url :: "prCommenter \<Rightarrow> string \<Rightarrow> string \<Rightarrow> int \<Rightarrow> string" where
  "review_url c owner repo number =
     pc_baseURL c @ ''/repos/'' @ owner @ ''/'' @ repo @ ''/pulls/'' @ Itoa number @ ''/reviews''"

definition review_request :: "prCommenter \<Rightarrow> string \<Rightarrow> bytes \<Rightarrow> http_request" where
  "review_request c url payload =
     \<lparr>req_method = ''POST'', req_url = url,
      req_headers = [(''Authorization'', ''Bearer '' @ pc_token c), (''Accept'', ''application/vnd.github+json''),
                     (''X-GitHub-Api-Version'', ''2022-11-28''), (''Content-Type'', ''application/json'')],
      req_body = payload, req_timeout = pc_timeout c\<rparr>"

definition PostComment ::
  "'w world \<Rightarrow> pure_lib \<Rightarrow> (string \<times> string \<Rightarrow> bytes res) \<Rightarrow> prCommenter \<Rightarrow> fm \<Rightarrow> string \<Rightarrow> 'w \<Rightarrow> go_error option \<times> 'w" where
  "PostComment W L json_review c frontmatter body w =
     (if pc_token c = [] then (Some (Errorf ''planning-retry: github token missing; skipping COMMENT post'' []), w)
      else case resolvePR L frontmatter of
        Inl e \<Rightarrow> (Some e, w)
      | Inr (owner, repo, number) \<Rightarrow>
          (let url = review_url c owner repo number
           in case json_review (''COMMENT'', body) of
                Inl e \<Rightarrow> (Some (Wrapf e ''marshal review request'' []), w)
              | Inr payload \<Rightarrow>
                  (case new_request_error W ''POST'' url of
                     Some e \<Rightarrow> (Some (Wrapf e ''planning-retry: github COMMENT post failed'' []), w)
                   | None \<Rightarrow>
                       (case http_do W (review_request c url payload) w of
                          (Inl e, w) \<Rightarrow> (Some (Wrapf e ''planning-retry: github COMMENT post failed'' []), w)
                        | (Inr resp, w) \<Rightarrow>
                            (if resp_status resp < 200 \<or> 300 \<le> resp_status resp
                             then (Some (Errorf ''planning-retry: github COMMENT post failed: status %d'' [Itoa (resp_status resp)]), w)
                             else (None, w))))))"

section \<open>Properties\<close>

lemma prURLRE_shape:
  assumes "prURLRE s = Some (owner, repo, number)"
  shows "s = ''https://github.com/'' @ owner @ ''/'' @ repo @ ''/pull/'' @ number" "CHR ''/'' \<notin> set owner" "CHR ''/'' \<notin> set repo"
    "owner \<noteq> []" "repo \<noteq> []" "number \<noteq> []" "list_all is_digit number"
proof -
  have pre: "HasPrefix s github_prefix" using assms by (simp add: prURLRE_def split: if_splits)
  then obtain t where s: "s = github_prefix @ t" by (auto simp: HasPrefix_def prefix_def)
  then have sp: "Split (CHR ''/'') t = [owner, repo, ''pull'', number]"
    and rest: "owner \<noteq> []" "repo \<noteq> []" "number \<noteq> []" "list_all is_digit number"
    using assms by (auto simp: prURLRE_def split: if_splits list.splits)
  have "t = Join ''/'' (Split (CHR ''/'') t)" by (simp add: Join_Split)
  then have t: "t = owner @ ''/'' @ repo @ ''/pull/'' @ number" unfolding sp by (simp add: Join_Cons)
  show "s = ''https://github.com/'' @ owner @ ''/'' @ repo @ ''/pull/'' @ number" by (simp add: s t github_prefix_def)
  show "CHR ''/'' \<notin> set owner" "CHR ''/'' \<notin> set repo" using Split_pieces [of _ "CHR ''/''" t] sp by auto
  show "owner \<noteq> []" "repo \<noteq> []" "number \<noteq> []" "list_all is_digit number" by (fact rest)+
qed


lemma resolvePR_cases:
  assumes "resolvePR L frontmatter = Inr (owner, repo, number)"
  shows "(\<exists>digits. lib_String L frontmatter ''pr_url'' = Some (''https://github.com/'' @ owner @ ''/'' @ repo @ ''/pull/'' @ digits) \<and>
            digits \<noteq> [] \<and> list_all is_digit digits \<and> number = digits_val digits \<and> number < 2 ^ 63 \<and>
            owner \<noteq> [] \<and> repo \<noteq> [] \<and> CHR ''/'' \<notin> set owner \<and> CHR ''/'' \<notin> set repo) \<or>
         (lib_String L frontmatter ''repository'' = Some (owner @ ''/'' @ repo) \<and>
            lib_Int L frontmatter ''pull_request_number'' = Some number \<and> 0 < number \<and>
            owner \<noteq> [] \<and> repo \<noteq> [] \<and> list_all slug_name_char owner \<and> list_all slug_name_char repo)"
proof (cases "\<exists>u. lib_String L frontmatter ''pr_url'' = Some u \<and> prURLRE u \<noteq> None")
  case True
  then obtain u o' r' d where u: "lib_String L frontmatter ''pr_url'' = Some u" "prURLRE u = Some (o', r', d)" by auto
  then have "o' = owner" "r' = repo" "number = digits_val d" "digits_val d < 2 ^ 63"
    using assms by (auto simp: resolvePR_def Let_def Atoi_digits_def split: if_splits)
  then show ?thesis using u prURLRE_shape [OF u(2)] by auto
next
  case False
  then have fb: "lib_Int L frontmatter ''pull_request_number'' = Some number" "0 < number"
    "repoSlugRE (string_or_empty (lib_String L frontmatter ''repository''))"
    "owner = Split (CHR ''/'') (string_or_empty (lib_String L frontmatter ''repository'')) ! 0"
    "repo = Split (CHR ''/'') (string_or_empty (lib_String L frontmatter ''repository'')) ! 1"
    "string_or_empty (lib_String L frontmatter ''repository'') \<noteq> []"
    using assms by (auto simp: resolvePR_def Let_def split: option.splits if_splits)
  then obtain slug where slug: "lib_String L frontmatter ''repository'' = Some slug" "slug \<noteq> []"
    by (cases "lib_String L frontmatter ''repository''") (auto simp: string_or_empty_def)
  then obtain o' r' where sp: "Split (CHR ''/'') slug = [o', r']" "o' \<noteq> []" "r' \<noteq> []" "list_all slug_name_char o'" "list_all slug_name_char r'"
    using fb(3) by (auto simp: repoSlugRE_def string_or_empty_def split: list.splits)
  then have "owner = o'" "repo = r'" using fb(4,5) slug by (simp_all add: string_or_empty_def)
  moreover have "slug = Join ''/'' (Split (CHR ''/'') slug)" by (simp add: Join_Split)
  then have "slug = o' @ ''/'' @ r'" unfolding sp(1) by (simp add: Join_Cons)
  ultimately show ?thesis using fb(1,2) slug sp by auto
qed

text \<open>C39: Posting a comment sends at most one request, and only with a token: a POST with that token to the reviews of one
  pull request below the base URL. The pull request is the one the frontmatter names, either by a GitHub link or by a
  slug and a positive number; a slug contributes two path segments of letters, digits, dots, dashes and underscores.
  Nothing is sent when no pull request can be resolved, and the result is nil exactly for a status of 200 to 299.\<close>

theorem comment_is_one_review_request:
  assumes "PostComment (traced W) L json_review c frontmatter body x = (e, x')"
  shows "(snd x' = snd x \<and> e \<noteq> None) \<or>
    (\<exists>owner repo number payload r. pc_token c \<noteq> [] \<and> resolvePR L frontmatter = Inr (owner, repo, number) \<and>
       json_review (''COMMENT'', body) = Inr payload \<and>
       snd x' = snd x @ [(review_request c (review_url c owner repo number) payload, r)] \<and>
       (e = None \<longleftrightarrow> (\<exists>resp. r = Inr resp \<and> 200 \<le> resp_status resp \<and> resp_status resp < 300)) \<and>
       owner \<noteq> [] \<and> repo \<noteq> [] \<and>
       ((\<exists>digits. lib_String L frontmatter ''pr_url'' = Some (''https://github.com/'' @ owner @ ''/'' @ repo @ ''/pull/'' @ digits) \<and>
           number = digits_val digits) \<or>
        (lib_String L frontmatter ''repository'' = Some (owner @ ''/'' @ repo) \<and> 0 < number \<and>
         list_all slug_name_char owner \<and> list_all slug_name_char repo)))"
proof (cases "\<exists>owner repo number payload. pc_token c \<noteq> [] \<and> resolvePR L frontmatter = Inr (owner, repo, number) \<and>
    json_review (''COMMENT'', body) = Inr payload \<and> new_request_error (traced W) ''POST'' (review_url c owner repo number) = None")
  case False
  then have "snd x' = snd x \<and> e \<noteq> None"
    using assms by (auto simp: PostComment_def Let_def split: if_splits sum.splits option.splits prod.splits)
  then show ?thesis by blast
next
  case True
  then obtain owner repo number payload where pr: "pc_token c \<noteq> []" "resolvePR L frontmatter = Inr (owner, repo, number)"
    "json_review (''COMMENT'', body) = Inr payload" "new_request_error (traced W) ''POST'' (review_url c owner repo number) = None" by blast
  let ?q = "review_request c (review_url c owner repo number) payload"
  obtain r y where y: "http_do (traced W) ?q x = (r, y)" by (meson surj_pair)
  have "snd y = snd x @ [(?q, r)]" using traced_simps(1) [of W ?q x] y by simp
  moreover have "x' = y" "e = None \<longleftrightarrow> (\<exists>resp. r = Inr resp \<and> 200 \<le> resp_status resp \<and> resp_status resp < 300)"
    using assms pr y by (auto simp: PostComment_def Let_def split: sum.splits if_splits)
  moreover note resolvePR_cases [OF pr(2)]
  ultimately show ?thesis using pr by blast
qed

text \<open>The owner a link names is not checked to be a name. A link whose owner ends with a question mark makes the request
  go to the path before it, with the token: the rest of the path becomes the query.\<close>

theorem link_owner_may_end_the_path:
  assumes "lib_String L frontmatter ''pr_url'' = Some (''https://github.com/'' @ segment @ ''?/r/pull/1'')" and "CHR ''/'' \<notin> set segment"
    and "pc_token c \<noteq> []" and "json_review (''COMMENT'', body) = Inr payload"
    and "new_request_error W ''POST'' (pc_baseURL c @ ''/repos/'' @ segment @ ''?/r/pulls/1/reviews'') = None"
  shows "\<exists>r. snd (snd (PostComment (traced W) L json_review c frontmatter body x)) =
     snd x @ [(review_request c (pc_baseURL c @ ''/repos/'' @ segment @ ''?/r/pulls/1/reviews'') payload, r)]"
proof -
  have "Split (CHR ''/'') ((segment @ ''?'') @ CHR ''/'' # ''r/pull/1'') = Split (CHR ''/'') (segment @ ''?'') @ Split (CHR ''/'') ''r/pull/1''"
    by (rule Split_append_sep)
  moreover have "Split (CHR ''/'') (segment @ ''?'') = [segment @ ''?'']" by (rule Split_no_sep) (use assms(2) in simp)
  ultimately have sp: "Split (CHR ''/'') (segment @ ''?/r/pull/1'') = [segment @ ''?'', ''r'', ''pull'', ''1'']" by simp
  have "HasPrefix (''https://github.com/'' @ t) github_prefix" "drop (length github_prefix) (''https://github.com/'' @ t) = t" for t
    by (simp_all add: HasPrefix_def github_prefix_def)
  then have re: "prURLRE (''https://github.com/'' @ segment @ ''?/r/pull/1'') = Some (segment @ ''?'', ''r'', ''1'')"
    unfolding prURLRE_def by (simp only: if_True sp list.case) (simp add: is_digit_def)
  have "Atoi_digits ''1'' = Some 1" by code_simp
  then have pr: "resolvePR L frontmatter = Inr (segment @ ''?'', ''r'', 1)"
    unfolding resolvePR_def assms(1) option.case re Let_def by simp
  have "Itoa 1 = ''1''" by code_simp
  then have url: "review_url c (segment @ ''?'') ''r'' 1 = pc_baseURL c @ ''/repos/'' @ segment @ ''?/r/pulls/1/reviews''"
    by (simp add: review_url_def)
  obtain r y where y: "http_do (traced W) (review_request c (pc_baseURL c @ ''/repos/'' @ segment @ ''?/r/pulls/1/reviews'') payload) x = (r, y)"
    by (meson surj_pair)
  have "snd y = snd x @ [(review_request c (pc_baseURL c @ ''/repos/'' @ segment @ ''?/r/pulls/1/reviews'') payload, r)]"
    using traced_simps(1) [of W _ x] y by (metis fst_conv snd_conv)
  moreover have "snd (PostComment (traced W) L json_review c frontmatter body x) = y"
    using assms(3-5) y unfolding PostComment_def pr sum.case prod.case Let_def url
    by (auto simp: traced_def split: sum.split)
  ultimately show ?thesis by blast
qed


section \<open>Reference instances\<close>

definition ref_commenter :: prCommenter where
  "ref_commenter = NewPRCommenter (30 * Second) ''https://api.github.com'' ''t''"

definition empty_mem :: mem where
  "empty_mem = \<lparr>mem_files = [], mem_clock = 0, mem_metrics = []\<rparr>"

definition slug_fm :: fm where
  "slug_fm = fmupd ''repository'' (VStr ''o/r'') (fmupd ''pull_request_number'' (VInt 7) fmempty)"

lemma slug_resolved: "resolvePR ref_lib slug_fm = Inr (''o'', ''r'', 7)"
proof -
  have "repoSlugRE ''o/r''" "Split (CHR ''/'') ''o/r'' = [''o'', ''r'']" by code_simp+
  then show ?thesis by (simp add: resolvePR_def slug_fm_def ref_lib_def string_or_empty_def as_string_def)
qed

theorem comment_is_one_review_request_witness:
  "\<exists>x. snd (PostComment (traced ref_world) ref_lib (\<lambda>(a, b). Inr b) ref_commenter slug_fm ''hello'' (empty_mem, [])) = x \<and>
     (snd x = [] \<or> (\<exists>r. snd x =
        [(review_request ref_commenter ''https://api.github.com/repos/o/r/pulls/7/reviews'' ''hello'', r)]))"
proof -
  obtain e x where run: "PostComment (traced ref_world) ref_lib (\<lambda>(a, b). Inr b) ref_commenter slug_fm ''hello'' (empty_mem, []) = (e, x)"
    by (meson surj_pair)
  have "Itoa 7 = ''7''" by code_simp
  then have "review_url ref_commenter ''o'' ''r'' 7 = ''https://api.github.com/repos/o/r/pulls/7/reviews''"
    by (simp add: review_url_def ref_commenter_def NewPRCommenter_def)
  with comment_is_one_review_request [OF run] show ?thesis by (auto simp: run slug_resolved)
qed

definition query_fm :: fm where
  "query_fm = fmupd ''pr_url'' (VStr ''https://github.com/o?/r/pull/1'') fmempty"

theorem link_owner_may_end_the_path_witness:
  "\<exists>r. snd (snd (PostComment (traced ref_world) ref_lib (\<lambda>(a, b). Inr b) ref_commenter query_fm ''hello'' (empty_mem, []))) =
     [(review_request ref_commenter ''https://api.github.com/repos/o?/r/pulls/1/reviews'' ''hello'', r)]"
proof -
  have "lib_String ref_lib query_fm ''pr_url'' = Some (''https://github.com/'' @ ''o'' @ ''?/r/pull/1'')"
    by (simp add: ref_lib_def query_fm_def as_string_def)
  moreover have "CHR ''/'' \<notin> set ''o''" "pc_token ref_commenter \<noteq> []" by (simp_all add: ref_commenter_def NewPRCommenter_def)
  moreover have "new_request_error ref_world ''POST'' u = None" for u by (simp add: mem_world_def)
  ultimately show ?thesis
    using link_owner_may_end_the_path [where L = ref_lib and frontmatter = query_fm and segment = "''o''" and c = ref_commenter
        and W = ref_world and json_review = "\<lambda>(a, b). Inr b" and body = "''hello''" and payload = "''hello''" and x = "(empty_mem, [])"]
    by (simp add: ref_commenter_def NewPRCommenter_def)
qed

end
