(* ===== verification/CommandConsumer.thy ===== *)
theory CommandConsumer
  imports CommandExpiry
begin

text \<open>
  The consumer of the command topic (\<open>newCommandOffsetManager\<close> and \<open>newCommandConsumerFunc\<close> of
  \<open>pkg/factory/command_consumer.go\<close>). The client provider, the offset manager and the consumer itself belong to the Kafka
  library and are parameters; what is modelled is which of them are asked for, in which order, with which window, and what
  handler they are given.
\<close>

section \<open>One attempt\<close>

record ('om, 'w) kafka_lib =
  SaramaClient :: "'w \<Rightarrow> go_error option \<times> 'w"
  NewTTLSeekOffsetManager :: "duration \<Rightarrow> 'om"
  ConsumeBatches ::
    "'om \<Rightarrow> (kafka_message list \<Rightarrow> 'w \<Rightarrow> go_error option \<times> 'w) \<Rightarrow> int \<Rightarrow> 'w \<Rightarrow> go_error option \<times> 'w"

definition newCommandOffsetManager :: "('om, 'w) kafka_lib \<Rightarrow> 'om" where
  "newCommandOffsetManager K = NewTTLSeekOffsetManager K commandExpireDuration"

definition newCommandConsumerFunc ::
  "'w world \<Rightarrow> command_decoder \<Rightarrow> ('om, 'w) kafka_lib \<Rightarrow> int \<Rightarrow> (kafka_message list \<Rightarrow> 'w \<Rightarrow> go_error option \<times> 'w)
     \<Rightarrow> 'w \<Rightarrow> go_error option \<times> 'w" where
  "newCommandConsumerFunc W decode K batchSize handler w =
     (case SaramaClient K w of
        (Some e, w) \<Rightarrow> (Some (Wrapf e ''create sarama client failed'' []), w)
      | (None, w) \<Rightarrow> ConsumeBatches K (newCommandOffsetManager K) (newCommandHandler W decode handler) batchSize w)"

text \<open>Without a client nothing is consumed, and the restart loop waits and asks for one again.\<close>

lemma no_client_is_retried:
  assumes "SaramaClient K w = (Some e, u)" and "ctx_err W u = None" and "wait_for W delay u = (None, v)"
  shows "RetryConsumer W (newCommandConsumerFunc W decode K batchSize handler) delay w =
    RetryConsumer W (newCommandConsumerFunc W decode K batchSize handler) delay v"
  by (subst RetryConsumer.simps) (simp add: newCommandConsumerFunc_def assms)

section \<open>The seek and the filter\<close>

text \<open>The documented start of the TTL-seek manager: without a committed offset a partition starts at the first message stamped
  no longer ago than the duration the manager was made with. \<open>passed_over om now retained\<close> are the messages of the partition
  before that start, with the time stamps of the broker; which they are is the library's business.\<close>

definition seeks_to_window ::
  "('om, 'w) kafka_lib \<Rightarrow> ('om \<Rightarrow> instant \<Rightarrow> (instant \<times> kafka_message) list \<Rightarrow> (instant \<times> kafka_message) list) \<Rightarrow> bool" where
  "seeks_to_window K passed_over \<longleftrightarrow>
     (\<forall>d now retained. set (passed_over (NewTTLSeekOffsetManager K d) now retained) \<subseteq> set retained \<and>
        (\<forall>(ts, m) \<in> set (passed_over (NewTTLSeekOffsetManager K d) now retained). ts < now - d))"

text \<open>No producer's clock is ahead of the broker's: a command was requested no later than the broker took it.\<close>

definition clocks_agree :: "command_decoder \<Rightarrow> (instant \<times> kafka_message) list \<Rightarrow> bool" where
  "clocks_agree decode retained \<longleftrightarrow>
     (\<forall>(ts, m) \<in> set retained. fst (decode (msg_Value m)) = None \<longrightarrow> cmd_RequestTime (snd (decode (msg_Value m))) \<le> ts)"

definition is_command :: "command_decoder \<Rightarrow> kafka_message \<Rightarrow> bool" where
  "is_command decode m \<longleftrightarrow> fst (decode (msg_Value m)) = None"

lemma passed_over_expired:
  assumes "seeks_to_window K passed_over" and "clocks_agree decode retained" and "now \<le> t"
    and "m \<in> snd ` set (passed_over (newCommandOffsetManager K) now retained)" and "is_command decode m"
  shows "expired_at decode commandExpireDuration t m"
proof -
  obtain ts where ts: "(ts, m) \<in> set (passed_over (NewTTLSeekOffsetManager K commandExpireDuration) now retained)"
    using assms(4) by (auto simp: newCommandOffsetManager_def)
  then have "(ts, m) \<in> set retained" "ts < now - commandExpireDuration"
    using assms(1) unfolding seeks_to_window_def by blast+
  then show ?thesis using assms(2,3,5) unfolding clocks_agree_def expired_at_def is_command_def by fastforce
qed

lemma decided_flags:
  assumes "length flags = length msgs" and "\<forall>(m, d) \<in> set (zip msgs flags). d \<longleftrightarrow> P m"
  shows "kept_of msgs flags = filter (\<lambda>m. \<not> P m) msgs" "dropped_of msgs flags = filter P msgs"
  using assms by (induction flags msgs rule: list_induct2) (simp_all add: kept_of_def dropped_of_def)

lemma commands_expired:
  assumes "ticking W T" and "counts_expired W ops"
    and "\<forall>m \<in> set msgs. is_command decode m \<longrightarrow> expired_at decode commandExpireDuration (T w) m"
  shows "\<exists>w1. filter_batch W decode (NewExpiredCommandSkip W decode commandExpireDuration) (ObserveExpired W) msgs [] w =
      (Inr (filter (\<lambda>m. \<not> is_command decode m) msgs), w1) \<and>
    ops w1 = ops w @ map (operation_of decode) (filter (is_command decode) msgs)"
proof -
  obtain r w1 where run: "filter_batch W decode (NewExpiredCommandSkip W decode commandExpireDuration) (ObserveExpired W) msgs [] w = (r, w1)"
    by (meson surj_pair)
  from filter_batch_parts [OF assms(1,2) this] obtain flags where parts: "length flags = length msgs" "r = Inr (kept_of msgs flags)"
     "ops w1 = ops w @ map (operation_of decode) (dropped_of msgs flags)"
     "\<forall>(m, d) \<in> set (zip msgs flags). (d \<longrightarrow> expired_at decode commandExpireDuration (T w1) m) \<and>
        (\<not> d \<longrightarrow> \<not> expired_at decode commandExpireDuration (T w) m)" by auto
  have "\<forall>(m, d) \<in> set (zip msgs flags). d \<longleftrightarrow> is_command decode m"
    using parts(4) assms(3) by (fastforce simp: expired_at_def is_command_def dest: set_zip_leftD)
  from decided_flags [OF parts(1) this] show ?thesis using run parts by auto
qed

section \<open>Properties\<close>

text \<open>C37: The start of the consumer loses no command that would have been executed. Had the messages the seek passes over
  been delivered at any later time, in one batch, every command among them would have been dropped and counted as expired;
  the handler, whatever it does, would have been given exactly the messages that do not decode to a command, and nothing
  if there are none. This needs producers whose clocks are not ahead of the broker's, and a live context.\<close>

theorem seek_passes_over_only_expired:
  assumes "seeks_to_window K passed_over" and "ticking W T" and "counts_expired W ops" and "clocks_agree decode retained"
    and "now \<le> T w" and "skipped = map snd (passed_over (newCommandOffsetManager K) now retained)"
  shows "\<exists>w1. ops w1 = ops w @ map (operation_of decode) (filter (is_command decode) skipped) \<and>
     (\<forall>handler. newCommandHandler W decode handler skipped w =
        (if \<forall>m \<in> set skipped. is_command decode m then (None, w1)
         else handler (filter (\<lambda>m. \<not> is_command decode m) skipped) w1))"
proof -
  have "\<forall>m \<in> set skipped. is_command decode m \<longrightarrow> expired_at decode commandExpireDuration (T w) m"
    using passed_over_expired [OF assms(1,4,5)] assms(6) by simp
  from commands_expired [OF assms(2,3) this] obtain w1 where
    run: "filter_batch W decode (NewExpiredCommandSkip W decode commandExpireDuration) (ObserveExpired W) skipped [] w =
      (Inr (filter (\<lambda>m. \<not> is_command decode m) skipped), w1)"
    and ops: "ops w1 = ops w @ map (operation_of decode) (filter (is_command decode) skipped)" by blast
  show ?thesis
    by (intro exI [of _ w1] conjI allI ops)
      (simp add: newCommandHandler_def NewExpiredCommandBatchHandler_def run filter_empty_conv)
qed

section \<open>Reference instances\<close>

text \<open>A manager that is the duration it seeks back, and a partition with an old command, a message that is no command, and a
  command that is young enough.\<close>

definition ref_kafka :: "(duration, mem) kafka_lib" where
  "ref_kafka =
     \<lparr>SaramaClient = (\<lambda>m. (None, m)), NewTTLSeekOffsetManager = (\<lambda>d. d), ConsumeBatches = (\<lambda>om handler n m. handler [] m)\<rparr>"

definition ref_passed_over :: "duration \<Rightarrow> instant \<Rightarrow> (instant \<times> kafka_message) list \<Rightarrow> (instant \<times> kafka_message) list" where
  "ref_passed_over d now = takeWhile (\<lambda>(ts, m). ts < now - d)"

theorem seek_passes_over_only_expired_witness:
  "\<exists>m. expired_ops m = [''update''] \<and>
     (\<forall>handler. newCommandHandler ref_world ref_decoder handler [ref_message ''update'', ref_message []] late_mem =
        handler [ref_message []] m)"
proof -
  let ?log = "[(0, ref_message ''update''), (0, ref_message []), (1, ref_message ''increment'')]"
    and ?skipped = "[ref_message ''update'', ref_message []]"
  have seek: "seeks_to_window ref_kafka ref_passed_over"
    by (auto simp: seeks_to_window_def ref_kafka_def ref_passed_over_def dest: set_takeWhileD)
  have tick: "ticking ref_world mem_clock" by (simp add: ticking_def mem_world_def)
  have count: "counts_expired ref_world expired_ops" by (simp add: counts_expired_def mem_world_def expired_ops_def)
  have clocks: "clocks_agree ref_decoder ?log" by (simp add: clocks_agree_def ref_decoder_def ref_message_def)
  have later: "commandExpireDuration + 1 \<le> mem_clock late_mem" by (simp add: late_mem_def)
  have skipped: "?skipped = map snd (ref_passed_over (newCommandOffsetManager ref_kafka) (commandExpireDuration + 1) ?log)"
    by (simp add: ref_passed_over_def newCommandOffsetManager_def ref_kafka_def)
  have kinds: "is_command ref_decoder (ref_message ''update'')" "\<not> is_command ref_decoder (ref_message [])"
    by (simp_all add: is_command_def ref_decoder_def ref_message_def)
  then have mixed: "\<not> (\<forall>m \<in> set ?skipped. is_command ref_decoder m)"
    and parts: "filter (is_command ref_decoder) ?skipped = [ref_message ''update'']"
      "filter (\<lambda>m. \<not> is_command ref_decoder m) ?skipped = [ref_message []]" by simp_all
  from seek_passes_over_only_expired [OF seek tick count clocks later skipped] obtain m
    where run: "expired_ops m = expired_ops late_mem @ map (operation_of ref_decoder) [ref_message ''update'']"
    "\<forall>handler. newCommandHandler ref_world ref_decoder handler ?skipped late_mem = handler [ref_message []] m"
    unfolding if_not_P [OF mixed] parts by blast
  have "expired_ops late_mem = []" by (simp add: expired_ops_def late_mem_def)
  moreover have "operation_of ref_decoder (ref_message ''update'') = ''update''"
    by (simp add: operation_of_def ref_decoder_def ref_message_def)
  ultimately have "expired_ops m = [''update'']" using run(1) by simp
  with run(2) show ?thesis by blast
qed

text \<open>A producer whose clock runs ahead can lose a command this way that would have been executed.\<close>

lemma ahead_is_lost:
  "ref_passed_over commandExpireDuration (commandExpireDuration + 1) [(0, ref_message ''x'')] = [(0, ref_message ''x'')]"
  "\<not> expired_at (\<lambda>b. (None, \<lparr>cmd_RequestID = [], cmd_Operation = b, cmd_RequestTime = 1\<rparr>)) commandExpireDuration
      (commandExpireDuration + 1) (ref_message ''x'')"
  by (simp_all add: ref_passed_over_def ref_message_def expired_at_def)

end
