(* ===== verification/Startup.thy ===== *)
theory Startup
  imports Redrive SyncLoop TaskResult CreateTask PrComment CommandConsumer
begin

text \<open>
  The start of the process (\<open>main.go\<close> and \<open>CreateCommandConsumer\<close> of \<open>pkg/factory/factory.go\<close>): the checks of the
  configuration in the order \<open>Run\<close> makes them, the components it builds from the checked values with everything they close
  over, and the two HTTP handlers that read or change the state of the components. The constructors of the Kafka clients
  and of the database are parameters that may fail; the run functions handed to the service are represented by their names.
\<close>

section \<open>Configuration\<close>

record application =
  VaultName :: string
  AutoInjectTaskIdentifier :: string
  SupersedeLookback :: int
  CommandBatchSize :: int
  app_HumanAssignees :: string
  GitRestURL :: string
  VaultAPIURL :: string
  GatewaySecret :: string
  TaskDir :: string
  PollInterval :: duration
  RedriveEnabled :: bool
  RedriveInterval :: duration
  KafkaBrokers :: string
  Branch :: string
  DataDir :: string
  NoSync :: bool
  GitHubToken :: string

definition vaultLocalPath :: string where
  "vaultLocalPath = ''/data/vault''"

definition githubAPIBaseURL :: string where
  "githubAPIBaseURL = ''https://api.github.com''"

definition metricsInterval :: duration where
  "metricsInterval = 5 * Minute"

text \<open>\<open>strconv.ParseBool\<close>.\<close>

definition ParseBool :: "string \<Rightarrow> bool option" where
  "ParseBool s =
     (if s \<in> {''1'', ''t'', ''T'', ''TRUE'', ''true'', ''True''} then Some True
      else if s \<in> {''0'', ''f'', ''F'', ''FALSE'', ''false'', ''False''} then Some False
      else None)"

section \<open>What is built\<close>

text \<open>The libraries the process starts with: constructors that may fail, the notification sender, the JSON encoding of a
  review, and two constants of the agent library.\<close>

record 'w process_lib =
  NewSyncProducer :: "string \<Rightarrow> 'w \<Rightarrow> go_error option \<times> 'w"
  OpenDir :: "string \<Rightarrow> bool \<Rightarrow> 'w \<Rightarrow> go_error option \<times> 'w"
  NewSaramaClientProvider :: "string \<Rightarrow> 'w \<Rightarrow> go_error option \<times> 'w"
  SendNotification :: "NotificationPublishCommand \<Rightarrow> 'w \<Rightarrow> go_error option \<times> 'w"
  json_review :: "string \<times> string \<Rightarrow> bytes res"
  TaskV1SchemaID :: string
  TaskTypePRReview :: string

definition NewResultWriter ::
  "gitClient \<Rightarrow> string \<Rightarrow> string \<Rightarrow> (NotificationPublishCommand \<Rightarrow> 'w \<Rightarrow> go_error option \<times> 'w) \<Rightarrow> index \<Rightarrow> HumanAssignees
     \<Rightarrow> (Task \<Rightarrow> 'w \<Rightarrow> go_error option \<times> 'w) option \<Rightarrow> 'w resultWriter \<times> rw_state" where
  "NewResultWriter git taskDir vaultName sender resolver humans kept =
     (\<lparr>rw_git = git, rw_taskDir = taskDir, rw_vaultName = vaultName, rw_humans = humans, notificationSender = Some sender,
       keptStatePublisher = kept\<rparr>,
      \<lparr>rw_resolver = Some resolver, escalationPublishedAt = fmempty\<rparr>)"

definition NewPlanningRetryGate ::
  "'w world \<Rightarrow> pure_lib \<Rightarrow> 'w process_lib \<Rightarrow> gitClient \<Rightarrow> string \<Rightarrow> string \<Rightarrow> prCommenter \<Rightarrow> HumanAssignees
     \<Rightarrow> 'w planningRetryGate" where
  "NewPlanningRetryGate W L X git taskDir vaultName commenter humans =
     \<lparr>pg_gitClient = git, pg_taskDir = taskDir, pg_vaultName = vaultName,
      pg_PostComment = PostComment W L (json_review X) commenter, pg_humanAssignees = humans,
      pg_TaskTypePRReview = TaskTypePRReview X\<rparr>"

text \<open>The executors of the command consumer by what they close over, and the batch size of the consumer.\<close>

record 'w command_consumer =
  cc_writer :: "'w resultWriter"
  cc_gate :: "'w planningRetryGate"
  cc_vaultClient :: api_client
  cc_vaultName :: string
  cc_humans :: HumanAssignees
  cc_create :: createExecutor
  cc_batchSize :: int
  cc_delay :: duration

definition CreateCommandConsumer ::
  "'w world \<Rightarrow> pure_lib \<Rightarrow> 'w process_lib \<Rightarrow> int \<Rightarrow> 'w resultWriter \<Rightarrow> gitClient \<Rightarrow> api_client \<Rightarrow> string \<Rightarrow> string
     \<Rightarrow> int \<Rightarrow> prCommenter \<Rightarrow> HumanAssignees \<Rightarrow> 'w command_consumer" where
  "CreateCommandConsumer W L X batchSize writer git vaultClient taskDir vaultName k commenter humans =
     \<lparr>cc_writer = writer, cc_gate = NewPlanningRetryGate W L X git taskDir vaultName commenter humans,
      cc_vaultClient = vaultClient, cc_vaultName = vaultName, cc_humans = humans,
      cc_create = \<lparr>cx_gitClient = git, cx_taskDir = taskDir, cx_vaultName = vaultName, cx_k = k\<rparr>,
      cc_batchSize = batchSize, cc_delay = retryConsumerDelay\<rparr>"

text \<open>The run function of the consumer. How a batch of messages is dispatched to the executors, and the transaction around
  it, is the messaging library.\<close>

record ('om, 'w) consumer_lib =
  Kafka :: "('om, 'w) kafka_lib"
  DecodeCommand :: command_decoder
  CommandMessageHandlerBatch :: "'w command_consumer \<Rightarrow> kafka_message list \<Rightarrow> 'w \<Rightarrow> go_error option \<times> 'w"

definition run_command_consumer ::
  "'w world \<Rightarrow> ('om, 'w) consumer_lib \<Rightarrow> 'w command_consumer \<Rightarrow> 'w \<Rightarrow> (go_error option \<times> 'w) option" where
  "run_command_consumer W B c =
     RetryConsumer W (newCommandConsumerFunc W (DecodeCommand B) (Kafka B) (cc_batchSize c) (CommandMessageHandlerBatch B c)) (cc_delay c)"

lemma run_command_consumer_no_error: "run_command_consumer W B c w = Some (e, w') \<Longrightarrow> e = None"
  unfolding run_command_consumer_def by (drule retry_ended) (simp add: ended_def)

record 'w controller =
  ct_git :: gitClient
  ct_scanner :: "'w vaultScanner"
  ct_loops :: loop_config
  ct_sync :: "'w syncLoop"
  ct_sweep :: "'w redriveSweep"
  ct_consumer :: "'w command_consumer"
  ct_components :: "string list"

definition createVaultScanner :: "'w world \<Rightarrow> application \<Rightarrow> gitClient \<Rightarrow> bool \<Rightarrow> ('w vaultScanner \<times> scan_state) \<times> loop_config" where
  "createVaultScanner W a git autoInject =
     (NewGitRestVaultScanner W git (TaskDir a) autoInject (VaultName a),
      \<lparr>lc_pollInterval = PollInterval a, lc_metricsInterval = metricsInterval\<rparr>)"

definition run_components :: "application \<Rightarrow> string list" where
  "run_components a =
     [''syncLoop'', ''commandConsumer'', ''httpServer''] @
     (if RedriveEnabled a \<and> 0 < RedriveInterval a then [''redriveSweep''] else [])"

text \<open>What \<open>Run\<close> builds once every constructor has succeeded.\<close>

definition assemble ::
  "'w world \<Rightarrow> pure_lib \<Rightarrow> ('ev, 'w) event_lib \<Rightarrow> 'w process_lib \<Rightarrow> application \<Rightarrow> gitClient \<Rightarrow> api_client \<Rightarrow> bool \<Rightarrow> HumanAssignees
     \<Rightarrow> 'w controller" where
  "assemble W L P X a git vaultClient autoInject humans =
     (let commenter = NewPRCommenter (30 * Second) githubAPIBaseURL (GitHubToken a);
          ((v, st), loops) = createVaultScanner W a git autoInject;
          publisher = NewTaskPublisher (TaskV1SchemaID X) (VaultName a);
          loop = \<lparr>sl_PublishChanged = PublishChanged W P publisher, sl_PublishDeleted = PublishDeleted P publisher\<rparr>;
          sweep = fst (NewRedriveSweep git (PublishChanged W P publisher) (TaskDir a) (Branch a) (RedriveInterval a));
          writer = fst (NewResultWriter git (TaskDir a) (VaultName a) (SendNotification X) (scan_index st) humans
            (Some (PublishChanged W P publisher)));
          consumer = CreateCommandConsumer W L X (CommandBatchSize a) writer git vaultClient (TaskDir a) (VaultName a)
            (SupersedeLookback a) commenter humans
      in \<lparr>ct_git = git, ct_scanner = v, ct_loops = loops, ct_sync = loop, ct_sweep = sweep, ct_consumer = consumer,
          ct_components = run_components a\<rparr>)"

definition start ::
  "'w world \<Rightarrow> pure_lib \<Rightarrow> ('ev, 'w) event_lib \<Rightarrow> 'w process_lib \<Rightarrow> application \<Rightarrow> 'w \<Rightarrow> 'w controller res \<times> 'w" where
  "start W L P X a w =
     (case ValidateVaultName (VaultName a) of
        Inl e \<Rightarrow> (Inl e, w)
      | Inr _ \<Rightarrow>
     (case ParseBool (AutoInjectTaskIdentifier a) of
        None \<Rightarrow> (Inl (Errorf ''AUTO_INJECT_TASK_IDENTIFIER must be parseable as bool (true/false), got %q'' [AutoInjectTaskIdentifier a]), w)
      | Some autoInject \<Rightarrow>
          (if SupersedeLookback a < 1
           then (Inl (Errorf ''SUPERSEDE_LOOKBACK must be >= 1, got %d'' [Itoa (SupersedeLookback a)]), w)
           else if CommandBatchSize a < 1
           then (Inl (Errorf ''COMMAND_BATCH_SIZE must be >= 1, got %d'' [Itoa (CommandBatchSize a)]), w)
           else
             (let humans = ParseHumanAssignees (app_HumanAssignees a)
              in if GitRestURL a = [] then (Inl (Errorf ''GIT_REST_URL is required'' []), w)
                 else
                   (let restClient = NewGitRestClient (GitRestURL a) (GatewaySecret a) ''agent-task-controller'';
                        git = NewGitClient restClient vaultLocalPath
                    in case EnsureCloned W git w of
                         (Inl e, w) \<Rightarrow> (Inl (Wrapf e ''probe git-rest readiness'' []), w)
                       | (Inr _, w) \<Rightarrow>
                           (if VaultAPIURL a = [] then (Inl (Errorf ''VAULT_API_URL is required'' []), w)
                            else
                              (let vaultClient = NewClient (VaultAPIURL a) (GatewaySecret a) ''agent-task-controller''
                               in case NewSyncProducer X (KafkaBrokers a) w of
                                    (Some e, w) \<Rightarrow> (Inl (Wrapf e ''create kafka sync producer'' []), w)
                                  | (None, w) \<Rightarrow>
                                      (case OpenDir X (DataDir a) (NoSync a) w of
                                         (Some e, w) \<Rightarrow> (Inl (Wrapf e ''open boltkv dir %s'' [DataDir a]), w)
                                       | (None, w) \<Rightarrow>
                                           (case NewSaramaClientProvider X (KafkaBrokers a) w of
                                              (Some e, w) \<Rightarrow> (Inl (Wrapf e ''create sarama client provider'' []), w)
                                            | (None, w) \<Rightarrow>
                                                (Inr (assemble W L P X a git vaultClient autoInject humans), w))))))))))"

section \<open>HTTP handlers\<close>

definition readiness_handler :: "'w world \<Rightarrow> gitRestClient \<Rightarrow> duration \<Rightarrow> 'w \<Rightarrow> (int \<times> bytes) \<times> 'w" where
  "readiness_handler W g timeout w =
     (case IsReady W g timeout w of
        (Inr True, w) \<Rightarrow> ((200, ''OK''), w)
      | (_, w) \<Rightarrow> ((503, ''git-rest not ready''), w))"

definition trigger_handler :: "loop_state \<Rightarrow> (int \<times> bytes) \<times> loop_state" where
  "trigger_handler s = ((200, ''trigger fired''), Trigger s)"

text \<open>The routes of the server. A path is the one the router matches; the handlers of the libraries, among them the answer to an
  unknown path, are parameters.\<close>

record 'w http_lib =
  PrintHandler :: "string \<Rightarrow> 'w \<Rightarrow> (int \<times> bytes) \<times> 'w"
  MetricsHandler :: "'w \<Rightarrow> (int \<times> bytes) \<times> 'w"
  SetLoglevelHandler :: "string \<Rightarrow> 'w \<Rightarrow> (int \<times> bytes) \<times> 'w"
  NotFoundHandler :: "'w \<Rightarrow> (int \<times> bytes) \<times> 'w"

definition path_variable :: "string \<Rightarrow> string \<Rightarrow> string option" where
  "path_variable pre path =
     (let rest = TrimPrefix path pre
      in if HasPrefix path pre \<and> rest \<noteq> [] \<and> CHR ''/'' \<notin> set rest then Some rest else None)"

definition createHTTPServer ::
  "'w world \<Rightarrow> 'w http_lib \<Rightarrow> gitRestClient \<Rightarrow> duration \<Rightarrow> string \<Rightarrow> loop_state \<times> 'w \<Rightarrow> (int \<times> bytes) \<times> loop_state \<times> 'w" where
  "createHTTPServer W H g timeout path = (\<lambda>(s, w).
     (if path = ''/healthz'' then (case PrintHandler H ''OK'' w of (r, w) \<Rightarrow> (r, s, w))
      else if path = ''/readiness'' then (case readiness_handler W g timeout w of (r, w) \<Rightarrow> (r, s, w))
      else if path = ''/metrics'' then (case MetricsHandler H w of (r, w) \<Rightarrow> (r, s, w))
      else case path_variable ''/setloglevel/'' path of
             Some level \<Rightarrow> (case SetLoglevelHandler H level w of (r, w) \<Rightarrow> (r, s, w))
           | None \<Rightarrow>
               (if path = ''/trigger'' then (case trigger_handler s of (r, s) \<Rightarrow> (r, s, w))
                else (case NotFoundHandler H w of (r, w) \<Rightarrow> (r, s, w)))))"

text \<open>A probe can do nothing to the loops; the trigger route fires the trigger and touches nothing else.\<close>

lemma http_leaves_the_loops: "path \<noteq> ''/trigger'' \<Longrightarrow> fst (snd (createHTTPServer W H g timeout path (s, w))) = s"
  by (auto simp: createHTTPServer_def split: prod.split option.split)

lemma http_trigger: "createHTTPServer W H g timeout ''/trigger'' (s, w) = ((200, ''trigger fired''), Trigger s, w)"
proof -
  have "path_variable ''/setloglevel/'' ''/trigger'' = None" by code_simp
  then show ?thesis by (simp add: createHTTPServer_def trigger_handler_def)
qed

text \<open>Ready means that git-rest answered 200 just now; the state of the vault is not looked at.\<close>

lemma readiness_handler_status:
  "fst (fst (readiness_handler W g timeout w)) = (if fst (IsReady W g timeout w) = Inr True then 200 else 503)"
  by (auto simp: readiness_handler_def split: prod.split sum.split bool.split)

section \<open>Properties\<close>

definition configured :: "application \<Rightarrow> bool" where
  "configured a \<longleftrightarrow>
     ValidateVaultName (VaultName a) = Inr () \<and> ParseBool (AutoInjectTaskIdentifier a) \<noteq> None \<and> 1 \<le> SupersedeLookback a \<and>
     1 \<le> CommandBatchSize a \<and> GitRestURL a \<noteq> []"

definition probe :: "'w world \<Rightarrow> application \<Rightarrow> 'w \<Rightarrow> unit res \<times> 'w" where
  "probe W a = EnsureCloned W (NewGitClient (NewGitRestClient (GitRestURL a) (GatewaySecret a) ''agent-task-controller'') vaultLocalPath)"

text \<open>All components work on one vault, one task directory and one git client, and publish through one publisher.\<close>

definition one_vault :: "application \<Rightarrow> 'w controller \<Rightarrow> bool" where
  "one_vault a c \<longleftrightarrow>
     (let writer = cc_writer (ct_consumer c); gate = cc_gate (ct_consumer c); create = cc_create (ct_consumer c); v = ct_scanner c
      in list_all (\<lambda>g. g = ct_git c) [sc_gitClient v, rs_gitClient (ct_sweep c), rw_git writer, pg_gitClient gate, cx_gitClient create] \<and>
         list_all (\<lambda>d. d = TaskDir a) [sc_taskDir v, rs_taskDir (ct_sweep c), rw_taskDir writer, pg_taskDir gate, cx_taskDir create] \<and>
         list_all (\<lambda>n. n = VaultName a)
           [sc_vaultName v, rw_vaultName writer, pg_vaultName gate, cx_vaultName create, cc_vaultName (ct_consumer c)] \<and>
         list_all (\<lambda>h. h = ParseHumanAssignees (app_HumanAssignees a))
           [rw_humans writer, pg_humanAssignees gate, cc_humans (ct_consumer c)] \<and>
         rs_publish (ct_sweep c) = sl_PublishChanged (ct_sync c) \<and> keptStatePublisher writer = Some (sl_PublishChanged (ct_sync c)))"

definition bounded :: "application \<Rightarrow> 'w controller \<Rightarrow> bool" where
  "bounded a c \<longleftrightarrow>
     1 \<le> cx_k (cc_create (ct_consumer c)) \<and> 1 \<le> cc_batchSize (ct_consumer c) \<and> 0 < lc_metricsInterval (ct_loops c) \<and>
     (''redriveSweep'' \<in> set (ct_components c) \<longrightarrow> 0 < rs_interval (ct_sweep c)) \<and>
     Some (sc_autoInject (ct_scanner c)) = ParseBool (AutoInjectTaskIdentifier a)"

lemmas wiring = assemble_def createVaultScanner_def NewGitRestVaultScanner_def NewRedriveSweep_def NewResultWriter_def
  NewPlanningRetryGate_def CreateCommandConsumer_def

lemma assemble_one_vault: "one_vault a (assemble W L P X a git vc b (ParseHumanAssignees (app_HumanAssignees a)))"
  by (simp add: one_vault_def wiring Let_def)

lemma assemble_bounded:
  assumes "configured a" "ParseBool (AutoInjectTaskIdentifier a) = Some b"
  shows "bounded a (assemble W L P X a git vc b humans)"
proof -
  have pos: "0 < metricsInterval" by code_simp
  show ?thesis using assms by (simp add: bounded_def wiring configured_def pos run_components_def Let_def)
qed

lemma start_unconfigured: "\<not> configured a \<Longrightarrow> \<exists>e. start W L P X a w = (Inl e, w)"
  by (auto simp: start_def configured_def Let_def split: sum.split option.split)

lemma start_configured:
  assumes "configured a" and "probe W a w = (r, w')"
  shows "((\<exists>e. r = Inl e) \<or> VaultAPIURL a = []) \<and> (\<exists>e. start W L P X a w = (Inl e, w')) \<or>
    r = Inr () \<and> VaultAPIURL a \<noteq> [] \<and>
    (\<forall>c. fst (start W L P X a w) = Inr c \<longrightarrow> one_vault a c \<and> bounded a c)"
proof -
  obtain b where b: "ParseBool (AutoInjectTaskIdentifier a) = Some b" using assms(1) by (auto simp: configured_def)
  have "ValidateVaultName (VaultName a) = Inr ()" "\<not> SupersedeLookback a < 1" "\<not> CommandBatchSize a < 1" "GitRestURL a \<noteq> []"
    using assms(1) by (simp_all add: configured_def)
  note eq = this b assms(2) [unfolded probe_def]
  show ?thesis
  proof (cases "r = Inr () \<and> VaultAPIURL a \<noteq> []")
    case True
    have "fst (start W L P X a w) = Inr c \<Longrightarrow> one_vault a c \<and> bounded a c" for c
      using True assemble_one_vault [of a] assemble_bounded [OF assms(1) b]
      by (auto simp: start_def eq Let_def split: prod.splits option.splits)
    with True show ?thesis by blast
  next
    case False
    then show ?thesis by (cases r) (auto simp: start_def eq Let_def)
  qed
qed

text \<open>A process that starts is well configured and wired to one vault: its vault name is a slug, its look-back and batch
  size are positive, both URLs are set and git-rest answered ready; every component has the same git client, task
  directory, vault name and human owners and publishes through one publisher; the metrics ticker has a positive interval
  and the sweep, which needs a ticker, runs only with a positive one. A wrong value other than the URL of the vault API
  stops the process before anything is sent.\<close>

theorem start_wires_one_vault:
  "(\<forall>c. fst (start W L P X a w) = Inr c \<longrightarrow>
      configured a \<and> VaultAPIURL a \<noteq> [] \<and> fst (probe W a w) = Inr () \<and> one_vault a c \<and> bounded a c) \<and>
   (\<not> configured a \<longrightarrow> snd (start W L P X a w) = w)"
proof (cases "configured a")
  case False
  then show ?thesis using start_unconfigured [OF False, of W L P X w] by auto
next
  case True
  obtain r w' where "probe W a w = (r, w')" by (meson surj_pair)
  from start_configured [OF True this, of L P X] show ?thesis using True by (auto simp: \<open>probe W a w = (r, w')\<close>)
qed

end
