(* ===== verification/Interleaving.thy ===== *)
theory Interleaving
  imports ResultWriter ScannerRepair RefCodec
begin

text \<open>
  Read-modify-writes that overlap. \<open>AtomicReadModifyWriteAndCommitPush\<close> of \<open>pkg/gitrestclient/git_client_adapter.go\<close> takes no
  lock: it reads the file, calls the modify function, and writes what it returns. Here the function is cut where another
  goroutine can run, between the read and the write, and the runs of several calls are the interleavings of their halves.
\<close>

section \<open>The two halves\<close>

record rmw_job =
  job_path :: path
  job_modify :: "bytes \<Rightarrow> bytes res"
  job_message :: string

datatype rmw_phase = Ready | Holds path bytes | Done "unit res"

definition rmw_read :: "'w world \<Rightarrow> gitClient \<Rightarrow> rmw_job \<Rightarrow> 'w \<Rightarrow> rmw_phase \<times> 'w" where
  "rmw_read W a j w =
     (case under_base a (job_path j) of
        Inl e \<Rightarrow> (Done (Inl e), w)
      | Inr rel \<Rightarrow>
          (case Get W (client a) rel w of
             (Inl e, w) \<Rightarrow> (Done (Inl (Wrapf e ''read file before modify %s'' [rel])), w)
           | (Inr current, w) \<Rightarrow>
               (case job_modify j current of
                  Inl e \<Rightarrow> (Done (Inl (Wrapf e ''modify func failed for %s'' [rel])), w)
                | Inr updated \<Rightarrow> (if updated = current then (Done (Inr ()), w) else (Holds rel updated, w)))))"

definition rmw_write :: "'w world \<Rightarrow> gitClient \<Rightarrow> path \<Rightarrow> bytes \<Rightarrow> 'w \<Rightarrow> rmw_phase \<times> 'w" where
  "rmw_write W a rel updated w =
     (case Post W (client a) rel updated w of (r, w) \<Rightarrow> (Done (wrap_res ''write after modify %s'' [rel] r), w))"

definition rmw_whole :: "'w world \<Rightarrow> gitClient \<Rightarrow> rmw_job \<Rightarrow> 'w \<Rightarrow> unit res \<times> 'w" where
  "rmw_whole W a j w =
     (case AtomicReadModifyWriteAndCommitPush W a (job_path j) (\<lambda>b s. (job_modify j b, s)) (job_message j) () w of
        (r, _, w) \<Rightarrow> (r, w))"

text \<open>Running one half after the other is the function.\<close>

lemma rmw_halves:
  "rmw_whole W a j w =
     (case rmw_read W a j w of
        (Ready, w) \<Rightarrow> (Inr (), w)
      | (Done r, w) \<Rightarrow> (r, w)
      | (Holds rel u, w) \<Rightarrow> (case rmw_write W a rel u w of (Done r, w) \<Rightarrow> (r, w) | (_, w) \<Rightarrow> (Inr (), w)))"
  by (simp add: rmw_whole_def AtomicReadModifyWriteAndCommitPush_def rmw_read_def rmw_write_def split: sum.split prod.split)

section \<open>Runs\<close>

text \<open>A run starts with every job ready. A job may read when the rule \<open>may\<close> lets it, and may write whenever it holds an
  update.\<close>

inductive rmw_run ::
  "'w world \<Rightarrow> gitClient \<Rightarrow> rmw_job list \<Rightarrow> (rmw_phase list \<Rightarrow> nat \<Rightarrow> bool) \<Rightarrow> 'w \<Rightarrow> rmw_phase list \<Rightarrow> 'w \<Rightarrow> bool"
  for W a jobs may w0 where
  start: "rmw_run W a jobs may w0 (replicate (length jobs) Ready) w0"
| read: "rmw_run W a jobs may w0 ph w \<Longrightarrow> i < length jobs \<Longrightarrow> ph ! i = Ready \<Longrightarrow> may ph i \<Longrightarrow>
    rmw_read W a (jobs ! i) w = (p, w') \<Longrightarrow> rmw_run W a jobs may w0 (ph[i := p]) w'"
| commit: "rmw_run W a jobs may w0 ph w \<Longrightarrow> i < length jobs \<Longrightarrow> ph ! i = Holds rel u \<Longrightarrow>
    rmw_write W a rel u w = (p, w') \<Longrightarrow> rmw_run W a jobs may w0 (ph[i := p]) w'"

definition same_file :: "gitClient \<Rightarrow> rmw_job \<Rightarrow> rmw_job \<Rightarrow> bool" where
  "same_file a i j \<longleftrightarrow> under_base a (job_path i) = under_base a (job_path j)"

text \<open>What the partitioning of the commands by task gives: a job does not start on a file another job is busy with.\<close>

definition one_at_a_time :: "gitClient \<Rightarrow> rmw_job list \<Rightarrow> rmw_phase list \<Rightarrow> nat \<Rightarrow> bool" where
  "one_at_a_time a jobs ph i \<longleftrightarrow>
     (\<forall>k < length jobs. same_file a (jobs ! k) (jobs ! i) \<longrightarrow> (\<forall>rel u. ph ! k \<noteq> Holds rel u))"

fun serial :: "'w world \<Rightarrow> gitClient \<Rightarrow> rmw_job list \<Rightarrow> nat list \<Rightarrow> 'w \<Rightarrow> unit res list \<times> 'w" where
  "serial W a jobs [] w = ([], w)"
| "serial W a jobs (i # order) w =
     (case rmw_whole W a (jobs ! i) w of (r, w) \<Rightarrow>
        (case serial W a jobs order w of (rs, w) \<Rightarrow> (r # rs, w)))"

lemma serial_append:
  "serial W a jobs (order @ [i]) w =
     (case serial W a jobs order w of (rs, w) \<Rightarrow> (case rmw_whole W a (jobs ! i) w of (r, w) \<Rightarrow> (rs @ [r], w)))"
  by (induction order arbitrary: w) (simp_all split: prod.split)

section \<open>Serial order\<close>

text \<open>Every job names a file that exists and can be read, and keeps it readable.\<close>

definition known_file :: "gitClient \<Rightarrow> (path \<Rightarrow> bytes option) \<Rightarrow> rmw_job \<Rightarrow> bool" where
  "known_file a F j \<longleftrightarrow>
     (\<exists>rel b. under_base a (job_path j) = Inr rel \<and> F rel = Some b \<and> length b \<le> maxBody) \<and>
     (\<forall>b u. job_modify j b = Inr u \<longrightarrow> length u \<le> maxBody)"

text \<open>What the read half does at an available server.\<close>

lemma read_serves:
  assumes "serves W (client a) files" and "under_base a (job_path j) = Inr rel" and "files w rel = Some b" and "length b \<le> maxBody"
    and "rmw_read W a j w = (p, w')"
  shows "files w' = files w"
    "p = (case job_modify j b of
            Inl e \<Rightarrow> Done (Inl (Wrapf e ''modify func failed for %s'' [rel]))
          | Inr u \<Rightarrow> if u = b then Done (Inr ()) else Holds rel u)"
proof -
  obtain v where "Get W (client a) rel w = (Inr b, v)" "files v = files w" using serves_Get [OF assms(1,3,4)] by blast
  then show "files w' = files w"
    "p = (case job_modify j b of
            Inl e \<Rightarrow> Done (Inl (Wrapf e ''modify func failed for %s'' [rel]))
          | Inr u \<Rightarrow> if u = b then Done (Inr ()) else Holds rel u)"
    using assms(2,5) by (auto simp: rmw_read_def split: sum.splits if_splits)
qed

lemma write_serves:
  assumes "serves W (client a) files"
  shows "\<exists>w'. rmw_write W a rel u w = (Done (Inr ()), w') \<and> files w' = (files w)(rel \<mapsto> u)"
proof -
  obtain v where "Post W (client a) rel u w = (Inr (), v)" "files v = (files w)(rel \<mapsto> u)"
    using serves_Post [OF assms] by blast
  then show ?thesis by (simp add: rmw_write_def wrap_res_def)
qed

text \<open>The whole function does the same at once.\<close>

lemma whole_serves:
  assumes "serves W (client a) files" and "under_base a (job_path j) = Inr rel" and "files w rel = Some b" and "length b \<le> maxBody"
  shows "\<exists>w'. rmw_whole W a j w =
       (case job_modify j b of Inl e \<Rightarrow> Inl (Wrapf e ''modify func failed for %s'' [rel]) | Inr _ \<Rightarrow> Inr (), w') \<and>
     files w' = (case job_modify j b of Inl e \<Rightarrow> files w | Inr u \<Rightarrow> (files w)(rel \<mapsto> u))"
proof -
  obtain p v where r: "rmw_read W a j w = (p, v)" by (meson surj_pair)
  note read = read_serves [OF assms this]
  show ?thesis
  proof (cases "job_modify j b")
    case (Inl e)
    then show ?thesis using r read by (simp add: rmw_halves)
  next
    case (Inr u)
    show ?thesis
    proof (cases "u = b")
      case True
      then show ?thesis using r read Inr assms(3) by (simp add: rmw_halves fun_upd_idem)
    next
      case False
      obtain v' where "rmw_write W a rel u v = (Done (Inr ()), v')" "files v' = (files v)(rel \<mapsto> u)"
        using write_serves [OF assms(1)] by blast
      then show ?thesis using r read Inr False by (simp add: rmw_halves)
    qed
  qed
qed

fun result_of :: "rmw_phase \<Rightarrow> unit res" where
  "result_of (Done r) = r"
| "result_of _ = Inr ()"

fun is_done :: "rmw_phase \<Rightarrow> bool" where
  "is_done (Done r) = True"
| "is_done _ = False"

text \<open>An order of the finished jobs that, run one job after the other from the start, gives their results and ends in \<open>w1\<close>.\<close>

definition linear :: "'w world \<Rightarrow> gitClient \<Rightarrow> rmw_job list \<Rightarrow> 'w \<Rightarrow> rmw_phase list \<Rightarrow> nat list \<Rightarrow> 'w \<Rightarrow> bool" where
  "linear W a jobs w0 ph order w1 \<longleftrightarrow>
     distinct order \<and> set order = {i. i < length jobs \<and> is_done (ph ! i)} \<and>
     serial W a jobs order w0 = (map (\<lambda>i. result_of (ph ! i)) order, w1)"

lemma linear_finish:
  assumes "linear W a jobs w0 ph order w1" and "i < length jobs" and "length ph = length jobs" and "\<not> is_done (ph ! i)"
    and "rmw_whole W a (jobs ! i) w1 = (r, w2)"
  shows "linear W a jobs w0 (ph[i := Done r]) (order @ [i]) w2"
proof -
  have "i \<notin> set order" using assms(1,4) by (simp add: linear_def)
  then have "map (\<lambda>k. result_of (ph[i := Done r] ! k)) order = map (\<lambda>k. result_of (ph ! k)) order"
    by (intro map_cong refl) (metis nth_list_update_neq)
  then show ?thesis
    using assms \<open>i \<notin> set order\<close> by (auto simp: linear_def serial_append nth_list_update)
qed

lemma linear_hold:
  assumes "linear W a jobs w0 ph order w1" and "i < length jobs" and "length ph = length jobs" and "ph ! i = Ready"
  shows "linear W a jobs w0 (ph[i := Holds rel u]) order w1"
proof -
  have "i \<notin> set order" using assms(1,4) by (simp add: linear_def)
  then have "map (\<lambda>k. result_of (ph[i := Holds rel u] ! k)) order = map (\<lambda>k. result_of (ph ! k)) order"
    by (intro map_cong refl) (metis nth_list_update_neq)
  then show ?thesis using assms by (auto simp: linear_def nth_list_update)
qed

text \<open>The invariant: an update that is held is the one the modify function gives for the file as it is, no two jobs hold
  updates of one file, and the finished jobs have a serial order.\<close>

definition serialised ::
  "'w world \<Rightarrow> gitClient \<Rightarrow> rmw_job list \<Rightarrow> ('w \<Rightarrow> path \<Rightarrow> bytes option) \<Rightarrow> 'w \<Rightarrow> rmw_phase list \<Rightarrow> 'w \<Rightarrow> bool" where
  "serialised W a jobs files w0 ph w \<longleftrightarrow>
     length ph = length jobs \<and> (\<forall>j \<in> set jobs. known_file a (files w) j) \<and>
     (\<forall>i < length jobs. \<forall>rel u. ph ! i = Holds rel u \<longrightarrow>
        under_base a (job_path (jobs ! i)) = Inr rel \<and> (\<exists>b. files w rel = Some b \<and> job_modify (jobs ! i) b = Inr u)) \<and>
     (\<forall>i < length jobs. \<forall>k < length jobs. \<forall>rel u v. ph ! i = Holds rel u \<longrightarrow> ph ! k = Holds rel v \<longrightarrow> i = k) \<and>
     (\<exists>order w1. linear W a jobs w0 ph order w1 \<and> files w1 = files w)"

lemma serialised_start:
  assumes "\<forall>j \<in> set jobs. known_file a (files w0) j"
  shows "serialised W a jobs files w0 (replicate (length jobs) Ready) w0"
  using assms by (auto simp: serialised_def linear_def intro: exI [of _ "[]"])

lemma known_file_upd:
  assumes "known_file a F j" and "length u \<le> maxBody"
  shows "known_file a (F(rel \<mapsto> u)) j"
  using assms by (auto simp: known_file_def)

lemma serialised_read:
  assumes inv: "serialised W a jobs files w0 ph w" and srv: "serves W (client a) files" and i: "i < length jobs" "ph ! i = Ready"
    and may: "one_at_a_time a jobs ph i" and run: "rmw_read W a (jobs ! i) w = (p, w')"
  shows "serialised W a jobs files w0 (ph[i := p]) w'"
proof -
  have len: "length ph = length jobs" and known: "\<forall>j \<in> set jobs. known_file a (files w) j" using inv by (simp_all add: serialised_def)
  obtain order w1 where lin: "linear W a jobs w0 ph order w1" "files w1 = files w" using inv by (auto simp: serialised_def)
  have "known_file a (files w) (jobs ! i)" using known i(1) by simp
  then obtain rel b where f: "under_base a (job_path (jobs ! i)) = Inr rel" "files w rel = Some b" "length b \<le> maxBody"
    by (auto simp: known_file_def)
  note read = read_serves [OF srv f run]
  obtain w2 where whole: "rmw_whole W a (jobs ! i) w1 =
       (case job_modify (jobs ! i) b of Inl e \<Rightarrow> Inl (Wrapf e ''modify func failed for %s'' [rel]) | Inr _ \<Rightarrow> Inr (), w2)"
     "files w2 = (case job_modify (jobs ! i) b of Inl e \<Rightarrow> files w1 | Inr u \<Rightarrow> (files w1)(rel \<mapsto> u))"
    using whole_serves [OF srv f(1) _ f(3), of w1] f(2) lin(2) by auto
  have free: "ph ! k \<noteq> Holds rel v" if "k < length jobs" for k v
    using may that inv f(1) unfolding one_at_a_time_def same_file_def serialised_def by metis
  show ?thesis
  proof (cases "\<exists>u. job_modify (jobs ! i) b = Inr u \<and> u \<noteq> b")
    case True
    then obtain u where u: "job_modify (jobs ! i) b = Inr u" "u \<noteq> b" by blast
    have p: "p = Holds rel u" using read(2) u by simp
    have "linear W a jobs w0 (ph[i := p]) order w1" unfolding p by (rule linear_hold [OF lin(1) i(1) len i(2)])
    then show ?thesis
      using inv known lin(2) f u(1) i(1) len free
      unfolding serialised_def p read(1) by (auto simp: nth_list_update split: if_splits)
  next
    case False
    have p: "p = Done (fst (rmw_whole W a (jobs ! i) w1))"
      using read(2) whole(1) False by (auto split: sum.splits)
    have w2: "files w2 = files w'"
      using whole(2) lin(2) read(1) False f(2) by (auto split: sum.splits simp: fun_upd_idem)
    have "linear W a jobs w0 (ph[i := p]) (order @ [i]) w2"
      unfolding p by (rule linear_finish [OF lin(1) i(1) len]) (simp_all add: i(2) whole(1))
    then show ?thesis
      using inv known w2 i(1) len
      unfolding serialised_def read(1) p by (auto simp: nth_list_update split: if_splits)
  qed
qed

lemma serialised_commit:
  assumes inv: "serialised W a jobs files w0 ph w" and srv: "serves W (client a) files" and i: "i < length jobs" "ph ! i = Holds rel u"
    and run: "rmw_write W a rel u w = (p, w')"
  shows "serialised W a jobs files w0 (ph[i := p]) w'"
proof -
  have len: "length ph = length jobs" and known: "\<forall>j \<in> set jobs. known_file a (files w) j" using inv by (simp_all add: serialised_def)
  obtain order w1 where lin: "linear W a jobs w0 ph order w1" "files w1 = files w" using inv by (auto simp: serialised_def)
  obtain b where b: "under_base a (job_path (jobs ! i)) = Inr rel" "files w rel = Some b" "job_modify (jobs ! i) b = Inr u"
    using inv i unfolding serialised_def by blast
  have "known_file a (files w) (jobs ! i)" using known i(1) by simp
  then have small: "length b \<le> maxBody" "length u \<le> maxBody" using b by (auto simp: known_file_def)
  have w': "p = Done (Inr ())" "files w' = (files w)(rel \<mapsto> u)" using write_serves [OF srv, of rel u w] run by auto
  obtain w2 where whole: "rmw_whole W a (jobs ! i) w1 = (Inr (), w2)" "files w2 = (files w)(rel \<mapsto> u)"
    using whole_serves [OF srv b(1) _ small(1), of w1] b(2,3) lin(2) by auto
  have "linear W a jobs w0 (ph[i := p]) (order @ [i]) w2"
    unfolding w'(1) by (rule linear_finish [OF lin(1) i(1) len _ whole(1)]) (simp add: i(2))
  moreover have "\<forall>j \<in> set jobs. known_file a (files w') j" using known small(2) by (simp add: w'(2) known_file_upd)
  moreover have "\<And>k r v. k < length jobs \<Longrightarrow> k \<noteq> i \<Longrightarrow> ph ! k = Holds r v \<Longrightarrow> r \<noteq> rel"
    using inv i unfolding serialised_def by metis
  ultimately show ?thesis
    using inv i(1) len whole(2) unfolding serialised_def w'
    by (intro conjI) (auto simp: nth_list_update split: if_splits)
qed

lemma serialised_run:
  assumes "serves W (client a) files" and "\<forall>j \<in> set jobs. known_file a (files w0) j"
    and "rmw_run W a jobs (one_at_a_time a jobs) w0 ph w"
  shows "serialised W a jobs files w0 ph w"
  using assms(3)
proof (induction rule: rmw_run.induct)
  case start
  show ?case by (rule serialised_start [of jobs a files, OF assms(2)])
next
  case (read ph w i p w')
  then show ?case by (intro serialised_read [OF _ assms(1)])
next
  case (commit ph w i rel u p w')
  then show ?case by (intro serialised_commit [OF _ assms(1)])
qed

section \<open>Lost updates\<close>

text \<open>Two jobs of one file whose halves alternate: the second write replaces the first.\<close>

lemma overlap_run:
  assumes srv: "serves W (client a) files" and small: "length b \<le> maxBody" and f: "files w0 rel = Some b"
    and path: "under_base a (job_path i) = Inr rel" "under_base a (job_path j) = Inr rel"
    and upd: "job_modify i b = Inr u" "u \<noteq> b" "job_modify j b = Inr v" "v \<noteq> b"
  shows "\<exists>w. rmw_run W a [i, j] (\<lambda>_ _. True) w0 [Done (Inr ()), Done (Inr ())] w \<and> files w = (files w0)(rel \<mapsto> v)"
proof -
  let ?run = "rmw_run W a [i, j] (\<lambda>_ _. True) w0"
  obtain p1 w1 where r1: "rmw_read W a i w0 = (p1, w1)" by (meson surj_pair)
  have p1: "p1 = Holds rel u" "files w1 = files w0" using read_serves [OF srv path(1) f small r1] upd by simp_all
  obtain p2 w2 where r2: "rmw_read W a j w1 = (p2, w2)" by (meson surj_pair)
  have p2: "p2 = Holds rel v" "files w2 = files w0"
    using read_serves [OF srv path(2) _ small r2] f p1(2) upd by simp_all
  obtain w3 where c1: "rmw_write W a rel u w2 = (Done (Inr ()), w3)" "files w3 = (files w2)(rel \<mapsto> u)" using write_serves [OF srv] by blast
  obtain w4 where c2: "rmw_write W a rel v w3 = (Done (Inr ()), w4)" "files w4 = (files w3)(rel \<mapsto> v)" using write_serves [OF srv] by blast
  have "?run [Ready, Ready] w0" using rmw_run.start [of W a "[i, j]"] by simp
  from rmw_run.read [OF this, of 0] have "?run [Holds rel u, Ready] w1" using r1 p1 by simp
  from rmw_run.read [OF this, of 1] have "?run [Holds rel u, Holds rel v] w2" using r2 p2 by simp
  from rmw_run.commit [OF this, of 0] have "?run [Done (Inr ()), Holds rel v] w3" using c1 by simp
  from rmw_run.commit [OF this, of 1] have "?run [Done (Inr ()), Done (Inr ())] w4" using c2 by simp
  then show ?thesis using c2(2) c1(2) p2(2) by auto
qed

text \<open>The two serial orders of the same jobs.\<close>

lemma serial_pair:
  assumes srv: "serves W (client a) files" and f: "files w0 rel = Some b" "length b \<le> maxBody"
    and path: "under_base a (job_path i) = Inr rel" "under_base a (job_path j) = Inr rel"
    and upd: "job_modify i b = Inr u" "length u \<le> maxBody" "job_modify j u = Inr v"
  shows "\<exists>w. serial W a [i, j] [0, 1] w0 = ([Inr (), Inr ()], w) \<and> files w rel = Some v"
    "\<exists>w. serial W a [j, i] [1, 0] w0 = ([Inr (), Inr ()], w) \<and> files w rel = Some v"
proof -
  obtain w1 where w1: "rmw_whole W a i w0 = (Inr (), w1)" "files w1 = (files w0)(rel \<mapsto> u)"
    using whole_serves [OF srv path(1) f] upd(1) by auto
  obtain w2 where w2: "rmw_whole W a j w1 = (Inr (), w2)" "files w2 = (files w1)(rel \<mapsto> v)"
    using whole_serves [OF srv path(2) _ upd(2), of w1] w1(2) upd(3) by auto
  show "\<exists>w. serial W a [i, j] [0, 1] w0 = ([Inr (), Inr ()], w) \<and> files w rel = Some v"
    "\<exists>w. serial W a [j, i] [1, 0] w0 = ([Inr (), Inr ()], w) \<and> files w rel = Some v"
    using w1 w2 by simp_all
qed

section \<open>Properties\<close>

text \<open>The jobs of the program that meet in one file: a result that is written and the scanner's reset of its counter.\<close>

definition result_job :: "pure_lib \<Rightarrow> 'w resultWriter \<Rightarrow> instant \<Rightarrow> instant \<Rightarrow> Task \<Rightarrow> path \<Rightarrow> rmw_job" where
  "result_job L r now1 now2 req absPath =
     \<lparr>job_path = absPath,
      job_modify = (\<lambda>current. fst (buildResultModifyFn L r now1 now2 req current \<lparr>rec_escalated = None, rec_kept = None\<rparr>)),
      job_message = ''[agent-task-controller] write result for task '' @ TaskIdentifier req\<rparr>"

definition reset_job :: "pure_lib \<Rightarrow> path \<Rightarrow> path \<Rightarrow> rmw_job" where
  "reset_job L absPath relPath =
     \<lparr>job_path = absPath, job_modify = resetCounters L,
      job_message = ''[agent-task-controller] reset counters for '' @ relPath\<rparr>"

lemma rmw_state_fst:
  "(case AtomicReadModifyWriteAndCommitPush W a p f msg s w of (r, _, w) \<Rightarrow> (r, w)) =
     rmw_whole W a \<lparr>job_path = p, job_modify = (\<lambda>b. fst (f b s)), job_message = msg\<rparr> w"
  by (auto simp: rmw_whole_def AtomicReadModifyWriteAndCommitPush_def split: sum.split prod.split)

lemma reset_job_whole:
  "writeCounterReset W L v relPath w =
     (case rmw_whole W (sc_gitClient v) (reset_job L (JoinPath (Path (sc_gitClient v)) relPath) relPath) w of
        (Inl _, w) \<Rightarrow> (([], True), w)
      | (Inr _, w) \<Rightarrow> ((relPath, False), w))"
  by (simp add: writeCounterReset_def rmw_whole_def reset_job_def split: sum.split prod.split)

text \<open>C4: Read-modify-writes of different files, and of one file one at a time, behave as if each were atomic: whatever
  the interleaving of their reads and writes, the calls that have returned gave the results, and the vault holds the
  files, of running \<open>AtomicReadModifyWriteAndCommitPush\<close> for them one after the other in some order. The order of commands
  that the partitioning by task gives is enough for this; no lock is needed.\<close>

theorem interleaved_updates_are_serial:
  assumes "serves W (client a) files" and "\<forall>j \<in> set jobs. known_file a (files w0) j"
    and "rmw_run W a jobs (one_at_a_time a jobs) w0 ph w"
  shows "\<exists>order w1. distinct order \<and> set order = {i. i < length jobs \<and> is_done (ph ! i)} \<and>
     serial W a jobs order w0 = (map (\<lambda>i. result_of (ph ! i)) order, w1) \<and> files w1 = files w"
  using serialised_run [OF assms] unfolding serialised_def linear_def by blast

text \<open>C5: The scanner is not in that order. When its counter reset reads a file before a result is written to it and writes
  after, both calls report success and the file holds the reset of what was there before the result: the result, which
  has been acknowledged, is lost. Neither serial order of the two calls leaves that file.\<close>

theorem overlapping_reset_loses_a_result:
  assumes "serves W (client (rw_git r)) files" and "files w0 rel = Some b" and "length b \<le> maxBody" and "length u \<le> maxBody"
    and "length v \<le> maxBody" and "under_base (rw_git r) absPath = Inr rel"
    and "i = result_job L r now1 now2 req absPath" and "j = reset_job L absPath rel"
    and "job_modify i b = Inr u" and "u \<noteq> b" and "resetCounters L b = Inr v" and "v \<noteq> b"
    and "resetCounters L u = Inr u'" and "u' \<noteq> v" and "job_modify i v = Inr v'" and "v' \<noteq> v"
  shows "\<exists>w. rmw_run W (rw_git r) [i, j] (\<lambda>_ _. True) w0 [Done (Inr ()), Done (Inr ())] w \<and> files w rel = Some v \<and>
     (\<forall>order \<in> {[0, 1], [1, 0]}. files (snd (serial W (rw_git r) [i, j] order w0)) rel \<noteq> Some v)"
proof -
  have path: "under_base (rw_git r) (job_path i) = Inr rel" "under_base (rw_git r) (job_path j) = Inr rel" and j: "job_modify j = resetCounters L"
    using assms(6) by (simp_all add: assms(7,8) result_job_def reset_job_def)
  have "\<exists>w. rmw_run W (rw_git r) [i, j] (\<lambda>_ _. True) w0 [Done (Inr ()), Done (Inr ())] w \<and> files w = (files w0)(rel \<mapsto> v)"
    by (rule overlap_run [OF assms(1,3,2) path assms(9,10)]) (simp_all add: j assms(11,12))
  moreover have "files (snd (serial W (rw_git r) [i, j] [0, 1] w0)) rel = Some u'"
    using serial_pair(1) [OF assms(1-3) path assms(9,4), of u'] by (auto simp: j assms(13))
  moreover have "files (snd (serial W (rw_git r) [i, j] [1, 0] w0)) rel = Some v'"
    using serial_pair(2) [OF assms(1-3) path(2,1) _ assms(5), of v'] by (auto simp: j assms(11,15))
  ultimately show ?thesis using assms(14,16) by auto
qed

section \<open>Reference instances\<close>

text \<open>A job that may start can run to its end.\<close>

lemma job_finishes:
  assumes srv: "serves W (client a) files" and run: "rmw_run W a jobs may w0 ph w" and i: "i < length jobs" "ph ! i = Ready" "may ph i"
    and len: "length ph = length jobs" and known: "known_file a (files w) (jobs ! i)"
  shows "\<exists>r w'. rmw_run W a jobs may w0 (ph[i := Done r]) w'"
proof -
  obtain p w1 where r1: "rmw_read W a (jobs ! i) w = (p, w1)" by (meson surj_pair)
  from rmw_run.read [OF run i this] have one: "rmw_run W a jobs may w0 (ph[i := p]) w1" .
  show ?thesis
  proof (cases p)
    case Ready
    obtain rel b where "under_base a (job_path (jobs ! i)) = Inr rel" "files w rel = Some b" "length b \<le> maxBody"
      using known by (auto simp: known_file_def)
    from read_serves(2) [OF srv this r1] Ready show ?thesis by (simp split: sum.splits if_splits)
  next
    case (Holds rel u)
    obtain w2 where "rmw_write W a rel u w1 = (Done (Inr ()), w2)" using write_serves [OF srv] by blast
    from rmw_run.commit [OF one i(1) _ this] have "rmw_run W a jobs may w0 (ph[i := Done (Inr ())]) w2" using Holds i(1) len by simp
    then show ?thesis by blast
  next
    case (Done r)
    then show ?thesis using one by blast
  qed
qed

definition mark_job :: "path \<Rightarrow> bytes \<Rightarrow> rmw_job" where
  "mark_job p c = \<lparr>job_path = p, job_modify = (\<lambda>b. Inr c), job_message = []\<rparr>"

theorem interleaved_updates_are_serial_witness:
  "\<exists>ph w order w1. rmw_run ref_world (NewGitClient (NewGitRestClient ''h'' [] []) ''/v'') [mark_job ''/v/d/a.md'' ''x'', mark_job ''/v/d/a.md'' ''y'']
       (one_at_a_time (NewGitClient (NewGitRestClient ''h'' [] []) ''/v'') [mark_job ''/v/d/a.md'' ''x'', mark_job ''/v/d/a.md'' ''y''])
       \<lparr>mem_files = [(''d/a.md'', ''o'')], mem_clock = 0, mem_metrics = []\<rparr> ph w \<and>
     list_all is_done ph \<and> distinct order \<and> set order = {0, 1} \<and> map_of (mem_files w1) = map_of (mem_files w) \<and>
     snd (serial ref_world (NewGitClient (NewGitRestClient ''h'' [] []) ''/v'') [mark_job ''/v/d/a.md'' ''x'', mark_job ''/v/d/a.md'' ''y'']
       order \<lparr>mem_files = [(''d/a.md'', ''o'')], mem_clock = 0, mem_metrics = []\<rparr>) = w1"
proof -
  let ?a = "NewGitClient (NewGitRestClient ''h'' [] []) ''/v''"
  let ?jobs = "[mark_job ''/v/d/a.md'' ''x'', mark_job ''/v/d/a.md'' ''y'']"
  let ?m = "\<lparr>mem_files = [(''d/a.md'', ''o'')], mem_clock = 0, mem_metrics = []\<rparr>"
  let ?files = "\<lambda>m. map_of (mem_files m)" and ?may = "one_at_a_time ?a ?jobs"
  have srv: "serves ref_world (client ?a) ?files" by (simp add: NewGitClient_def mem_serves)
  have ub: "under_base ?a ''/v/d/a.md'' = Inr ''d/a.md''" by code_simp
  have known0: "\<forall>j \<in> set ?jobs. known_file ?a (?files ?m) j" by (simp add: known_file_def mark_job_def ub maxBody_def)
  have "rmw_run ref_world ?a ?jobs ?may ?m [Ready, Ready] ?m" using rmw_run.start [of ref_world ?a ?jobs] by simp
  moreover have "?may [Ready, Ready] 0" by (simp add: one_at_a_time_def less_Suc_eq)
  ultimately obtain r w1 where one: "rmw_run ref_world ?a ?jobs ?may ?m [Done r, Ready] w1"
    using job_finishes [OF srv, of ?jobs ?may ?m "[Ready, Ready]" ?m 0] known0 by auto
  have "known_file ?a (?files w1) (?jobs ! 1)" using serialised_run [OF srv known0 one] by (simp add: serialised_def)
  moreover have "?may [Done r, Ready] 1" by (simp add: one_at_a_time_def less_Suc_eq)
  ultimately obtain r' w2 where two: "rmw_run ref_world ?a ?jobs ?may ?m [Done r, Done r'] w2"
    using job_finishes [OF srv one, of 1] by auto
  from interleaved_updates_are_serial [OF srv known0 two] obtain order u where
    u: "distinct order" "set order = {i. i < length ?jobs \<and> is_done ([Done r, Done r'] ! i)}"
       "serial ref_world ?a ?jobs order ?m = (map (\<lambda>i. result_of ([Done r, Done r'] ! i)) order, u)" "?files u = ?files w2" by blast
  have "{i. i < length ?jobs \<and> is_done ([Done r, Done r'] ! i)} = {0, 1}" by (auto simp: less_Suc_eq)
  then show ?thesis using two u by (intro exI [of _ "[Done r, Done r']"] exI [of _ w2] exI [of _ order] exI [of _ u]) simp
qed

text \<open>A task whose counter the scanner resets while the result that completes it is written.\<close>

definition race_fm :: fm where
  "race_fm = fmupd ''status'' (VStr ''in_progress'') (fmupd ''trigger_count'' (VInt 1) (fmupd ''task_identifier'' (VStr ''u'') fmempty))"

definition race_file :: bytes where
  "race_file = render_file (codec_text race_fm @ [nl]) ''b''"

definition race_writer :: "mem resultWriter" where
  "race_writer =
     \<lparr>rw_git = NewGitClient (NewGitRestClient ''h'' [] []) ''/v'', rw_taskDir = ''d'', rw_vaultName = ''v'',
      rw_humans = {||}, notificationSender = None, keptStatePublisher = None\<rparr>"

definition race_job :: rmw_job where
  "race_job = result_job codec_lib race_writer 0 0
     \<lparr>Object = [], TaskIdentifier = ''u'', Frontmatter = fmupd ''status'' (VStr ''completed'') fmempty, Content = ''c''\<rparr> ''/v/d/a.md''"

definition ok_bytes :: "bytes res \<Rightarrow> bytes" where
  "ok_bytes r = (case r of Inr b \<Rightarrow> b | Inl _ \<Rightarrow> [])"

lemma race_writes: "job_modify race_job race_file = Inr (ok_bytes (job_modify race_job race_file))"
  by code_simp

lemma race_new: "ok_bytes (job_modify race_job race_file) \<noteq> race_file"
  by code_simp

lemma race_resets: "resetCounters codec_lib race_file = Inr (ok_bytes (resetCounters codec_lib race_file))"
  by code_simp

lemma race_new_reset: "ok_bytes (resetCounters codec_lib race_file) \<noteq> race_file"
  by code_simp

lemma race_then_reset: "resetCounters codec_lib (ok_bytes (job_modify race_job race_file)) =
     Inr (ok_bytes (resetCounters codec_lib (ok_bytes (job_modify race_job race_file))))"
  by code_simp

lemma race_reset_keeps: "ok_bytes (resetCounters codec_lib (ok_bytes (job_modify race_job race_file))) \<noteq> ok_bytes (resetCounters codec_lib race_file)"
  by code_simp

lemma race_then_writes: "job_modify race_job (ok_bytes (resetCounters codec_lib race_file)) =
     Inr (ok_bytes (job_modify race_job (ok_bytes (resetCounters codec_lib race_file))))"
  by code_simp

lemma race_write_keeps: "ok_bytes (job_modify race_job (ok_bytes (resetCounters codec_lib race_file))) \<noteq> ok_bytes (resetCounters codec_lib race_file)"
  by code_simp

lemma race_lengths:
  "length race_file < 1000" "length (ok_bytes (job_modify race_job race_file)) < 1000"
  "length (ok_bytes (resetCounters codec_lib race_file)) < 1000"
  by (code_simp, code_simp, code_simp)

lemma race_small:
  "length race_file \<le> maxBody" "length (ok_bytes (job_modify race_job race_file)) \<le> maxBody"
  "length (ok_bytes (resetCounters codec_lib race_file)) \<le> maxBody"
  using race_lengths by (simp_all add: maxBody_def)

lemma race_path: "under_base (rw_git race_writer) ''/v/d/a.md'' = Inr ''d/a.md''"
  by code_simp

lemmas race_steps = race_writes race_new race_resets race_new_reset race_then_reset race_reset_keeps race_then_writes race_write_keeps

theorem overlapping_reset_loses_a_result_witness:
  "\<exists>w. rmw_run ref_world (rw_git race_writer) [race_job, reset_job codec_lib ''/v/d/a.md'' ''d/a.md''] (\<lambda>_ _. True)
       \<lparr>mem_files = [(''d/a.md'', race_file)], mem_clock = 0, mem_metrics = []\<rparr> [Done (Inr ()), Done (Inr ())] w \<and>
     map_of (mem_files w) ''d/a.md'' = Some (ok_bytes (resetCounters codec_lib race_file))"
proof -
  let ?m = "\<lparr>mem_files = [(''d/a.md'', race_file)], mem_clock = 0, mem_metrics = []\<rparr>"
  have srv: "serves ref_world (client (rw_git race_writer)) (\<lambda>m. map_of (mem_files m))"
    by (simp add: race_writer_def NewGitClient_def mem_serves)
  have held: "map_of (mem_files ?m) ''d/a.md'' = Some race_file" by simp
  note lost = overlapping_reset_loses_a_result [where W = ref_world and files = "\<lambda>m. map_of (mem_files m)" and r = race_writer and
    ?w0.0 = ?m and rel = "''d/a.md''" and b = race_file and absPath = "''/v/d/a.md''" and i = race_job and
    j = "reset_job codec_lib ''/v/d/a.md'' ''d/a.md''" and L = codec_lib]
  show ?thesis
    using lost [OF srv held race_small race_path race_job_def refl race_steps] by blast
qed

end
