(* ===== verification/LocalScanner.thy ===== *)
theory LocalScanner
  imports ScanDiff
begin

text \<open>
  The scanner over a local directory (\<open>NewVaultScanner\<close> and \<open>newLocalFileOps\<close> of \<open>pkg/scanner/vault_scanner.go\<close>). It shares
  every step with the scanner over git-rest and differs in its three file operations; the file system is a parameter.
\<close>

section \<open>File operations\<close>

record 'w filesystem =
  fs_Glob :: "string \<Rightarrow> 'w \<Rightarrow> path list res \<times> 'w"
  fs_ReadFile :: "path \<Rightarrow> 'w \<Rightarrow> bytes res \<times> 'w"
  fs_WriteFile :: "path \<Rightarrow> bytes \<Rightarrow> 'w \<Rightarrow> unit res \<times> 'w"

definition newLocalFileOps :: "'w filesystem \<Rightarrow> path \<Rightarrow> 'w fileOps" where
  "newLocalFileOps fs base =
     \<lparr>listFiles = (\<lambda>glob w.
        (case fs_Glob fs (JoinPath base glob) w of
           (Inl e, w) \<Rightarrow> (Inl e, w)
         | (Inr matches, w) \<Rightarrow> (Inr (List.map_filter (Rel base) matches), w))),
      readFile = (\<lambda>relPath w. fs_ReadFile fs (JoinPath base relPath) w),
      writeFile = (\<lambda>relPath content w. fs_WriteFile fs (JoinPath base relPath) content w)\<rparr>"

definition NewVaultScanner ::
  "'w filesystem \<Rightarrow> gitClient \<Rightarrow> string \<Rightarrow> bool \<Rightarrow> string \<Rightarrow> 'w vaultScanner \<times> scan_state" where
  "NewVaultScanner fs git taskDir autoInject vaultName =
     (\<lparr>sc_gitClient = git, sc_taskDir = taskDir, sc_ops = newLocalFileOps fs (Path git),
       sc_autoInject = autoInject, sc_vaultName = vaultName\<rparr>,
      \<lparr>hashes = fmempty, scan_index = fmempty\<rparr>)"

section \<open>A local tree\<close>

text \<open>A path below the base that is written without dots or empty segments.\<close>

definition tree_path :: "path \<Rightarrow> bool" where
  "tree_path p \<longleftrightarrow> (\<exists>rs. normal rs \<and> p = Join ''/'' rs \<and> \<not> HasPrefix p ''..'')"

lemma Rel_tree_path:
  assumes "normal bs" and "base = CHR ''/'' # Join ''/'' bs" and "tree_path p"
  shows "Rel base (JoinPath base p) = Some p"
proof -
  obtain rs where rs: "normal rs" "p = Join ''/'' rs" "\<not> HasPrefix p ''..''" using assms(3) by (auto simp: tree_path_def)
  define a where "a = (NewGitClient (NewGitRestClient [] [] []) [])\<lparr>basePath := base\<rparr>"
  have "under_base a (JoinPath (Path a) (Join ''/'' rs)) = Inr (Join ''/'' rs)"
    by (rule under_base_join [OF assms(1) rs(1)]) (use assms(2) rs in \<open>simp_all add: a_def\<close>)
  then show ?thesis using rs(2) by (auto simp: under_base_def a_def Path_def split: option.splits if_splits)
qed

text \<open>The tree holds the files of a vault while nobody writes to it.\<close>

definition still_tree ::
  "'w world \<Rightarrow> 'w scan_lib \<Rightarrow> 'w filesystem \<Rightarrow> path \<Rightarrow> string \<Rightarrow> ('w \<Rightarrow> path \<Rightarrow> bytes option) \<Rightarrow> path list \<Rightarrow> (path \<Rightarrow> bytes) \<Rightarrow> bool" where
  "still_tree W X fs base taskDir files paths F \<longleftrightarrow>
     (\<forall>w. ctx_err W w = None) \<and>
     (\<forall>w. (\<forall>p \<in> set paths. files w p = Some (F p)) \<longrightarrow>
        (\<exists>w'. fs_Glob fs (JoinPath base (taskDir @ ''/*.md'')) w = (Inr (map (JoinPath base) paths), w') \<and> files w' = files w) \<and>
        (\<forall>p \<in> set paths. \<exists>w'. fs_ReadFile fs (JoinPath base p) w = (Inr (F p), w') \<and> files w' = files w)) \<and>
     (\<forall>w. files (snd (clock_now W w)) = files w) \<and> (\<forall>n ls i w. files (set_gauge X n ls i w) = files w) \<and>
     (\<forall>n ls w. files (inc_metric W n ls w) = files w)"

lemma map_filter_map_Some: "(\<And>x. x \<in> set xs \<Longrightarrow> f (g x) = Some x) \<Longrightarrow> List.map_filter f (map g xs) = xs"
  by (induction xs) (simp_all add: map_filter_simps)

text \<open>So the local scanner sees a calm vault, and everything shown of a cycle over one holds for it.\<close>

lemma tree_is_still_vault:
  assumes "still_tree W X fs (Path git) taskDir files paths F" and "normal bs" and "Path git = CHR ''/'' # Join ''/'' bs"
    and "\<forall>p \<in> set paths. tree_path p"
  shows "still_vault W X (fst (NewVaultScanner fs git taskDir autoInject vaultName)) files paths F"
proof -
  have rel: "List.map_filter (Rel (Path git)) (map (JoinPath (Path git)) paths) = paths"
    by (rule map_filter_map_Some) (use assms(4) in \<open>simp add: Rel_tree_path [OF assms(2,3)]\<close>)
  have list: "\<exists>w'. listFiles (newLocalFileOps fs (Path git)) (taskDir @ ''/*.md'') w = (Inr paths, w') \<and> files w' = files w"
    if "\<forall>p \<in> set paths. files w p = Some (F p)" for w
  proof -
    obtain w' where "fs_Glob fs (JoinPath (Path git) (taskDir @ ''/*.md'')) w = (Inr (map (JoinPath (Path git)) paths), w')"
      "files w' = files w" using assms(1) \<open>\<forall>p \<in> set paths. files w p = Some (F p)\<close> unfolding still_tree_def by blast
    then show ?thesis by (simp add: newLocalFileOps_def rel)
  qed
  show ?thesis
    using assms(1) list unfolding still_vault_def still_tree_def
    by (simp add: NewVaultScanner_def) (simp add: newLocalFileOps_def)
qed

lemma after_scan_unique:
  assumes "after_scan L X F M paths h h1" and "after_scan L X F M paths h h2"
  shows "h1 = h2"
  using assms by (intro fmap_ext) (simp add: after_scan_def)

section \<open>Properties\<close>

text \<open>C38: The two scanners are one: over a calm vault of well-formed task files, a cycle of the scanner over a local tree
  and a cycle of the scanner over git-rest with the same bookkeeping report the same changed and deleted tasks and leave
  the same bookkeeping.\<close>

theorem local_scanner_agrees:
  assumes "order_ok X" and "still_tree W X fs (Path git) taskDir files paths F"
    and "still_vault W' X' (fst (NewGitRestVaultScanner W' git' taskDir autoInject' vaultName')) files' paths F"
    and "order_ok X'" and "sha256 X' = sha256 X" and "map_order X' = map_order X"
    and "normal bs" and "Path git = CHR ''/'' # Join ''/'' bs" and "\<forall>p \<in> set paths. tree_path p"
    and "well_formed L Y paths F N" and "consistent L (hashes st) paths N"
    and "\<forall>p \<in> set paths. files w p = Some (F p)" and "\<forall>p \<in> set paths. files' w' p = Some (F p)"
  shows "\<exists>res st1 st2 u u'. RunCycle W L Y X (fst (NewVaultScanner fs git taskDir autoInject vaultName)) st w = (Some res, st1, u) \<and>
     RunCycle W' L Y X' (fst (NewGitRestVaultScanner W' git' taskDir autoInject' vaultName')) st w' = (Some res, st2, u') \<and>
     hashes st1 = hashes st2 \<and> files u = files w \<and> files' u' = files' w'"
proof -
  note tree = tree_is_still_vault [OF assms(2,7-9), of autoInject vaultName]
  obtain st1 u where one: "RunCycle W L Y X (fst (NewVaultScanner fs git taskDir autoInject vaultName)) st w =
      (Some \<lparr>Changed = List.map_filter (reported L Y X (hashes st) F) paths, Deleted = gone_ids X (hashes st) paths\<rparr>, st1, u)"
      "files u = files w" "after_scan L X F N paths (hashes st) (hashes st1)"
    using cycle_calm [OF assms(1) tree assms(10-12)] by blast
  obtain st2 u' where two: "RunCycle W' L Y X' (fst (NewGitRestVaultScanner W' git' taskDir autoInject' vaultName')) st w' =
      (Some \<lparr>Changed = List.map_filter (reported L Y X' (hashes st) F) paths, Deleted = gone_ids X' (hashes st) paths\<rparr>, st2, u')"
      "files' u' = files' w'" "after_scan L X' F N paths (hashes st) (hashes st2)"
    using cycle_calm [OF assms(4,3,10,11,13)] by blast
  have unch: "unchanged X' h p b = unchanged X h p b" for h p b by (simp add: unchanged_def assms(5))
  have rep: "reported L Y X' (hashes st) F = reported L Y X (hashes st) F" by (intro ext) (simp only: reported_def unch)
  have gone: "gone_ids X' (hashes st) paths = gone_ids X (hashes st) paths" by (simp add: gone_ids_def assms(6))
  have "after_scan L X F N paths (hashes st) (hashes st2)"
    using two(3) by (simp add: after_scan_def entry_of_def assms(5) unch)
  then have "hashes st1 = hashes st2" by (rule after_scan_unique [OF one(3)])
  then show ?thesis
    by (intro exI conjI) (rule one(1), rule two(1) [unfolded rep gone], assumption, rule one(2), rule two(2))
qed

section \<open>Reference instance\<close>

text \<open>The files of the reference vault, below the base \<open>/v\<close>.\<close>

definition mem_tree :: "mem filesystem" where
  "mem_tree =
     \<lparr>fs_Glob = (\<lambda>_ m. (Inr (map (\<lambda>(p, _). JoinPath ''/v'' p) (mem_files m)), m)),
      fs_ReadFile = (\<lambda>full m.
        (case find (\<lambda>(p, _). JoinPath ''/v'' p = full) (mem_files m) of
           None \<Rightarrow> (Inl (Errorf ''no such file or directory'' []), m)
         | Some (_, b) \<Rightarrow> (Inr b, m))),
      fs_WriteFile = (\<lambda>full b m.
        (Inr (), m\<lparr>mem_files := map (\<lambda>(p, old). (p, if JoinPath ''/v'' p = full then b else old)) (mem_files m)\<rparr>))\<rparr>"

abbreviation tree_git :: gitClient where
  "tree_git \<equiv> NewGitClient (NewGitRestClient ''h'' [] []) ''/v''"

lemma tree_still: "still_tree ref_world diff_lib mem_tree (Path tree_git) ''d'' diff_files diff_paths diff_F"
proof -
  have seen: "mem_files m = mem_files diff_vault" if "\<forall>p \<in> set diff_paths. diff_files m p = Some (diff_F p)" for m
    using that by (auto simp: diff_files_def split: if_splits)
  have base: "Path tree_git = ''/v''" by code_simp
  have joined: "JoinPath ''/v'' ''d/a.md'' = ''/v/d/a.md''" "JoinPath ''/v'' ''d/b.md'' = ''/v/d/b.md''" by code_simp+
  have list: "fs_Glob mem_tree g m = (Inr (map (JoinPath ''/v'') diff_paths), m)" if "mem_files m = mem_files diff_vault" for g m
    using that by (simp add: mem_tree_def diff_vault_def)
  have read: "fs_ReadFile mem_tree (JoinPath ''/v'' p) m = (Inr (diff_F p), m)"
    if "mem_files m = mem_files diff_vault" "p \<in> set diff_paths" for p m
    using that by (auto simp: mem_tree_def diff_vault_def joined)
  have rest: "ctx_err ref_world m = None" "mem_files (snd (clock_now ref_world m)) = mem_files m"
    "mem_files (set_gauge diff_lib n ls i m) = mem_files m" "mem_files (inc_metric ref_world n ls m) = mem_files m" for n ls i m
    by (simp_all add: mem_world_def scan_lib_of_def)
  have kept: "diff_files m' = diff_files m" if "mem_files m' = mem_files m" for m m'
    using that by (simp add: diff_files_def fun_eq_iff)
  show ?thesis
    unfolding still_tree_def base
    by (intro conjI allI impI ballI)
      (rule rest, use list [OF seen] in blast, use read [OF seen] in blast, rule kept [OF rest(2)], rule kept [OF rest(3)], rule kept [OF rest(4)])
qed

lemma diff_tree_paths: "\<forall>p \<in> set diff_paths. tree_path p"
proof -
  have "normal [''d'', ''a.md'']" "normal [''d'', ''b.md'']" by code_simp+
  moreover have "''d/a.md'' = Join ''/'' [''d'', ''a.md'']" "''d/b.md'' = Join ''/'' [''d'', ''b.md'']"
    "\<not> HasPrefix ''d/a.md'' ''..''" "\<not> HasPrefix ''d/b.md'' ''..''" by code_simp+
  ultimately have "tree_path ''d/a.md''" "tree_path ''d/b.md''" unfolding tree_path_def by blast+
  then show ?thesis by simp
qed

theorem local_scanner_agrees_witness:
  "\<exists>t st1 st2 u u'. RunCycle ref_world codec_lib plain_nodes diff_lib (fst (NewVaultScanner mem_tree tree_git ''d'' True ''vault''))
       \<lparr>hashes = diff_hashes, scan_index = fmempty\<rparr> diff_vault = (Some \<lparr>Changed = [t], Deleted = [''w'']\<rparr>, st1, u) \<and>
     RunCycle ref_world codec_lib plain_nodes diff_lib diff_scanner \<lparr>hashes = diff_hashes, scan_index = fmempty\<rparr> diff_vault =
       (Some \<lparr>Changed = [t], Deleted = [''w'']\<rparr>, st2, u') \<and> hashes st1 = hashes st2"
proof -
  have base: "normal [''v'']" "Path tree_git = CHR ''/'' # Join ''/'' [''v'']" by code_simp+
  let ?st = "\<lparr>hashes = diff_hashes, scan_index = fmempty\<rparr>"
  have cons: "consistent codec_lib (hashes ?st) diff_paths diff_M" using diff_consistent by simp
  obtain res st1 st2 u u' where run:
    "RunCycle ref_world codec_lib plain_nodes diff_lib (fst (NewVaultScanner mem_tree tree_git ''d'' True ''vault'')) ?st diff_vault = (Some res, st1, u)"
    "RunCycle ref_world codec_lib plain_nodes diff_lib diff_scanner ?st diff_vault = (Some res, st2, u')" "hashes st1 = hashes st2"
    using local_scanner_agrees [OF order_ok_scan_lib_of tree_still diff_still order_ok_scan_lib_of refl refl base diff_tree_paths
        diff_well_formed cons diff_present diff_present] by blast
  moreover obtain t where "Changed res = [t]" "Deleted res = [''w'']"
    using cycle_calm(1) [OF order_ok_scan_lib_of diff_still diff_well_formed cons diff_present] run(2) diff_changes by auto
  moreover from this have "res = \<lparr>Changed = [t], Deleted = [''w'']\<rparr>" by (cases res) simp
  ultimately show ?thesis by blast
qed

end
