(* ===== verification/EndToEnd.thy ===== *)
theory EndToEnd
  imports TaskResult SyncLoop
begin

text \<open>
  What the components do together: a result is written by the result writer, found by the next scan cycle as the one
  change of the vault, and published by the sync loop.
\<close>

section \<open>A result that is written\<close>

text \<open>The notification sender, the publisher of kept states and the clock leave the vault alone.\<close>

definition writer_observes :: "'w world \<Rightarrow> 'w resultWriter \<Rightarrow> ('w \<Rightarrow> path \<Rightarrow> bytes option) \<Rightarrow> bool" where
  "writer_observes W r files \<longleftrightarrow>
     (\<forall>w. files (snd (clock_now W w)) = files w) \<and>
     (\<forall>send c w. notificationSender r = Some send \<longrightarrow> files (snd (send c w)) = files w) \<and>
     (\<forall>publish t w. keptStatePublisher r = Some publish \<longrightarrow> files (snd (publish t w)) = files w)"

lemma publishEscalation_observes:
  assumes "writer_observes W r files"
  shows "files (snd (publishEscalation W r e published w)) = files w"
proof -
  have clock: "clock_now W w = (now, w1) \<Longrightarrow> files w1 = files w" for now w1
    using assms unfolding writer_observes_def by (metis snd_conv)
  show ?thesis
  proof (cases "notificationSender r")
    case (Some send)
    have sent: "send c u = (x, v) \<Longrightarrow> files v = files u" for c u x v
      using assms Some unfolding writer_observes_def by (metis snd_conv)
    have "files (snd (send c u)) = files u" for c u using assms Some unfolding writer_observes_def by blast
    then show ?thesis
      by (auto simp: publishEscalation_def Some split: option.split prod.split bool.split dest!: clock sent)
  qed (simp add: publishEscalation_def)
qed

lemma publishKeptState_observes: "writer_observes W r files \<Longrightarrow> files (publishKeptState r t w) = files w"
  by (auto simp: publishKeptState_def writer_observes_def split: option.split)

lemma writeAndPublish_updates:
  assumes srv: "serves W (client (rw_git r)) files" and obs: "writer_observes W r files"
    and f: "under_base (rw_git r) absPath = Inr rel" "files w rel = Some b" "length b \<le> maxBody"
    and img: "fst (buildResultModifyFn L r now1 now2 req b \<lparr>rec_escalated = None, rec_kept = None\<rparr>) = Inr b'"
  shows "\<exists>st' w'. writeAndPublish W L r now1 now2 absPath req matched msg st w = (Inr (), st', w') \<and>
     files w' = (files w)(rel \<mapsto> b')"
proof -
  obtain s where s: "buildResultModifyFn L r now1 now2 req b \<lparr>rec_escalated = None, rec_kept = None\<rparr> = (Inr b', s)"
    using img by (metis prod.collapse)
  obtain w1 where
    w1: "AtomicReadModifyWriteAndCommitPush W (rw_git r) absPath (buildResultModifyFn L r now1 now2 req) msg
       \<lparr>rec_escalated = None, rec_kept = None\<rparr> w = (Inr (), s, w1)" "files w1 = (files w)(rel \<mapsto> b')"
    using serves_rmw [where f = "buildResultModifyFn L r now1 now2 req" and b = b, OF srv f s, of msg] by blast
  have esc: "files w2 = files w1" if "publishEscalation W r e published w1 = (x, w2)" for e published x w2
    using publishEscalation_observes [OF obs, of e published w1] that by simp
  show ?thesis
    using w1 publishKeptState_observes [OF obs]
    by (auto simp: writeAndPublish_def Let_def split: option.split prod.split dest!: esc)
qed

lemma WriteResult_updates:
  assumes srv: "serves W (client (rw_git r)) files" and obs: "writer_observes W r files"
    and idx: "rw_resolver st = Some index" "Resolve index (TaskIdentifier req) = Inr (Some rel)" "rel \<noteq> []"
    and f: "under_base (rw_git r) (JoinPath (Path (rw_git r)) rel) = Inr rel" "files w rel = Some b" "length b \<le> maxBody"
    and disk: "parseTaskFrontmatterAndBody L b = Inr (m, body)" "lib_String L m ''task_identifier'' = Some (TaskIdentifier req)"
    and img: "fst (buildResultModifyFn L r now1 now2 req b \<lparr>rec_escalated = None, rec_kept = None\<rparr>) = Inr b'"
  shows "\<exists>st' w'. WriteResult W L r now1 now2 req st w = (Inr (), st', w') \<and> files w' = (files w)(rel \<mapsto> b')"
proof -
  obtain w1 where w1: "FindTaskFilePath W L (rw_git r) (rw_taskDir r) (TaskIdentifier req) (Some index) w = (Inr (rel, m), Some index, w1)"
     "files w1 = files w"
    using find_indexed [OF srv f(2,3) disk idx(2)] by blast
  have found: "find_attempts W L r (TaskIdentifier req) notFoundAttempts (Some index) w = (Inr rel, Some index, w1)"
    using w1(1) idx(3) by (simp add: notFoundAttempts_def eval_nat_numeral)
  have clock: "files (snd (clock_now W u)) = files u" and metric: "files (inc_metric W n ls u) = files u" for u n ls
    using obs srv unfolding writer_observes_def serves_def by blast+
  let ?w2 = "snd (clock_now W w1)" and ?st = "st\<lparr>rw_resolver := Some index\<rparr>"
  have "files ?w2 rel = Some b" by (simp add: clock w1(2) f(2))
  from writeAndPublish_updates [OF srv obs f(1) this f(3) img, of rel _ ?st]
  obtain st' w3 where "writeAndPublish W L r now1 now2 (JoinPath (Path (rw_git r)) rel) req rel
      (''[agent-task-controller] write result for task '' @ TaskIdentifier req) ?st ?w2 = (Inr (), st', w3)"
      "files w3 = (files ?w2)(rel \<mapsto> b')" by blast
  then show ?thesis
    using found idx(1,3) by (simp add: WriteResult_def Let_def ResultsWrittenTotal_def clock metric w1(2))
qed

section \<open>The change a cycle sees\<close>

text \<open>A vault the bookkeeping has caught up with.\<close>

definition at_rest ::
  "pure_lib \<Rightarrow> yaml_nodes \<Rightarrow> 'w scan_lib \<Rightarrow> (path, fileEntry) fmap \<Rightarrow> path list \<Rightarrow> (path \<Rightarrow> bytes) \<Rightarrow> (path \<Rightarrow> fm) \<Rightarrow> bool" where
  "at_rest L Y X h paths F N \<longleftrightarrow>
     well_formed L Y paths F N \<and> consistent L h paths N \<and> settled X F paths h"

text \<open>One file is replaced by another image of a task that is to be published.\<close>

definition one_change ::
  "pure_lib \<Rightarrow> yaml_nodes \<Rightarrow> 'w scan_lib \<Rightarrow> (path, fileEntry) fmap \<Rightarrow> path list \<Rightarrow> (path \<Rightarrow> bytes) \<Rightarrow> (path \<Rightarrow> fm) \<Rightarrow> path
     \<Rightarrow> bytes \<Rightarrow> fm \<Rightarrow> bool" where
  "one_change L Y X h paths F N rel b' m' \<longleftrightarrow>
     well_formed L Y paths (F(rel := b')) (N(rel := m')) \<and> consistent L h paths (N(rel := m')) \<and>
     sha256 X b' \<noteq> sha256 X (F rel) \<and> lib_Status L m' \<noteq> [] \<and>
     (lib_Assignee L m' \<noteq> [] \<or> last_phase h rel \<noteq> [] \<and> last_phase h rel \<noteq> phaseString L m')"

lemma map_filter_one:
  assumes "distinct xs" and "x \<in> set xs" and "f x = Some y" and "\<And>z. z \<in> set xs \<Longrightarrow> z \<noteq> x \<Longrightarrow> f z = None"
  shows "List.map_filter f xs = [y]"
  using assms
proof (induction xs)
  case (Cons a xs)
  show ?case
  proof (cases "a = x")
    case True
    have "List.map_filter f xs = []"
      using Cons.prems True map_filter_cong [of xs f "\<lambda>_. None"] by (auto simp: map_filter_none)
    then show ?thesis using True Cons.prems by (simp add: map_filter_simps)
  next
    case False
    then show ?thesis using Cons by (auto simp: map_filter_simps)
  qed
qed simp

lemma one_change_reported:
  assumes rest: "at_rest L Y X h paths F N" and change: "one_change L Y X h paths F N rel b' m'" and rel: "rel \<in> set paths"
  shows "\<exists>task. ParseTask L Y b' = Some task \<and> Frontmatter task = m' \<and> TaskIdentifier task = task_id_of m' \<and>
     List.map_filter (reported L Y X h (F(rel := b'))) paths = [task]" "gone_ids X h paths = []"
proof -
  have wf: "well_formed L Y paths (F(rel := b')) (N(rel := m'))" and st: "settled X F paths h"
    using rest change by (simp_all add: at_rest_def one_change_def)
  obtain task where task: "ParseTask L Y b' = Some task" "Frontmatter task = m'" "TaskIdentifier task = task_id_of m'"
    using ParseTask_well_formed [OF wf rel] by auto
  have "\<not> unchanged X h rel b'" using st rel change by (auto simp: unchanged_def settled_def one_change_def)
  then have "reported L Y X h (F(rel := b')) rel = Some task"
    using task change by (auto simp: reported_def one_change_def Let_def)
  moreover have "reported L Y X h (F(rel := b')) q = None" if "q \<in> set paths" "q \<noteq> rel" for q
    using st that by (simp add: reported_def settled_def Let_def split: option.split)
  ultimately have "List.map_filter (reported L Y X h (F(rel := b'))) paths = [task]"
    using wf rel by (intro map_filter_one) (auto simp: well_formed_def)
  with task show "\<exists>task. ParseTask L Y b' = Some task \<and> Frontmatter task = m' \<and> TaskIdentifier task = task_id_of m' \<and>
     List.map_filter (reported L Y X h (F(rel := b'))) paths = [task]" by blast
  show "gone_ids X h paths = []" by (rule settled_diff(2) [OF st])
qed

text \<open>The three steps that carry the change to the broker.\<close>

lemma one_change_published:
  assumes "order_ok (scan_lib.truncate M)"
    and "still_vault W (scan_lib.truncate M) (git_scanner W git taskDir autoInject vaultName) view paths (F(rel := b'))"
    and rest: "at_rest L Y (scan_lib.truncate M) (hashes (ls_scan s)) paths F N"
    and change: "one_change L Y (scan_lib.truncate M) (hashes (ls_scan s)) paths F N rel b' m'" and rel: "rel \<in> set paths"
    and "\<forall>q \<in> set paths. view w q = Some ((F(rel := b')) q)"
    and "sink_accepts W P view" and "0 < lc_pollInterval c" and "ls_results s = None" and "ls_received s = None" and "ls_failed s = None"
    and step: "step = sync_step (recorded_world W) L Y (recorded_metrics M) (recorded_scanner W git taskDir autoInject vaultName) c
                  (recorded_loop W P p)"
  shows "\<exists>x1 x2 s3 w3 task ev. step (s, (w, t)) x1 \<and> step x1 x2 \<and> step x2 (s3, (w3, t @ [ev])) \<and>
     ParseTask L Y b' = Some task \<and> Frontmatter task = m' \<and> TaskIdentifier task = task_id_of m' \<and> stamped_update P p task ev \<and>
     view w3 = view w \<and> ls_results s3 = None \<and> ls_received s3 = None \<and> ls_failed s3 = None"
proof -
  have wf: "well_formed L Y paths (F(rel := b')) (N(rel := m'))" "consistent L (hashes (ls_scan s)) paths (N(rel := m'))"
    using change by (simp_all add: one_change_def)
  obtain task where task: "ParseTask L Y b' = Some task" "Frontmatter task = m'" "TaskIdentifier task = task_id_of m'"
     "List.map_filter (reported L Y (scan_lib.truncate M) (hashes (ls_scan s)) (F(rel := b'))) paths = [task]"
    using one_change_reported(1) [OF rest change rel] by blast
  note gone = one_change_reported(2) [OF rest change rel]
  obtain s1 x1 s2 s3 w3 evs where run: "step (s, (w, t)) (s1, x1)" "step (s1, x1) (s2, x1)" "step (s2, x1) (s3, (w3, t @ evs))"
    "all_events P p \<lparr>Changed = [task], Deleted = []\<rparr> evs" "view w3 = view w" "ls_results s3 = None" "ls_received s3 = None" "ls_failed s3 = None"
    using edit_published [OF assms(1,2) wf assms(6-11) refl step, of t] unfolding task(4) gone by blast
  obtain ev where "evs = [ev]" "stamped_update P p task ev" using run(4) by (auto simp: result_events_def list_all2_Cons1)
  with run task show ?thesis by blast
qed

section \<open>Reference instances\<close>

text \<open>The reference server with a listing in the order of the paths, so that it depends on the files alone.\<close>

definition sorted_world :: "mem world" where
  "sorted_world =
     ref_world\<lparr>http_do := (\<lambda>q m.
        if CHR ''?'' \<in> set (drop (length ''h'') (req_url q))
        then (answer 200 (Join [nl] (sorted_list_of_set (dom (map_of (mem_files m))))), m)
        else mem_http (NewGitRestClient ''h'' [] []) q m)\<rparr>"

definition held_files :: "mem \<Rightarrow> path \<Rightarrow> bytes option" where
  "held_files m = map_of (mem_files m)"

definition only_task :: "mem \<Rightarrow> path \<Rightarrow> bytes option" where
  "only_task m q = (if dom (held_files m) = {''d/a.md''} then held_files m q else None)"

lemma ref_base: "baseURL (NewGitRestClient ''h'' [] []) = ''h''"
  by code_simp

lemma sorted_serves: "serves sorted_world (client diff_git) held_files"
  using fileURL_no_query [of "NewGitRestClient ''h'' [] []"]
  by (auto simp: serves_def sorted_world_def mem_world_def mem_http_def get_request_def post_request_def held_files_def
      NewGitClient_def ref_base answer_def update_conv')

lemma sorted_list:
  assumes "dom (held_files m) = {''d/a.md''}"
  shows "\<exists>m'. ListFiles sorted_world diff_git glob m = (Inr [''d/a.md''], m') \<and> held_files m' = held_files m"
proof -
  have "json_paths sorted_world ''d/a.md'' = Inr [''d/a.md'']" by (simp add: sorted_world_def mem_world_def)
  moreover have "sorted_list_of_set (dom (map_of (mem_files m))) = [''d/a.md'']" using assms by (simp add: held_files_def)
  ultimately show ?thesis
    by (simp add: ListFiles_def List_files_def NewGitClient_def ref_base sorted_world_def mem_world_def answer_def read_body_def
        GitRestCallsTotal_def Let_def held_files_def maxBody_def)
qed

lemma sorted_still:
  assumes "length (F ''d/a.md'') \<le> maxBody"
  shows "still_vault sorted_world diff_lib (git_scanner sorted_world diff_git ''d'' True ''vault'') only_task [''d/a.md''] F"
proof -
  have seen: "dom (held_files m) = {''d/a.md''} \<and> held_files m ''d/a.md'' = Some (F ''d/a.md'')"
    if "\<forall>q \<in> set [''d/a.md'']. only_task m q = Some (F q)" for m
    using that by (auto simp: only_task_def split: if_splits)
  have kept: "only_task m' = only_task m" if "held_files m' = held_files m" for m m'
    by (intro ext) (simp only: only_task_def that)
  have list: "\<exists>m'. listFiles (sc_ops (git_scanner sorted_world diff_git ''d'' True ''vault'')) g m = (Inr [''d/a.md''], m') \<and> only_task m' = only_task m"
    if one: "dom (held_files m) = {''d/a.md''}" for m g
  proof -
    obtain m' where "ListFiles sorted_world diff_git g m = (Inr [''d/a.md''], m')" and m': "held_files m' = held_files m"
      using sorted_list [OF one] by blast
    then show ?thesis using kept [OF m'] by (intro exI [of _ m']) (simp add: NewGitRestVaultScanner_def)
  qed
  have read: "\<exists>m'. readFile (sc_ops (git_scanner sorted_world diff_git ''d'' True ''vault'')) ''d/a.md'' m = (Inr (F ''d/a.md''), m') \<and> only_task m' = only_task m"
    if here: "held_files m ''d/a.md'' = Some (F ''d/a.md'')" for m
  proof -
    obtain m' where "Get sorted_world (client diff_git) ''d/a.md'' m = (Inr (F ''d/a.md''), m')" and m': "held_files m' = held_files m"
      using serves_Get [where files = held_files and b = "F ''d/a.md''" and p = "''d/a.md''", OF sorted_serves here assms] by blast
    then show ?thesis using kept [OF m'] by (intro exI [of _ m']) (simp add: NewGitRestVaultScanner_def ReadFile_def wrap_res_def)
  qed
  have rest: "ctx_err sorted_world m = None" "held_files (snd (clock_now sorted_world m)) = held_files m"
    "held_files (set_gauge diff_lib n ls i m) = held_files m" "held_files (inc_metric sorted_world n ls m) = held_files m" for n ls i m
    by (simp_all add: sorted_world_def mem_world_def scan_lib_of_def held_files_def)
  show ?thesis
    unfolding still_vault_def
  proof (intro conjI allI impI ballI)
    fix m :: mem
    assume now: "\<forall>q \<in> set [''d/a.md'']. only_task m q = Some (F q)"
    show "\<exists>m'. listFiles (sc_ops (git_scanner sorted_world diff_git ''d'' True ''vault''))
        (sc_taskDir (git_scanner sorted_world diff_git ''d'' True ''vault'') @ ''/*.md'') m = (Inr [''d/a.md''], m') \<and> only_task m' = only_task m"
      by (rule list [OF conjunct1 [OF seen [OF now]]])
    fix q assume "q \<in> set [''d/a.md'']"
    then have q: "q = ''d/a.md''" by simp
    show "\<exists>m'. readFile (sc_ops (git_scanner sorted_world diff_git ''d'' True ''vault'')) q m = (Inr (F q), m') \<and> only_task m' = only_task m"
      unfolding q by (rule read [OF conjunct2 [OF seen [OF now]]])
  qed (rule rest(1), rule kept [OF rest(2)], rule kept [OF rest(3)], rule kept [OF rest(4)])
qed

text \<open>One task in planning, and a result that moves it to the review phase.\<close>

definition moved_fm :: fm where
  "moved_fm = fmupd ''target_vault'' (VStr ''vault'') (fmupd ''phase'' (VStr ''ai_review'') (diff_fm (replicate 36 (CHR ''u''))))"

definition moved_file :: bytes where
  "moved_file = codec_file moved_fm ''done''"

definition lone_vault :: mem where
  "lone_vault = \<lparr>mem_files = [(''d/a.md'', diff_F ''d/a.md'')], mem_clock = 0, mem_metrics = []\<rparr>"

definition one_hashes :: "(path, fileEntry) fmap" where
  "one_hashes = fmap_of_list
     [(''d/a.md'', \<lparr>fe_hash = diff_F ''d/a.md'', fe_taskIdentifier = replicate 36 (CHR ''u''), fe_assignee = ''agent'', fe_capped = False,
        fe_phase = ''planning''\<rparr>)]"

definition one_loops :: loop_state where
  "one_loops = (idle_loops one_hashes)
     \<lparr>ls_scan := \<lparr>hashes = one_hashes, scan_index = fmap_of_list [(replicate 36 (CHR ''u''), [''d/a.md''])]\<rparr>\<rparr>"

definition one_writer :: "mem resultWriter" where
  "one_writer =
     \<lparr>rw_git = diff_git, rw_taskDir = ''d'', rw_vaultName = ''vault'', rw_humans = {||}, notificationSender = None, keptStatePublisher = None\<rparr>"

definition one_result :: Task where
  "one_result =
     \<lparr>Object = [], TaskIdentifier = replicate 36 (CHR ''u''), Frontmatter = fmupd ''phase'' (VStr ''ai_review'') fmempty, Content = ''done''\<rparr>"

lemma one_image:
  "fst (buildResultModifyFn codec_lib one_writer 0 0 one_result (diff_F ''d/a.md'') \<lparr>rec_escalated = None, rec_kept = None\<rparr>) = Inr moved_file"
  by code_simp

lemma moved_small: "length moved_file \<le> maxBody"
proof -
  have "length moved_file < 1000" by code_simp
  then show ?thesis by (simp add: maxBody_def)
qed

lemma one_rest: "at_rest codec_lib plain_nodes diff_lib one_hashes [''d/a.md''] diff_F diff_M"
proof -
  have "well_formed codec_lib plain_nodes [''d/a.md''] diff_F diff_M" using diff_well_formed by (simp add: well_formed_def)
  moreover have "consistent codec_lib one_hashes [''d/a.md''] diff_M" "settled diff_lib diff_F [''d/a.md''] one_hashes"
    by (simp_all add: consistent_def settled_def unchanged_def one_hashes_def scan_lib_of_def split: if_splits)
  ultimately show ?thesis by (simp add: at_rest_def)
qed

lemma moved_change: "one_change codec_lib plain_nodes diff_lib one_hashes [''d/a.md''] diff_F diff_M ''d/a.md'' moved_file moved_fm"
proof -
  have able: "codec_able moved_fm" by (simp add: moved_fm_def codec_able_upd diff_able)
  have parse: "parseFrontmatterMap codec_lib plain_nodes moved_file = Some moved_fm"
    using codec_file_read(1,3) [OF able]
    by (simp add: moved_file_def parseFrontmatterMap_def scanner_extractFrontmatter_eq DeduplicateFrontmatter_def plain_nodes_def)
  have tid: "task_id_of moved_fm = replicate 36 (CHR ''u'')"
    by (simp add: task_id_of_def moved_fm_def diff_fm_def string_or_empty_def as_string_def)
  have cold: "\<not> isCappedIdle codec_lib moved_fm"
    by (simp add: isCappedIdle_def codec_lib_def ref_lib_def ref_count_def moved_fm_def diff_fm_def TriggerCapEngaged_def)
  have fields: "lib_Status codec_lib moved_fm \<noteq> []" "lib_Assignee codec_lib moved_fm = ''agent''"
    by (simp_all add: codec_lib_def ref_lib_def moved_fm_def diff_fm_def string_or_empty_def as_string_def)
  have "moved_file \<noteq> diff_F ''d/a.md''" by code_simp
  then show ?thesis
    by (simp add: one_change_def well_formed_def parse tid cold fields isValidUUID_def consistent_def one_hashes_def scan_lib_of_def)
      (simp add: codec_lib_def ref_lib_def)
qed

end
