(* ===== verification/Spec2Isabelle.thy ===== *)
theory Spec2Isabelle
  imports ResultWriter FrontmatterCommands ScannerRepair PlanningRetry CreateTask TaskResult Redrive Metered CommandExpiry
    PrComment Startup Interleaving LocalScanner EndToEnd
begin

text \<open>
  \<^bold>\<open>agent-task-controller: a verification library\<close>

  The controller keeps agent tasks as markdown files with a YAML frontmatter in a git vault. It reads
  and writes the vault through a git-rest server and, for some commands, through a typed task
  API. Several flows meet in the files:

  \<^item> agent results arrive as commands and are merged into their task file
    (\<^verbatim>\<open>pkg/result\<close>, behind \<^verbatim>\<open>pkg/command/task_result_executor.go\<close>);
  \<^item> update, increment and complete commands change the frontmatter of one task
    (\<^verbatim>\<open>pkg/command\<close> over \<^verbatim>\<open>pkg/vaultapi\<close>);
  \<^item> a scanner polls the vault, repairs missing or duplicate task identifiers, detects changed tasks,
    parks tasks whose trigger budget is spent, and publishes an identifier index
    (\<^verbatim>\<open>pkg/scanner\<close>);
  \<^item> create commands make a task file through the API, record it in the index and abort the tasks the
    new one supersedes (\<^verbatim>\<open>pkg/command/task_create_task_executor.go\<close>);
  \<^item> the index is what the result writer uses to find the file of a task;
  \<^item> the scan results pass through a channel to the sync loop, which publishes every changed and deleted task
    (\<^verbatim>\<open>pkg/sync\<close>, \<^verbatim>\<open>pkg/publisher\<close>), and a second sweep re-publishes
    tasks that were never picked up (\<^verbatim>\<open>pkg/redrive\<close>);
  \<^item> a metrics pass publishes the ages and the census of the open tasks, and commands that are too old are dropped
    and counted before they reach an executor (\<^verbatim>\<open>command_expiry_filter.go\<close>,
    \<^verbatim>\<open>command_expiry_observer.go\<close>).

  The rules that make this safe are shared by the flows: which frontmatter fields the controller,
  the operator and the agent own, the trigger and retry budgets, the rule that a task in human
  review is never owned by an agent, and the rule that every write is a read-modify-write of one file.

  \<^bold>\<open>Theories and the code they model\<close>

  \<^descr> \<open>Go_Prelude\<close>, \<open>Go_Float\<close>, \<open>Go_Time\<close>: what the code uses of Go: strings as
    byte lists with the \<^verbatim>\<open>strings\<close> functions, the values of an \<^verbatim>\<open>any\<close>
    frontmatter field as a datatype, Go maps, float conversion of integers (with its rounding above
    \<open>2 ^ 53\<close>), the civil calendar and RFC 3339 text.
  \<^descr> \<open>Frontmatter\<close>: \<^verbatim>\<open>ExtractFrontmatter\<close>, \<^verbatim>\<open>ExtractBody\<close>,
    \<^verbatim>\<open>marshalFileContent\<close> and the parse helpers of
    \<^verbatim>\<open>pkg/result/result_writer.go\<close>, \<^verbatim>\<open>pkg/scanner/frontmatter.go\<close> and
    \<^verbatim>\<open>pkg/command\<close>. A written file is split again where it was joined; the final newline it
    can lose and where the two extractors disagree are theorems.
  \<^descr> \<open>Ownership\<close>: \<^verbatim>\<open>MergeFrontmatter\<close>, guard by guard, with the decisions
    it reports. The value of every guarded field after a merge, completeness and soundness of the
    decisions, exact sums of counters.
  \<^descr> \<open>Body\<close>: \<^verbatim>\<open>splitBody\<close> and \<^verbatim>\<open>mergeBody\<close>; the text
    merge refines a merge of section lists, absorbs replays and keeps foreign sections.
  \<^descr> \<open>Escalation\<close>: the two assignee-clearing chokepoints, \<^verbatim>\<open>applyTriggerCap\<close>,
    \<^verbatim>\<open>applyRetryCap\<close>, \<^verbatim>\<open>applyRetryCounter\<close> and the configured
    human owners.
  \<^descr> \<open>GitRest\<close>: \<^verbatim>\<open>pkg/gitrestclient\<close>: the HTTP client, its retry loop and
    the adapter with \<^verbatim>\<open>AtomicReadModifyWriteAndCommitPush\<close>, here as one run with nothing in
    between; \<open>Interleaving\<close> takes it apart. What the server answers is a parameter; \<open>traced\<close> adds the trace of requests.
  \<^descr> \<open>WorldOrder\<close>: the locale \<open>forward_world\<close> of operations that only extend the trace,
    interpreted on the operations of the git-rest client.
  \<^descr> \<open>Resolver\<close>: \<^verbatim>\<open>FindTaskFilePath\<close> with the scanner's index and the
    fallback walk. Lookups are sound, unique, and never hide a duplicate.
  \<^descr> \<open>ResultWriter\<close>: \<^verbatim>\<open>WriteResult\<close>: lookup with retries, the modify
    closure, escalation notifications (when one is sent, and that none is sent twice in a window), the publish of the kept
    state. The theorems of
    \<open>Ownership\<close>, \<open>Body\<close> and \<open>Escalation\<close> are carried to the file that reaches the vault.
  \<^descr> \<open>Routing\<close>: \<^verbatim>\<open>pkg/routing/routing.go\<close>: which controller acts.
  \<^descr> \<open>VaultApi\<close>: \<^verbatim>\<open>pkg/vaultapi/client.go\<close>, its error vocabulary, and the
    locale \<open>task_api\<close> of what the executors call, interpreted on the HTTP client; \<open>api_store\<close>
    states the documented effect of the service, \<open>mem_api\<close> is a service that has it.
  \<^descr> \<open>FrontmatterCommands\<close>: the update, increment and complete executors.
  \<^descr> \<open>TaskIdentifier\<close>: the textual removal and insertion of an identifier line and the parse
    pipeline for duplicate keys; the line breaks of YAML that the removal does not know.
  \<^descr> \<open>Scanner\<close>, \<open>ScannerRepair\<close>: the scan cycle (\<^verbatim>\<open>RunCycle\<close> and what it
    calls) with its hash table, identifier tracker, sweep and index; the locale \<open>scanner_world\<close>
    carries the invariant through the per-file steps and is interpreted on the traced world.
  \<^descr> \<open>Go_Utf8\<close>, \<open>RefCodec\<close>: the runes of a byte string; a concrete codec that has all the
    properties assumed of the YAML library, on which the witnesses evaluate.
  \<^descr> \<open>PeriodToken\<close>: \<^verbatim>\<open>pkg/command/period_token_ranking.go\<close>: token shapes, ordinals
    and the ranking, against a datatype of calendar periods with its own order.
  \<^descr> \<open>PlanningRetry\<close>: \<^verbatim>\<open>pkg/command/planning_retry.go\<close>: the gate in front of the
    result writer, its two modify closures and the step relation of a task's planning life that
    \<^verbatim>\<open>Handle\<close> refines.
  \<^descr> \<open>Supersede\<close>: the three hooks of the create executor that abort superseded tasks
    (\<^verbatim>\<open>task_create_task_executor.go\<close>, \<^verbatim>\<open>supersede_update_go.go\<close>); the
    locale \<open>supersede_hook\<close> holds what they share and is interpreted on each of them.
  \<^descr> \<open>TaskResult\<close>: \<^verbatim>\<open>pkg/command/task_result_executor.go\<close>: the executor in front of
    the gate and the result writer; what one result command can send, and when it is acknowledged.
  \<^descr> \<open>Metrics\<close>, \<open>Metered\<close>: the counters of \<^verbatim>\<open>pkg/metrics/metrics.go\<close> with
    their labels and initial series; every increment of the running loops is well typed and initialised.
  \<^descr> \<open>MetricsPass\<close>: \<^verbatim>\<open>task_age.go\<close>, \<^verbatim>\<open>open_task_census.go\<close> and
    \<^verbatim>\<open>metrics_pass.go\<close>: the single pass equals the two it replaced, the census is the board.
  \<^descr> \<open>ScanDiff\<close>: the cycle as a difference: what a scan of a well-formed vault reports, against a definition
    that looks only at the recorded hashes and the files.
  \<^descr> \<open>Publisher\<close>, \<open>SyncLoop\<close>: \<^verbatim>\<open>pkg/publisher\<close>, the select loop of the
    scanner and \<^verbatim>\<open>pkg/sync/sync_loop.go\<close> as one step relation over the channel of results and the
    trigger; the locale \<open>event_sink\<close> is the publisher seen through its acknowledged events.
  \<^descr> \<open>Redrive\<close>: \<^verbatim>\<open>pkg/redrive/redrive_sweep.go\<close>: a sweep and runs of sweeps, with the
    backoff as an invariant of the publication log.
  \<^descr> \<open>CommandExpiry\<close>: the expiry filter in front of the executors and the restart loop of the consumer, which
    may run for ever and is therefore a partial function.
  \<^descr> \<open>CommandConsumer\<close>: \<^verbatim>\<open>pkg/factory/command_consumer.go\<close>: one attempt of the consumer; what the seek to the
    start of the window passes over, the filter would have dropped.
  \<^descr> \<open>PrComment\<close>: \<^verbatim>\<open>pkg/prcomment/pr_commenter.go\<close>: the one request that leaves with the
    GitHub token.
  \<^descr> \<open>Startup\<close>: \<^verbatim>\<open>main.go\<close> and \<^verbatim>\<open>pkg/factory/factory.go\<close>: the checks
    of the configuration, the construction of all components on one vault, the run function of the consumer, the HTTP routes.
  \<^descr> \<open>LocalScanner\<close>: the scanner over a local directory (\<^verbatim>\<open>NewVaultScanner\<close>,
    \<^verbatim>\<open>newLocalFileOps\<close>), equivalent to the one over git-rest on a calm vault.
  \<^descr> \<open>Interleaving\<close>: the read and the write of \<^verbatim>\<open>AtomicReadModifyWriteAndCommitPush\<close> as two steps of
    jobs that run at the same time: runs that never overlap on one file are serial, and two that do can lose an update.
  \<^descr> \<open>EndToEnd\<close>: the composition of the result writer, the scan cycle and the sync loop. The theorem over all three
    stands at the end of this theory.
  \<^descr> \<open>CreateTask\<close>: the create executor: checks, title, create with collision handling, index
    record. \<open>title_store\<close> states what the create route promises; \<open>table_api\<close> keeps it.

  \<^bold>\<open>Effects, parameters and hypotheses\<close>

  Stateful code passes its state explicitly. Network effects extend a trace, and the answer to a
  request is a function of the trace so far, so that a theorem holds for every server behaviour
  unless it names one. Errors are values, and every early return is a branch. Code that is not part
  of the repository enters as a parameter, with what is assumed of it as a named predicate; each predicate is shown
  satisfiable by a concrete instance that its witness evaluates.

  \<^item> The accessors of the agent library: \<open>lib_ok\<close>.
  \<^item> The YAML library: \<open>yaml_lines\<close> is the shape of a rendering. \<open>yaml_ok\<close>, which the properties of the writers use, adds
    that a rendered map is read back with the same values. yaml.v3 does this for the maps of task files but not for every
    map: not for one with a NaN and not for one whose rendering ends in a block scalar, whose final newline the extraction
    drops. For a library that carries only the maps of a set, \<open>codec_on\<close> is the same library on that set, and it satisfies
    \<open>yaml_ok\<close> (\<open>yaml_ok_codec_on\<close>).
  \<^item> The node interface of the YAML library: \<open>nodes_ok\<close>, the line of a node goes up at YAML line breaks only.
  \<^item> The UUID source: \<open>fresh_ids\<close>, identifiers are not repeated.
  \<^item> The Kafka library: \<open>seeks_to_window\<close>, the start offset of a duration is the first message stamped within it; which
    messages lie before it is a parameter. \<open>clocks_agree\<close>: no producer's clock is ahead of the broker's.
  \<^item> The JSON codec, the HTTP transport and the clock: \<open>serves\<close>, \<open>ticking\<close> and others in their theories.

  \<^bold>\<open>Loops and bounds\<close>

  The retry loops run on fuel that is the code's own constant, so there is nothing to exhaust: five
  attempts of a write (\<open>post_attempts\<close>), the lookup attempts of the result writer
  (\<open>missing_file_is_acknowledged\<close> proves the loop ends in an acknowledgement), and the attempts of
  the readiness probe. Walks and merges are structural recursions. Integers that can wrap or round
  are kept at their width: counters decoded from YAML pass through \<open>Go_Float\<close>.

  \<^bold>\<open>Not modelled\<close>

  Reading from Kafka, the search for the offset, the dispatch of a command to its executor and the database transaction
  around it belong to the messaging libraries. The sockets of the HTTP server, the registration of gauges and counters and
  their exposition, the shutdown of the process and the log lines are library calls without a decision of the program.
  Tickers are steps that may happen; their timing is not.
\<close>

section \<open>Properties of the whole\<close>

text \<open>C3: A result reaches the broker. The writer finds the task through the index of the scanner, merges the result into its
  file and acknowledges it; in a vault the bookkeeping had caught up with, the next tick of the poll interval, the receive
  and the publish are possible and deliver exactly one event, the update of this task with the merged frontmatter, and the
  loops are idle again.\<close>

theorem result_reaches_the_broker:
  assumes "serves W (client (rw_git r)) files" and "writer_observes W r files"
    and "rw_resolver st = Some (scan_index (ls_scan s))" and "Resolve (scan_index (ls_scan s)) (TaskIdentifier req) = Inr (Some rel)"
    and "rel \<in> set paths" and "rel \<noteq> []" and "under_base (rw_git r) (JoinPath (Path (rw_git r)) rel) = Inr rel"
    and "\<forall>q \<in> set paths. files w q = Some (F q)" and "length (F rel) \<le> maxBody"
    and "parseTaskFrontmatterAndBody L (F rel) = Inr (m, body)" and "lib_String L m ''task_identifier'' = Some (TaskIdentifier req)"
    and "fst (buildResultModifyFn L r now1 now2 req (F rel) \<lparr>rec_escalated = None, rec_kept = None\<rparr>) = Inr b'"
    and "WriteResult W L r now1 now2 req st w = (res, st', w1)" and "\<forall>q \<in> set paths. view w1 q = files w1 q"
    and "order_ok (scan_lib.truncate M)"
    and "still_vault W (scan_lib.truncate M) (git_scanner W (rw_git r) taskDir autoInject vaultName) view paths (F(rel := b'))"
    and "at_rest L Y (scan_lib.truncate M) (hashes (ls_scan s)) paths F N"
    and "one_change L Y (scan_lib.truncate M) (hashes (ls_scan s)) paths F N rel b' m'"
    and "sink_accepts W P view" and "0 < lc_pollInterval c" and "ls_results s = None" and "ls_received s = None" and "ls_failed s = None"
    and "step = sync_step (recorded_world W) L Y (recorded_metrics M) (recorded_scanner W (rw_git r) taskDir autoInject vaultName) c
                  (recorded_loop W P p)"
  shows "res = Inr () \<and> files w1 = (files w)(rel \<mapsto> b') \<and>
     (\<exists>x1 x2 s3 w3 task ev. step (s, (w1, t)) x1 \<and> step x1 x2 \<and> step x2 (s3, (w3, t @ [ev])) \<and>
        ParseTask L Y b' = Some task \<and> Frontmatter task = m' \<and> TaskIdentifier task = task_id_of m' \<and> stamped_update P p task ev \<and>
        ls_results s3 = None \<and> ls_received s3 = None \<and> ls_failed s3 = None)"
proof -
  have held: "files w rel = Some (F rel)" using assms(5,8) by blast
  have written: "res = Inr ()" "files w1 = (files w)(rel \<mapsto> b')"
    using WriteResult_updates [OF assms(1-4) assms(6,7) held assms(9-12)] assms(13) by auto
  then have "\<forall>q \<in> set paths. view w1 q = Some ((F(rel := b')) q)" using assms(8,14) by auto
  from one_change_published [OF assms(15-18,5) this assms(19-24), of t] written show ?thesis by blast
qed

theorem result_reaches_the_broker_witness:
  "\<exists>st' w1 x1 x2 s3 w3 ev step. step = sync_step (recorded_world sorted_world) codec_lib plain_nodes (recorded_metrics diff_metrics)
       (recorded_scanner sorted_world diff_git ''d'' True ''vault'') polled (recorded_loop sorted_world ref_broker (NewTaskPublisher ''schema'' ''v'')) \<and>
     WriteResult sorted_world codec_lib one_writer 0 0 one_result
       \<lparr>rw_resolver = Some (scan_index (ls_scan one_loops)), escalationPublishedAt = fmempty\<rparr> lone_vault = (Inr (), st', w1) \<and>
     step (one_loops, (w1, [])) x1 \<and> step x1 x2 \<and> step x2 (s3, (w3, [ev])) \<and> event_id ev = replicate 36 (CHR ''u'')"
proof -
  let ?p = "NewTaskPublisher ''schema'' ''v''" and ?s = one_loops
  let ?step = "sync_step (recorded_world sorted_world) codec_lib plain_nodes (recorded_metrics diff_metrics)
       (recorded_scanner sorted_world diff_git ''d'' True ''vault'') polled (recorded_loop sorted_world ref_broker ?p)"
  let ?st = "\<lparr>rw_resolver = Some (scan_index (ls_scan one_loops)), escalationPublishedAt = fmempty\<rparr>"
  obtain res st' w1 where run: "WriteResult sorted_world codec_lib one_writer 0 0 one_result ?st lone_vault = (res, st', w1)" by (metis prod_cases3)
  have git: "rw_git one_writer = diff_git" by (simp add: one_writer_def)
  have srv: "serves sorted_world (client (rw_git one_writer)) held_files" using sorted_serves by (simp add: git)
  have obs: "writer_observes sorted_world one_writer held_files"
    by (simp add: writer_observes_def one_writer_def sorted_world_def mem_world_def held_files_def)
  have idx: "rw_resolver ?st = Some (scan_index (ls_scan ?s))" by simp
  have res: "Resolve (scan_index (ls_scan ?s)) (TaskIdentifier one_result) = Inr (Some ''d/a.md'')" by code_simp
  have ub: "under_base (rw_git one_writer) (JoinPath (Path (rw_git one_writer)) ''d/a.md'') = Inr ''d/a.md''" by code_simp
  have held: "\<forall>q \<in> set [''d/a.md'']. held_files lone_vault q = Some (diff_F q)" by (simp add: held_files_def lone_vault_def)
  have small: "length (diff_F ''d/a.md'') \<le> maxBody" by (rule diff_small) simp
  have parse: "parseTaskFrontmatterAndBody codec_lib (diff_F ''d/a.md'') = Inr (diff_M ''d/a.md'', [])"
    unfolding diff_F_def diff_M_def by (rule codec_file_read(4) [OF diff_able])
  have tid: "lib_String codec_lib (diff_M ''d/a.md'') ''task_identifier'' = Some (TaskIdentifier one_result)"
    by (simp add: codec_lib_def ref_lib_def diff_M_def diff_fm_def as_string_def one_result_def)
  have "held_files lone_vault ''d/a.md'' = Some (diff_F ''d/a.md'')" using held by simp
  from WriteResult_updates [OF srv obs idx res _ ub this small parse tid one_image]
  have "held_files w1 = (held_files lone_vault)(''d/a.md'' \<mapsto> moved_file)" using run by auto
  moreover have "dom (held_files lone_vault) = {''d/a.md''}" by (simp add: held_files_def lone_vault_def)
  ultimately have view: "\<forall>q \<in> set [''d/a.md'']. only_task w1 q = held_files w1 q" by (simp add: only_task_def)
  have sink: "sink_accepts sorted_world ref_broker only_task"
    by (simp add: sink_accepts_def broker_accepts_def ref_broker_def sorted_world_def mem_world_def only_task_def held_files_def fun_eq_iff)
  have still: "still_vault sorted_world (scan_lib.truncate diff_metrics) (git_scanner sorted_world (rw_git one_writer) ''d'' True ''vault'')
      only_task [''d/a.md''] (diff_F(''d/a.md'' := moved_file))"
    unfolding diff_metrics_lib git by (rule sorted_still) (simp add: moved_small)
  have ord: "order_ok (scan_lib.truncate diff_metrics)" unfolding diff_metrics_lib by (rule order_ok_scan_lib_of)
  have rest: "at_rest codec_lib plain_nodes (scan_lib.truncate diff_metrics) (hashes (ls_scan ?s)) [''d/a.md''] diff_F diff_M"
    and change: "one_change codec_lib plain_nodes (scan_lib.truncate diff_metrics) (hashes (ls_scan ?s)) [''d/a.md''] diff_F diff_M ''d/a.md'' moved_file moved_fm"
    using one_rest moved_change by (simp_all add: diff_metrics_lib one_loops_def)
  have idle: "ls_results ?s = None" "ls_received ?s = None" "ls_failed ?s = None" by (simp_all add: one_loops_def)
  have poll: "0 < lc_pollInterval polled" by (simp add: polled_def)
  have here: "''d/a.md'' \<in> set [''d/a.md'']" "''d/a.md'' \<noteq> []" by simp_all
  obtain x1 x2 s3 w3 task ev where r: "res = Inr ()" "?step (one_loops, (w1, [])) x1" "?step x1 x2" "?step x2 (s3, (w3, [ev]))"
     "TaskIdentifier task = task_id_of moved_fm" "stamped_update ref_broker ?p task ev"
    using result_reaches_the_broker [where files = held_files and view = only_task and F = diff_F and t = "[]",
        OF srv obs idx res here ub held small parse tid one_image run view ord still rest change sink poll idle refl]
    unfolding git append_Nil by blast
  have "event_id ev = replicate 36 (CHR ''u'')"
    using stamped_update_id [OF r(6)] r(5)
    by (simp add: task_id_of_def moved_fm_def diff_fm_def string_or_empty_def as_string_def)
  with run r show ?thesis by blast
qed

end
